(* ===== verification/Prelude.thy ===== *)
theory Prelude
  imports Main "HOL-Library.Word"
begin

text \<open>
  Shared vocabulary of the GreenOS development: the C integer types, the result type of
  kernel functions (normal return, \<open>panic\<close>, or blocked in \<open>sleep\<close>), the constants of
  \<^verbatim>\<open>kernel/param.h\<close>, first-match scans over the kernel's fixed-size tables, and the generic
  lemmas on lists and functions that the component theories use.
\<close>

unbundle bit_operations_syntax

named_theorems kernel_simps \<open>rewriting of the kernel result monad\<close>
named_theorems scan_rules \<open>first-match scans of fixed tables\<close>

section \<open>C integers\<close>

type_synonym byte = "8 word"
type_synonym u16 = "16 word"
type_synonym u32 = "32 word"
type_synonym u64 = "64 word"

text \<open>A C \<^verbatim>\<open>int\<close> is an \<^typ>\<open>int\<close> kept in the 32-bit two's complement range by \<open>i32\<close>
  after every arithmetic operation (the wrap-around of RV64's word instructions).\<close>

definition i32 :: "int \<Rightarrow> int" where
  "i32 x = (x + 2 ^ 31) mod 2 ^ 32 - 2 ^ 31"

text \<open>C division truncates towards zero.\<close>

definition cdiv :: "int \<Rightarrow> int \<Rightarrow> int" where
  "cdiv a b = (if (a < 0) = (b < 0) then \<bar>a\<bar> div \<bar>b\<bar> else - (\<bar>a\<bar> div \<bar>b\<bar>))"

lemma i32_id [simp]: "- (2 ^ 31) \<le> x \<Longrightarrow> x < 2 ^ 31 \<Longrightarrow> i32 x = x"
  by (simp add: i32_def)

lemma i32_range: "- (2 ^ 31) \<le> i32 x \<and> i32 x < 2 ^ 31"
proof -
  have "0 \<le> (x + 2 ^ 31) mod 2 ^ 32" and "(x + 2 ^ 31) mod 2 ^ 32 < (2 ^ 32 :: int)"
    by simp_all
  then show ?thesis unfolding i32_def by simp
qed

lemma cdiv_nonneg [simp]: "0 \<le> a \<Longrightarrow> 0 < b \<Longrightarrow> cdiv a b = a div b"
  by (simp add: cdiv_def)

section \<open>Results of kernel functions\<close>

text \<open>
  Wait channels are the addresses passed to \<^verbatim>\<open>sleep\<close> and \<^verbatim>\<open>wakeup\<close>; each kernel object
  whose address is used as a channel has a constructor. \<open>ChanNull\<close> is the null pointer.
\<close>

datatype chan =
    ChanNull | ChanTicks | ChanProc nat | ChanLog | ChanBufLock nat | ChanInodeLock nat
  | ChanPipeRead nat | ChanPipeWrite nat | ChanCons | ChanTx | ChanDiskFree | ChanBuf nat

text \<open>
  A kernel function returns a value with the new state, panics, or blocks: \<open>Sleep c s\<close>
  says that the caller is asleep on channel \<open>c\<close> with the kernel in state \<open>s\<close>, and takes
  the enclosing loop from its test again when it is woken. \<open>Spin\<close> says that the caller
  spins in \<^verbatim>\<open>acquire\<close> for a lock that is taken, and makes no progress in this state.
\<close>

datatype ('a, 's) res = Ok 'a 's | Panic string | Sleep chan 's | Spin

fun bnd :: "('a, 's) res \<Rightarrow> ('a \<Rightarrow> 's \<Rightarrow> ('b, 's) res) \<Rightarrow> ('b, 's) res" where
  "bnd (Ok x s) f = f x s"
| "bnd (Panic m) f = Panic m"
| "bnd (Sleep c s) f = Sleep c s"
| "bnd Spin f = Spin"

lemma bnd_Ok_iff [kernel_simps]:
  "bnd m f = Ok y t \<longleftrightarrow> (\<exists>x s. m = Ok x s \<and> f x s = Ok y t)"
  by (cases m) auto

lemma bnd_assoc: "bnd (bnd m f) g = bnd m (\<lambda>x s. bnd (f x s) g)"
  by (cases m) auto

text \<open>The loop that runs \<open>f\<close> for each index of a range.\<close>

fun mfor :: "('i \<Rightarrow> 's \<Rightarrow> (unit, 's) res) \<Rightarrow> 'i list \<Rightarrow> 's \<Rightarrow> (unit, 's) res" where
  "mfor f [] s = Ok () s"
| "mfor f (i # is) s = bnd (f i s) (\<lambda>_ s. mfor f is s)"

lemma mfor_append: "mfor f (xs @ ys) s = bnd (mfor f xs s) (\<lambda>_ s. mfor f ys s)"
proof (induction xs arbitrary: s)
  case (Cons x xs)
  then show ?case by (cases "f x s") simp_all
qed simp

text \<open>The rule of a counted loop: \<open>J i\<close> holds before round \<open>i\<close>.\<close>

lemma mfor_upt:
  assumes "J 0 s" and "\<And>i s. i < n \<Longrightarrow> J i s \<Longrightarrow> \<exists>t. f i s = Ok () t \<and> J (Suc i) t"
  shows "\<exists>t. mfor f [0..<n] s = Ok () t \<and> J n t"
proof -
  have "k \<le> n \<Longrightarrow> \<exists>t. mfor f [0..<k] s = Ok () t \<and> J k t" for k
  proof (induction k)
    case (Suc k)
    then obtain t where "mfor f [0..<k] s = Ok () t" "J k t" by auto
    moreover obtain u where "f k t = Ok () u" "J (Suc k) u" using assms(2)[of k t] Suc.prems calculation(2) by auto
    ultimately show ?case by (auto simp: mfor_append)
  qed (use assms(1) in simp)
  then show ?thesis by blast
qed

lemma mfor_keeps:
  "(\<And>i s t. i \<in> set is \<Longrightarrow> f i s = Ok () t \<Longrightarrow> F t = F s) \<Longrightarrow> mfor f is s = Ok () t \<Longrightarrow> F t = F s"
proof (induction "is" arbitrary: s)
  case (Cons i "is")
  then obtain u where "f i s = Ok () u" "mfor f is u = Ok () t" by (auto simp: bnd_Ok_iff)
  moreover then have "F t = F u" by (intro Cons.IH) (use Cons.prems(1) in auto)
  ultimately show ?case using Cons.prems(1)[of i s u] by simp
qed simp

fun res_state :: "'s \<Rightarrow> ('a, 's) res \<Rightarrow> 's" where
  "res_state d (Ok x s) = s"
| "res_state d (Panic m) = d"
| "res_state d (Sleep c s) = s"
| "res_state d Spin = d"

section \<open>Constants of kernel/param.h\<close>

definition NPROC :: nat where "NPROC = 64"
abbreviation (input) NCPU :: nat where "NCPU \<equiv> 8"
abbreviation (input) NOFILE :: nat where "NOFILE \<equiv> 16"
abbreviation (input) NFILE :: nat where "NFILE \<equiv> 100"
abbreviation (input) NINODE :: nat where "NINODE \<equiv> 50"
abbreviation (input) NDEV :: nat where "NDEV \<equiv> 10"
abbreviation (input) ROOTDEV :: nat where "ROOTDEV \<equiv> 1"
abbreviation (input) MAXARG :: nat where "MAXARG \<equiv> 32"
definition MAXOPBLOCKS :: nat where "MAXOPBLOCKS = 10"
definition LOGBLOCKS :: nat where "LOGBLOCKS = MAXOPBLOCKS * 3"
definition NBUF :: nat where "NBUF = MAXOPBLOCKS * 3"
definition FSSIZE :: nat where "FSSIZE = 2000"
abbreviation (input) MAXPATH :: nat where "MAXPATH \<equiv> 128"
abbreviation (input) USERSTACK :: nat where "USERSTACK \<equiv> 1"

lemmas param_defs = NPROC_def MAXOPBLOCKS_def LOGBLOCKS_def NBUF_def FSSIZE_def

section \<open>First-match scans\<close>

text \<open>The loop \<^verbatim>\<open>for(i = 0; i < n; i++) if(P(a[i])) { ...; return i; }\<close> that the kernel uses
  on its process, file, inode and descriptor tables.\<close>

fun scan_index :: "('a \<Rightarrow> bool) \<Rightarrow> 'a list \<Rightarrow> nat option" where
  "scan_index P [] = None"
| "scan_index P (x # xs) = (if P x then Some 0 else map_option Suc (scan_index P xs))"

lemma scan_index_None [scan_rules]: "scan_index P xs = None \<longleftrightarrow> (\<forall>x\<in>set xs. \<not> P x)"
  by (induction xs) auto

lemma scan_index_Some [scan_rules]:
  "scan_index P xs = Some i \<longleftrightarrow> i < length xs \<and> P (xs ! i) \<and> (\<forall>j<i. \<not> P (xs ! j))"
proof (induction xs arbitrary: i)
  case Nil
  then show ?case by simp
next
  case (Cons x xs)
  then show ?case
    by (cases i) (auto simp: less_Suc_eq_0_disj nth_Cons' split: if_splits)
qed

lemma scan_index_less: "scan_index P xs = Some i \<Longrightarrow> i < length xs"
  by (simp add: scan_index_Some)

lemma scan_index_holds: "scan_index P xs = Some i \<Longrightarrow> P (xs ! i)"
  by (simp add: scan_index_Some)

section \<open>Lists\<close>

lemma set_list_update: "i < length xs \<Longrightarrow> set (xs[i := x]) \<subseteq> insert x (set xs)"
  by (rule set_update_subset_insert)

lemma list_update_Ball:
  "(\<forall>x\<in>set xs. P x) \<Longrightarrow> P y \<Longrightarrow> (\<forall>x\<in>set (xs[i := y]). P x)"
  using set_update_subset_insert[of xs i y] by auto


lemma find_SomeD: "find P xs = Some x \<Longrightarrow> x \<in> set xs \<and> P x"
  by (induction xs) (auto split: if_splits)

end
