(* ===== verification/CString.thy ===== *)
theory CString
  imports Prelude
begin

text \<open>
  \<^verbatim>\<open>kernel/string.c\<close> and the string part of \<^verbatim>\<open>user/ulib.c\<close>. Functions that only read take
  a pointer as the byte sequence it points to (\<^typ>\<open>nat \<Rightarrow> byte\<close>, indexed from the pointer);
  functions that write a buffer return it updated; the two \<^verbatim>\<open>memmove\<close>s, whose arguments may
  overlap, work on one memory indexed by address.
\<close>

type_synonym mem = "nat \<Rightarrow> byte"
type_synonym cstr = "nat \<Rightarrow> byte"

definition uc :: "byte \<Rightarrow> int" where
  "uc b = int (unat b)"

definition adv :: "cstr \<Rightarrow> cstr" where
  "adv s = (\<lambda>i. s (Suc i))"

section \<open>kernel/string.c\<close>

fun memset_loop :: "mem \<Rightarrow> nat \<Rightarrow> byte \<Rightarrow> nat \<Rightarrow> nat \<Rightarrow> mem" where
  "memset_loop m dst c i 0 = m"
| "memset_loop m dst c i (Suc k) = memset_loop (m(dst + i := c)) dst c (Suc i) k"

definition memset :: "mem \<Rightarrow> nat \<Rightarrow> int \<Rightarrow> nat \<Rightarrow> mem" where
  "memset m dst c n = memset_loop m dst (word_of_int c) 0 n"

fun memcmp :: "cstr \<Rightarrow> cstr \<Rightarrow> nat \<Rightarrow> int" where
  "memcmp s1 s2 0 = 0"
| "memcmp s1 s2 (Suc n) =
     (if s1 0 \<noteq> s2 0 then uc (s1 0) - uc (s2 0) else memcmp (adv s1) (adv s2) n)"

fun copy_fwd :: "mem \<Rightarrow> nat \<Rightarrow> nat \<Rightarrow> nat \<Rightarrow> mem" where
  "copy_fwd m d s 0 = m"
| "copy_fwd m d s (Suc n) = copy_fwd (m(d := m s)) (Suc d) (Suc s) n"

fun copy_bwd :: "mem \<Rightarrow> nat \<Rightarrow> nat \<Rightarrow> nat \<Rightarrow> mem" where
  "copy_bwd m d s 0 = m"
| "copy_bwd m d s (Suc n) = copy_bwd (m(d - 1 := m (s - 1))) (d - 1) (s - 1) n"

definition memmove :: "mem \<Rightarrow> nat \<Rightarrow> nat \<Rightarrow> nat \<Rightarrow> mem" where
  "memmove m dst src n =
     (if n = 0 then m
      else if src < dst \<and> src + n > dst then copy_bwd m (dst + n) (src + n) n
      else copy_fwd m dst src n)"

definition memcpy :: "mem \<Rightarrow> nat \<Rightarrow> nat \<Rightarrow> nat \<Rightarrow> mem" where
  "memcpy m dst src n = memmove m dst src n"

fun strncmp :: "cstr \<Rightarrow> cstr \<Rightarrow> nat \<Rightarrow> int" where
  "strncmp p q 0 = 0"
| "strncmp p q (Suc n) =
     (if p 0 \<noteq> 0 \<and> p 0 = q 0 then strncmp (adv p) (adv q) n else uc (p 0) - uc (q 0))"

fun zero_fill :: "cstr \<Rightarrow> nat \<Rightarrow> nat \<Rightarrow> cstr" where
  "zero_fill s i 0 = s"
| "zero_fill s i (Suc k) = zero_fill (s(i := 0)) (Suc i) k"

fun strncpy_loop :: "cstr \<Rightarrow> cstr \<Rightarrow> nat \<Rightarrow> nat \<Rightarrow> cstr" where
  "strncpy_loop s t i 0 = s"
| "strncpy_loop s t i (Suc k) =
     (if t i \<noteq> 0 then strncpy_loop (s(i := t i)) t (Suc i) k
      else zero_fill (s(i := t i)) (Suc i) k)"

definition strncpy :: "cstr \<Rightarrow> cstr \<Rightarrow> int \<Rightarrow> cstr" where
  "strncpy s t n = strncpy_loop s t 0 (nat n)"

fun safestrcpy_loop :: "cstr \<Rightarrow> cstr \<Rightarrow> nat \<Rightarrow> nat \<Rightarrow> cstr" where
  "safestrcpy_loop s t i 0 = s(i := 0)"
| "safestrcpy_loop s t i (Suc k) =
     (if t i \<noteq> 0 then safestrcpy_loop (s(i := t i)) t (Suc i) k
      else s(i := t i, Suc i := 0))"

definition safestrcpy :: "cstr \<Rightarrow> cstr \<Rightarrow> int \<Rightarrow> cstr" where
  "safestrcpy s t n = (if n \<le> 0 then s else safestrcpy_loop s t 0 (nat (n - 1)))"

text \<open>\<^verbatim>\<open>strlen\<close> runs on until it meets a NUL; without one it does not return.\<close>

partial_function (option) strlen_from :: "cstr \<Rightarrow> nat \<Rightarrow> nat option" where
  "strlen_from s n = (if s n \<noteq> 0 then strlen_from s (Suc n) else Some n)"

definition strlen :: "cstr \<Rightarrow> nat option" where
  "strlen s = strlen_from s 0"

section \<open>user/ulib.c\<close>

definition memmove_user :: "mem \<Rightarrow> nat \<Rightarrow> nat \<Rightarrow> int \<Rightarrow> mem" where
  "memmove_user m vdst vsrc n =
     (if vsrc > vdst then copy_fwd m vdst vsrc (nat n)
      else copy_bwd m (vdst + nat n) (vsrc + nat n) (nat n))"

partial_function (option) strcpy_from :: "cstr \<Rightarrow> cstr \<Rightarrow> nat \<Rightarrow> cstr option" where
  "strcpy_from s t i =
     (if t i \<noteq> 0 then strcpy_from (s(i := t i)) t (Suc i) else Some (s(i := t i)))"

definition strcpy :: "cstr \<Rightarrow> cstr \<Rightarrow> cstr option" where
  "strcpy s t = strcpy_from s t 0"

partial_function (option) strcmp_from :: "cstr \<Rightarrow> cstr \<Rightarrow> nat \<Rightarrow> int option" where
  "strcmp_from p q i =
     (if p i \<noteq> 0 \<and> p i = q i then strcmp_from p q (Suc i) else Some (uc (p i) - uc (q i)))"

definition strcmp :: "cstr \<Rightarrow> cstr \<Rightarrow> int option" where
  "strcmp p q = strcmp_from p q 0"

text \<open>\<^verbatim>\<open>strchr\<close> returns a pointer into the string (its offset) or the null pointer.\<close>

partial_function (option) strchr_from :: "cstr \<Rightarrow> byte \<Rightarrow> nat \<Rightarrow> nat option option" where
  "strchr_from s c i =
     (if s i = 0 then Some None
      else if s i = c then Some (Some i) else strchr_from s c (Suc i))"

definition strchr :: "cstr \<Rightarrow> byte \<Rightarrow> nat option option" where
  "strchr s c = strchr_from s c 0"

partial_function (option) atoi_from :: "cstr \<Rightarrow> nat \<Rightarrow> int \<Rightarrow> int option" where
  "atoi_from s i n =
     (if 48 \<le> s i \<and> s i \<le> 57 then atoi_from s (Suc i) (i32 (i32 (i32 (n * 10) + uc (s i)) - 48))
      else Some n)"

definition atoi :: "cstr \<Rightarrow> int option" where
  "atoi s = atoi_from s 0 0"

section \<open>Contents of C strings\<close>

text \<open>\<open>holds_str s xs\<close>: the bytes at \<open>s\<close> are the NUL-terminated string \<open>xs\<close>.\<close>

definition holds_str :: "cstr \<Rightarrow> byte list \<Rightarrow> bool" where
  "holds_str s xs \<longleftrightarrow> (\<forall>i<length xs. s i = xs ! i) \<and> 0 \<notin> set xs \<and> s (length xs) = 0"

lemma holds_str_nonzero: "holds_str s xs \<Longrightarrow> i < length xs \<Longrightarrow> s i \<noteq> 0"
  unfolding holds_str_def by (metis nth_mem)

section \<open>memset and memmove\<close>

lemma memset_loop_apply:
  "memset_loop m dst c i k a = (if dst + i \<le> a \<and> a < dst + i + k then c else m a)"
  by (induction k arbitrary: m i) auto

lemma memset_apply:
  "memset m dst c n a = (if dst \<le> a \<and> a < dst + n then word_of_int c else m a)"
  by (simp add: memset_def memset_loop_apply)

text \<open>A forward copy is right when the destination does not start inside the source, a
  backward copy when it does not end inside it.\<close>

lemma copy_fwd_apply:
  "d \<le> s \<or> s + n \<le> d \<Longrightarrow>
   copy_fwd m d s n a = (if d \<le> a \<and> a < d + n then m (s + (a - d)) else m a)"
proof (induction n arbitrary: m d s)
  case 0
  then show ?case by auto
next
  case (Suc n)
  then have IH: "copy_fwd (m(d := m s)) (Suc d) (Suc s) n a =
      (if Suc d \<le> a \<and> a < Suc d + n then (m(d := m s)) (Suc s + (a - Suc d)) else (m(d := m s)) a)"
    by auto
  show ?case
  proof (cases "Suc d \<le> a \<and> a < Suc d + n")
    case True
    then have "Suc s + (a - Suc d) = s + (a - d)" by arith
    moreover have "s + (a - d) \<noteq> d" using Suc.prems True by auto
    ultimately show ?thesis using IH True by simp
  next
    case False
    then show ?thesis using IH by auto
  qed
qed

lemma copy_bwd_apply:
  "s \<le> d \<or> d + n \<le> s \<Longrightarrow>
   copy_bwd m (d + n) (s + n) n a = (if d \<le> a \<and> a < d + n then m (s + (a - d)) else m a)"
proof (induction n arbitrary: m)
  case 0
  then show ?case by auto
next
  case (Suc n)
  then have IH: "copy_bwd (m(d + n := m (s + n))) (d + n) (s + n) n a =
      (if d \<le> a \<and> a < d + n then (m(d + n := m (s + n))) (s + (a - d))
       else (m(d + n := m (s + n))) a)"
    by auto
  show ?case
  proof (cases "d \<le> a \<and> a < d + n")
    case True
    moreover have "s + (a - d) \<noteq> d + n" using Suc.prems True by auto
    ultimately show ?thesis using IH by simp
  next
    case False
    then show ?thesis using IH by auto
  qed
qed

text \<open>
  C33. Both \<^verbatim>\<open>memmove\<close>s (the kernel's, which copies backwards only when the regions overlap
  with the source first, and the user library's, which copies backwards whenever the source is
  not above the destination) compute the simultaneous copy: every destination byte gets the
  source byte as it was before the call, overlapping or not, and nothing else changes. The
  user routine does nothing for a negative length.
\<close>

theorem memmove_correct:
  "memmove m dst src n a = (if dst \<le> a \<and> a < dst + n then m (src + (a - dst)) else m a) \<and>
   memmove_user m dst src (int n) = memmove m dst src n \<and>
   memmove_user m dst src (- int n) = m"
proof -
  have k: "memmove m dst src n b = (if dst \<le> b \<and> b < dst + n then m (src + (b - dst)) else m b)" for b
    by (auto simp: memmove_def copy_fwd_apply copy_bwd_apply)
  moreover have "memmove_user m dst src (int n) b =
      (if dst \<le> b \<and> b < dst + n then m (src + (b - dst)) else m b)" for b
    by (simp add: memmove_user_def copy_fwd_apply copy_bwd_apply)
  ultimately have "memmove_user m dst src (int n) = memmove m dst src n"
    by (auto simp: fun_eq_iff)
  then show ?thesis using k by (simp add: memmove_user_def)
qed

section \<open>Comparison and bounded copies\<close>

lemma uc_eq [simp]: "uc a = uc b \<longleftrightarrow> a = b"
  by (simp add: uc_def word_uint_eq_iff)

lemma strncmp_zero_iff:
  "strncmp p q n = 0 \<longleftrightarrow> (\<forall>i<n. (\<forall>j<i. p j \<noteq> 0) \<longrightarrow> p i = q i)"
proof (induction p q n rule: strncmp.induct)
  case (1 p q)
  then show ?case by simp
next
  case (2 p q n)
  show ?case
  proof (cases "p 0 \<noteq> 0 \<and> p 0 = q 0")
    case True
    then have "strncmp p q (Suc n) = 0 \<longleftrightarrow>
        (\<forall>i<n. (\<forall>j<i. p (Suc j) \<noteq> 0) \<longrightarrow> p (Suc i) = q (Suc i))"
      using 2[OF True] by (auto simp: adv_def)
    then show ?thesis using True by (auto simp: All_less_Suc2)
  next
    case False
    then show ?thesis by (auto simp: All_less_Suc2)
  qed
qed

lemma zero_fill_apply: "zero_fill s i k a = (if i \<le> a \<and> a < i + k then 0 else s a)"
  by (induction k arbitrary: s i) auto

lemma strncpy_loop_outside: "a < i \<or> i + k \<le> a \<Longrightarrow> strncpy_loop s t i k a = s a"
  by (induction k arbitrary: s i) (auto simp: zero_fill_apply)

lemma strncpy_loop_apply:
  "i \<le> a \<Longrightarrow> a < i + k \<Longrightarrow>
   strncpy_loop s t i k a = (if \<exists>j. i \<le> j \<and> j \<le> a \<and> t j = 0 then 0 else t a)"
proof (induction k arbitrary: s i)
  case 0
  then show ?case by simp
next
  case (Suc k)
  show ?case
  proof (cases "t i = 0")
    case True
    then show ?thesis using Suc.prems by (auto simp: zero_fill_apply)
  next
    case nz: False
    show ?thesis
    proof (cases "a = i")
      case True
      then show ?thesis using nz by (auto simp: strncpy_loop_outside)
    next
      case False
      then have "strncpy_loop s t i (Suc k) a = (if \<exists>j. Suc i \<le> j \<and> j \<le> a \<and> t j = 0 then 0 else t a)"
        using Suc nz by simp
      also have "(\<exists>j. Suc i \<le> j \<and> j \<le> a \<and> t j = 0) = (\<exists>j. i \<le> j \<and> j \<le> a \<and> t j = 0)"
        using nz by (metis Suc_leD Suc_leI order_le_less)
      finally show ?thesis .
    qed
  qed
qed

lemma strncpy_apply:
  "strncpy s t (int n) a =
     (if n \<le> a then s a else if \<exists>j\<le>a. t j = 0 then 0 else t a)"
  by (simp add: strncpy_def strncpy_loop_apply strncpy_loop_outside)

lemma safestrcpy_loop_outside: "a < i \<or> i + k < a \<Longrightarrow> safestrcpy_loop s t i k a = s a"
  by (induction k arbitrary: s i) auto

lemma safestrcpy_loop_long:
  "\<forall>j<k. t (i + j) \<noteq> 0 \<Longrightarrow>
   safestrcpy_loop s t i k a = (if i \<le> a \<and> a < i + k then t a else if a = i + k then 0 else s a)"
proof (induction k arbitrary: s i)
  case 0
  then show ?case by auto
next
  case (Suc k)
  have nz: "t i \<noteq> 0" using Suc.prems by force
  have "\<forall>j<k. t (Suc i + j) \<noteq> 0" using Suc.prems by auto
  then show ?case using Suc.IH nz by auto
qed

lemma safestrcpy_loop_short:
  "l < k \<Longrightarrow> \<forall>j<l. t (i + j) \<noteq> 0 \<Longrightarrow> t (i + l) = 0 \<Longrightarrow> i \<le> a \<Longrightarrow> a \<le> i + l \<Longrightarrow>
   safestrcpy_loop s t i k a = t a"
proof (induction k arbitrary: s i l)
  case 0
  then show ?case by simp
next
  case (Suc k)
  show ?case
  proof (cases l)
    case 0
    then show ?thesis using Suc.prems by auto
  next
    case l: (Suc l')
    have nz: "t i \<noteq> 0" using Suc.prems(2) l by force
    have "a = i \<or> Suc i \<le> a" using Suc.prems(4) by auto
    then show ?thesis
    proof
      assume "a = i"
      then show ?thesis using nz by (simp add: safestrcpy_loop_outside)
    next
      assume a: "Suc i \<le> a"
      have "\<forall>j<l'. t (Suc i + j) \<noteq> 0" using Suc.prems(2) l by auto
      then show ?thesis using Suc.IH[of l' "Suc i"] Suc.prems(1,3,5) l nz a by simp
    qed
  qed
qed

text \<open>
  \<^verbatim>\<open>safestrcpy(s, t, n)\<close> with \<open>n > 0\<close> always leaves a NUL-terminated string in the
  buffer: the copied string is \<open>t\<close> itself when it fits in \<open>n - 1\<close> characters and its first
  \<open>n - 1\<close> characters otherwise, and no byte outside the \<open>n\<close> bytes of the buffer changes.
\<close>

lemma safestrcpy_terminates_string:
  assumes "0 < n" and "holds_str t xs"
  shows "holds_str (safestrcpy s t (int n)) (take (n - 1) xs) \<and>
         (\<forall>a\<ge>n. safestrcpy s t (int n) a = s a)"
proof -
  have eq: "safestrcpy s t (int n) = safestrcpy_loop s t 0 (n - 1)"
    using assms(1) by (simp add: safestrcpy_def nat_diff_distrib)
  have out: "\<forall>a\<ge>n. safestrcpy s t (int n) a = s a"
    using assms(1) by (auto simp: eq intro: safestrcpy_loop_outside)
  have nz: "\<And>j. j < length xs \<Longrightarrow> t j \<noteq> 0" and tx: "\<And>j. j < length xs \<Longrightarrow> t j = xs ! j"
    and z: "t (length xs) = 0" and notz: "0 \<notin> set xs"
    using assms(2) holds_str_nonzero by (auto simp: holds_str_def)
  have "holds_str (safestrcpy s t (int n)) (take (n - 1) xs)"
  proof (cases "length xs < n - 1")
    case True
    have "safestrcpy_loop s t 0 (n - 1) a = t a" if "a \<le> length xs" for a
      using safestrcpy_loop_short[of "length xs" "n - 1" t 0 a s] True nz z that by simp
    then show ?thesis using True tx z notz by (simp add: holds_str_def eq)
  next
    case False
    have "safestrcpy_loop s t 0 (n - 1) a = (if a < n - 1 then t a else if a = n - 1 then 0 else s a)" for a
      using safestrcpy_loop_long[of "n - 1" t 0 s a] False nz by simp
    then show ?thesis using False tx notz by (auto simp: holds_str_def eq dest: in_set_takeD)
  qed
  then show ?thesis using out by blast
qed

section \<open>Scanning for the terminator\<close>

lemma strlen_from_holds:
  "(\<forall>j. n \<le> j \<and> j < l \<longrightarrow> s j \<noteq> 0) \<Longrightarrow> s l = 0 \<Longrightarrow> n \<le> l \<Longrightarrow> strlen_from s n = Some l"
proof (induction "l - n" arbitrary: n)
  case 0
  then show ?case by (simp add: strlen_from.simps)
next
  case (Suc d)
  then have "strlen_from s (Suc n) = Some l" by auto
  moreover have "s n \<noteq> 0" using Suc by auto
  ultimately show ?case by (subst strlen_from.simps) simp
qed

lemma strlen_holds: "holds_str s xs \<Longrightarrow> strlen s = Some (length xs)"
  unfolding strlen_def
  by (rule strlen_from_holds) (auto simp: holds_str_nonzero, simp add: holds_str_def)

end
