(* ===== verification/Riscv.thy ===== *)
theory Riscv
  imports Prelude
begin

text \<open>
  The Sv39 paging macros of \<^verbatim>\<open>kernel/riscv.h\<close> and the address-space layout of
  \<^verbatim>\<open>kernel/memlayout.h\<close>, on 64-bit words.
\<close>

section \<open>kernel/riscv.h\<close>

definition PGSIZE :: u64 where "PGSIZE = 4096"
definition PGSHIFT :: nat where "PGSHIFT = 12"

definition PGROUNDUP :: "u64 \<Rightarrow> u64" where
  "PGROUNDUP sz = (sz + PGSIZE - 1) AND NOT (PGSIZE - 1)"

definition PGROUNDDOWN :: "u64 \<Rightarrow> u64" where
  "PGROUNDDOWN a = a AND NOT (PGSIZE - 1)"

definition PTE_V :: u64 where "PTE_V = push_bit 0 1"
definition PTE_R :: u64 where "PTE_R = push_bit 1 1"
definition PTE_W :: u64 where "PTE_W = push_bit 2 1"
definition PTE_X :: u64 where "PTE_X = push_bit 3 1"
definition PTE_U :: u64 where "PTE_U = push_bit 4 1"

definition PA2PTE :: "u64 \<Rightarrow> u64" where
  "PA2PTE pa = push_bit 10 (drop_bit 12 pa)"

definition PTE2PA :: "u64 \<Rightarrow> u64" where
  "PTE2PA pte = push_bit 12 (drop_bit 10 pte)"

definition PTE_FLAGS :: "u64 \<Rightarrow> u64" where
  "PTE_FLAGS pte = pte AND 0x3FF"

definition PXMASK :: u64 where "PXMASK = 0x1FF"

definition PXSHIFT :: "nat \<Rightarrow> nat" where
  "PXSHIFT level = PGSHIFT + 9 * level"

definition PX :: "nat \<Rightarrow> u64 \<Rightarrow> nat" where
  "PX level va = unat (drop_bit (PXSHIFT level) va AND PXMASK)"

definition MAXVA :: u64 where "MAXVA = push_bit (9 + 9 + 9 + 12 - 1) 1"

abbreviation (input) SATP_SV39 :: u64 where "SATP_SV39 \<equiv> push_bit 60 8"

definition MAKE_SATP :: "u64 \<Rightarrow> u64" where
  "MAKE_SATP pagetable = SATP_SV39 OR drop_bit 12 pagetable"

abbreviation (input) SSTATUS_SPP :: u64 where "SSTATUS_SPP \<equiv> push_bit 8 1"
abbreviation (input) SSTATUS_SPIE :: u64 where "SSTATUS_SPIE \<equiv> push_bit 5 1"

section \<open>kernel/memlayout.h\<close>

abbreviation (input) UART0 :: u64 where "UART0 \<equiv> 0x10000000"
abbreviation (input) UART0_IRQ :: int where "UART0_IRQ \<equiv> 10"
abbreviation (input) VIRTIO0 :: u64 where "VIRTIO0 \<equiv> 0x10001000"
abbreviation (input) VIRTIO0_IRQ :: int where "VIRTIO0_IRQ \<equiv> 1"
abbreviation (input) PLIC :: u64 where "PLIC \<equiv> 0x0c000000"
definition KERNBASE :: u64 where "KERNBASE = 0x80000000"
definition PHYSTOP :: u64 where "PHYSTOP = KERNBASE + 128 * 1024 * 1024"
definition TRAMPOLINE :: u64 where "TRAMPOLINE = MAXVA - PGSIZE"
definition KSTACK :: "nat \<Rightarrow> u64" where
  "KSTACK p = TRAMPOLINE - (of_nat p + 1) * 2 * PGSIZE"
abbreviation (input) TRAPFRAME :: u64 where "TRAPFRAME \<equiv> TRAMPOLINE - PGSIZE"

lemmas pte_bit_defs = PTE_V_def PTE_R_def PTE_W_def PTE_X_def PTE_U_def

section \<open>Rounding\<close>

lemma PGROUNDDOWN_mask: "PGROUNDDOWN a = a AND NOT (mask 12)"
  by (simp add: PGROUNDDOWN_def PGSIZE_def mask_eq_exp_minus_1)

lemma word_and_not_mask: "(a :: u64) AND NOT (mask n) = a - take_bit n a"
proof -
  have "(a AND NOT (mask n)) + (a AND mask n) = a"
    by (subst disjunctive_add) (auto simp: bit_simps intro!: bit_word_eqI)
  then show ?thesis by (metis add_diff_cancel_right' take_bit_eq_mask)
qed

lemma unat_PGROUNDDOWN: "unat (PGROUNDDOWN a) = 4096 * (unat a div 4096)"
proof -
  have t: "unat (take_bit 12 a) = unat a mod 4096"
    by (simp only: unsigned_take_bit_eq) (simp add: take_bit_eq_mod)
  have "take_bit 12 a \<le> a"
    by (simp add: word_le_nat_alt t)
  then have "unat (PGROUNDDOWN a) = unat a - unat a mod 4096"
    by (simp add: PGROUNDDOWN_mask word_and_not_mask unat_sub t)
  then show ?thesis by (simp add: minus_mod_eq_mult_div)
qed

lemma PGROUNDUP_down: "PGROUNDUP a = PGROUNDDOWN (a + 4095)"
  by (simp add: PGROUNDUP_def PGROUNDDOWN_def PGSIZE_def add_diff_eq[symmetric])

lemma unat_PGROUNDUP:
  assumes "unat a + 4095 < 2 ^ 64"
  shows "unat (PGROUNDUP a) = 4096 * ((unat a + 4095) div 4096)"
proof -
  have "unat (a + 4095) = unat a + 4095"
    using assms by (subst unat_add_lem[THEN iffD1]) auto
  then show ?thesis by (simp add: PGROUNDUP_down unat_PGROUNDDOWN)
qed

section \<open>Page-table entries\<close>

lemma PTE2PA_PA2PTE:
  assumes "\<And>n. 10 \<le> n \<Longrightarrow> \<not> bit fl n"
  shows "PTE2PA (PA2PTE pa OR fl) = PGROUNDDOWN pa"
proof (rule bit_word_eqI)
  fix n assume "n < LENGTH(64)"
  moreover have "12 \<le> n \<Longrightarrow> \<not> bit fl (10 + (n - 12))" using assms by simp
  ultimately show "bit (PTE2PA (PA2PTE pa OR fl)) n = bit (PGROUNDDOWN pa) n"
    by (auto simp: PTE2PA_def PA2PTE_def PGROUNDDOWN_mask bit_simps)
qed

lemma PTE_FLAGS_PA2PTE:
  assumes "\<And>n. 10 \<le> n \<Longrightarrow> \<not> bit fl n"
  shows "PTE_FLAGS (PA2PTE pa OR fl) = fl"
proof -
  have m: "(0x3FF :: u64) = mask 10" by (simp add: mask_eq_exp_minus_1)
  have fl: "bit fl n \<Longrightarrow> n < 10" for n using assms not_less by blast
  show ?thesis
    by (rule bit_word_eqI) (auto simp: PTE_FLAGS_def PA2PTE_def m bit_simps dest: fl)
qed

lemma PX_div: "PX level va = unat va div 2 ^ (12 + 9 * level) mod 512"
proof -
  have m: "PXMASK = mask 9" by (simp add: PXMASK_def mask_eq_exp_minus_1)
  have "unat va < 2 ^ 64" using unsigned_less[of va] by simp
  then have w: "unat va mod 18446744073709551616 = unat va" by simp
  show ?thesis
    by (simp only: PX_def PXSHIFT_def PGSHIFT_def m take_bit_eq_mask[symmetric]
        unsigned_take_bit_eq unsigned_drop_bit_eq)
       (simp add: take_bit_eq_mod drop_bit_eq_div w)
qed

lemma PX_less [simp]: "PX level va < 512"
  by (simp add: PX_div)

text \<open>Below \<^const>\<open>MAXVA\<close> the three indices determine the page.\<close>

lemma unat_MAXVA: "unat MAXVA = 2 ^ 38"
  by (simp add: MAXVA_def)

lemma PX_inject:
  assumes "va < MAXVA" and "vb < MAXVA"
    and "PX 2 va = PX 2 vb" and "PX 1 va = PX 1 vb" and "PX 0 va = PX 0 vb"
  shows "PGROUNDDOWN va = PGROUNDDOWN vb"
proof -
  let ?a = "unat va div 4096" and ?b = "unat vb div 4096"
  have small: "?a < 2 ^ 26" "?b < 2 ^ 26"
    using assms(1,2) by (simp_all add: word_less_nat_alt unat_MAXVA)
  have "?a mod 512 = ?b mod 512"
    using assms(5) by (simp add: PX_div)
  moreover have "?a div 512 mod 512 = ?b div 512 mod 512"
    using assms(4) by (simp add: PX_div div_mult2_eq[symmetric])
  moreover have "?a div 512 div 512 = ?b div 512 div 512"
  proof -
    have "?a div 512 div 512 mod 512 = ?b div 512 div 512 mod 512"
      using assms(3) by (simp add: PX_div div_mult2_eq[symmetric])
    then show ?thesis using small by simp
  qed
  ultimately have "?a = ?b"
    by (metis div_mult_mod_eq)
  then show ?thesis by (metis unat_PGROUNDDOWN unsigned_word_eqI)
qed

lemma PX_PGROUNDDOWN [simp]: "PX l (PGROUNDDOWN va) = PX l va"
proof -
  have "4096 * (unat va div 4096) div 2 ^ (12 + 9 * l) = unat va div 2 ^ (12 + 9 * l)"
    by (simp add: power_add div_mult2_eq)
  then show ?thesis by (simp add: PX_div unat_PGROUNDDOWN)
qed

end
