(* ===== verification/Spinlock.thy ===== *)
theory Spinlock
  imports Prelude
begin

text \<open>
  \<^verbatim>\<open>kernel/spinlock.c\<close> with the per-CPU state of \<^verbatim>\<open>kernel/proc.h\<close> that it uses: nested
  interrupt disabling (\<^verbatim>\<open>push_off\<close>, \<^verbatim>\<open>pop_off\<close>) and spin locks. The atomic swap of
  \<^verbatim>\<open>acquire\<close> is one step; a swap that finds the lock taken leaves the CPU spinning. The
  second half runs any number of CPUs in any interleaving and proves mutual exclusion.
\<close>

section \<open>Locks and CPUs\<close>

record spinlock =
  lk_locked :: bool
  lk_name :: string
  lk_cpu :: "nat option"

record kcontext =
  ctx_ra :: u64
  ctx_sp :: u64
  ctx_s0 :: u64
  ctx_s1 :: u64
  ctx_s2 :: u64
  ctx_s3 :: u64
  ctx_s4 :: u64
  ctx_s5 :: u64
  ctx_s6 :: u64
  ctx_s7 :: u64
  ctx_s8 :: u64
  ctx_s9 :: u64
  ctx_s10 :: u64
  ctx_s11 :: u64

text \<open>\<^verbatim>\<open>struct cpu\<close>, with the CPU's interrupt-enable bit (\<^verbatim>\<open>sstatus.SIE\<close>) as \<open>c_sie\<close>. The
  process pointer is the index of a slot of the process table.\<close>

record cpu =
  c_proc :: "nat option"
  c_context :: kcontext
  c_noff :: int
  c_intena :: bool
  c_sie :: bool

datatype lockid =
    LkPid | LkWait | LkGovernor | LkTicks | LkKmem | LkBcache | LkLog | LkItable | LkFtable
  | LkCons | LkTx | LkPr | LkVdisk | LkProc nat | LkPipe nat | LkSleep nat

record lockstate =
  cpus :: "nat \<Rightarrow> cpu"
  locks :: "lockid \<Rightarrow> spinlock"

definition intr_get :: "nat \<Rightarrow> 'a lockstate_scheme \<Rightarrow> bool" where
  "intr_get h s = c_sie (cpus s h)"

definition intr_off :: "nat \<Rightarrow> 'a lockstate_scheme \<Rightarrow> 'a lockstate_scheme" where
  "intr_off h s = s\<lparr>cpus := (cpus s)(h := (cpus s h)\<lparr>c_sie := False\<rparr>)\<rparr>"

definition intr_on :: "nat \<Rightarrow> 'a lockstate_scheme \<Rightarrow> 'a lockstate_scheme" where
  "intr_on h s = s\<lparr>cpus := (cpus s)(h := (cpus s h)\<lparr>c_sie := True\<rparr>)\<rparr>"

definition initlock :: "lockid \<Rightarrow> string \<Rightarrow> 'a lockstate_scheme \<Rightarrow> 'a lockstate_scheme" where
  "initlock lk name s =
     s\<lparr>locks := (locks s)(lk := \<lparr>lk_locked = False, lk_name = name, lk_cpu = None\<rparr>)\<rparr>"

definition holding :: "nat \<Rightarrow> lockid \<Rightarrow> 'a lockstate_scheme \<Rightarrow> bool" where
  "holding h lk s \<longleftrightarrow> lk_locked (locks s lk) \<and> lk_cpu (locks s lk) = Some h"

definition push_off :: "nat \<Rightarrow> 'a lockstate_scheme \<Rightarrow> 'a lockstate_scheme" where
  "push_off h s =
     (let old = intr_get h s;
          t = intr_off h s;
          c = cpus t h;
          c1 = (if c_noff c = 0 then c\<lparr>c_intena := old\<rparr> else c)
      in t\<lparr>cpus := (cpus t)(h := c1\<lparr>c_noff := c_noff c1 + 1\<rparr>)\<rparr>)"

definition pop_off :: "nat \<Rightarrow> 'a lockstate_scheme \<Rightarrow> (unit, 'a lockstate_scheme) res" where
  "pop_off h s =
     (if intr_get h s then Panic ''pop_off - interruptible''
      else if c_noff (cpus s h) < 1 then Panic ''pop_off''
      else
        let c = (cpus s h)\<lparr>c_noff := c_noff (cpus s h) - 1\<rparr>;
            t = s\<lparr>cpus := (cpus s)(h := c)\<rparr>
        in Ok () (if c_noff c = 0 \<and> c_intena c then intr_on h t else t))"

text \<open>
  \<^verbatim>\<open>acquire\<close> up to the test-and-set, then the swap itself: \<open>None\<close> means that the swap
  returned 1, so the loop goes round again.
\<close>

definition acquire_enter :: "nat \<Rightarrow> lockid \<Rightarrow> 'a lockstate_scheme \<Rightarrow> (unit, 'a lockstate_scheme) res" where
  "acquire_enter h lk s =
     (let t = push_off h s in if holding h lk t then Panic ''acquire'' else Ok () t)"

definition acquire_swap :: "nat \<Rightarrow> lockid \<Rightarrow> 'a lockstate_scheme \<Rightarrow> 'a lockstate_scheme option" where
  "acquire_swap h lk s =
     (if lk_locked (locks s lk) then None
      else Some (s\<lparr>locks := (locks s)(lk := (locks s lk)\<lparr>lk_locked := True, lk_cpu := Some h\<rparr>)\<rparr>))"

definition release :: "nat \<Rightarrow> lockid \<Rightarrow> 'a lockstate_scheme \<Rightarrow> (unit, 'a lockstate_scheme) res" where
  "release h lk s =
     (if \<not> holding h lk s then Panic ''release''
      else pop_off h
        (s\<lparr>locks := (locks s)(lk := (locks s lk)\<lparr>lk_cpu := None, lk_locked := False\<rparr>)\<rparr>))"

text \<open>A whole \<^verbatim>\<open>acquire\<close>, which spins if it finds the lock taken.\<close>

definition acquire :: "nat \<Rightarrow> lockid \<Rightarrow> 'a lockstate_scheme \<Rightarrow> (unit, 'a lockstate_scheme) res" where
  "acquire h lk s =
     bnd (acquire_enter h lk s)
       (\<lambda>_ t. case acquire_swap h lk t of None \<Rightarrow> Spin | Some u \<Rightarrow> Ok () u)"

text \<open>The states a successful \<^verbatim>\<open>acquire\<close> and \<^verbatim>\<open>release\<close> leave, in closed form.\<close>

definition acq_state :: "nat \<Rightarrow> lockid \<Rightarrow> 'a lockstate_scheme \<Rightarrow> 'a lockstate_scheme" where
  "acq_state h lk s =
     (push_off h s)\<lparr>locks := (locks s)(lk := (locks s lk)\<lparr>lk_locked := True, lk_cpu := Some h\<rparr>)\<rparr>"

definition rel_state :: "nat \<Rightarrow> lockid \<Rightarrow> 'a lockstate_scheme \<Rightarrow> 'a lockstate_scheme" where
  "rel_state h lk s =
     s\<lparr>locks := (locks s)(lk := (locks s lk)\<lparr>lk_cpu := None, lk_locked := False\<rparr>),
       cpus := (cpus s)(h := (cpus s h)\<lparr>c_noff := c_noff (cpus s h) - 1,
                 c_sie := (c_noff (cpus s h) = 1 \<and> c_intena (cpus s h))\<rparr>)\<rparr>"

lemmas spin_defs = intr_get_def intr_off_def intr_on_def initlock_def holding_def push_off_def
  pop_off_def acquire_enter_def acquire_swap_def release_def acquire_def Let_def

section \<open>Many CPUs\<close>

text \<open>
  A CPU runs code, spins in \<^verbatim>\<open>acquire\<close> for a lock, or is dead after a panic. \<open>ws_wait\<close>
  is the lock a CPU spins for.
\<close>

record world = lockstate +
  ws_wait :: "nat \<Rightarrow> lockid option"
  ws_dead :: "nat \<Rightarrow> bool"

inductive lock_step :: "world \<Rightarrow> world \<Rightarrow> bool" where
  enter: "\<not> ws_dead s h \<Longrightarrow> ws_wait s h = None \<Longrightarrow> acquire_enter h lk s = Ok () t \<Longrightarrow>
    lock_step s (t\<lparr>ws_wait := (ws_wait t)(h := Some lk)\<rparr>)"
| enter_panic: "\<not> ws_dead s h \<Longrightarrow> ws_wait s h = None \<Longrightarrow> acquire_enter h lk s = Panic m \<Longrightarrow>
    lock_step s (s\<lparr>ws_dead := (ws_dead s)(h := True)\<rparr>)"
| swap: "\<not> ws_dead s h \<Longrightarrow> ws_wait s h = Some lk \<Longrightarrow> acquire_swap h lk s = Some t \<Longrightarrow>
    lock_step s (t\<lparr>ws_wait := (ws_wait t)(h := None)\<rparr>)"
| release: "\<not> ws_dead s h \<Longrightarrow> ws_wait s h = None \<Longrightarrow> release h lk s = Ok () t \<Longrightarrow> lock_step s t"
| release_panic: "\<not> ws_dead s h \<Longrightarrow> ws_wait s h = None \<Longrightarrow> release h lk s = Panic m \<Longrightarrow>
    lock_step s (s\<lparr>ws_dead := (ws_dead s)(h := True)\<rparr>)"
| interrupts: "\<not> ws_dead s h \<Longrightarrow> ws_wait s h = None \<Longrightarrow> c_noff (cpus s h) = 0 \<Longrightarrow>
    lock_step s (if b then intr_on h s else intr_off h s)"

inductive lock_reachable :: "world \<Rightarrow> world \<Rightarrow> bool" for s0 where
  start: "lock_reachable s0 s0"
| step: "lock_reachable s0 s \<Longrightarrow> lock_step s t \<Longrightarrow> lock_reachable s0 t"

text \<open>The locks CPU \<open>h\<close> holds, and the number of unmatched \<^verbatim>\<open>push_off\<close>s this accounts for.\<close>

definition held :: "'a lockstate_scheme \<Rightarrow> nat \<Rightarrow> lockid set" where
  "held s h = {lk. holding h lk s}"

definition quiet :: "world \<Rightarrow> bool" where
  "quiet s \<longleftrightarrow> (\<forall>lk. \<not> lk_locked (locks s lk)) \<and> (\<forall>h. c_noff (cpus s h) = 0) \<and>
     (\<forall>h. ws_wait s h = None \<and> \<not> ws_dead s h)"

definition lock_inv :: "world \<Rightarrow> bool" where
  "lock_inv s \<longleftrightarrow>
     (\<forall>lk. lk_locked (locks s lk) \<longleftrightarrow> lk_cpu (locks s lk) \<noteq> None) \<and>
     (\<forall>h. finite (held s h) \<and>
          c_noff (cpus s h) = int (card (held s h)) + (if ws_wait s h = None then 0 else 1) \<and>
          (0 < c_noff (cpus s h) \<longrightarrow> \<not> c_sie (cpus s h)) \<and>
          (\<forall>lk. ws_wait s h = Some lk \<longrightarrow> lk \<notin> held s h))"

text \<open>The machine at boot: interrupts on, no lock taken.\<close>

definition boot_cpu :: cpu where
  "boot_cpu = \<lparr>c_proc = None, c_context = \<lparr>ctx_ra = 0, ctx_sp = 0, ctx_s0 = 0, ctx_s1 = 0, ctx_s2 = 0,
     ctx_s3 = 0, ctx_s4 = 0, ctx_s5 = 0, ctx_s6 = 0, ctx_s7 = 0, ctx_s8 = 0, ctx_s9 = 0, ctx_s10 = 0,
     ctx_s11 = 0\<rparr>, c_noff = 0, c_intena = False, c_sie = True\<rparr>"

definition boot_world :: world where
  "boot_world = \<lparr>cpus = (\<lambda>_. boot_cpu),
     locks = (\<lambda>_. \<lparr>lk_locked = False, lk_name = '''', lk_cpu = None\<rparr>),
     ws_wait = (\<lambda>_. None), ws_dead = (\<lambda>_. False)\<rparr>"

section \<open>Nested interrupt disabling\<close>

lemma push_off_frame [simp]:
  "locks (push_off h s) = locks s" "c_sie (cpus (push_off h s) h) = False"
  "c_noff (cpus (push_off h s) h) = c_noff (cpus s h) + 1"
  "h' \<noteq> h \<Longrightarrow> cpus (push_off h s) h' = cpus s h'"
  by (simp_all add: push_off_def intr_off_def Let_def)

lemma push_off_world [simp]:
  "ws_wait (push_off h s) = ws_wait s" "ws_dead (push_off h s) = ws_dead s"
  by (simp_all add: push_off_def intr_off_def Let_def)

lemma holding_push_off [simp]: "holding h' lk (push_off h s) = holding h' lk s"
  by (simp add: holding_def)

lemma held_push_off [simp]: "held (push_off h s) = held s"
  by (simp add: held_def fun_eq_iff)

lemma pop_off_Ok:
  "\<not> c_sie (cpus s h) \<Longrightarrow> 1 \<le> c_noff (cpus s h) \<Longrightarrow>
   \<exists>t. pop_off h s = Ok () t \<and> locks t = locks s \<and> c_noff (cpus t h) = c_noff (cpus s h) - 1 \<and>
       (c_sie (cpus t h) \<longleftrightarrow> c_noff (cpus s h) = 1 \<and> c_intena (cpus s h)) \<and>
       (\<forall>h'. h' \<noteq> h \<longrightarrow> cpus t h' = cpus s h') \<and> lockstate.more t = lockstate.more s"
  by (auto simp: pop_off_def intr_get_def intr_on_def Let_def)

text \<open>Whatever a CPU's nesting depth, a matched \<^verbatim>\<open>push_off\<close>/\<^verbatim>\<open>pop_off\<close> pair gives back
  its depth and its interrupt state, provided interrupts were off whenever it was nested.\<close>

lemma push_pop_restores:
  assumes "0 \<le> c_noff (cpus s h)" and "0 < c_noff (cpus s h) \<Longrightarrow> \<not> c_sie (cpus s h)"
  shows "\<exists>t. pop_off h (push_off h s) = Ok () t \<and> locks t = locks s \<and>
             c_noff (cpus t h) = c_noff (cpus s h) \<and> c_sie (cpus t h) = c_sie (cpus s h)"
proof -
  have "c_noff (cpus s h) = 0 \<Longrightarrow> c_intena (cpus (push_off h s) h) = c_sie (cpus s h)"
    by (simp add: push_off_def intr_off_def intr_get_def Let_def)
  moreover have "\<exists>t. pop_off h (push_off h s) = Ok () t \<and> locks t = locks s \<and>
       c_noff (cpus t h) = c_noff (cpus s h) \<and>
       (c_sie (cpus t h) \<longleftrightarrow> c_noff (cpus s h) = 0 \<and> c_intena (cpus (push_off h s) h))"
    using pop_off_Ok[of "push_off h s" h] assms(1) by auto
  ultimately show ?thesis using assms by fastforce
qed

section \<open>The invariant\<close>

lemma lock_inv_quiet: "quiet s \<Longrightarrow> \<forall>lk. lk_cpu (locks s lk) = None \<Longrightarrow> lock_inv s"
  by (auto simp: quiet_def lock_inv_def held_def holding_def)

lemma lock_inv_noff: "lock_inv s \<Longrightarrow> 0 \<le> c_noff (cpus s h)"
  by (auto simp: lock_inv_def)

lemma lock_inv_enter:
  assumes inv: "lock_inv s" and w: "ws_wait s h = None" and e: "acquire_enter h lk s = Ok () t"
  shows "lock_inv (t\<lparr>ws_wait := (ws_wait t)(h := Some lk)\<rparr>)"
proof -
  from e have t: "t = push_off h s" and nh: "lk \<notin> held s h"
    by (auto simp: acquire_enter_def Let_def held_def split: if_splits)
  have "held (t\<lparr>ws_wait := w'\<rparr>) = held s" for w'
    by (simp add: t held_def holding_def fun_eq_iff)
  moreover have "cpus t h' = (if h' = h then cpus (push_off h s) h else cpus s h')" for h'
    by (simp add: t)
  ultimately show ?thesis using inv w nh
    unfolding lock_inv_def by (auto simp: t)
qed

lemma lock_inv_swap:
  assumes inv: "lock_inv s" and w: "ws_wait s h = Some lk" and e: "acquire_swap h lk s = Some t"
  shows "lock_inv (t\<lparr>ws_wait := (ws_wait t)(h := None)\<rparr>)"
proof -
  let ?u = "t\<lparr>ws_wait := (ws_wait t)(h := None)\<rparr>"
  from e have t: "t = s\<lparr>locks := (locks s)(lk := (locks s lk)\<lparr>lk_locked := True, lk_cpu := Some h\<rparr>)\<rparr>"
    and free: "\<not> lk_locked (locks s lk)"
    by (auto simp: acquire_swap_def split: if_splits)
  have hd: "held ?u h' = (if h' = h then insert lk (held s h) else held s h')" for h'
    using free by (auto simp: t held_def holding_def)
  have "lk \<notin> held s h" using free by (simp add: held_def holding_def)
  then have "int (card (held ?u h)) = int (card (held s h)) + 1"
    using inv hd by (simp add: lock_inv_def)
  then show ?thesis using inv w hd unfolding lock_inv_def by (auto simp: t)
qed

lemma release_Ok:
  assumes inv: "lock_inv s" and h: "holding h lk s"
  shows "\<exists>t. release h lk s = Ok () t \<and>
     locks t = (locks s)(lk := (locks s lk)\<lparr>lk_cpu := None, lk_locked := False\<rparr>) \<and>
     c_noff (cpus t h) = c_noff (cpus s h) - 1 \<and>
     (c_sie (cpus t h) \<longleftrightarrow> c_noff (cpus s h) = 1 \<and> c_intena (cpus s h)) \<and>
     (\<forall>h'. h' \<noteq> h \<longrightarrow> cpus t h' = cpus s h') \<and>
     ws_wait t = ws_wait s \<and> ws_dead t = ws_dead s"
proof -
  have "lk \<in> held s h" using h by (simp add: held_def)
  then have "0 < card (held s h)" using inv by (auto simp: lock_inv_def card_gt_0_iff)
  then have n: "1 \<le> c_noff (cpus s h)" using inv by (auto simp: lock_inv_def)
  then have sie: "\<not> c_sie (cpus s h)" using inv by (auto simp: lock_inv_def)
  let ?s = "s\<lparr>locks := (locks s)(lk := (locks s lk)\<lparr>lk_cpu := None, lk_locked := False\<rparr>)\<rparr>"
  have r: "release h lk s = pop_off h ?s" using h by (simp add: release_def)
  from n sie show ?thesis unfolding r
    by (auto simp: pop_off_def intr_get_def intr_on_def Let_def)
qed

lemma lock_inv_release:
  assumes inv: "lock_inv s" and w: "ws_wait s h = None" and r: "release h lk s = Ok () t"
  shows "lock_inv t"
proof -
  have h: "holding h lk s" using r by (auto simp: release_def split: if_splits)
  from release_Ok[OF inv h] r have t:
     "locks t = (locks s)(lk := (locks s lk)\<lparr>lk_cpu := None, lk_locked := False\<rparr>)"
     "c_noff (cpus t h) = c_noff (cpus s h) - 1"
     "c_sie (cpus t h) \<longleftrightarrow> c_noff (cpus s h) = 1 \<and> c_intena (cpus s h)"
     "\<And>h'. h' \<noteq> h \<Longrightarrow> cpus t h' = cpus s h'" "ws_wait t = ws_wait s"
    by auto
  have mem: "lk \<in> held s h" using h by (simp add: held_def)
  have hd: "held t h' = (if h' = h then held s h - {lk} else held s h')" for h'
    using h by (auto simp: t(1) held_def holding_def)
  have fin: "finite (held s h)" using inv by (simp add: lock_inv_def)
  then have card: "int (card (held t h)) = int (card (held s h)) - 1"
    using mem hd card_gt_0_iff[of "held s h"] by (auto simp: card_Diff_singleton)
  have "c_noff (cpus t h') = int (card (held t h')) + (if ws_wait t h' = None then 0 else 1) \<and>
      finite (held t h') \<and> (0 < c_noff (cpus t h') \<longrightarrow> \<not> c_sie (cpus t h')) \<and>
      (\<forall>l. ws_wait t h' = Some l \<longrightarrow> l \<notin> held t h')" for h'
    using inv w card hd t(2-5) unfolding lock_inv_def by (cases "h' = h") auto
  moreover have "\<forall>l. lk_locked (locks t l) \<longleftrightarrow> lk_cpu (locks t l) \<noteq> None"
    using inv by (auto simp: lock_inv_def t(1))
  ultimately show ?thesis unfolding lock_inv_def by blast
qed

lemma lock_inv_interrupts:
  assumes "lock_inv s" and "c_noff (cpus s h) = 0"
  shows "lock_inv (if b then intr_on h s else intr_off h s)"
proof -
  have "held (intr_on h s) = held s" "held (intr_off h s) = held s"
    by (simp_all add: held_def holding_def intr_on_def intr_off_def fun_eq_iff)
  then show ?thesis using assms by (auto simp: lock_inv_def intr_on_def intr_off_def)
qed

lemma lock_step_inv: "lock_step s t \<Longrightarrow> lock_inv s \<Longrightarrow> lock_inv t"
proof (induction rule: lock_step.induct)
  case (enter_panic s h lk m)
  then show ?case by (auto simp: lock_inv_def held_def holding_def)
next
  case (release_panic s h lk m)
  then show ?case by (auto simp: lock_inv_def held_def holding_def)
qed (blast intro: lock_inv_enter lock_inv_swap lock_inv_release lock_inv_interrupts)+

lemma lock_reachable_inv: "lock_reachable s0 s \<Longrightarrow> lock_inv s0 \<Longrightarrow> lock_inv s"
  by (induction rule: lock_reachable.induct) (auto intro: lock_step_inv)

text \<open>
  C4. Mutual exclusion and interrupt discipline of the spin locks: however the CPUs interleave
  their swaps and releases from a state with no lock taken, no lock is ever held by two CPUs, a
  CPU that holds or spins for a lock runs with interrupts off, its \<^verbatim>\<open>noff\<close> counts exactly the
  locks it holds (plus the one it spins for), and releasing a lock it holds never panics.
\<close>

theorem spinlock_mutual_exclusion:
  assumes "quiet s0" and "\<forall>lk. lk_cpu (locks s0 lk) = None" and "lock_reachable s0 s"
  shows "(holding h lk s \<and> holding h' lk s \<longrightarrow> h = h') \<and>
         c_noff (cpus s h) = int (card (held s h)) + (if ws_wait s h = None then 0 else 1) \<and>
         (holding h lk s \<longrightarrow> \<not> intr_get h s \<and> (\<exists>t. release h lk s = Ok () t))"
proof -
  have inv: "lock_inv s"
    using assms lock_inv_quiet lock_reachable_inv by blast
  have "\<not> c_sie (cpus s h)" if "holding h lk s"
  proof -
    have "0 < card (held s h)" using that inv
      by (auto simp: lock_inv_def card_gt_0_iff held_def)
    then show ?thesis using inv by (auto simp: lock_inv_def split: if_splits)
  qed
  moreover have "\<exists>t. release h lk s = Ok () t" if "holding h lk s"
    using release_Ok[OF inv that] by blast
  ultimately show ?thesis using inv by (auto simp: lock_inv_def holding_def intr_get_def)
qed

theorem spinlock_mutual_exclusion_witness:
  "\<exists>s. lock_reachable boot_world s \<and> holding 1 LkKmem s \<and> \<not> intr_get 1 s"
proof -
  let ?e = "(push_off 1 boot_world)\<lparr>ws_wait := (ws_wait boot_world)(1 := Some LkKmem)\<rparr>"
  have e: "lock_step boot_world ?e"
    using lock_step.enter[of boot_world 1 LkKmem "push_off 1 boot_world"]
    by (simp add: acquire_enter_def Let_def boot_world_def holding_def)
  obtain t where t: "acquire_swap 1 LkKmem ?e = Some t"
    by (simp add: acquire_swap_def boot_world_def)
  let ?t = "t\<lparr>ws_wait := (ws_wait t)(1 := None)\<rparr>"
  have "lock_step ?e ?t"
    using lock_step.swap[OF _ _ t] by (simp add: boot_world_def)
  then have r: "lock_reachable boot_world ?t"
    using e lock_reachable.start lock_reachable.step by blast
  have h: "holding 1 LkKmem ?t"
    using t by (auto simp: acquire_swap_def holding_def split: if_splits)
  have "quiet boot_world" "\<forall>lk. lk_cpu (locks boot_world lk) = None"
    by (simp_all add: quiet_def boot_world_def boot_cpu_def)
  from spinlock_mutual_exclusion[OF this r] h r show ?thesis by blast
qed

section \<open>Sequential use of a lock\<close>

text \<open>What \<^verbatim>\<open>acquire\<close> and \<^verbatim>\<open>release\<close> do to the lock and the CPU, for the functions that
  keep a process lock across a context switch.\<close>

lemma acquire_free:
  "\<not> lk_locked (locks s lk) \<Longrightarrow> acquire h lk s = Ok () (acq_state h lk s)"
  by (simp add: acquire_def acquire_enter_def acquire_swap_def Let_def holding_def acq_state_def)

lemma release_held:
  "holding h lk s \<Longrightarrow> \<not> c_sie (cpus s h) \<Longrightarrow> 1 \<le> c_noff (cpus s h) \<Longrightarrow>
   release h lk s = Ok () (rel_state h lk s)"
proof -
  assume a: "holding h lk s" "\<not> c_sie (cpus s h)" "1 \<le> c_noff (cpus s h)"
  have eq: "(cpus s h)\<lparr>c_noff := x, c_sie := False\<rparr> = (cpus s h)\<lparr>c_noff := x\<rparr>" for x
    using a(2) by (cases "cpus s h") simp
  show ?thesis using a
    by (auto simp: eq release_def rel_state_def pop_off_def intr_get_def intr_on_def Let_def)
qed

lemma acq_state_cpu [simp]:
  "c_noff (cpus (acq_state h lk s) h) = c_noff (cpus s h) + 1"
  "\<not> c_sie (cpus (acq_state h lk s) h)"
  "c_proc (cpus (acq_state h lk s) h) = c_proc (cpus s h)"
  "c_intena (cpus (acq_state h lk s) h) =
     (if c_noff (cpus s h) = 0 then c_sie (cpus s h) else c_intena (cpus s h))"
  "h' \<noteq> h \<Longrightarrow> cpus (acq_state h lk s) h' = cpus s h'"
  by (simp_all add: acq_state_def push_off_def intr_off_def intr_get_def Let_def)

lemma acq_state_locks [simp]:
  "locks (acq_state h lk s) = (locks s)(lk := (locks s lk)\<lparr>lk_locked := True, lk_cpu := Some h\<rparr>)"
  by (simp add: acq_state_def)

lemma rel_state_cpu [simp]:
  "c_noff (cpus (rel_state h lk s) h) = c_noff (cpus s h) - 1"
  "c_sie (cpus (rel_state h lk s) h) = (c_noff (cpus s h) = 1 \<and> c_intena (cpus s h))"
  "c_proc (cpus (rel_state h lk s) h) = c_proc (cpus s h)"
  "c_intena (cpus (rel_state h lk s) h) = c_intena (cpus s h)"
  "h' \<noteq> h \<Longrightarrow> cpus (rel_state h lk s) h' = cpus s h'"
  by (simp_all add: rel_state_def)

lemma rel_state_locks [simp]:
  "locks (rel_state h lk s) = (locks s)(lk := (locks s lk)\<lparr>lk_cpu := None, lk_locked := False\<rparr>)"
  by (simp add: rel_state_def)

lemma acquire_taken:
  "lk_locked (locks s lk) \<Longrightarrow> acquire h lk s = (if holding h lk s then Panic ''acquire'' else Spin)"
  by (simp add: acquire_def acquire_enter_def acquire_swap_def Let_def)

lemma release_not_held: "\<not> holding h lk s \<Longrightarrow> release h lk s = Panic ''release''"
  by (simp add: release_def)

end
