(* ===== verification/Proc.thy ===== *)
theory Proc
  imports Riscv Spinlock
begin

text \<open>
  Processes (\<^verbatim>\<open>kernel/proc.h\<close>, the scheduling half of \<^verbatim>\<open>kernel/proc.c\<close>): the process table,
  the energy score and energy priority of a process, the energy-aware scheduler with the idle
  governor, \<^verbatim>\<open>sched\<close>, \<^verbatim>\<open>yield\<close>, \<^verbatim>\<open>sleep\<close>, \<^verbatim>\<open>wakeup\<close> and the kill flags. A process
  pointer is the index of its slot. \<^verbatim>\<open>swtch\<close> is where a function's model stops; what runs when
  control comes back is a definition of its own, named \<open>_resume\<close>.
\<close>

section \<open>kernel/proc.h\<close>

record trapframe =
  tf_kernel_satp :: u64
  tf_kernel_sp :: u64
  tf_kernel_trap :: u64
  tf_epc :: u64
  tf_kernel_hartid :: u64
  tf_ra :: u64
  tf_sp :: u64
  tf_gp :: u64
  tf_tp :: u64
  tf_t0 :: u64
  tf_t1 :: u64
  tf_t2 :: u64
  tf_s0 :: u64
  tf_s1 :: u64
  tf_a0 :: u64
  tf_a1 :: u64
  tf_a2 :: u64
  tf_a3 :: u64
  tf_a4 :: u64
  tf_a5 :: u64
  tf_a6 :: u64
  tf_a7 :: u64
  tf_s2 :: u64
  tf_s3 :: u64
  tf_s4 :: u64
  tf_s5 :: u64
  tf_s6 :: u64
  tf_s7 :: u64
  tf_s8 :: u64
  tf_s9 :: u64
  tf_s10 :: u64
  tf_s11 :: u64
  tf_t3 :: u64
  tf_t4 :: u64
  tf_t5 :: u64
  tf_t6 :: u64

datatype procstate = UNUSED | USED | SLEEPING | RUNNABLE | RUNNING | ZOMBIE

abbreviation (input) POWER_ECO :: int where "POWER_ECO \<equiv> 0"
abbreviation (input) POWER_BALANCED :: int where "POWER_BALANCED \<equiv> 1"
abbreviation (input) POWER_PERFORMANCE :: int where "POWER_PERFORMANCE \<equiv> 2"

record proc =
  p_state :: procstate
  p_chan :: chan
  p_killed :: int
  p_xstate :: int
  p_pid :: int
  p_parent :: "nat option"
  p_kstack :: u64
  p_sz :: u64
  p_pagetable :: u64
  p_trapframe :: u64
  p_context :: kcontext
  p_ofile :: "nat option list"
  p_cwd :: "nat option"
  p_name :: "byte list"
  cpu_ticks :: int
  sleep_count :: int
  wake_count :: int
  energy_score :: int
  energy_priority :: int
  power_mode :: int
  energy_budget :: int
  energy_used :: int

section \<open>Globals of proc.c and trap.c\<close>

record governor =
  idle_ticks :: u64
  active_ticks :: u64
  current_mode :: int

text \<open>\<open>stimecmp\<close> is each CPU's timer-compare register; \<open>tframe\<close> is the trapframe page found
  at a physical address.\<close>

record kproc = lockstate +
  proc :: "proc list"
  initproc :: "nat option"
  nextpid :: int
  idle_governor :: governor
  ticks :: u32
  stimecmp :: "nat \<Rightarrow> u64"
  tframe :: "u64 \<Rightarrow> trapframe"

definition upd_proc :: "nat \<Rightarrow> (proc \<Rightarrow> proc) \<Rightarrow> 'a kproc_scheme \<Rightarrow> 'a kproc_scheme" where
  "upd_proc i f s = s\<lparr>proc := (proc s)[i := f (proc s ! i)]\<rparr>"

definition set_cpu :: "nat \<Rightarrow> (cpu \<Rightarrow> cpu) \<Rightarrow> 'a kproc_scheme \<Rightarrow> 'a kproc_scheme" where
  "set_cpu h f s = s\<lparr>cpus := (cpus s)(h := f (cpus s h))\<rparr>"

definition myproc :: "nat \<Rightarrow> 'a kproc_scheme \<Rightarrow> nat option" where
  "myproc h s = c_proc (cpus s h)"

definition procinit :: "'a kproc_scheme \<Rightarrow> 'a kproc_scheme" where
  "procinit s =
     (let s = initlock LkPid ''nextpid'' s;
          s = initlock LkWait ''wait_lock'' s;
          s = initlock LkGovernor ''idle_governor'' s;
          s = s\<lparr>idle_governor := \<lparr>idle_ticks = 0, active_ticks = 0, current_mode = POWER_BALANCED\<rparr>\<rparr>;
          s = fold (\<lambda>i. initlock (LkProc i) ''proc'') [0..<NPROC] s
      in s\<lparr>proc := map (\<lambda>i. (proc s ! i)\<lparr>p_state := UNUSED, p_kstack := KSTACK i\<rparr>) [0..<NPROC]\<rparr>)"

definition allocpid :: "'a kproc_scheme \<Rightarrow> int \<times> 'a kproc_scheme" where
  "allocpid s = (nextpid s, s\<lparr>nextpid := i32 (nextpid s + 1)\<rparr>)"

section \<open>Energy score and energy priority\<close>

definition update_energy_score :: "proc \<Rightarrow> proc" where
  "update_energy_score p =
     (let base_score = cpu_ticks p;
          activity_cycles = i32 (sleep_count p + wake_count p)
      in if activity_cycles > 0
         then let cpu_intensity = cdiv (i32 (base_score * 100)) (i32 (activity_cycles + 1))
              in p\<lparr>energy_score := i32 (base_score + cpu_intensity)\<rparr>
         else p\<lparr>energy_score := base_score\<rparr>)"

definition update_energy_priority :: "proc \<Rightarrow> proc" where
  "update_energy_priority p =
     (let p = update_energy_score p;
          base_priority = i32 (10000 - energy_score p);
          io_bonus = i32 (i32 (sleep_count p + wake_count p) * 10);
          p = p\<lparr>energy_priority := i32 (base_priority + io_bonus)\<rparr>
      in if energy_priority p < 0 then p\<lparr>energy_priority := 0\<rparr> else p)"

section \<open>The energy-aware scheduler\<close>

text \<open>One round of the scan over the table: \<open>best\<close> and \<open>bp\<close> are the C variables \<^verbatim>\<open>best\<close> and
  \<^verbatim>\<open>best_priority\<close>; the lock of \<^verbatim>\<open>best\<close> stays taken.\<close>

definition sched_visit ::
  "nat \<Rightarrow> nat \<Rightarrow> nat option \<times> int \<Rightarrow> 'a kproc_scheme \<Rightarrow> (nat option \<times> int, 'a kproc_scheme) res" where
  "sched_visit h i acc s =
     (let best = fst acc; bp = snd acc in
      bnd (acquire h (LkProc i) s) (\<lambda>_ s.
        if p_state (proc s ! i) = RUNNABLE then
          let s = upd_proc i update_energy_priority s; pr = energy_priority (proc s ! i) in
          if best = None \<or> pr > bp then
            bnd (case best of None \<Rightarrow> Ok () s | Some b \<Rightarrow> release h (LkProc b) s)
              (\<lambda>_ s. Ok (Some i, pr) s)
          else bnd (release h (LkProc i) s) (\<lambda>_ s. Ok acc s)
        else bnd (release h (LkProc i) s) (\<lambda>_ s. Ok acc s)))"

fun sched_scan ::
  "nat \<Rightarrow> nat list \<Rightarrow> nat option \<times> int \<Rightarrow> 'a kproc_scheme \<Rightarrow> (nat option \<times> int, 'a kproc_scheme) res" where
  "sched_scan h [] acc s = Ok acc s"
| "sched_scan h (i # is) acc s = bnd (sched_visit h i acc s) (\<lambda>acc s. sched_scan h is acc s)"

text \<open>The outcome of one pass of \<^verbatim>\<open>scheduler\<close>: switch to a process, or execute a number of
  \<^verbatim>\<open>wfi\<close> instructions.\<close>

datatype sched_action = Switch nat | Idle nat

definition wfi_count :: "int \<Rightarrow> nat" where
  "wfi_count mode =
     (if mode = POWER_ECO then 3
      else if mode = POWER_BALANCED then 1
      else if mode = POWER_PERFORMANCE then 0
      else 1)"

definition scheduler_pass :: "nat \<Rightarrow> 'a kproc_scheme \<Rightarrow> (sched_action, 'a kproc_scheme) res" where
  "scheduler_pass h s =
     bnd (sched_scan h [0..<NPROC] (None, -1) (intr_off h (intr_on h s))) (\<lambda>(best, bp) s.
       case best of
         Some b \<Rightarrow>
           let s = upd_proc b (\<lambda>p. p\<lparr>p_state := RUNNING\<rparr>) s;
               s = set_cpu h (\<lambda>c. c\<lparr>c_proc := Some b\<rparr>) s
           in bnd (acquire h LkGovernor s) (\<lambda>_ s.
              let s = s\<lparr>idle_governor := (idle_governor s)\<lparr>active_ticks := active_ticks (idle_governor s) + 1\<rparr>\<rparr>
              in bnd (release h LkGovernor s) (\<lambda>_ s. Ok (Switch b) s))
       | None \<Rightarrow>
           bnd (acquire h LkGovernor s) (\<lambda>_ s.
             let s = s\<lparr>idle_governor := (idle_governor s)\<lparr>idle_ticks := idle_ticks (idle_governor s) + 1\<rparr>\<rparr>;
                 mode = current_mode (idle_governor s)
             in bnd (release h LkGovernor s) (\<lambda>_ s. Ok (Idle (wfi_count mode)) s)))"

definition scheduler_resume :: "nat \<Rightarrow> nat \<Rightarrow> 'a kproc_scheme \<Rightarrow> (unit, 'a kproc_scheme) res" where
  "scheduler_resume h b s = release h (LkProc b) (set_cpu h (\<lambda>c. c\<lparr>c_proc := None\<rparr>) s)"

section \<open>Giving up the CPU\<close>

text \<open>\<^verbatim>\<open>sched\<close> up to \<^verbatim>\<open>swtch\<close>; its value is the \<^verbatim>\<open>intena\<close> it saves. A null \<^verbatim>\<open>myproc()\<close>
  faults in the kernel.\<close>

definition sched :: "nat \<Rightarrow> 'a kproc_scheme \<Rightarrow> (bool, 'a kproc_scheme) res" where
  "sched h s =
     (case myproc h s of
        None \<Rightarrow> Panic ''kerneltrap''
      | Some i \<Rightarrow>
          if \<not> holding h (LkProc i) s then Panic ''sched p->lock''
          else if c_noff (cpus s h) \<noteq> 1 then Panic ''sched locks''
          else if p_state (proc s ! i) = RUNNING then Panic ''sched RUNNING''
          else if intr_get h s then Panic ''sched interruptible''
          else Ok (c_intena (cpus s h)) s)"

definition sched_resume :: "nat \<Rightarrow> bool \<Rightarrow> 'a kproc_scheme \<Rightarrow> 'a kproc_scheme" where
  "sched_resume h intena s = set_cpu h (\<lambda>c. c\<lparr>c_intena := intena\<rparr>) s"

definition yield :: "nat \<Rightarrow> 'a kproc_scheme \<Rightarrow> (bool, 'a kproc_scheme) res" where
  "yield h s =
     (case myproc h s of
        None \<Rightarrow> Panic ''kerneltrap''
      | Some i \<Rightarrow>
          bnd (acquire h (LkProc i) s) (\<lambda>_ s.
            sched h (upd_proc i (\<lambda>p. p\<lparr>p_state := RUNNABLE\<rparr>) s)))"

definition yield_resume :: "nat \<Rightarrow> nat \<Rightarrow> bool \<Rightarrow> 'a kproc_scheme \<Rightarrow> (unit, 'a kproc_scheme) res" where
  "yield_resume h i intena s = release h (LkProc i) (sched_resume h intena s)"

definition sleep :: "nat \<Rightarrow> chan \<Rightarrow> lockid \<Rightarrow> 'a kproc_scheme \<Rightarrow> (bool, 'a kproc_scheme) res" where
  "sleep h c lk s =
     (case myproc h s of
        None \<Rightarrow> Panic ''kerneltrap''
      | Some i \<Rightarrow>
          bnd (acquire h (LkProc i) s) (\<lambda>_ s.
          bnd (release h lk s) (\<lambda>_ s.
            sched h (upd_proc i (\<lambda>p. p\<lparr>p_chan := c, p_state := SLEEPING,
                                       sleep_count := i32 (sleep_count p + 1)\<rparr>) s))))"

definition sleep_resume ::
  "nat \<Rightarrow> nat \<Rightarrow> lockid \<Rightarrow> bool \<Rightarrow> 'a kproc_scheme \<Rightarrow> (unit, 'a kproc_scheme) res" where
  "sleep_resume h i lk intena s =
     bnd (release h (LkProc i) (upd_proc i (\<lambda>p. p\<lparr>p_chan := ChanNull\<rparr>) (sched_resume h intena s)))
       (\<lambda>_ s. acquire h lk s)"

definition wakeup :: "nat \<Rightarrow> chan \<Rightarrow> 'a kproc_scheme \<Rightarrow> 'a kproc_scheme" where
  "wakeup h c s =
     s\<lparr>proc := map (\<lambda>(i, p). if Some i \<noteq> myproc h s \<and> p_state p = SLEEPING \<and> p_chan p = c
                            then p\<lparr>p_state := RUNNABLE, wake_count := i32 (wake_count p + 1)\<rparr>
                            else p) (enumerate 0 (proc s))\<rparr>"

section \<open>Kill flags\<close>

definition kkill :: "int \<Rightarrow> 'a kproc_scheme \<Rightarrow> int \<times> 'a kproc_scheme" where
  "kkill pid s =
     (case scan_index (\<lambda>p. p_pid p = pid) (proc s) of
        None \<Rightarrow> (-1, s)
      | Some i \<Rightarrow>
          (0, upd_proc i (\<lambda>p. let p = p\<lparr>p_killed := 1\<rparr>
                              in if p_state p = SLEEPING then p\<lparr>p_state := RUNNABLE\<rparr> else p) s))"

definition setkilled :: "nat \<Rightarrow> 'a kproc_scheme \<Rightarrow> 'a kproc_scheme" where
  "setkilled i s = upd_proc i (\<lambda>p. p\<lparr>p_killed := 1\<rparr>) s"

definition killed :: "nat \<Rightarrow> 'a kproc_scheme \<Rightarrow> int" where
  "killed i s = p_killed (proc s ! i)"

section \<open>Sample states\<close>

text \<open>An unused slot, and a machine at rest whose table starts with the given processes.\<close>

definition blank_proc :: proc where
  "blank_proc = \<lparr>p_state = UNUSED, p_chan = ChanNull, p_killed = 0, p_xstate = 0, p_pid = 0,
     p_parent = None, p_kstack = 0, p_sz = 0, p_pagetable = 0, p_trapframe = 0,
     p_context = c_context boot_cpu, p_ofile = replicate NOFILE None, p_cwd = None,
     p_name = replicate 16 0, cpu_ticks = 0, sleep_count = 0, wake_count = 0, energy_score = 0,
     energy_priority = 0, power_mode = 0, energy_budget = 0, energy_used = 0\<rparr>"

definition blank_tframe :: trapframe where
  "blank_tframe = \<lparr>tf_kernel_satp = 0, tf_kernel_sp = 0, tf_kernel_trap = 0, tf_epc = 0,
     tf_kernel_hartid = 0, tf_ra = 0, tf_sp = 0, tf_gp = 0, tf_tp = 0, tf_t0 = 0,
     tf_t1 = 0, tf_t2 = 0, tf_s0 = 0, tf_s1 = 0, tf_a0 = 0, tf_a1 = 0, tf_a2 = 0,
     tf_a3 = 0, tf_a4 = 0, tf_a5 = 0, tf_a6 = 0, tf_a7 = 0, tf_s2 = 0, tf_s3 = 0,
     tf_s4 = 0, tf_s5 = 0, tf_s6 = 0, tf_s7 = 0, tf_s8 = 0, tf_s9 = 0, tf_s10 = 0,
     tf_s11 = 0, tf_t3 = 0, tf_t4 = 0, tf_t5 = 0, tf_t6 = 0\<rparr>"

definition rest_state :: "proc list \<Rightarrow> kproc" where
  "rest_state ps = \<lparr>cpus = cpus boot_world, locks = locks boot_world,
     proc = ps @ replicate (NPROC - length ps) blank_proc, initproc = None, nextpid = 1,
     idle_governor = \<lparr>idle_ticks = 0, active_ticks = 0, current_mode = POWER_BALANCED\<rparr>,
     ticks = 0, stimecmp = (\<lambda>_. 0), tframe = (\<lambda>_. blank_tframe)\<rparr>"

section \<open>Process-table lemmas\<close>

lemma acq_state_kproc [simp]:
  "proc (acq_state h lk s) = proc s" "idle_governor (acq_state h lk s) = idle_governor s"
  "initproc (acq_state h lk s) = initproc s" "nextpid (acq_state h lk s) = nextpid s"
  "ticks (acq_state h lk s) = ticks s" "stimecmp (acq_state h lk s) = stimecmp s"
  "tframe (acq_state h lk s) = tframe s" "kproc.more (acq_state h lk s) = kproc.more s"
  by (simp_all add: acq_state_def push_off_def intr_off_def Let_def)

lemma rel_state_kproc [simp]:
  "proc (rel_state h lk s) = proc s" "idle_governor (rel_state h lk s) = idle_governor s"
  "initproc (rel_state h lk s) = initproc s" "nextpid (rel_state h lk s) = nextpid s"
  "ticks (rel_state h lk s) = ticks s" "stimecmp (rel_state h lk s) = stimecmp s"
  "tframe (rel_state h lk s) = tframe s" "kproc.more (rel_state h lk s) = kproc.more s"
  by (simp_all add: rel_state_def)

lemma upd_proc_simps [simp]:
  "locks (upd_proc i f s) = locks s" "cpus (upd_proc i f s) = cpus s"
  "proc (upd_proc i f s) = (proc s)[i := f (proc s ! i)]"
  "idle_governor (upd_proc i f s) = idle_governor s" "initproc (upd_proc i f s) = initproc s"
  "nextpid (upd_proc i f s) = nextpid s" "ticks (upd_proc i f s) = ticks s"
  "stimecmp (upd_proc i f s) = stimecmp s" "tframe (upd_proc i f s) = tframe s"
  "kproc.more (upd_proc i f s) = kproc.more s"
  by (simp_all add: upd_proc_def)

lemma set_cpu_simps [simp]:
  "locks (set_cpu h f s) = locks s" "cpus (set_cpu h f s) = (cpus s)(h := f (cpus s h))"
  "proc (set_cpu h f s) = proc s"
  "idle_governor (set_cpu h f s) = idle_governor s" "initproc (set_cpu h f s) = initproc s"
  "nextpid (set_cpu h f s) = nextpid s" "ticks (set_cpu h f s) = ticks s"
  "stimecmp (set_cpu h f s) = stimecmp s" "tframe (set_cpu h f s) = tframe s"
  "kproc.more (set_cpu h f s) = kproc.more s"
  by (simp_all add: set_cpu_def)

lemma update_energy_score_frame [simp]:
  "p_state (update_energy_score p) = p_state p" "p_pid (update_energy_score p) = p_pid p"
  "cpu_ticks (update_energy_score p) = cpu_ticks p"
  "sleep_count (update_energy_score p) = sleep_count p"
  "wake_count (update_energy_score p) = wake_count p"
  "p_parent (update_energy_score p) = p_parent p"
  by (simp_all add: update_energy_score_def Let_def)

lemma update_energy_priority_frame [simp]:
  "p_state (update_energy_priority p) = p_state p" "p_pid (update_energy_priority p) = p_pid p"
  "cpu_ticks (update_energy_priority p) = cpu_ticks p"
  "sleep_count (update_energy_priority p) = sleep_count p"
  "wake_count (update_energy_priority p) = wake_count p"
  "p_parent (update_energy_priority p) = p_parent p"
  by (simp_all add: update_energy_priority_def Let_def)

section \<open>The scheduler's choice\<close>

text \<open>The priority the scan computes for slot \<open>i\<close>.\<close>

definition fresh_priority :: "'a kproc_scheme \<Rightarrow> nat \<Rightarrow> int" where
  "fresh_priority s i = energy_priority (update_energy_priority (proc s ! i))"

definition runnable :: "'a kproc_scheme \<Rightarrow> nat \<Rightarrow> bool" where
  "runnable s i \<longleftrightarrow> p_state (proc s ! i) = RUNNABLE"

text \<open>The state in which a CPU enters a pass: it holds no lock, and the process locks and the
  governor's lock are free.\<close>

definition sched_ready :: "nat \<Rightarrow> 'a kproc_scheme \<Rightarrow> bool" where
  "sched_ready h s \<longleftrightarrow> length (proc s) = NPROC \<and> c_noff (cpus s h) = 0 \<and>
     (\<forall>i. \<not> lk_locked (locks s (LkProc i))) \<and> \<not> lk_locked (locks s LkGovernor)"

text \<open>What holds when the scan has passed the first \<open>k\<close> slots of the table of \<open>s0\<close>.\<close>

definition scan_best :: "'a kproc_scheme \<Rightarrow> nat \<Rightarrow> nat option \<times> int \<Rightarrow> bool" where
  "scan_best s0 k acc \<longleftrightarrow>
     (case fst acc of
        None \<Rightarrow> \<forall>i<k. \<not> runnable s0 i
      | Some b \<Rightarrow> b < k \<and> runnable s0 b \<and> snd acc = fresh_priority s0 b \<and>
          (\<forall>i<k. runnable s0 i \<longrightarrow> fresh_priority s0 i \<le> snd acc) \<and>
          (\<forall>i<b. runnable s0 i \<longrightarrow> fresh_priority s0 i < snd acc))"

definition scan_locks :: "nat \<Rightarrow> 'a kproc_scheme \<Rightarrow> nat option \<Rightarrow> 'a kproc_scheme \<Rightarrow> bool" where
  "scan_locks h s0 best s \<longleftrightarrow>
     (\<forall>i. lk_locked (locks s (LkProc i)) \<longleftrightarrow> best = Some i) \<and>
     (\<forall>b. best = Some b \<longrightarrow> lk_cpu (locks s (LkProc b)) = Some h) \<and>
     locks s LkGovernor = locks s0 LkGovernor \<and>
     c_noff (cpus s h) = (if best = None then 0 else 1) \<and> \<not> c_sie (cpus s h) \<and>
     (best \<noteq> None \<longrightarrow> \<not> c_intena (cpus s h)) \<and> c_proc (cpus s h) = c_proc (cpus s0 h)"

definition scan_table :: "'a kproc_scheme \<Rightarrow> nat \<Rightarrow> 'a kproc_scheme \<Rightarrow> bool" where
  "scan_table s0 k s \<longleftrightarrow>
     length (proc s) = length (proc s0) \<and>
     (\<forall>i<length (proc s0). proc s ! i =
        (if i < k \<and> runnable s0 i then update_energy_priority (proc s0 ! i) else proc s0 ! i)) \<and>
     idle_governor s = idle_governor s0"

lemma sched_visit_step:
  assumes k: "k < length (proc s0)" and b: "scan_best s0 k acc" and l: "scan_locks h s0 (fst acc) s"
    and t: "scan_table s0 k s"
  shows "\<exists>acc' s'. sched_visit h k acc s = Ok acc' s' \<and> scan_best s0 (Suc k) acc' \<and>
           scan_locks h s0 (fst acc') s' \<and> scan_table s0 (Suc k) s'"
proof -
  obtain best bp where acc: "acc = (best, bp)" by (cases acc)
  have nb: "best \<noteq> Some k" using b by (auto simp: scan_best_def acc)
  then have free: "\<not> lk_locked (locks s (LkProc k))" using l by (auto simp: scan_locks_def acc)
  let ?a = "acq_state h (LkProc k) s"
  have pk: "proc s ! k = proc s0 ! k" using t k by (simp add: scan_table_def)
  have len: "length (proc s) = length (proc s0)" using t by (simp add: scan_table_def)
  have ia: "\<not> c_intena (cpus ?a h)" using l by (auto simp: scan_locks_def)
  have na: "1 \<le> c_noff (cpus ?a h)" using l by (auto simp: scan_locks_def)
  show ?thesis
  proof (cases "runnable s0 k")
    case False
    have r: "release h (LkProc k) ?a = Ok () (rel_state h (LkProc k) ?a)"
      by (rule release_held) (use na in \<open>auto simp: holding_def\<close>)
    have v: "sched_visit h k acc s = Ok acc (rel_state h (LkProc k) ?a)"
      using False by (simp add: sched_visit_def acquire_free[OF free] runnable_def pk r Let_def)
    have "scan_best s0 (Suc k) acc" using b False
      by (auto simp: scan_best_def less_Suc_eq split: option.splits)
    moreover have "scan_locks h s0 (fst acc) (rel_state h (LkProc k) ?a)"
      using l nb ia by (auto simp: scan_locks_def acc)
    moreover have "scan_table s0 (Suc k) (rel_state h (LkProc k) ?a)"
      using t False by (auto simp: scan_table_def less_Suc_eq)
    ultimately show ?thesis using v by blast
  next
    case True
    let ?u = "upd_proc k update_energy_priority ?a"
    have pr: "energy_priority (proc ?u ! k) = fresh_priority s0 k"
      using k len pk by (simp add: fresh_priority_def)
    have tab: "scan_table s0 (Suc k) x" if "proc x = proc ?u" "idle_governor x = idle_governor s" for x :: "'a kproc_scheme"
      using t k len pk True that by (auto simp: scan_table_def less_Suc_eq nth_list_update)
    show ?thesis
    proof (cases "best = None \<or> fresh_priority s0 k > bp")
      case new: True
      let ?r = "case best of None \<Rightarrow> ?u | Some b \<Rightarrow> rel_state h (LkProc b) ?u"
      have "release h (LkProc b) ?u = Ok () (rel_state h (LkProc b) ?u)" if "best = Some b" for b
        by (rule release_held) (use na nb l that in \<open>auto simp: holding_def scan_locks_def acc\<close>)
      then have v: "sched_visit h k acc s = Ok (Some k, fresh_priority s0 k) ?r"
        using True new pr pk
        by (auto simp: sched_visit_def acquire_free[OF free] runnable_def Let_def acc split: option.splits)
      have "scan_best s0 (Suc k) (Some k, fresh_priority s0 k)" using b new True
        by (force simp: scan_best_def less_Suc_eq acc split: option.splits)
      moreover have "scan_locks h s0 (Some k) ?r"
        using l nb ia by (auto simp: scan_locks_def acc split: option.splits)
      moreover have "scan_table s0 (Suc k) ?r" by (rule tab) (simp_all split: option.split)
      ultimately show ?thesis using v by fastforce
    next
      case old: False
      then obtain b0 where b0: "best = Some b0" by (cases best) auto
      have r: "release h (LkProc k) ?u = Ok () (rel_state h (LkProc k) ?u)"
        by (rule release_held) (use na in \<open>auto simp: holding_def\<close>)
      have v: "sched_visit h k acc s = Ok acc (rel_state h (LkProc k) ?u)"
        using True old pr pk by (simp add: sched_visit_def acquire_free[OF free] runnable_def r Let_def acc)
      have "scan_best s0 (Suc k) acc" using b old
        by (auto simp: scan_best_def less_Suc_eq acc b0)
      moreover have "scan_locks h s0 (fst acc) (rel_state h (LkProc k) ?u)"
        using l nb ia by (auto simp: scan_locks_def acc b0)
      moreover have "scan_table s0 (Suc k) (rel_state h (LkProc k) ?u)" by (rule tab) simp_all
      ultimately show ?thesis using v by blast
    qed
  qed
qed

lemma sched_scan_from:
  assumes "k \<le> length (proc s0)" and "scan_best s0 k acc" and "scan_locks h s0 (fst acc) s"
    and "scan_table s0 k s"
  shows "\<exists>acc' s'. sched_scan h [k..<length (proc s0)] acc s = Ok acc' s' \<and>
           scan_best s0 (length (proc s0)) acc' \<and> scan_locks h s0 (fst acc') s' \<and>
           scan_table s0 (length (proc s0)) s'"
  using assms
proof (induction "length (proc s0) - k" arbitrary: k acc s)
  case 0
  then have "k = length (proc s0)" by simp
  then show ?case using 0 by simp
next
  case (Suc n)
  then have k: "k < length (proc s0)" by simp
  obtain acc1 s1 where v: "sched_visit h k acc s = Ok acc1 s1"
    and i: "scan_best s0 (Suc k) acc1" "scan_locks h s0 (fst acc1) s1" "scan_table s0 (Suc k) s1"
    using sched_visit_step[OF k Suc.prems(2-4)] by blast
  have "\<exists>acc' s'. sched_scan h [Suc k..<length (proc s0)] acc1 s1 = Ok acc' s' \<and>
      scan_best s0 (length (proc s0)) acc' \<and> scan_locks h s0 (fst acc') s' \<and>
      scan_table s0 (length (proc s0)) s'"
    using Suc.hyps(1)[of "Suc k" acc1 s1] Suc.hyps(2) i k by simp
  then show ?case using v k by (simp add: upt_conv_Cons)
qed

lemma intr_toggle [simp]:
  "proc (intr_off h (intr_on h s)) = proc s" "locks (intr_off h (intr_on h s)) = locks s"
  "idle_governor (intr_off h (intr_on h s)) = idle_governor s"
  "c_noff (cpus (intr_off h (intr_on h s)) h) = c_noff (cpus s h)"
  "c_proc (cpus (intr_off h (intr_on h s)) h) = c_proc (cpus s h)"
  "\<not> c_sie (cpus (intr_off h (intr_on h s)) h)"
  by (simp_all add: intr_off_def intr_on_def)

lemma runnable_toggle [simp]:
  "runnable (intr_off h (intr_on h s)) = runnable s"
  "fresh_priority (intr_off h (intr_on h s)) = fresh_priority s"
  by (simp_all add: runnable_def fresh_priority_def fun_eq_iff)

lemma sched_scan_ready:
  assumes r: "sched_ready h s" and s': "s' = intr_off h (intr_on h s)"
  shows "\<exists>best bp t. sched_scan h [0..<NPROC] (None, -1) s' = Ok (best, bp) t \<and>
           scan_best s' NPROC (best, bp) \<and> scan_locks h s' best t \<and> scan_table s' NPROC t"
proof -
  have len: "length (proc s') = NPROC" using r by (simp add: s' sched_ready_def)
  have 1: "scan_best s' 0 (None, -1)" by (simp add: scan_best_def)
  have 2: "scan_locks h s' (fst (None, -1 :: int)) s'"
    using r by (simp add: scan_locks_def sched_ready_def s')
  have 3: "scan_table s' 0 s'" by (simp add: scan_table_def)
  from sched_scan_from[OF _ 1 2 3] len show ?thesis by fastforce
qed

text \<open>The least RUNNABLE slot of greatest fresh priority.\<close>

definition best_choice :: "'a kproc_scheme \<Rightarrow> nat \<Rightarrow> bool" where
  "best_choice s b \<longleftrightarrow> b < NPROC \<and> runnable s b \<and>
     (\<forall>i<NPROC. runnable s i \<longrightarrow> fresh_priority s i \<le> fresh_priority s b) \<and>
     (\<forall>i<b. runnable s i \<longrightarrow> fresh_priority s i < fresh_priority s b)"

lemma best_choice_unique: "best_choice s a \<Longrightarrow> best_choice s b \<Longrightarrow> a = b"
  unfolding best_choice_def by (metis linorder_neqE_nat order_less_le_trans order_less_irrefl)

lemma scheduler_pass_switch:
  assumes r: "sched_ready h s" and ex: "\<exists>i<NPROC. runnable s i"
  shows "\<exists>b t. scheduler_pass h s = Ok (Switch b) t \<and> best_choice s b \<and>
     p_state (proc t ! b) = RUNNING \<and> myproc h t = Some b \<and> length (proc t) = NPROC \<and>
     (\<forall>i<NPROC. i \<noteq> b \<longrightarrow> p_state (proc t ! i) = p_state (proc s ! i)) \<and>
     (\<forall>i. lk_locked (locks t (LkProc i)) \<longleftrightarrow> i = b) \<and> holding h (LkProc b) t \<and>
     \<not> lk_locked (locks t LkGovernor) \<and>
     c_noff (cpus t h) = 1 \<and> \<not> c_sie (cpus t h) \<and>
     active_ticks (idle_governor t) = active_ticks (idle_governor s) + 1 \<and>
     idle_ticks (idle_governor t) = idle_ticks (idle_governor s)"
proof -
  let ?s = "intr_off h (intr_on h s)"
  obtain best bp t where sc: "sched_scan h [0..<NPROC] (None, -1) ?s = Ok (best, bp) t"
    and b: "scan_best ?s NPROC (best, bp)" and l: "scan_locks h ?s best t" and tb: "scan_table ?s NPROC t"
    using sched_scan_ready[OF r refl] by blast
  obtain b where best: "best = Some b" using b ex by (cases best) (auto simp: scan_best_def)
  have bc: "best_choice s b" using b by (auto simp: best_choice_def scan_best_def best)
  have len: "length (proc t) = NPROC" using tb r by (simp add: scan_table_def sched_ready_def)
  have bl: "b < NPROC" using bc by (simp add: best_choice_def)
  let ?u = "set_cpu h (\<lambda>c. c\<lparr>c_proc := Some b\<rparr>) (upd_proc b (\<lambda>p. p\<lparr>p_state := RUNNING\<rparr>) t)"
  let ?v = "acq_state h LkGovernor ?u"
  let ?w = "?v\<lparr>idle_governor := (idle_governor ?v)\<lparr>active_ticks := active_ticks (idle_governor ?v) + 1\<rparr>\<rparr>"
  have gov: "\<not> lk_locked (locks t LkGovernor)" using l r by (simp add: scan_locks_def sched_ready_def)
  have rel: "release h LkGovernor ?w = Ok () (rel_state h LkGovernor ?w)"
    using l by (intro release_held) (auto simp: holding_def scan_locks_def best)
  have p: "scheduler_pass h s = Ok (Switch b) (rel_state h LkGovernor ?w)"
    using gov rel by (simp add: scheduler_pass_def sc best Let_def acquire_free)
  have states: "\<forall>i<NPROC. i \<noteq> b \<longrightarrow> p_state (proc t ! i) = p_state (proc s ! i)"
    using tb r by (auto simp: scan_table_def sched_ready_def)
  have gt: "idle_governor t = idle_governor s" using tb by (simp add: scan_table_def)
  show ?thesis
    by (intro exI conjI, rule p, rule bc)
       (use l bl len states gt gov in \<open>auto simp: scan_locks_def best holding_def myproc_def\<close>)
qed

lemma scheduler_pass_idle:
  assumes r: "sched_ready h s" and none: "\<forall>i<NPROC. \<not> runnable s i"
  shows "\<exists>t. scheduler_pass h s = Ok (Idle (wfi_count (current_mode (idle_governor s)))) t \<and>
     proc t = proc s \<and> sched_ready h t \<and>
     idle_ticks (idle_governor t) = idle_ticks (idle_governor s) + 1 \<and>
     active_ticks (idle_governor t) = active_ticks (idle_governor s) \<and>
     current_mode (idle_governor t) = current_mode (idle_governor s)"
proof -
  let ?s = "intr_off h (intr_on h s)"
  obtain best bp t where sc: "sched_scan h [0..<NPROC] (None, -1) ?s = Ok (best, bp) t"
    and b: "scan_best ?s NPROC (best, bp)" and l: "scan_locks h ?s best t" and tb: "scan_table ?s NPROC t"
    using sched_scan_ready[OF r refl] by blast
  have best: "best = None" using b none by (cases best) (auto simp: scan_best_def)
  let ?v = "acq_state h LkGovernor t"
  let ?w = "?v\<lparr>idle_governor := (idle_governor ?v)\<lparr>idle_ticks := idle_ticks (idle_governor ?v) + 1\<rparr>\<rparr>"
  have gov: "\<not> lk_locked (locks t LkGovernor)" using l r by (simp add: scan_locks_def sched_ready_def)
  have rel: "release h LkGovernor ?w = Ok () (rel_state h LkGovernor ?w)"
    using l by (intro release_held) (auto simp: holding_def scan_locks_def best)
  have gt: "idle_governor t = idle_governor s" using tb by (simp add: scan_table_def)
  have p: "scheduler_pass h s =
      Ok (Idle (wfi_count (current_mode (idle_governor s)))) (rel_state h LkGovernor ?w)"
    using gov rel gt by (simp add: scheduler_pass_def sc best Let_def acquire_free)
  have pt: "proc t = proc s"
    using tb r none by (auto simp: scan_table_def sched_ready_def list_eq_iff_nth_eq)
  show ?thesis
    by (intro exI conjI, rule p)
       (use l r gt pt in \<open>auto simp: scan_locks_def best sched_ready_def\<close>)
qed


lemma sched_ready_rest: "length ps \<le> NPROC \<Longrightarrow> sched_ready h (rest_state ps)"
  by (simp add: sched_ready_def rest_state_def boot_world_def boot_cpu_def)


section \<open>The scheduling cycle\<close>

lemma yield_free:
  assumes "myproc h s = Some i" and "i < length (proc s)" and "\<not> lk_locked (locks s (LkProc i))"
    and "c_noff (cpus s h) = 0"
  shows "yield h s = Ok (c_sie (cpus s h))
           (upd_proc i (\<lambda>p. p\<lparr>p_state := RUNNABLE\<rparr>) (acq_state h (LkProc i) s))"
  using assms by (simp add: yield_def acquire_free sched_def myproc_def holding_def intr_get_def)

lemma sleep_free:
  assumes "myproc h s = Some i" and "i < length (proc s)" and "\<not> lk_locked (locks s (LkProc i))"
    and "holding h lk s" and "c_noff (cpus s h) = 1" and "lk \<noteq> LkProc i"
  shows "\<exists>t. sleep h c lk s = Ok (c_intena (cpus s h)) t \<and> p_state (proc t ! i) = SLEEPING \<and>
     p_chan (proc t ! i) = c \<and> sleep_count (proc t ! i) = i32 (sleep_count (proc s ! i) + 1) \<and>
     holding h (LkProc i) t \<and> \<not> lk_locked (locks t lk) \<and> (\<forall>j. j \<noteq> i \<longrightarrow> proc t ! j = proc s ! j)"
proof -
  let ?a = "acq_state h (LkProc i) s"
  have "release h lk ?a = Ok () (rel_state h lk ?a)"
    using assms by (intro release_held) (auto simp: holding_def)
  then show ?thesis using assms
    by (simp add: sleep_def acquire_free sched_def myproc_def holding_def intr_get_def)
qed

text \<open>
  C6. The scheduling cycle closes without a panic: when a pass of the scheduler has switched to a
  process that had yielded with interrupt state \<open>ie\<close>, that process returns from \<^verbatim>\<open>yield\<close> holding
  no lock with interrupts as it left them; when it yields again it passes every check of
  \<^verbatim>\<open>sched\<close> and goes back to the scheduler RUNNABLE; and the scheduler then releases its lock and
  is ready for the next pass.
\<close>

theorem scheduling_cycle:
  assumes r: "sched_ready h s" and sw: "scheduler_pass h s = Ok (Switch b) t"
  shows "\<exists>u v w. yield_resume h b ie t = Ok () u \<and> c_noff (cpus u h) = 0 \<and>
           intr_get h u = ie \<and> p_state (proc u ! b) = RUNNING \<and>
         yield h u = Ok ie v \<and> p_state (proc v ! b) = RUNNABLE \<and>
         scheduler_resume h b v = Ok () w \<and> sched_ready h w \<and> myproc h w = None"
proof -
  have ex: "\<exists>i<NPROC. runnable s i"
    using scheduler_pass_idle[OF r] sw by fastforce
  from scheduler_pass_switch[OF r ex] sw have t: "best_choice s b" "p_state (proc t ! b) = RUNNING"
    "myproc h t = Some b" "length (proc t) = NPROC" "\<And>i. lk_locked (locks t (LkProc i)) \<longleftrightarrow> i = b"
    "holding h (LkProc b) t" "\<not> lk_locked (locks t LkGovernor)" "c_noff (cpus t h) = 1"
    "\<not> c_sie (cpus t h)"
    by auto
  have b: "b < NPROC" using t(1) by (simp add: best_choice_def)
  let ?t = "sched_resume h ie t" and ?u = "rel_state h (LkProc b) (sched_resume h ie t)"
  have u: "yield_resume h b ie t = Ok () ?u" unfolding yield_resume_def
    by (rule release_held) (use t in \<open>auto simp: sched_resume_def holding_def\<close>)
  let ?v = "upd_proc b (\<lambda>p. p\<lparr>p_state := RUNNABLE\<rparr>) (acq_state h (LkProc b) ?u)"
  have sie: "c_sie (cpus ?u h) = ie" using t by (simp add: sched_resume_def)
  have v: "yield h ?u = Ok ie ?v"
    using yield_free[of h ?u b] t b sie by (simp add: sched_resume_def myproc_def)
  let ?c = "set_cpu h (\<lambda>c. c\<lparr>c_proc := None\<rparr>) ?v"
  have w: "scheduler_resume h b ?v = Ok () (rel_state h (LkProc b) ?c)" unfolding scheduler_resume_def
    by (rule release_held) (use t in \<open>auto simp: sched_resume_def holding_def\<close>)
  have "c_noff (cpus ?u h) = 0" "intr_get h ?u = ie" "p_state (proc ?u ! b) = RUNNING"
    "p_state (proc ?v ! b) = RUNNABLE"
    using t b sie by (simp_all add: sched_resume_def intr_get_def)
  moreover have "sched_ready h (rel_state h (LkProc b) ?c)" "myproc h (rel_state h (LkProc b) ?c) = None"
    using t b by (auto simp: sched_resume_def sched_ready_def myproc_def)
  ultimately show ?thesis using u v w by blast
qed

theorem scheduling_cycle_witness:
  "\<exists>t u v. scheduler_pass 0 (rest_state [blank_proc\<lparr>p_state := RUNNABLE\<rparr>]) = Ok (Switch 0) t \<and>
     yield_resume 0 0 True t = Ok () u \<and> yield 0 u = Ok True v"
proof -
  let ?s = "rest_state [blank_proc\<lparr>p_state := RUNNABLE\<rparr>]"
  have r: "sched_ready 0 ?s" by (rule sched_ready_rest) (simp add: NPROC_def)
  have run: "runnable ?s i \<longleftrightarrow> i = 0" if "i < NPROC" for i
    using that by (auto simp: runnable_def rest_state_def blank_proc_def nth_append nth_Cons' NPROC_def)
  have "\<exists>i<NPROC. runnable ?s i" using run[of 0] by (intro exI[of _ 0]) (simp add: NPROC_def)
  from scheduler_pass_switch[OF r this] obtain b t where b: "scheduler_pass 0 ?s = Ok (Switch b) t" "best_choice ?s b"
    by blast
  then have "b = 0" using run by (auto simp: best_choice_def)
  with b(1) scheduling_cycle[OF r, of b t True] show ?thesis by auto
qed

section \<open>Score and priority as formulas\<close>

text \<open>Counters in the range where no intermediate C \<^verbatim>\<open>int\<close> overflows: up to 21474836 clock
  ticks (about 24 days) and 200 million sleeps and wakeups.\<close>

definition energy_in_range :: "proc \<Rightarrow> bool" where
  "energy_in_range p \<longleftrightarrow> 0 \<le> cpu_ticks p \<and> cpu_ticks p \<le> 21474836 \<and>
     0 \<le> sleep_count p \<and> 0 \<le> wake_count p \<and> sleep_count p + wake_count p \<le> 200000000"

lemma energy_score_formula:
  assumes "energy_in_range p"
  shows "energy_score (update_energy_score p) =
     cpu_ticks p + (if sleep_count p + wake_count p = 0 then 0
                    else cpu_ticks p * 100 div (sleep_count p + wake_count p + 1))"
proof -
  let ?t = "cpu_ticks p" and ?a = "sleep_count p + wake_count p"
  have r: "0 \<le> ?t" "?t \<le> 21474836" "0 \<le> ?a" "?a \<le> 200000000"
    using assms by (auto simp: energy_in_range_def)
  have "?t * 100 div (?a + 1) \<le> ?t * 100"
    using r div_by_1[of "?t * 100"] zdiv_mono2[of "?t * 100" 1 "?a + 1"] by simp
  moreover have "?a \<noteq> 0 \<Longrightarrow> ?t * 100 div (?a + 1) \<le> ?t * 100 div 2"
    using r by (intro zdiv_mono2) auto
  moreover have "0 \<le> ?t * 100 div (?a + 1)"
    using r by (simp add: pos_imp_zdiv_nonneg_iff)
  ultimately show ?thesis using r by (auto simp: update_energy_score_def Let_def)
qed

lemma energy_score_bounds:
  assumes "energy_in_range p"
  shows "cpu_ticks p \<le> energy_score (update_energy_score p) \<and>
         energy_score (update_energy_score p) \<le> 51 * cpu_ticks p"
proof -
  let ?t = "cpu_ticks p" and ?a = "sleep_count p + wake_count p"
  have r: "0 \<le> ?t" "0 \<le> ?a" using assms by (auto simp: energy_in_range_def)
  have "?a \<noteq> 0 \<Longrightarrow> ?t * 100 div (?a + 1) \<le> ?t * 100 div 2"
    using r by (intro zdiv_mono2) auto
  moreover have "0 \<le> ?t * 100 div (?a + 1)"
    using r by (simp add: pos_imp_zdiv_nonneg_iff)
  ultimately show ?thesis using energy_score_formula[OF assms] r by auto
qed

text \<open>
  C20. In the range of its counters where no C \<^verbatim>\<open>int\<close> overflows, a process's energy priority is
  \<open>max 0 (10000 - score + 10 a)\<close>, where \<open>a\<close> counts its sleeps and wakeups and the score is its
  CPU ticks \<open>t\<close>, plus \<open>100 t div (a + 1)\<close> once it has slept or been woken; it is never negative,
  and stays so even where the arithmetic wraps.
\<close>

theorem energy_priority_formula:
  "0 \<le> energy_priority (update_energy_priority p) \<and>
   (energy_in_range p \<longrightarrow>
      (let t = cpu_ticks p; a = sleep_count p + wake_count p;
           score = t + (if a = 0 then 0 else t * 100 div (a + 1))
       in energy_score (update_energy_priority p) = score \<and>
          energy_priority (update_energy_priority p) = max 0 (10000 - score + a * 10)))"
proof -
  have nn: "0 \<le> energy_priority (update_energy_priority p)"
    by (simp add: update_energy_priority_def Let_def)
  have sc: "energy_score (update_energy_priority p) = energy_score (update_energy_score p)"
    by (simp add: update_energy_priority_def Let_def)
  have "energy_priority (update_energy_priority p) =
      max 0 (10000 - energy_score (update_energy_score p) + (sleep_count p + wake_count p) * 10)"
    if "energy_in_range p"
  proof -
    have r: "cpu_ticks p \<le> 21474836" "0 \<le> cpu_ticks p" "0 \<le> sleep_count p + wake_count p"
      "sleep_count p + wake_count p \<le> 200000000"
      using that by (auto simp: energy_in_range_def)
    have "0 \<le> energy_score (update_energy_score p)" "energy_score (update_energy_score p) \<le> 1095216636"
      using energy_score_bounds[OF that] r by auto
    then show ?thesis using r by (simp add: update_energy_priority_def Let_def)
  qed
  then show ?thesis using nn sc energy_score_formula by (simp add: Let_def)
qed

theorem energy_priority_formula_witness:
  "energy_priority (update_energy_priority (blank_proc\<lparr>cpu_ticks := 40, sleep_count := 2, wake_count := 1\<rparr>)) = 8990"
  using energy_priority_formula[of "blank_proc\<lparr>cpu_ticks := 40, sleep_count := 2, wake_count := 1\<rparr>"]
  by (simp add: energy_in_range_def blank_proc_def)



section \<open>Wakeup\<close>

lemma wakeup_simps [simp]:
  "cpus (wakeup h c s) = cpus s" "locks (wakeup h c s) = locks s"
  "length (proc (wakeup h c s)) = length (proc s)" "myproc h' (wakeup h c s) = myproc h' s"
  "stimecmp (wakeup h c s) = stimecmp s" "idle_governor (wakeup h c s) = idle_governor s"
  "ticks (wakeup h c s) = ticks s" "tframe (wakeup h c s) = tframe s"
  by (simp_all add: wakeup_def myproc_def)

lemma wakeup_nth:
  "i < length (proc s) \<Longrightarrow> proc (wakeup h c s) ! i =
     (let p = proc s ! i in
      if Some i \<noteq> myproc h s \<and> p_state p = SLEEPING \<and> p_chan p = c
      then p\<lparr>p_state := RUNNABLE, wake_count := i32 (wake_count p + 1)\<rparr> else p)"
  by (simp add: wakeup_def nth_enumerate_eq Let_def)

lemma wakeup_self [simp]:
  "myproc h s = Some i \<Longrightarrow> i < length (proc s) \<Longrightarrow> proc (wakeup h c s) ! i = proc s ! i"
  by (simp add: wakeup_nth Let_def)

lemma wakeup_pid [simp]: "i < length (proc s) \<Longrightarrow> p_pid (proc (wakeup h c s) ! i) = p_pid (proc s ! i)"
  by (simp add: wakeup_nth Let_def)

end
