(* ===== verification/Energy.thy ===== *)
theory Energy
  imports Proc
begin

text \<open>
  The GreenOS energy features above the scheduler: the timer interrupt with CPU accounting and
  budget enforcement (\<^verbatim>\<open>clockintr\<close> in \<^verbatim>\<open>kernel/trap.c\<close>), the system calls on power mode, CPU
  statistics and budget (\<^verbatim>\<open>kernel/sysproc.c\<close>), and the fetching of register arguments they use
  (\<^verbatim>\<open>kernel/syscall.c\<close>). The timer value read from the CPU is an argument.
\<close>

section \<open>System-call arguments\<close>

definition argraw :: "nat \<Rightarrow> nat \<Rightarrow> 'a kproc_scheme \<Rightarrow> (u64, 'a kproc_scheme) res" where
  "argraw h n s =
     (case myproc h s of
        None \<Rightarrow> Panic ''kerneltrap''
      | Some i \<Rightarrow>
          let tf = tframe s (p_trapframe (proc s ! i)) in
          if n = 0 then Ok (tf_a0 tf) s
          else if n = 1 then Ok (tf_a1 tf) s
          else if n = 2 then Ok (tf_a2 tf) s
          else if n = 3 then Ok (tf_a3 tf) s
          else if n = 4 then Ok (tf_a4 tf) s
          else if n = 5 then Ok (tf_a5 tf) s
          else Panic ''argraw'')"

definition argint :: "nat \<Rightarrow> nat \<Rightarrow> 'a kproc_scheme \<Rightarrow> (int, 'a kproc_scheme) res" where
  "argint h n s = bnd (argraw h n s) (\<lambda>w s. Ok (i32 (uint w)) s)"

definition argaddr :: "nat \<Rightarrow> nat \<Rightarrow> 'a kproc_scheme \<Rightarrow> (u64, 'a kproc_scheme) res" where
  "argaddr h n s = argraw h n s"

section \<open>The timer interrupt\<close>

text \<open>The value is \<open>None\<close> when the handler runs to its end, and \<open>Some ie\<close> when it leaves through
  \<^verbatim>\<open>yield\<close>; the code after that \<^verbatim>\<open>yield\<close> is a bare \<^verbatim>\<open>return\<close>.\<close>

definition clockintr ::
  "nat \<Rightarrow> u64 \<Rightarrow> 'a kproc_scheme \<Rightarrow> (bool option, 'a kproc_scheme) res" where
  "clockintr h time s =
     (let s = (if h = 0 then wakeup h ChanTicks (s\<lparr>ticks := ticks s + 1\<rparr>) else s) in
      case myproc h s of
        None \<Rightarrow> Ok None (s\<lparr>stimecmp := (stimecmp s)(h := time + 1000000)\<rparr>)
      | Some i \<Rightarrow>
          let s = upd_proc i (\<lambda>p. p\<lparr>cpu_ticks := i32 (cpu_ticks p + 1)\<rparr>) s;
              p = proc s ! i
          in if energy_budget p > 0 \<and> i32 (cpu_ticks p - energy_used p) > energy_budget p
             then bnd (yield h (upd_proc i (\<lambda>p. p\<lparr>energy_priority := 0\<rparr>) s))
                    (\<lambda>ie s. Ok (Some ie) s)
             else Ok None (s\<lparr>stimecmp := (stimecmp s)(h := time + 1000000)\<rparr>))"

section \<open>System calls\<close>

definition sys_getpid :: "nat \<Rightarrow> 'a kproc_scheme \<Rightarrow> (u64, 'a kproc_scheme) res" where
  "sys_getpid h s =
     (case myproc h s of
        None \<Rightarrow> Panic ''kerneltrap''
      | Some i \<Rightarrow> Ok (word_of_int (p_pid (proc s ! i))) s)"

definition sys_kill :: "nat \<Rightarrow> 'a kproc_scheme \<Rightarrow> (u64, 'a kproc_scheme) res" where
  "sys_kill h s = bnd (argint h 0 s) (\<lambda>pid s. case kkill pid s of (r, s) \<Rightarrow> Ok (word_of_int r) s)"

definition sys_uptime :: "'a kproc_scheme \<Rightarrow> (u64, 'a kproc_scheme) res" where
  "sys_uptime s = Ok (ucast (ticks s)) s"

text \<open>\<^verbatim>\<open>sys_pause\<close> starts by recording \<^verbatim>\<open>ticks\<close>; \<open>pause_loop\<close> is one test of its loop, taken
  again after every wakeup. \<^verbatim>\<open>ticks - ticks0 < n\<close> compares unsigned.\<close>

abbreviation (input) pause_loop :: "nat \<Rightarrow> u32 \<Rightarrow> int \<Rightarrow> 'a kproc_scheme \<Rightarrow> (u64, 'a kproc_scheme) res" where
  "pause_loop h ticks0 n s \<equiv>
     (if ticks s - ticks0 < word_of_int n then
        (case myproc h s of
           None \<Rightarrow> Panic ''kerneltrap''
         | Some i \<Rightarrow> if killed i s \<noteq> 0 then Ok (-1) s else Sleep ChanTicks s)
      else Ok 0 s)"

definition sys_pause :: "nat \<Rightarrow> 'a kproc_scheme \<Rightarrow> (u64, 'a kproc_scheme) res" where
  "sys_pause h s =
     bnd (argint h 0 s) (\<lambda>n s. pause_loop h (ticks s) (if n < 0 then 0 else n) s)"

definition sys_set_power_mode :: "nat \<Rightarrow> 'a kproc_scheme \<Rightarrow> (u64, 'a kproc_scheme) res" where
  "sys_set_power_mode h s =
     bnd (argint h 0 s) (\<lambda>mode s.
       if mode < 0 \<or> mode > 2 then Ok (-1) s
       else Ok 0 (s\<lparr>idle_governor := (idle_governor s)\<lparr>current_mode := mode\<rparr>\<rparr>))"

definition sys_get_cpu_stats :: "'a kproc_scheme \<Rightarrow> (u64, 'a kproc_scheme) res" where
  "sys_get_cpu_stats s =
     (let idle = idle_ticks (idle_governor s);
          active = active_ticks (idle_governor s);
          total = idle + active
      in if total = 0 then Ok 0 s else Ok ((active * 100) div total) s)"

definition sys_set_energy_budget :: "nat \<Rightarrow> 'a kproc_scheme \<Rightarrow> (u64, 'a kproc_scheme) res" where
  "sys_set_energy_budget h s =
     bnd (argint h 0 s) (\<lambda>budget s.
       if budget < 0 then Ok (-1) s
       else case myproc h s of
              None \<Rightarrow> Panic ''kerneltrap''
            | Some i \<Rightarrow>
                Ok 0 (upd_proc i (\<lambda>p. p\<lparr>energy_budget := budget, energy_used := cpu_ticks p\<rparr>) s))"

text \<open>Timer interrupts in a row on one CPU, at the given times, until one leaves through
  \<^verbatim>\<open>yield\<close>.\<close>

fun clock_run :: "nat \<Rightarrow> u64 list \<Rightarrow> 'a kproc_scheme \<Rightarrow> (bool option, 'a kproc_scheme) res" where
  "clock_run h [] s = Ok None s"
| "clock_run h (t # ts) s =
     bnd (clockintr h t s) (\<lambda>r s. case r of Some ie \<Rightarrow> Ok (Some ie) s | None \<Rightarrow> clock_run h ts s)"

section \<open>Frame lemmas\<close>

text \<open>The state in which the body of the handler sees the current process: \<^verbatim>\<open>ticks\<close> counted and
  its sleepers woken on CPU 0.\<close>

definition clock_pre :: "nat \<Rightarrow> 'a kproc_scheme \<Rightarrow> 'a kproc_scheme" where
  "clock_pre h s = (if h = 0 then wakeup h ChanTicks (s\<lparr>ticks := ticks s + 1\<rparr>) else s)"

lemma myproc_ticks [simp]: "myproc h (s\<lparr>ticks := x\<rparr>) = myproc h s"
  by (simp add: myproc_def)

lemma clock_pre_simps [simp]:
  "cpus (clock_pre h s) = cpus s" "locks (clock_pre h s) = locks s"
  "length (proc (clock_pre h s)) = length (proc s)" "myproc h' (clock_pre h s) = myproc h' s"
  "stimecmp (clock_pre h s) = stimecmp s"
  "myproc h s = Some i \<Longrightarrow> i < length (proc s) \<Longrightarrow> proc (clock_pre h s) ! i = proc s ! i"
  by (auto simp: clock_pre_def)

section \<open>Budget enforcement\<close>

text \<open>What one timer interrupt does to the running process, below and above its budget.\<close>

lemma clockintr_within:
  assumes "myproc h s = Some i" and "i < length (proc s)"
    and "\<not> (energy_budget (proc s ! i) > 0 \<and>
            i32 (i32 (cpu_ticks (proc s ! i) + 1) - energy_used (proc s ! i)) > energy_budget (proc s ! i))"
  shows "\<exists>t. clockintr h time s = Ok None t \<and> stimecmp t h = time + 1000000 \<and>
     proc t ! i = (proc s ! i)\<lparr>cpu_ticks := i32 (cpu_ticks (proc s ! i) + 1)\<rparr> \<and>
     cpus t = cpus s \<and> locks t = locks s \<and> length (proc t) = length (proc s)"
  using assms unfolding clockintr_def clock_pre_def[symmetric]
  by (auto simp: Let_def)

lemma clockintr_exceeded:
  assumes "myproc h s = Some i" and "i < length (proc s)"
    and "energy_budget (proc s ! i) > 0"
    and "i32 (i32 (cpu_ticks (proc s ! i) + 1) - energy_used (proc s ! i)) > energy_budget (proc s ! i)"
    and "\<not> lk_locked (locks s (LkProc i))" and "c_noff (cpus s h) = 0"
  shows "\<exists>t. clockintr h time s = Ok (Some (c_sie (cpus s h))) t \<and> stimecmp t = stimecmp s \<and>
     proc t ! i = (proc s ! i)\<lparr>cpu_ticks := i32 (cpu_ticks (proc s ! i) + 1), energy_priority := 0,
                                p_state := RUNNABLE\<rparr>"
proof -
  let ?s = "upd_proc i (\<lambda>p. p\<lparr>energy_priority := 0\<rparr>)
              (upd_proc i (\<lambda>p. p\<lparr>cpu_ticks := i32 (cpu_ticks p + 1)\<rparr>) (clock_pre h s))"
  have "yield h ?s = Ok (c_sie (cpus ?s h))
      (upd_proc i (\<lambda>p. p\<lparr>p_state := RUNNABLE\<rparr>) (acq_state h (LkProc i) ?s))"
    by (rule yield_free) (use assms in \<open>simp_all add: myproc_def\<close>)
  then show ?thesis using assms unfolding clockintr_def clock_pre_def[symmetric]
    by (simp add: Let_def)
qed

lemma clock_run_within:
  assumes "myproc h s = Some i" and "i < length (proc s)" and "0 < energy_budget (proc s ! i)"
    and "energy_used (proc s ! i) \<le> cpu_ticks (proc s ! i)" and "0 \<le> energy_used (proc s ! i)"
    and "cpu_ticks (proc s ! i) + int (length ts) \<le> energy_used (proc s ! i) + energy_budget (proc s ! i)"
    and "energy_used (proc s ! i) + energy_budget (proc s ! i) < 2 ^ 31 - 1"
  shows "\<exists>t. clock_run h ts s = Ok None t \<and> cpus t = cpus s \<and> locks t = locks s \<and>
     length (proc t) = length (proc s) \<and>
     proc t ! i = (proc s ! i)\<lparr>cpu_ticks := cpu_ticks (proc s ! i) + int (length ts)\<rparr>"
  using assms
proof (induction ts arbitrary: s)
  case Nil
  then show ?case by simp
next
  case (Cons tm ts)
  let ?p = "proc s ! i"
  have b: "i32 (cpu_ticks ?p + 1) = cpu_ticks ?p + 1"
    using Cons.prems by (intro i32_id) auto
  have b2: "i32 (cpu_ticks ?p + 1 - energy_used ?p) = cpu_ticks ?p + 1 - energy_used ?p"
    using Cons.prems by (intro i32_id) auto
  obtain t where t: "clockintr h tm s = Ok None t"
      "proc t ! i = ?p\<lparr>cpu_ticks := cpu_ticks ?p + 1\<rparr>" "cpus t = cpus s" "locks t = locks s"
      "length (proc t) = length (proc s)"
    using clockintr_within[OF Cons.prems(1,2), of tm] Cons.prems(6) by (auto simp: b b2)
  have m: "myproc h t = Some i" using Cons.prems(1) t(3) by (simp add: myproc_def)
  have "\<exists>u. clock_run h ts t = Ok None u \<and> cpus u = cpus t \<and> locks u = locks t \<and>
     length (proc u) = length (proc t) \<and>
     proc u ! i = (proc t ! i)\<lparr>cpu_ticks := cpu_ticks (proc t ! i) + int (length ts)\<rparr>"
    by (rule Cons.IH) (use Cons.prems m t in auto)
  then show ?case using t by (auto simp: algebra_simps)
qed

lemma argint_0:
  "myproc h s = Some i \<Longrightarrow>
   argint h 0 s = Ok (i32 (uint (tf_a0 (tframe s (p_trapframe (proc s ! i)))))) s"
  by (simp add: argint_def argraw_def Let_def)

text \<open>
  C16. Budget enforcement counts exactly: when a process sets a budget of \<open>b > 0\<close> ticks, each of
  its next \<open>b\<close> timer interrupts only counts a tick, and the one after that drops its priority to
  zero and makes it give up the CPU.
\<close>

theorem budget_exceeded_after_b_ticks:
  assumes me: "myproc h s = Some i" "i < length (proc s)"
    and arg: "i32 (uint (tf_a0 (tframe s (p_trapframe (proc s ! i))))) = b" "0 < b"
    and range: "0 \<le> cpu_ticks (proc s ! i)" "cpu_ticks (proc s ! i) + b < 2 ^ 31 - 1"
    and free: "\<not> lk_locked (locks s (LkProc i))" "c_noff (cpus s h) = 0"
    and ts: "int (length ts) = b"
  shows "\<exists>s1 t u. sys_set_energy_budget h s = Ok 0 s1 \<and> clock_run h ts s1 = Ok None t \<and>
     cpu_ticks (proc t ! i) = cpu_ticks (proc s ! i) + b \<and>
     clockintr h time t = Ok (Some (c_sie (cpus s h))) u \<and>
     p_state (proc u ! i) = RUNNABLE \<and> energy_priority (proc u ! i) = 0"
proof -
  let ?s1 = "upd_proc i (\<lambda>p. p\<lparr>energy_budget := b, energy_used := cpu_ticks p\<rparr>) s"
  have s1: "sys_set_energy_budget h s = Ok 0 ?s1"
    using me arg by (simp add: sys_set_energy_budget_def argint_0)
  have m1: "myproc h ?s1 = Some i" using me by (simp add: myproc_def)
  obtain t where t: "clock_run h ts ?s1 = Ok None t" "cpus t = cpus ?s1" "locks t = locks ?s1"
      "length (proc t) = length (proc ?s1)"
      "proc t ! i = (proc ?s1 ! i)\<lparr>cpu_ticks := cpu_ticks (proc ?s1 ! i) + int (length ts)\<rparr>"
    using clock_run_within[OF m1, of ts] me arg range ts by auto
  have mt: "myproc h t = Some i" using m1 t(2) by (simp add: myproc_def)
  have e: "i32 (i32 (cpu_ticks (proc t ! i) + 1) - energy_used (proc t ! i)) > energy_budget (proc t ! i)"
    using t(5) me ts range arg by auto
  have "\<exists>u. clockintr h time t = Ok (Some (c_sie (cpus t h))) u \<and> stimecmp u = stimecmp t \<and>
     proc u ! i = (proc t ! i)\<lparr>cpu_ticks := i32 (cpu_ticks (proc t ! i) + 1), energy_priority := 0,
                                p_state := RUNNABLE\<rparr>"
    by (rule clockintr_exceeded[OF mt _ _ e]) (use t me arg free in auto)
  then show ?thesis using s1 t me ts by auto
qed

text \<open>A running process whose budget argument register holds 2.\<close>

definition budget_state :: kproc where
  "budget_state =
     (let s = rest_state [blank_proc\<lparr>p_state := RUNNING, p_pid := 1, cpu_ticks := 7\<rparr>]
      in s\<lparr>cpus := (cpus s)(1 := boot_cpu\<lparr>c_proc := Some 0, c_sie := False\<rparr>),
           tframe := (\<lambda>_. blank_tframe\<lparr>tf_a0 := 2\<rparr>)\<rparr>)"

theorem budget_exceeded_after_b_ticks_witness:
  "\<exists>s1 t u. sys_set_energy_budget 1 budget_state = Ok 0 s1 \<and> clock_run 1 [10, 20] s1 = Ok None t \<and>
     clockintr 1 30 t = Ok (Some False) u \<and> energy_priority (proc u ! 0) = 0"
proof -
  have s: "myproc 1 budget_state = Some 0" "0 < length (proc budget_state)"
    "i32 (uint (tf_a0 (tframe budget_state (p_trapframe (proc budget_state ! 0))))) = 2"
    "cpu_ticks (proc budget_state ! 0) = 7" "\<not> lk_locked (locks budget_state (LkProc 0))"
    "c_noff (cpus budget_state 1) = 0" "\<not> c_sie (cpus budget_state 1)"
    by (simp_all add: budget_state_def rest_state_def myproc_def boot_world_def boot_cpu_def Let_def
        blank_tframe_def)
  from budget_exceeded_after_b_ticks[OF s(1-3) _ _ _ s(5,6), of "[10, 20]" 30] s(4,7)
  show ?thesis by fastforce
qed



section \<open>The throttle and the scheduler\<close>

lemma energy_score_keeps_priority:
  "update_energy_score (p\<lparr>energy_priority := x\<rparr>) = (update_energy_score p)\<lparr>energy_priority := x\<rparr>"
  by (cases "i32 (sleep_count p + wake_count p) > 0") (simp_all add: update_energy_score_def Let_def)

lemma energy_priority_recomputed:
  "update_energy_priority (p\<lparr>energy_priority := x\<rparr>) = update_energy_priority p"
  by (simp add: update_energy_priority_def energy_score_keeps_priority Let_def del: i32_id)

definition set_priority :: "nat \<Rightarrow> int \<Rightarrow> 'a kproc_scheme \<Rightarrow> 'a kproc_scheme" where
  "set_priority i x s = upd_proc i (\<lambda>p. p\<lparr>energy_priority := x\<rparr>) s"

lemma set_priority_simps:
  "length (proc (set_priority i x s)) = length (proc s)" "cpus (set_priority i x s) = cpus s"
  "locks (set_priority i x s) = locks s" "idle_governor (set_priority i x s) = idle_governor s"
  by (simp_all add: set_priority_def)

lemma set_priority_nth:
  "j < length (proc s) \<Longrightarrow>
   proc (set_priority i x s) ! j = (if j = i then (proc s ! j)\<lparr>energy_priority := x\<rparr> else proc s ! j)"
  by (auto simp: set_priority_def upd_proc_def nth_list_update)

lemma set_priority_choice:
  assumes "length (proc s) = NPROC"
  shows "best_choice (set_priority i x s) = best_choice s"
    and "j < NPROC \<Longrightarrow> runnable (set_priority i x s) j = runnable s j"
proof -
  have r: "\<And>j. j < NPROC \<Longrightarrow> runnable (set_priority i x s) j = runnable s j"
    using assms by (simp add: runnable_def set_priority_nth)
  have f: "\<And>j. j < NPROC \<Longrightarrow> fresh_priority (set_priority i x s) j = fresh_priority s j"
    using assms by (simp add: fresh_priority_def set_priority_nth energy_priority_recomputed)
  show "best_choice (set_priority i x s) = best_choice s"
    by (rule ext) (simp add: best_choice_def r f cong: conj_cong)
  show "j < NPROC \<Longrightarrow> runnable (set_priority i x s) j = runnable s j" by (rule r)
qed

text \<open>
  C21. The throttle has no effect on scheduling: whatever value \<^verbatim>\<open>clockintr\<close> leaves in the
  \<^verbatim>\<open>energy_priority\<close> of a process, the next pass of the scheduler takes the same decision, because it
  recomputes the priority of every process it looks at before it compares.
\<close>

theorem throttle_ignored_by_scheduler:
  assumes "sched_ready h s"
  shows "\<exists>a t u. scheduler_pass h s = Ok a t \<and> scheduler_pass h (set_priority i x s) = Ok a u"
proof (cases "\<exists>j<NPROC. runnable s j")
  case True
  have r: "sched_ready h (set_priority i x s)" and len: "length (proc s) = NPROC"
    using assms by (simp_all add: sched_ready_def set_priority_simps)
  have ex: "\<exists>j<NPROC. runnable (set_priority i x s) j"
    using True set_priority_choice(2)[OF len] by blast
  obtain b t where b: "scheduler_pass h s = Ok (Switch b) t" "best_choice s b"
    using scheduler_pass_switch[OF assms True] by blast
  obtain c u where c: "scheduler_pass h (set_priority i x s) = Ok (Switch c) u"
      "best_choice (set_priority i x s) c"
    using scheduler_pass_switch[OF r ex] by blast
  have "c = b" using b(2) c(2) best_choice_unique set_priority_choice(1)[OF len] by metis
  then show ?thesis using b c by blast
next
  case False
  have r: "sched_ready h (set_priority i x s)" and len: "length (proc s) = NPROC"
    using assms by (simp_all add: sched_ready_def set_priority_simps)
  have n: "\<forall>j<NPROC. \<not> runnable s j" using False by blast
  have n': "\<forall>j<NPROC. \<not> runnable (set_priority i x s) j"
    using n set_priority_choice(2)[OF len] by blast
  obtain t where "scheduler_pass h s = Ok (Idle (wfi_count (current_mode (idle_governor s)))) t"
    using scheduler_pass_idle[OF assms n] by blast
  moreover obtain u where "scheduler_pass h (set_priority i x s)
      = Ok (Idle (wfi_count (current_mode (idle_governor s)))) u"
    using scheduler_pass_idle[OF r n'] unfolding set_priority_simps by blast
  ultimately show ?thesis by blast
qed

definition throttle_state :: kproc where
  "throttle_state = rest_state [blank_proc\<lparr>p_state := RUNNABLE, energy_priority := 40\<rparr>]"

theorem throttle_ignored_by_scheduler_witness:
  "\<exists>a t u. scheduler_pass 0 throttle_state = Ok a t \<and>
     scheduler_pass 0 (set_priority 0 0 throttle_state) = Ok a u"
proof -
  have "sched_ready 0 throttle_state"
    unfolding throttle_state_def by (rule sched_ready_rest) (simp add: NPROC_def)
  then show ?thesis by (rule throttle_ignored_by_scheduler)
qed

section \<open>Statistics and modes\<close>

text \<open>
  \<^verbatim>\<open>get_cpu_stats\<close> reports the share of scheduler passes that found work as a whole percentage
  rounded down, never above 100, as long as the counters stay below the point where
  \<^verbatim>\<open>active * 100\<close> would wrap.
\<close>

lemma cpu_stats_percentage:
  assumes "unat (idle_ticks (idle_governor s)) + unat (active_ticks (idle_governor s)) < 2 ^ 64"
    and "unat (active_ticks (idle_governor s)) * 100 < 2 ^ 64"
  shows "\<exists>r. sys_get_cpu_stats s = Ok r s \<and> unat r \<le> 100 \<and>
     unat r = unat (active_ticks (idle_governor s)) * 100
        div (unat (idle_ticks (idle_governor s)) + unat (active_ticks (idle_governor s)))"
proof -
  let ?a = "active_ticks (idle_governor s)" and ?i = "idle_ticks (idle_governor s)"
  have t: "unat (?i + ?a) = unat ?i + unat ?a"
    using assms(1) by (intro unat_add_lem[THEN iffD1]) simp
  have m: "unat (?a * 100) = unat ?a * 100"
    using assms(2) unat_mult_lem[of ?a 100] by simp
  have z: "?i + ?a = 0 \<longleftrightarrow> unat ?i + unat ?a = 0"
    using t by (metis unat_0 unat_eq_zero)
  have d: "unat ((?a * 100) div (?i + ?a)) = unat ?a * 100 div (unat ?i + unat ?a)"
    by (simp add: unat_div m t)
  have b: "unat ?a * 100 div (unat ?i + unat ?a) \<le> 100"
    using less_mult_imp_div_less[of "unat ?a * 100" 101 "unat ?i + unat ?a"]
    by (cases "unat ?i + unat ?a = 0") auto
  show ?thesis
  proof (cases "?i + ?a = 0")
    case True
    then show ?thesis using z by (simp add: sys_get_cpu_stats_def)
  next
    case False
    then show ?thesis using d b by (simp add: sys_get_cpu_stats_def Let_def)
  qed
qed

definition stats_state :: kproc where
  "stats_state = (rest_state [])\<lparr>idle_governor := \<lparr>idle_ticks = 2, active_ticks = 1, current_mode = 1\<rparr>\<rparr>"

end
