(* ===== verification/Kalloc.thy ===== *)
theory Kalloc
  imports CString Proc
begin

text \<open>
  Physical memory and the page allocator of \<^verbatim>\<open>kernel/kalloc.c\<close>. Memory is a function from physical
  addresses to bytes; the kernel maps it one to one. The free pages form a linked list through the
  first eight bytes of each page, exactly as in the source. The linker symbols \<^verbatim>\<open>end\<close>, \<^verbatim>\<open>etext\<close> and
  \<^verbatim>\<open>trampoline\<close> are fields of the state that no operation changes.
\<close>

section \<open>Doublewords in byte memory\<close>

text \<open>RISC-V is little endian.\<close>

definition ld64 :: "mem \<Rightarrow> nat \<Rightarrow> u64" where
  "ld64 m a =
     ucast (m a) OR push_bit 8 (ucast (m (a + 1))) OR push_bit 16 (ucast (m (a + 2))) OR
     push_bit 24 (ucast (m (a + 3))) OR push_bit 32 (ucast (m (a + 4))) OR
     push_bit 40 (ucast (m (a + 5))) OR push_bit 48 (ucast (m (a + 6))) OR
     push_bit 56 (ucast (m (a + 7)))"

definition st64 :: "mem \<Rightarrow> nat \<Rightarrow> u64 \<Rightarrow> mem" where
  "st64 m a v = (\<lambda>b. if a \<le> b \<and> b < a + 8 then ucast (drop_bit (8 * (b - a)) v) else m b)"

text \<open>\<open>kmem_freelist\<close> is \<^verbatim>\<open>kmem.freelist\<close> with 0 for the null pointer.\<close>

record kvm = kproc +
  kmem_freelist :: u64
  phys :: mem
  kernel_pagetable :: u64
  satp :: "nat \<Rightarrow> u64"
  k_end :: u64
  k_etext :: u64
  k_trampoline :: u64

section \<open>The allocator\<close>

definition kfree :: "u64 \<Rightarrow> 'a kvm_scheme \<Rightarrow> (unit, 'a kvm_scheme) res" where
  "kfree pa s =
     (if pa mod PGSIZE \<noteq> 0 \<or> pa < k_end s \<or> pa \<ge> PHYSTOP then Panic ''kfree''
      else let m = memset (phys s) (unat pa) 1 4096;
               m = st64 m (unat pa) (kmem_freelist s)
           in Ok () (s\<lparr>phys := m, kmem_freelist := pa\<rparr>))"

definition kalloc :: "'a kvm_scheme \<Rightarrow> (u64, 'a kvm_scheme) res" where
  "kalloc s =
     (let r = kmem_freelist s in
      if r \<noteq> 0 then
        Ok r (s\<lparr>kmem_freelist := ld64 (phys s) (unat r), phys := memset (phys s) (unat r) 5 4096\<rparr>)
      else Ok r s)"

lemma bnd_cong [fundef_cong]:
  "m = m' \<Longrightarrow> (\<And>x t. m' = Ok x t \<Longrightarrow> f x t = g x t) \<Longrightarrow> bnd m f = bnd m' g"
  by (cases m') auto

lemma unat_PHYSTOP: "unat PHYSTOP = 0x88000000"
  by (simp add: PHYSTOP_def KERNBASE_def)

lemma kfree_Ok_below: "kfree pa s = Ok u t \<Longrightarrow> unat pa < 0x88000000"
  using unat_PHYSTOP by (simp add: kfree_def Let_def word_less_nat_alt word_le_nat_alt split: if_splits)

lemma unat_add_page: "unat (a :: u64) < 2 ^ 63 \<Longrightarrow> unat (a + 4096) = unat a + 4096"
  by (subst unat_add_lem[THEN iffD1]) simp_all

function freerange_loop :: "u64 \<Rightarrow> u64 \<Rightarrow> 'a kvm_scheme \<Rightarrow> (unit, 'a kvm_scheme) res" where
  "freerange_loop p pa_end s =
     (if p + PGSIZE \<le> pa_end
      then bnd (kfree p s) (\<lambda>_ s. freerange_loop (p + PGSIZE) pa_end s)
      else Ok () s)"
  by pat_completeness auto
termination
  by (relation "measure (\<lambda>(p, e, s). 2 ^ 64 - unat p)")
     (auto dest!: kfree_Ok_below simp: unat_add_page PGSIZE_def)

definition freerange :: "u64 \<Rightarrow> u64 \<Rightarrow> 'a kvm_scheme \<Rightarrow> (unit, 'a kvm_scheme) res" where
  "freerange pa_start pa_end s = freerange_loop (PGROUNDUP pa_start) pa_end s"

definition kinit :: "'a kvm_scheme \<Rightarrow> (unit, 'a kvm_scheme) res" where
  "kinit s = freerange (k_end s) PHYSTOP (initlock LkKmem ''kmem'' s)"

declare freerange_loop.simps [simp del]

section \<open>Reading back doublewords\<close>

lemma bit_byte_at:
  assumes n: "n < 64" and j: "j = 8 * k"
  shows "bit (push_bit j (ucast (b :: byte)) :: u64) n \<longleftrightarrow> n div 8 = k \<and> bit b (n mod 8)"
proof -
  have l: "bit b j \<Longrightarrow> j < 8" for j using bit_imp_le_length[of b j] by simp
  have "n = 8 * (n div 8) + n mod 8" "n mod 8 < 8" by simp_all
  then obtain q r where nqr: "n = 8 * q + r" "r < 8" by blast
  have "8 * k \<le> n \<and> bit b (n - 8 * k) \<longleftrightarrow> n div 8 = k \<and> bit b (n mod 8)"
  proof (cases "k = q")
    case True
    then show ?thesis using nqr by simp
  next
    case False
    have "8 * k \<le> n \<Longrightarrow> \<not> bit b (n - 8 * k)" using False nqr l[of "n - 8 * k"] by arith
    then show ?thesis using False nqr by auto
  qed
  then show ?thesis using n by (auto simp: j bit_push_bit_iff bit_ucast_iff)
qed

lemma bit_ld64:
  assumes "n < 64"
  shows "bit (ld64 m a) n \<longleftrightarrow> bit (m (a + n div 8)) (n mod 8)"
proof -
  have "n div 8 < 8" using assms by simp
  then have c: "n div 8 = 0 \<or> n div 8 = 1 \<or> n div 8 = 2 \<or> n div 8 = 3 \<or> n div 8 = 4 \<or> n div 8 = 5
      \<or> n div 8 = 6 \<or> n div 8 = 7" by linarith
  have b0: "bit (push_bit 0 (ucast (b :: byte)) :: u64) n \<longleftrightarrow> n div 8 = 0 \<and> bit b (n mod 8)" for b
    by (rule bit_byte_at[OF assms]) simp
  have b1: "bit (push_bit 8 (ucast (b :: byte)) :: u64) n \<longleftrightarrow> n div 8 = 1 \<and> bit b (n mod 8)" for b
    by (rule bit_byte_at[OF assms]) simp
  have b2: "bit (push_bit 16 (ucast (b :: byte)) :: u64) n \<longleftrightarrow> n div 8 = 2 \<and> bit b (n mod 8)" for b
    by (rule bit_byte_at[OF assms]) simp
  have b3: "bit (push_bit 24 (ucast (b :: byte)) :: u64) n \<longleftrightarrow> n div 8 = 3 \<and> bit b (n mod 8)" for b
    by (rule bit_byte_at[OF assms]) simp
  have b4: "bit (push_bit 32 (ucast (b :: byte)) :: u64) n \<longleftrightarrow> n div 8 = 4 \<and> bit b (n mod 8)" for b
    by (rule bit_byte_at[OF assms]) simp
  have b5: "bit (push_bit 40 (ucast (b :: byte)) :: u64) n \<longleftrightarrow> n div 8 = 5 \<and> bit b (n mod 8)" for b
    by (rule bit_byte_at[OF assms]) simp
  have b6: "bit (push_bit 48 (ucast (b :: byte)) :: u64) n \<longleftrightarrow> n div 8 = 6 \<and> bit b (n mod 8)" for b
    by (rule bit_byte_at[OF assms]) simp
  have b7: "bit (push_bit 56 (ucast (b :: byte)) :: u64) n \<longleftrightarrow> n div 8 = 7 \<and> bit b (n mod 8)" for b
    by (rule bit_byte_at[OF assms]) simp
  have "bit (ld64 m a) n \<longleftrightarrow> (n div 8 = 0 \<and> bit (m a) (n mod 8)) \<or> (n div 8 = 1 \<and> bit (m (a + 1)) (n mod 8))
    \<or> (n div 8 = 2 \<and> bit (m (a + 2)) (n mod 8)) \<or> (n div 8 = 3 \<and> bit (m (a + 3)) (n mod 8))
    \<or> (n div 8 = 4 \<and> bit (m (a + 4)) (n mod 8)) \<or> (n div 8 = 5 \<and> bit (m (a + 5)) (n mod 8))
    \<or> (n div 8 = 6 \<and> bit (m (a + 6)) (n mod 8)) \<or> (n div 8 = 7 \<and> bit (m (a + 7)) (n mod 8))"
    unfolding ld64_def bit_or_iff b1 b2 b3 b4 b5 b6 b7 b0[unfolded push_bit_0_id id_apply] by (simp only: disj_assoc)
  with c show ?thesis by (elim disjE) simp_all
qed


lemma ld64_cong: "(\<And>k. k < 8 \<Longrightarrow> m (a + k) = m' (a + k)) \<Longrightarrow> ld64 m a = ld64 m' a"
  by (rule bit_word_eqI) (simp add: bit_ld64)

lemma st64_outside [simp]: "b < a \<or> a + 8 \<le> b \<Longrightarrow> st64 m a v b = m b"
  by (auto simp: st64_def)

lemma ld64_st64_same [simp]: "ld64 (st64 m a v) a = v"
proof (rule bit_word_eqI)
  fix n assume n: "n < LENGTH(64)"
  have "n div 8 < 8" "n = 8 * (n div 8) + n mod 8" "n mod 8 < 8" using n by simp_all
  then show "bit (ld64 (st64 m a v) a) n = bit v n"
    using n by (simp add: bit_ld64 st64_def bit_ucast_iff bit_drop_bit_eq)
qed

lemma ld64_st64_other: "b + 8 \<le> a \<or> a + 8 \<le> b \<Longrightarrow> ld64 (st64 m a v) b = ld64 m b"
  by (rule ld64_cong) auto

lemma ld64_memset_zero: "dst \<le> a \<Longrightarrow> a + 8 \<le> dst + n \<Longrightarrow> ld64 (memset m dst 0 n) a = 0"
  by (rule bit_word_eqI) (auto simp: bit_ld64 memset_apply)

lemma ld64_memset_other: "a + 8 \<le> dst \<or> dst + n \<le> a \<Longrightarrow> ld64 (memset m dst c n) a = ld64 m a"
  by (rule ld64_cong) (auto simp: memset_apply)

section \<open>The free list\<close>

text \<open>\<open>page_ok\<close> is the check of \<^verbatim>\<open>kfree\<close>; \<open>page_addrs x\<close> is the page at \<open>x\<close>.\<close>

definition page_ok :: "'a kvm_scheme \<Rightarrow> u64 \<Rightarrow> bool" where
  "page_ok s pa \<longleftrightarrow> pa mod PGSIZE = 0 \<and> k_end s \<le> pa \<and> pa < PHYSTOP"

definition page_addrs :: "u64 \<Rightarrow> nat set" where
  "page_addrs x = {unat x ..< unat x + 4096}"

fun flist :: "mem \<Rightarrow> u64 \<Rightarrow> u64 list \<Rightarrow> bool" where
  "flist m p [] \<longleftrightarrow> p = 0"
| "flist m p (x # xs) \<longleftrightarrow> p = x \<and> x \<noteq> 0 \<and> flist m (ld64 m (unat x)) xs"

text \<open>The free list of the state holds exactly the pages \<open>xs\<close>, each once, and each a page that
  \<^verbatim>\<open>kfree\<close> accepts; \<^verbatim>\<open>end\<close> is above page zero.\<close>

definition free_pages :: "'a kvm_scheme \<Rightarrow> u64 list \<Rightarrow> bool" where
  "free_pages s xs \<longleftrightarrow> flist (phys s) (kmem_freelist s) xs \<and> distinct xs \<and>
     (\<forall>x\<in>set xs. page_ok s x) \<and> 0 < k_end s"

text \<open>The allocator and the page-table code change memory and the free list and nothing else of
  the state.\<close>

definition mem_only :: "'a kvm_scheme \<Rightarrow> 'a kvm_scheme \<Rightarrow> bool" where
  "mem_only s t \<longleftrightarrow> (\<exists>m f. t = s\<lparr>phys := m, kmem_freelist := f\<rparr>)"

lemma mem_onlyD:
  assumes "mem_only s t"
  shows "k_end t = k_end s" "proc t = proc s" "myproc h t = myproc h s" "page_ok t = page_ok s"
    "cpus t = cpus s" "locks t = locks s" "tframe t = tframe s"
    "kernel_pagetable t = kernel_pagetable s" "k_etext t = k_etext s" "k_trampoline t = k_trampoline s"
proof -
  obtain m f where t: "t = s\<lparr>phys := m, kmem_freelist := f\<rparr>"
    using assms unfolding mem_only_def by blast
  show "page_ok t = page_ok s" by (rule ext) (simp add: page_ok_def t)
qed (use assms in \<open>auto simp: mem_only_def myproc_def\<close>)

lemma mem_only_refl [simp]: "mem_only s s"
proof -
  have "s = s\<lparr>phys := phys s, kmem_freelist := kmem_freelist s\<rparr>" by simp
  then show ?thesis unfolding mem_only_def by blast
qed

lemma mem_only_phys [simp]: "mem_only s (s\<lparr>phys := m\<rparr>)"
proof -
  have "s\<lparr>phys := m\<rparr> = s\<lparr>phys := m, kmem_freelist := kmem_freelist s\<rparr>" by simp
  then show ?thesis unfolding mem_only_def by blast
qed

lemma mem_only_trans [trans]: "mem_only s t \<Longrightarrow> mem_only t u \<Longrightarrow> mem_only s u"
proof -
  assume "mem_only s t" "mem_only t u"
  then obtain m f n g where "t = s\<lparr>phys := m, kmem_freelist := f\<rparr>" "u = t\<lparr>phys := n, kmem_freelist := g\<rparr>"
    unfolding mem_only_def by blast
  then have "u = s\<lparr>phys := n, kmem_freelist := g\<rparr>" by simp
  then show ?thesis unfolding mem_only_def by blast
qed

lemma mem_only_sym: "mem_only s t \<Longrightarrow> mem_only t s"
proof -
  assume "mem_only s t"
  then obtain m f where "t = s\<lparr>phys := m, kmem_freelist := f\<rparr>" by (auto simp: mem_only_def)
  then have "s = t\<lparr>phys := phys s, kmem_freelist := kmem_freelist s\<rparr>" by simp
  then show ?thesis unfolding mem_only_def by blast
qed

lemma page_ok_aligned: "page_ok s x \<Longrightarrow> 4096 dvd unat x"
proof -
  assume "page_ok s x"
  then have "unat (x mod 4096) = 0" by (simp add: page_ok_def PGSIZE_def)
  then show ?thesis by (simp add: unat_mod mod_eq_0_iff_dvd)
qed

lemma page_ok_bound: "page_ok s x \<Longrightarrow> unat x + 4096 \<le> 0x88000000"
proof -
  assume p: "page_ok s x"
  then have "4096 dvd unat x" by (rule page_ok_aligned)
  then obtain k where k: "unat x = 4096 * k" by (rule dvdE)
  have "unat x < 0x88000000" using p by (simp add: page_ok_def word_less_nat_alt unat_PHYSTOP)
  then have "4096 * k < 4096 * 0x88000" using k by simp
  then have "k + 1 \<le> 0x88000" by simp
  then show ?thesis using k by simp
qed

lemma page_ok_nonzero: "page_ok s x \<Longrightarrow> 0 < k_end s \<Longrightarrow> x \<noteq> 0"
  by (auto simp: page_ok_def)

lemma aligned_disjoint:
  assumes "4096 dvd (a :: nat)" and "4096 dvd b" and "a \<noteq> b"
  shows "a + 4096 \<le> b \<or> b + 4096 \<le> a"
  using assms by (auto elim!: dvdE)

lemma pages_apart:
  "page_ok s x \<Longrightarrow> page_ok s y \<Longrightarrow> x \<noteq> y \<Longrightarrow> unat x + 4096 \<le> unat y \<or> unat y + 4096 \<le> unat x"
  using aligned_disjoint page_ok_aligned word_unat_eq_iff by metis

lemma page_addrs_disjoint:
  "page_ok s x \<Longrightarrow> page_ok s y \<Longrightarrow> x \<noteq> y \<Longrightarrow> page_addrs x \<inter> page_addrs y = {}"
  using pages_apart[of s x y] by (auto simp: page_addrs_def)

lemma flist_cong:
  "(\<And>x k. x \<in> set xs \<Longrightarrow> k < 8 \<Longrightarrow> m (unat x + k) = m' (unat x + k)) \<Longrightarrow> flist m p xs = flist m' p xs"
proof (induction xs arbitrary: p)
  case (Cons x xs)
  have "ld64 m (unat x) = ld64 m' (unat x)" by (rule ld64_cong) (use Cons.prems in simp)
  then show ?case using Cons by simp
qed simp

text \<open>Memory outside the free pages can change without harm to the list.\<close>

lemma free_pages_frame:
  assumes "free_pages s xs" and "kmem_freelist t = kmem_freelist s" and "k_end t = k_end s"
    and "\<And>x b. x \<in> set xs \<Longrightarrow> b \<in> page_addrs x \<Longrightarrow> phys t b = phys s b"
  shows "free_pages t xs"
proof -
  have "flist (phys t) (kmem_freelist s) xs = flist (phys s) (kmem_freelist s) xs"
    by (rule flist_cong) (use assms(4) in \<open>auto simp: page_addrs_def\<close>)
  then show ?thesis using assms(1-3) by (auto simp: free_pages_def page_ok_def)
qed

section \<open>The allocator on lists\<close>

text \<open>\<^verbatim>\<open>kfree\<close> pushes the page, \<^verbatim>\<open>kalloc\<close> pops it; nothing outside that page changes.\<close>

lemma kfree_push:
  assumes f: "free_pages s xs" and p: "page_ok s pa" and n: "pa \<notin> set xs"
  shows "\<exists>t. kfree pa s = Ok () t \<and> free_pages t (pa # xs) \<and>
     (\<forall>b. b \<notin> page_addrs pa \<longrightarrow> phys t b = phys s b) \<and> mem_only s t"
proof -
  let ?m = "st64 (memset (phys s) (unat pa) 1 4096) (unat pa) (kmem_freelist s)"
  have k: "kfree pa s = Ok () (s\<lparr>phys := ?m, kmem_freelist := pa\<rparr>)"
    using p by (auto simp: kfree_def page_ok_def Let_def not_le not_less)
  have fr: "b \<notin> page_addrs pa \<Longrightarrow> ?m b = phys s b" for b
    by (auto simp: page_addrs_def st64_def memset_apply)
  have "flist ?m (kmem_freelist s) xs = flist (phys s) (kmem_freelist s) xs"
  proof (rule flist_cong)
    fix x k assume x: "x \<in> set xs" "k < (8 :: nat)"
    then have "page_ok s x" "x \<noteq> pa" using f n by (auto simp: free_pages_def)
    then have "unat x + k \<notin> page_addrs pa"
      using page_addrs_disjoint[OF _ p, of x] x(2) by (auto simp: page_addrs_def)
    then show "?m (unat x + k) = phys s (unat x + k)" by (rule fr)
  qed
  then have "free_pages (s\<lparr>phys := ?m, kmem_freelist := pa\<rparr>) (pa # xs)"
    using f p n page_ok_nonzero[OF p] by (auto simp: free_pages_def page_ok_def)
  moreover have "mem_only s (s\<lparr>phys := ?m, kmem_freelist := pa\<rparr>)" unfolding mem_only_def by blast
  ultimately show ?thesis using k fr by auto
qed

lemma kalloc_pop:
  assumes f: "free_pages s (x # xs)"
  shows "\<exists>t. kalloc s = Ok x t \<and> free_pages t xs \<and> x \<noteq> 0 \<and> x \<notin> set xs \<and> page_ok s x \<and>
     (\<forall>b. phys t b = (if b \<in> page_addrs x then 5 else phys s b)) \<and>
     mem_only s t"
proof -
  have x: "kmem_freelist s = x" "x \<noteq> 0" "page_ok s x" "x \<notin> set xs"
    using f by (auto simp: free_pages_def)
  let ?t = "s\<lparr>phys := memset (phys s) (unat x) 5 4096, kmem_freelist := ld64 (phys s) (unat x)\<rparr>"
  have "flist (phys ?t) (ld64 (phys s) (unat x)) xs = flist (phys s) (ld64 (phys s) (unat x)) xs"
  proof (rule flist_cong)
    fix y k assume y: "y \<in> set xs" "k < (8 :: nat)"
    then have "page_ok s y" "y \<noteq> x" using f x by (auto simp: free_pages_def)
    then show "phys ?t (unat y + k) = phys s (unat y + k)"
      using pages_apart[OF x(3), of y] y(2) by (auto simp: memset_apply)
  qed
  then have "free_pages ?t xs" using f by (auto simp: free_pages_def page_ok_def)
  moreover have "mem_only s ?t" unfolding mem_only_def by blast
  moreover have "kalloc s = Ok x ?t" using x by (simp add: kalloc_def)
  moreover have "\<forall>b. phys ?t b = (if b \<in> page_addrs x then 5 else phys s b)"
    by (simp add: page_addrs_def memset_apply)
  ultimately show ?thesis using x by blast
qed

lemma kalloc_empty: "free_pages s [] \<Longrightarrow> kalloc s = Ok 0 s"
  by (simp add: free_pages_def kalloc_def)


section \<open>The allocator as an interface\<close>

text \<open>What the rest of the kernel relies on: \<open>pages\<close> says which pages are free, \<open>ok\<close> which
  pages may be given back.\<close>

locale page_pool =
  fixes pages :: "'s \<Rightarrow> 'p list \<Rightarrow> bool" and ok :: "'s \<Rightarrow> 'p \<Rightarrow> bool" and null :: 'p
    and alloc :: "'s \<Rightarrow> ('p, 's) res" and dealloc :: "'p \<Rightarrow> 's \<Rightarrow> (unit, 's) res"
  assumes pages_distinct: "pages s xs \<Longrightarrow> distinct xs"
    and pages_ok: "pages s xs \<Longrightarrow> x \<in> set xs \<Longrightarrow> ok s x \<and> x \<noteq> null"
    and alloc_pop: "pages s (x # xs) \<Longrightarrow> \<exists>t. alloc s = Ok x t \<and> pages t xs \<and> ok t = ok s"
    and alloc_empty: "pages s [] \<Longrightarrow> alloc s = Ok null s"
    and dealloc_push: "pages s xs \<Longrightarrow> ok s p \<Longrightarrow> p \<notin> set xs \<Longrightarrow>
      \<exists>t. dealloc p s = Ok () t \<and> pages t (p # xs) \<and> ok t = ok s"

text \<open>A client of the allocator: \<open>Get\<close> asks for a page and keeps it if there is one, \<open>Put k\<close>
  gives back the \<open>k\<close>-th page it holds, if it holds that many.\<close>

datatype page_req = Get | Put nat

fun serve ::
  "'p \<Rightarrow> ('s \<Rightarrow> ('p, 's) res) \<Rightarrow> ('p \<Rightarrow> 's \<Rightarrow> (unit, 's) res) \<Rightarrow>
   page_req list \<Rightarrow> 'p list \<Rightarrow> 's \<Rightarrow> ('p list, 's) res" where
  "serve null alloc dealloc [] owned s = Ok owned s"
| "serve null alloc dealloc (Get # rs) owned s =
     bnd (alloc s) (\<lambda>p s. serve null alloc dealloc rs (if p = null then owned else p # owned) s)"
| "serve null alloc dealloc (Put k # rs) owned s =
     (if k < length owned
      then bnd (dealloc (owned ! k) s)
             (\<lambda>_ s. serve null alloc dealloc rs (take k owned @ drop (Suc k) owned) s)
      else serve null alloc dealloc rs owned s)"

lemma remove_nth_perm:
  assumes "k < length xs"
  shows "distinct (xs @ ys) \<longleftrightarrow> distinct ((take k xs @ drop (Suc k) xs) @ (xs ! k) # ys)"
    and "set xs \<union> set ys = set (take k xs @ drop (Suc k) xs) \<union> set ((xs ! k) # ys)"
proof -
  have x: "xs = take k xs @ (xs ! k) # drop (Suc k) xs" using assms by (rule id_take_nth_drop)
  show "distinct (xs @ ys) \<longleftrightarrow> distinct ((take k xs @ drop (Suc k) xs) @ (xs ! k) # ys)"
    by (subst x) auto
  show "set xs \<union> set ys = set (take k xs @ drop (Suc k) xs) \<union> set ((xs ! k) # ys)"
    by (subst x) auto
qed

context page_pool
begin

lemma serve_conserves:
  assumes "pages s xs" and "distinct (owned @ xs)" and "\<forall>x\<in>set owned. ok s x \<and> x \<noteq> null"
  shows "\<exists>owned' ys t. serve null alloc dealloc rs owned s = Ok owned' t \<and> pages t ys \<and>
     distinct (owned' @ ys) \<and> set owned' \<union> set ys = set owned \<union> set xs"
  using assms
proof (induction rs arbitrary: owned s xs)
  case Nil
  then show ?case by auto
next
  case (Cons r rs)
  show ?case
  proof (cases r)
    case Get
    show ?thesis
    proof (cases xs)
      case Nil
      then have "alloc s = Ok null s" using Cons.prems(1) alloc_empty by simp
      then show ?thesis using Get Cons.IH[OF Cons.prems] by simp
    next
      case (Cons x zs)
      obtain t where t: "alloc s = Ok x t" "pages t zs" "ok t = ok s"
        using alloc_pop Cons.prems(1) Cons by blast
      have x: "ok s x" "x \<noteq> null" using pages_ok[OF Cons.prems(1)] Cons by auto
      have "\<exists>owned' ys u. serve null alloc dealloc rs (x # owned) t = Ok owned' u \<and> pages u ys \<and>
          distinct (owned' @ ys) \<and> set owned' \<union> set ys = set (x # owned) \<union> set zs"
        by (rule Cons.IH) (use t x Cons Cons.prems in auto)
      then show ?thesis using Get t x Cons by auto
    qed
  next
    case (Put k)
    show ?thesis
    proof (cases "k < length owned")
      case False
      then show ?thesis using Put Cons.IH[OF Cons.prems] by simp
    next
      case True
      let ?o = "take k owned @ drop (Suc k) owned"
      have m: "owned ! k \<in> set owned" using True by simp
      then have "ok s (owned ! k)" "owned ! k \<notin> set xs" using Cons.prems by auto
      then obtain t where t: "dealloc (owned ! k) s = Ok () t" "pages t (owned ! k # xs)" "ok t = ok s"
        using dealloc_push[OF Cons.prems(1)] by blast
      have "\<exists>owned' ys u. serve null alloc dealloc rs ?o t = Ok owned' u \<and> pages u ys \<and>
          distinct (owned' @ ys) \<and> set owned' \<union> set ys = set ?o \<union> set (owned ! k # xs)"
        by (rule Cons.IH[OF t(2)])
           (use remove_nth_perm(1)[OF True, of xs] t Cons.prems in \<open>auto dest: in_set_takeD in_set_dropD\<close>)
      then show ?thesis using Put t True remove_nth_perm(2)[OF True, of xs] by simp
    qed
  qed
qed

end

interpretation kpool: page_pool free_pages page_ok 0 kalloc kfree
proof unfold_locales
  fix s :: "'a kvm_scheme" and x and xs
  show "free_pages s (x # xs) \<Longrightarrow> \<exists>t. kalloc s = Ok x t \<and> free_pages t xs \<and> page_ok t = page_ok s"
    using kalloc_pop[of s x xs] mem_onlyD(4) by blast
next
  fix s :: "'a kvm_scheme" and p and xs
  assume "free_pages s xs" "page_ok s p" "p \<notin> set xs"
  from kfree_push[OF this] show "\<exists>t. kfree p s = Ok () t \<and> free_pages t (p # xs) \<and> page_ok t = page_ok s"
    using mem_onlyD(4) by blast
qed (auto simp: free_pages_def kalloc_def page_ok_def)

text \<open>
  C9. Page conservation: whatever sequence of allocations and releases of its own pages the kernel
  performs, the allocator never panics, never hands out a page that is in use, and the free list
  together with the pages in use is always exactly the set it started with.
\<close>

theorem kalloc_conserves_pages:
  assumes "free_pages s xs"
  shows "\<exists>owned ys t. serve 0 kalloc kfree rs [] s = Ok owned t \<and> free_pages t ys \<and>
     distinct (owned @ ys) \<and> set owned \<union> set ys = set xs"
  using kpool.serve_conserves[OF assms, of "[]" rs] assms by (simp add: free_pages_def)


section \<open>Building the list at boot\<close>

lemma aligned_below:
  assumes "4096 dvd (a :: nat)" and "4096 dvd b" and "a < b + 4096"
  shows "a \<le> b"
  using assms by (auto elim!: dvdE)

lemma page_ok_step:
  assumes a: "4096 dvd unat p" and ok: "page_ok s p"
  shows "{x. page_ok s x \<and> unat x < unat p + 4096} = insert p {x. page_ok s x \<and> unat x < unat p}"
proof -
  have d: "x = p \<or> unat x < unat p" if "page_ok s x" "unat x < unat p + 4096" for x
    using aligned_below[OF page_ok_aligned[OF that(1)] a that(2)] by (auto simp: word_unat_eq_iff)
  then show ?thesis using ok by auto
qed

lemma freerange_loop_builds:
  assumes "4096 dvd unat p" and "unat (k_end s) \<le> unat p" and "unat p \<le> 0x88000000"
    and "free_pages s xs" and "set xs = {x. page_ok s x \<and> unat x < unat p}"
  shows "\<exists>ys t. freerange_loop p PHYSTOP s = Ok () t \<and> free_pages t ys \<and> set ys = {x. page_ok s x} \<and>
     mem_only s t"
  using assms
proof (induction "0x88000000 - unat p" arbitrary: p s xs rule: less_induct)
  case less
  have up: "unat (p + 4096) = unat p + 4096" using less.prems(3) by (intro unat_add_page) simp
  show ?case
  proof (cases "unat p + 4096 \<le> 0x88000000")
    case True
    have z: "unat (p mod 4096) = 0" using less.prems(1) by (simp add: unat_mod)
    have ok: "page_ok s p"
      using True less.prems(2) z
      by (simp add: page_ok_def PGSIZE_def word_le_nat_alt word_less_nat_alt unat_PHYSTOP unat_eq_zero)
    have "p \<notin> set xs" using less.prems(5) by simp
    then obtain t where t: "kfree p s = Ok () t" "free_pages t (p # xs)" "mem_only s t"
      using kfree_push[OF less.prems(4) ok] by blast
    note same = mem_onlyD(1,4)[OF t(3)]
    have "\<exists>ys u. freerange_loop (p + 4096) PHYSTOP t = Ok () u \<and> free_pages u ys \<and>
        set ys = {x. page_ok t x} \<and> mem_only t u"
      by (rule less.hyps[OF _ _ _ _ t(2)])
         (use True less.prems up same page_ok_step[OF less.prems(1) ok] in \<open>simp_all add: dvd_add\<close>)
    then show ?thesis using True up t(1,3) same mem_only_trans
      by (subst freerange_loop.simps)
         (fastforce simp: PGSIZE_def word_le_nat_alt unat_PHYSTOP)
  next
    case False
    have "4096 dvd (0x88000000 :: nat)" by simp
    then have "0x88000000 \<le> unat p" using aligned_below[OF _ less.prems(1), of "0x88000000"] False by simp
    then have "{x. page_ok s x \<and> unat x < unat p} = {x. page_ok s x}"
      using page_ok_bound[of s] by fastforce
    then show ?thesis using False less.prems up mem_only_refl
      by (subst freerange_loop.simps) (auto simp: PGSIZE_def word_le_nat_alt unat_PHYSTOP)
  qed
qed

text \<open>
  C40. At boot \<^verbatim>\<open>kinit\<close> puts every page between the end of the kernel and \<^verbatim>\<open>PHYSTOP\<close> on the free
  list, each exactly once.
\<close>

theorem kinit_frees_all_memory:
  assumes "0 < k_end s" and "k_end s \<le> PHYSTOP" and "kmem_freelist s = 0"
  shows "\<exists>xs t. kinit s = Ok () t \<and> free_pages t xs \<and> set xs = {x. page_ok s x}"
proof -
  let ?s = "initlock LkKmem ''kmem'' s" and ?p = "PGROUNDUP (k_end s)"
  have e: "unat (k_end s) \<le> 0x88000000" using assms(2) by (simp add: word_le_nat_alt unat_PHYSTOP)
  have p: "unat ?p = 4096 * ((unat (k_end s) + 4095) div 4096)" using e by (intro unat_PGROUNDUP) simp
  have same: "k_end ?s = k_end s" "kmem_freelist ?s = 0" "page_ok ?s = page_ok s"
    using assms(3) by (simp_all add: initlock_def page_ok_def fun_eq_iff)
  have b: "unat (k_end s) \<le> unat ?p" "unat ?p < unat (k_end s) + 4096" using p by linarith+
  have u: "unat ?p \<le> 0x88000000"
  proof -
    have "(unat (k_end s) + 4095) div 4096 \<le> (0x88000000 + 4095) div 4096" using e by (intro div_le_mono) simp
    then show ?thesis using p by simp
  qed
  have none: "\<not> (page_ok s x \<and> unat x < unat ?p)" for x
  proof
    assume h: "page_ok s x \<and> unat x < unat ?p"
    then have "4096 dvd unat x" by (blast intro: page_ok_aligned)
    moreover have "unat (k_end s) \<le> unat x" using h by (simp add: page_ok_def word_le_nat_alt)
    moreover have "4096 dvd unat ?p" by (simp add: p)
    ultimately show False using h b aligned_below[of "unat ?p" "unat x"] by simp
  qed
  have "\<exists>ys t. freerange_loop ?p PHYSTOP ?s = Ok () t \<and> free_pages t ys \<and> set ys = {x. page_ok ?s x} \<and> mem_only ?s t"
    by (rule freerange_loop_builds[where xs = "[]"])
       (use b u assms(1) none in \<open>simp_all add: p same free_pages_def\<close>)
  then show ?thesis using same by (auto simp: kinit_def freerange_def)
qed


text \<open>A machine with two pages above the kernel; memory reads as zero and the free list is empty.\<close>

definition boot_mem :: kvm where
  "boot_mem = \<lparr>cpus = cpus boot_world, locks = locks boot_world,
     proc = replicate NPROC blank_proc, initproc = None, nextpid = 1,
     idle_governor = \<lparr>idle_ticks = 0, active_ticks = 0, current_mode = POWER_BALANCED\<rparr>,
     ticks = 0, stimecmp = (\<lambda>_. 0), tframe = (\<lambda>_. blank_tframe),
     kmem_freelist = 0, phys = (\<lambda>_. 0), kernel_pagetable = 0, satp = (\<lambda>_. 0),
     k_end = 0x87FFE000, k_etext = 0x80008000, k_trampoline = 0x80007000\<rparr>"

lemma boot_mem_simps:
  "kmem_freelist boot_mem = 0" "phys boot_mem = (\<lambda>_. 0)" "k_end boot_mem = 0x87FFE000"
  by (simp_all add: boot_mem_def)

theorem kinit_frees_all_memory_witness:
  "\<exists>xs t. kinit boot_mem = Ok () t \<and> free_pages t xs \<and> 0x87FFE000 \<in> set xs \<and> 0x87FFF000 \<in> set xs"
proof -
  have "0 < k_end boot_mem" "k_end boot_mem \<le> PHYSTOP" "kmem_freelist boot_mem = 0"
    by (simp_all add: boot_mem_simps PHYSTOP_def KERNBASE_def)
  then obtain xs t where "kinit boot_mem = Ok () t" "free_pages t xs" "set xs = {x. page_ok boot_mem x}"
    using kinit_frees_all_memory[of boot_mem] by blast
  moreover have "page_ok boot_mem 0x87FFE000" "page_ok boot_mem 0x87FFF000"
    by (simp_all add: page_ok_def boot_mem_simps PHYSTOP_def KERNBASE_def PGSIZE_def)
  ultimately show ?thesis by blast
qed

theorem kalloc_conserves_pages_witness:
  "\<exists>owned ys t. serve 0 kalloc kfree [Get, Get, Put 0, Get] [] (boot_mem\<lparr>kmem_freelist := 0x87FFF000\<rparr>) = Ok owned t \<and>
     free_pages t ys \<and> distinct (owned @ ys) \<and> set owned \<union> set ys = {0x87FFF000}"
proof -
  have "free_pages (boot_mem\<lparr>kmem_freelist := 0x87FFF000\<rparr>) [0x87FFF000]"
    by (simp add: free_pages_def page_ok_def boot_mem_simps ld64_def PHYSTOP_def KERNBASE_def PGSIZE_def)
  from kalloc_conserves_pages[OF this, of "[Get, Get, Put 0, Get]"] show ?thesis by simp
qed

end
