(* ===== verification/Vm.thy ===== *)
theory Vm
  imports Kalloc
begin

text \<open>
  Sv39 page tables and user memory: \<^verbatim>\<open>kernel/vm.c\<close> and \<^verbatim>\<open>proc_mapstacks\<close> of \<^verbatim>\<open>kernel/proc.c\<close>. A
  page table is the physical address of its root page; page-table entries live in physical memory.
  Buffers of the kernel that \<^verbatim>\<open>copyin\<close> and \<^verbatim>\<open>copyout\<close> exchange with user memory are byte sequences
  apart from it: \<^verbatim>\<open>copyout\<close> takes the source as a function from offsets, \<^verbatim>\<open>copyin\<close> and \<^verbatim>\<open>copyinstr\<close>
  return the bytes they stored together with the return code.
\<close>

section \<open>Walking the page table\<close>

abbreviation rd64 :: "'a kvm_scheme \<Rightarrow> u64 \<Rightarrow> u64" where
  "rd64 s a \<equiv> ld64 (phys s) (unat a)"

abbreviation wr64 :: "u64 \<Rightarrow> u64 \<Rightarrow> 'a kvm_scheme \<Rightarrow> 'a kvm_scheme" where
  "wr64 a v s \<equiv> s\<lparr>phys := st64 (phys s) (unat a) v\<rparr>"

abbreviation fill :: "u64 \<Rightarrow> int \<Rightarrow> 'a kvm_scheme \<Rightarrow> 'a kvm_scheme" where
  "fill a c s \<equiv> s\<lparr>phys := memset (phys s) (unat a) c 4096\<rparr>"

definition pte_at :: "u64 \<Rightarrow> nat \<Rightarrow> u64" where
  "pte_at pagetable i = pagetable + 8 * word_of_nat i"

fun walk_loop :: "nat \<Rightarrow> u64 \<Rightarrow> u64 \<Rightarrow> bool \<Rightarrow> 'a kvm_scheme \<Rightarrow> (u64, 'a kvm_scheme) res" where
  "walk_loop 0 pagetable va alloc s = Ok (pte_at pagetable (PX 0 va)) s"
| "walk_loop (Suc l) pagetable va alloc s =
     (let pte = pte_at pagetable (PX (Suc l) va) in
      if rd64 s pte AND PTE_V \<noteq> 0 then walk_loop l (PTE2PA (rd64 s pte)) va alloc s
      else if \<not> alloc then Ok 0 s
      else bnd (kalloc s) (\<lambda>pagetable s.
        if pagetable = 0 then Ok 0 s
        else let s = fill pagetable 0 s;
                 s = wr64 pte (PA2PTE pagetable OR PTE_V) s
             in walk_loop l pagetable va alloc s))"

definition walk :: "u64 \<Rightarrow> u64 \<Rightarrow> bool \<Rightarrow> 'a kvm_scheme \<Rightarrow> (u64, 'a kvm_scheme) res" where
  "walk pagetable va alloc s =
     (if va \<ge> MAXVA then Panic ''walk'' else walk_loop 2 pagetable va alloc s)"

definition walkaddr :: "u64 \<Rightarrow> u64 \<Rightarrow> 'a kvm_scheme \<Rightarrow> (u64, 'a kvm_scheme) res" where
  "walkaddr pagetable va s =
     (if va \<ge> MAXVA then Ok 0 s
      else bnd (walk pagetable va False s) (\<lambda>pte s.
        if pte = 0 then Ok 0 s
        else if rd64 s pte AND PTE_V = 0 then Ok 0 s
        else if rd64 s pte AND PTE_U = 0 then Ok 0 s
        else Ok (PTE2PA (rd64 s pte)) s))"

lemma walk_Ok_below: "walk pagetable a alloc s = Ok p t \<Longrightarrow> unat a < 2 ^ 38"
  by (auto simp: walk_def word_le_nat_alt not_le unat_MAXVA split: if_splits)

lemma next_page: "unat (a :: u64) < 2 ^ 38 \<Longrightarrow> unat (a + PGSIZE) = unat a + 4096"
  using unat_add_page[of a] by (simp add: PGSIZE_def)

section \<open>Mapping and unmapping\<close>

function mappages_loop ::
  "u64 \<Rightarrow> u64 \<Rightarrow> u64 \<Rightarrow> u64 \<Rightarrow> u64 \<Rightarrow> 'a kvm_scheme \<Rightarrow> (int, 'a kvm_scheme) res" where
  "mappages_loop pagetable a final pa perm s =
     bnd (walk pagetable a True s) (\<lambda>pte s.
       if pte = 0 then Ok (-1) s
       else if rd64 s pte AND PTE_V \<noteq> 0 then Panic ''mappages: remap''
       else let s = wr64 pte (PA2PTE pa OR perm OR PTE_V) s in
         if a = final then Ok 0 s
         else mappages_loop pagetable (a + PGSIZE) final (pa + PGSIZE) perm s)"
  by pat_completeness auto
termination
  by (relation "measure (\<lambda>(pt, a, final, pa, perm, s). 2 ^ 64 - unat a)")
     (auto dest!: walk_Ok_below simp: next_page)

definition mappages ::
  "u64 \<Rightarrow> u64 \<Rightarrow> u64 \<Rightarrow> u64 \<Rightarrow> u64 \<Rightarrow> 'a kvm_scheme \<Rightarrow> (int, 'a kvm_scheme) res" where
  "mappages pagetable va sz pa perm s =
     (if va mod PGSIZE \<noteq> 0 then Panic ''mappages: va not aligned''
      else if sz mod PGSIZE \<noteq> 0 then Panic ''mappages: size not aligned''
      else if sz = 0 then Panic ''mappages: size''
      else mappages_loop pagetable va (va + sz - PGSIZE) pa perm s)"

definition kvmmap ::
  "u64 \<Rightarrow> u64 \<Rightarrow> u64 \<Rightarrow> u64 \<Rightarrow> u64 \<Rightarrow> 'a kvm_scheme \<Rightarrow> (unit, 'a kvm_scheme) res" where
  "kvmmap kpgtbl va pa sz perm s =
     bnd (mappages kpgtbl va sz pa perm s) (\<lambda>r s. if r \<noteq> 0 then Panic ''kvmmap'' else Ok () s)"

definition uvmcreate :: "'a kvm_scheme \<Rightarrow> (u64, 'a kvm_scheme) res" where
  "uvmcreate s =
     bnd (kalloc s) (\<lambda>pagetable s. if pagetable = 0 then Ok 0 s else Ok pagetable (fill pagetable 0 s))"

function uvmunmap_loop ::
  "u64 \<Rightarrow> u64 \<Rightarrow> u64 \<Rightarrow> bool \<Rightarrow> 'a kvm_scheme \<Rightarrow> (unit, 'a kvm_scheme) res" where
  "uvmunmap_loop pagetable a aend do_free s =
     (if a < aend then
        bnd (walk pagetable a False s) (\<lambda>pte s.
          if pte = 0 then uvmunmap_loop pagetable (a + PGSIZE) aend do_free s
          else if rd64 s pte AND PTE_V = 0 then uvmunmap_loop pagetable (a + PGSIZE) aend do_free s
          else bnd (if do_free then kfree (PTE2PA (rd64 s pte)) s else Ok () s) (\<lambda>_ s.
            uvmunmap_loop pagetable (a + PGSIZE) aend do_free (wr64 pte 0 s)))
      else Ok () s)"
  by pat_completeness auto
termination
  by (relation "measure (\<lambda>(pt, a, aend, df, s). 2 ^ 64 - unat a)")
     (auto dest!: walk_Ok_below simp: next_page)

definition uvmunmap :: "u64 \<Rightarrow> u64 \<Rightarrow> u64 \<Rightarrow> bool \<Rightarrow> 'a kvm_scheme \<Rightarrow> (unit, 'a kvm_scheme) res" where
  "uvmunmap pagetable va npages do_free s =
     (if va mod PGSIZE \<noteq> 0 then Panic ''uvmunmap: not aligned''
      else uvmunmap_loop pagetable va (va + npages * PGSIZE) do_free s)"

text \<open>\<^verbatim>\<open>npages\<close> is an \<^verbatim>\<open>int\<close>.\<close>

definition uvmdealloc :: "u64 \<Rightarrow> u64 \<Rightarrow> u64 \<Rightarrow> 'a kvm_scheme \<Rightarrow> (u64, 'a kvm_scheme) res" where
  "uvmdealloc pagetable oldsz newsz s =
     (if newsz \<ge> oldsz then Ok oldsz s
      else if PGROUNDUP newsz < PGROUNDUP oldsz then
        let npages = i32 (uint ((PGROUNDUP oldsz - PGROUNDUP newsz) div PGSIZE)) in
        bnd (uvmunmap pagetable (PGROUNDUP newsz) (word_of_int npages) True s) (\<lambda>_ s. Ok newsz s)
      else Ok newsz s)"

lemma mappages_Ok_below: "mappages pagetable a sz pa perm s = Ok r t \<Longrightarrow> unat a < 2 ^ 38"
  using walk_Ok_below
  by (fastforce simp: mappages_def mappages_loop.simps[of pagetable a] bnd_Ok_iff split: if_splits)

function uvmalloc_loop ::
  "u64 \<Rightarrow> u64 \<Rightarrow> u64 \<Rightarrow> u64 \<Rightarrow> u64 \<Rightarrow> 'a kvm_scheme \<Rightarrow> (u64, 'a kvm_scheme) res" where
  "uvmalloc_loop pagetable a oldsz newsz xperm s =
     (if a < newsz then
        bnd (kalloc s) (\<lambda>mem s.
          if mem = 0 then bnd (uvmdealloc pagetable a oldsz s) (\<lambda>_ s. Ok 0 s)
          else bnd (mappages pagetable a PGSIZE mem (PTE_R OR PTE_U OR xperm) (fill mem 0 s)) (\<lambda>r s.
            if r \<noteq> 0 then
              bnd (kfree mem s) (\<lambda>_ s. bnd (uvmdealloc pagetable a oldsz s) (\<lambda>_ s. Ok 0 s))
            else uvmalloc_loop pagetable (a + PGSIZE) oldsz newsz xperm s))
      else Ok newsz s)"
  by pat_completeness auto
termination
  by (relation "measure (\<lambda>(pt, a, oldsz, newsz, xperm, s). 2 ^ 64 - unat a)")
     (auto dest!: mappages_Ok_below simp: next_page)

definition uvmalloc :: "u64 \<Rightarrow> u64 \<Rightarrow> u64 \<Rightarrow> u64 \<Rightarrow> 'a kvm_scheme \<Rightarrow> (u64, 'a kvm_scheme) res" where
  "uvmalloc pagetable oldsz newsz xperm s =
     (if newsz < oldsz then Ok oldsz s
      else let oldsz = PGROUNDUP oldsz in uvmalloc_loop pagetable oldsz oldsz newsz xperm s)"

text \<open>\<^verbatim>\<open>freewalk\<close> follows whatever tree the entries describe; the first argument bounds its depth.
  Page tables have three levels, so three is enough for every table that \<^verbatim>\<open>walk\<close> builds.\<close>

fun freewalk_depth :: "nat \<Rightarrow> u64 \<Rightarrow> 'a kvm_scheme \<Rightarrow> (unit, 'a kvm_scheme) res"
and freewalk_from :: "nat \<Rightarrow> u64 \<Rightarrow> nat list \<Rightarrow> 'a kvm_scheme \<Rightarrow> (unit, 'a kvm_scheme) res" where
  "freewalk_depth 0 pagetable s = Spin"
| "freewalk_depth (Suc d) pagetable s =
     bnd (freewalk_from d pagetable [0..<512] s) (\<lambda>_ s. kfree pagetable s)"
| "freewalk_from d pagetable [] s = Ok () s"
| "freewalk_from d pagetable (i # is) s =
     (let pte = rd64 s (pte_at pagetable i) in
      if pte AND PTE_V \<noteq> 0 \<and> pte AND (PTE_R OR PTE_W OR PTE_X) = 0 then
        bnd (freewalk_depth d (PTE2PA pte) s) (\<lambda>_ s.
          freewalk_from d pagetable is (wr64 (pte_at pagetable i) 0 s))
      else if pte AND PTE_V \<noteq> 0 then Panic ''freewalk: leaf''
      else freewalk_from d pagetable is s)"

definition freewalk :: "u64 \<Rightarrow> 'a kvm_scheme \<Rightarrow> (unit, 'a kvm_scheme) res" where
  "freewalk pagetable s = freewalk_depth 3 pagetable s"

definition uvmfree :: "u64 \<Rightarrow> u64 \<Rightarrow> 'a kvm_scheme \<Rightarrow> (unit, 'a kvm_scheme) res" where
  "uvmfree pagetable sz s =
     bnd (if sz > 0 then uvmunmap pagetable 0 (PGROUNDUP sz div PGSIZE) True s else Ok () s)
       (\<lambda>_ s. freewalk pagetable s)"

function uvmcopy_loop ::
  "u64 \<Rightarrow> u64 \<Rightarrow> u64 \<Rightarrow> u64 \<Rightarrow> 'a kvm_scheme \<Rightarrow> (int, 'a kvm_scheme) res" where
  "uvmcopy_loop old new i sz s =
     (if i < sz then
        bnd (walk old i False s) (\<lambda>pte s.
          if pte = 0 then uvmcopy_loop old new (i + PGSIZE) sz s
          else if rd64 s pte AND PTE_V = 0 then uvmcopy_loop old new (i + PGSIZE) sz s
          else
            let pa = PTE2PA (rd64 s pte); flags = PTE_FLAGS (rd64 s pte) in
            bnd (kalloc s) (\<lambda>mem s.
              if mem = 0 then bnd (uvmunmap new 0 (i div PGSIZE) True s) (\<lambda>_ s. Ok (-1) s)
              else
                let s = s\<lparr>phys := memmove (phys s) (unat mem) (unat pa) 4096\<rparr> in
                bnd (mappages new i PGSIZE mem flags s) (\<lambda>r s.
                  if r \<noteq> 0 then
                    bnd (kfree mem s) (\<lambda>_ s.
                      bnd (uvmunmap new 0 (i div PGSIZE) True s) (\<lambda>_ s. Ok (-1) s))
                  else uvmcopy_loop old new (i + PGSIZE) sz s)))
      else Ok 0 s)"
  by pat_completeness auto
termination
  by (relation "measure (\<lambda>(old, new, i, sz, s). 2 ^ 64 - unat i)")
     (auto dest!: walk_Ok_below simp: next_page)

definition uvmcopy :: "u64 \<Rightarrow> u64 \<Rightarrow> u64 \<Rightarrow> 'a kvm_scheme \<Rightarrow> (int, 'a kvm_scheme) res" where
  "uvmcopy old new sz s = uvmcopy_loop old new 0 sz s"

definition uvmclear :: "u64 \<Rightarrow> u64 \<Rightarrow> 'a kvm_scheme \<Rightarrow> (unit, 'a kvm_scheme) res" where
  "uvmclear pagetable va s =
     bnd (walk pagetable va False s) (\<lambda>pte s.
       if pte = 0 then Panic ''uvmclear'' else Ok () (wr64 pte (rd64 s pte AND NOT PTE_U) s))"

declare mappages_loop.simps [simp del] uvmunmap_loop.simps [simp del] uvmalloc_loop.simps [simp del]
  uvmcopy_loop.simps [simp del]

section \<open>User memory\<close>

definition ismapped :: "u64 \<Rightarrow> u64 \<Rightarrow> 'a kvm_scheme \<Rightarrow> (bool, 'a kvm_scheme) res" where
  "ismapped pagetable va s =
     bnd (walk pagetable va False s) (\<lambda>pte s.
       if pte = 0 then Ok False s else if rd64 s pte AND PTE_V \<noteq> 0 then Ok True s else Ok False s)"

definition vmfault :: "nat \<Rightarrow> u64 \<Rightarrow> u64 \<Rightarrow> 'a kvm_scheme \<Rightarrow> (u64, 'a kvm_scheme) res" where
  "vmfault h pagetable va s =
     (case myproc h s of
        None \<Rightarrow> Panic ''kerneltrap''
      | Some i \<Rightarrow>
          let p = proc s ! i in
          if va \<ge> p_sz p then Ok 0 s
          else let va = PGROUNDDOWN va in
            bnd (ismapped pagetable va s) (\<lambda>mapped s.
              if mapped then Ok 0 s
              else bnd (kalloc s) (\<lambda>mem s.
                if mem = 0 then Ok 0 s
                else bnd (mappages (p_pagetable p) va PGSIZE mem (PTE_W OR PTE_U OR PTE_R) (fill mem 0 s))
                  (\<lambda>r s. if r \<noteq> 0 then bnd (kfree mem s) (\<lambda>_ s. Ok 0 s) else Ok mem s))))"

text \<open>\<^verbatim>\<open>memmove\<close> between physical memory and a kernel buffer, and the number of bytes one round
  of the copying loops moves.\<close>

definition store_bytes :: "mem \<Rightarrow> nat \<Rightarrow> (nat \<Rightarrow> byte) \<Rightarrow> nat \<Rightarrow> mem" where
  "store_bytes m a src n = (\<lambda>b. if a \<le> b \<and> b < a + n then src (b - a) else m b)"

definition load_bytes :: "mem \<Rightarrow> nat \<Rightarrow> nat \<Rightarrow> byte list" where
  "load_bytes m a n = map (\<lambda>k. m (a + k)) [0..<n]"

definition chunk :: "u64 \<Rightarrow> u64 \<Rightarrow> u64" where
  "chunk va len =
     (let va0 = PGROUNDDOWN va; n = PGSIZE - (va - va0) in if n > len then len else n)"

lemma unat_page_offset: "unat (va - PGROUNDDOWN va) = unat va mod 4096"
proof -
  have "PGROUNDDOWN va \<le> va" by (simp add: word_le_nat_alt unat_PGROUNDDOWN)
  then show ?thesis
    by (simp add: unat_sub_if' unat_PGROUNDDOWN word_le_nat_alt minus_mult_div_eq_mod)
qed

lemma unat_chunk: "unat (chunk va len) = min (4096 - unat va mod 4096) (unat len)"
proof -
  have "unat (PGSIZE - (va - PGROUNDDOWN va)) = 4096 - unat va mod 4096"
    using unat_page_offset[of va] by (simp add: PGSIZE_def unat_sub_if')
  then show ?thesis by (auto simp: chunk_def Let_def word_less_nat_alt min_def)
qed

lemma chunk_less:
  assumes "0 < len"
  shows "unat (len - chunk va len) = unat len - unat (chunk va len)" "0 < unat (chunk va len)"
    "unat (len - chunk va len) < unat len"
proof -
  have l: "0 < unat len" using assms by (simp add: word_less_nat_alt)
  have c: "unat (chunk va len) \<le> unat len" by (simp add: unat_chunk)
  show z: "0 < unat (chunk va len)" using l by (simp add: unat_chunk)
  show u: "unat (len - chunk va len) = unat len - unat (chunk va len)"
    using c by (simp add: unat_sub_if')
  show "unat (len - chunk va len) < unat len" using u z l by simp
qed

function copyout ::
  "nat \<Rightarrow> u64 \<Rightarrow> u64 \<Rightarrow> (nat \<Rightarrow> byte) \<Rightarrow> u64 \<Rightarrow> 'a kvm_scheme \<Rightarrow> (int, 'a kvm_scheme) res" where
  "copyout h pagetable dstva src len s =
     (if len > 0 then
        let va0 = PGROUNDDOWN dstva in
        if va0 \<ge> MAXVA then Ok (-1) s
        else bnd (walkaddr pagetable va0 s) (\<lambda>pa0 s.
          bnd (if pa0 = 0 then vmfault h pagetable va0 s else Ok pa0 s) (\<lambda>pa0 s.
            if pa0 = 0 then Ok (-1) s
            else bnd (walk pagetable va0 False s) (\<lambda>pte s.
              if pte = 0 then Panic ''kerneltrap''
              else if rd64 s pte AND PTE_W = 0 then Ok (-1) s
              else
                let n = chunk dstva len;
                    s = s\<lparr>phys := store_bytes (phys s) (unat (pa0 + (dstva - va0))) src (unat n)\<rparr>
                in copyout h pagetable (va0 + PGSIZE) (\<lambda>i. src (i + unat n)) (len - n) s)))
      else Ok 0 s)"
  by pat_completeness auto
termination
  by (relation "measure (\<lambda>(h, pt, dstva, src, len, s). unat len)") (auto intro: chunk_less(3))

function copyin ::
  "nat \<Rightarrow> u64 \<Rightarrow> u64 \<Rightarrow> u64 \<Rightarrow> 'a kvm_scheme \<Rightarrow> (int \<times> byte list, 'a kvm_scheme) res" where
  "copyin h pagetable srcva len s =
     (if len > 0 then
        let va0 = PGROUNDDOWN srcva in
        bnd (walkaddr pagetable va0 s) (\<lambda>pa0 s.
          bnd (if pa0 = 0 then vmfault h pagetable va0 s else Ok pa0 s) (\<lambda>pa0 s.
            if pa0 = 0 then Ok (-1, []) s
            else
              let n = chunk srcva len;
                  bs = load_bytes (phys s) (unat (pa0 + (srcva - va0))) (unat n)
              in bnd (copyin h pagetable (va0 + PGSIZE) (len - n) s) (\<lambda>(r, rest) s. Ok (r, bs @ rest) s)))
      else Ok (0, []) s)"
  by pat_completeness auto
termination
  by (relation "measure (\<lambda>(h, pt, srcva, len, s). unat len)") (auto intro: chunk_less(3))

text \<open>The inner loop of \<^verbatim>\<open>copyinstr\<close>: the bytes it stores and whether it met the null byte.\<close>

fun copyinstr_bytes :: "mem \<Rightarrow> nat \<Rightarrow> nat \<Rightarrow> byte list \<times> bool" where
  "copyinstr_bytes m p 0 = ([], False)"
| "copyinstr_bytes m p (Suc n) =
     (if m p = 0 then ([0], True)
      else case copyinstr_bytes m (Suc p) n of (bs, got_null) \<Rightarrow> (m p # bs, got_null))"

function copyinstr :: "u64 \<Rightarrow> u64 \<Rightarrow> u64 \<Rightarrow> 'a kvm_scheme \<Rightarrow> (int \<times> byte list, 'a kvm_scheme) res" where
  "copyinstr pagetable srcva maxn s =
     (if maxn > 0 then
        let va0 = PGROUNDDOWN srcva in
        bnd (walkaddr pagetable va0 s) (\<lambda>pa0 s.
          if pa0 = 0 then Ok (-1, []) s
          else
            let n = chunk srcva maxn;
                (bs, got_null) = copyinstr_bytes (phys s) (unat (pa0 + (srcva - va0))) (unat n)
            in if got_null then Ok (0, bs) s
               else bnd (copyinstr pagetable (va0 + PGSIZE) (maxn - n) s)
                      (\<lambda>(r, rest) s. Ok (r, bs @ rest) s))
      else Ok (-1, []) s)"
  by pat_completeness auto
termination
  by (relation "measure (\<lambda>(pt, srcva, maxn, s). unat maxn)") (auto intro: chunk_less(3))

declare copyout.simps [simp del] copyin.simps [simp del] copyinstr.simps [simp del]

section \<open>The kernel page table\<close>

fun proc_mapstacks_from :: "u64 \<Rightarrow> nat list \<Rightarrow> 'a kvm_scheme \<Rightarrow> (unit, 'a kvm_scheme) res" where
  "proc_mapstacks_from kpgtbl [] s = Ok () s"
| "proc_mapstacks_from kpgtbl (p # ps) s =
     bnd (kalloc s) (\<lambda>pa s.
       if pa = 0 then Panic ''kalloc''
       else bnd (kvmmap kpgtbl (KSTACK p) pa PGSIZE (PTE_R OR PTE_W) s) (\<lambda>_ s.
         proc_mapstacks_from kpgtbl ps s))"

definition proc_mapstacks :: "u64 \<Rightarrow> 'a kvm_scheme \<Rightarrow> (unit, 'a kvm_scheme) res" where
  "proc_mapstacks kpgtbl s = proc_mapstacks_from kpgtbl [0..<NPROC] s"

definition kvmmake :: "'a kvm_scheme \<Rightarrow> (u64, 'a kvm_scheme) res" where
  "kvmmake s =
     bnd (kalloc s) (\<lambda>kpgtbl s.
     bnd (kvmmap kpgtbl UART0 UART0 PGSIZE (PTE_R OR PTE_W) (fill kpgtbl 0 s)) (\<lambda>_ s.
     bnd (kvmmap kpgtbl VIRTIO0 VIRTIO0 PGSIZE (PTE_R OR PTE_W) s) (\<lambda>_ s.
     bnd (kvmmap kpgtbl PLIC PLIC 0x4000000 (PTE_R OR PTE_W) s) (\<lambda>_ s.
     bnd (kvmmap kpgtbl KERNBASE KERNBASE (k_etext s - KERNBASE) (PTE_R OR PTE_X) s) (\<lambda>_ s.
     bnd (kvmmap kpgtbl (k_etext s) (k_etext s) (PHYSTOP - k_etext s) (PTE_R OR PTE_W) s) (\<lambda>_ s.
     bnd (kvmmap kpgtbl TRAMPOLINE (k_trampoline s) PGSIZE (PTE_R OR PTE_X) s) (\<lambda>_ s.
     bnd (proc_mapstacks kpgtbl s) (\<lambda>_ s. Ok kpgtbl s))))))))"

definition kvminit :: "'a kvm_scheme \<Rightarrow> (unit, 'a kvm_scheme) res" where
  "kvminit s = bnd (kvmmake s) (\<lambda>kpgtbl s. Ok () (s\<lparr>kernel_pagetable := kpgtbl\<rparr>))"

definition kvminithart :: "nat \<Rightarrow> 'a kvm_scheme \<Rightarrow> 'a kvm_scheme" where
  "kvminithart h s = s\<lparr>satp := (satp s)(h := MAKE_SATP (kernel_pagetable s))\<rparr>"

end
