(* ===== verification/PageTable.thy ===== *)
theory PageTable
  imports Vm "HOL-Library.Disjoint_Sets"
begin

text \<open>
  The page-table invariant and what mapping does to the address space. \<open>tree l m t S\<close>: memory \<open>m\<close>
  holds a page-table tree with root page \<open>t\<close> and \<open>l\<close> levels below it that consists of exactly
  the pages \<open>S\<close>, none of them reached twice. \<open>tlook\<close> is the leaf entry for an address, 0 where the
  tree has none.
\<close>

section \<open>Trees and lookups\<close>

definition entry :: "mem \<Rightarrow> u64 \<Rightarrow> nat \<Rightarrow> u64" where
  "entry m t i = ld64 m (unat (pte_at t i))"

definition ptev :: "u64 \<Rightarrow> bool" where
  "ptev e \<longleftrightarrow> e AND PTE_V \<noteq> 0"

fun leaf :: "nat \<Rightarrow> mem \<Rightarrow> u64 \<Rightarrow> u64 \<Rightarrow> u64" where
  "leaf 0 m t va = pte_at t (PX 0 va)"
| "leaf (Suc l) m t va =
     (let e = entry m t (PX (Suc l) va) in if ptev e then leaf l m (PTE2PA e) va else 0)"

fun tlook :: "nat \<Rightarrow> mem \<Rightarrow> u64 \<Rightarrow> u64 \<Rightarrow> u64" where
  "tlook 0 m t va = entry m t (PX 0 va)"
| "tlook (Suc l) m t va =
     (let e = entry m t (PX (Suc l) va) in if ptev e then tlook l m (PTE2PA e) va else 0)"

fun tree :: "nat \<Rightarrow> mem \<Rightarrow> u64 \<Rightarrow> u64 set \<Rightarrow> bool" where
  "tree 0 m t S \<longleftrightarrow> S = {t}"
| "tree (Suc l) m t S \<longleftrightarrow>
     (\<exists>f. (\<forall>i<512. if ptev (entry m t i) then tree l m (PTE2PA (entry m t i)) (f i) else f i = {}) \<and>
          (\<forall>i<512. t \<notin> f i) \<and> disjoint_family_on f {..<512} \<and> S = insert t (\<Union>i<512. f i))"

definition same_index :: "nat \<Rightarrow> u64 \<Rightarrow> u64 \<Rightarrow> bool" where
  "same_index l va vb \<longleftrightarrow> (\<forall>k\<le>l. PX k va = PX k vb)"

definition agree :: "u64 set \<Rightarrow> mem \<Rightarrow> mem \<Rightarrow> bool" where
  "agree S m m' \<longleftrightarrow> (\<forall>x\<in>S. \<forall>b\<in>page_addrs x. m' b = m b)"

text \<open>Pages as the allocator hands them out.\<close>

definition pg :: "u64 \<Rightarrow> bool" where
  "pg x \<longleftrightarrow> 4096 dvd unat x \<and> 0 < unat x \<and> unat x + 4096 \<le> 0x88000000"

lemma page_ok_pg: "page_ok s x \<Longrightarrow> 0 < k_end s \<Longrightarrow> pg x"
  using page_ok_aligned page_ok_bound page_ok_nonzero by (fastforce simp: pg_def unat_eq_zero neq0_conv[symmetric])

lemma unat_pte_at:
  assumes "pg t" and "i < 512"
  shows "unat (pte_at t i) = unat t + 8 * i"
proof -
  have i: "unat (8 * word_of_nat i :: u64) = 8 * i"
    using assms(2) by (simp add: unat_word_ariths unat_of_nat)
  have "unat t + unat (8 * word_of_nat i :: u64) < 2 ^ 64" using assms i by (simp add: pg_def)
  then show ?thesis unfolding pte_at_def using i by (subst unat_add_lem[THEN iffD1]) simp_all
qed

lemma pte_at_in_page: "pg t \<Longrightarrow> i < 512 \<Longrightarrow> k < 8 \<Longrightarrow> unat (pte_at t i) + k \<in> page_addrs t"
  by (simp add: unat_pte_at page_addrs_def)

lemma pg_disjoint: "pg x \<Longrightarrow> pg y \<Longrightarrow> x \<noteq> y \<Longrightarrow> page_addrs x \<inter> page_addrs y = {}"
  using aligned_disjoint[of "unat x" "unat y"] word_unat_eq_iff[of x y] by (auto simp: pg_def page_addrs_def)

lemma entry_agree: "pg t \<Longrightarrow> i < 512 \<Longrightarrow> agree {t} m m' \<Longrightarrow> entry m' t i = entry m t i"
  unfolding entry_def by (rule ld64_cong) (auto simp: agree_def pte_at_in_page)

lemma agree_mono: "agree S m m' \<Longrightarrow> T \<subseteq> S \<Longrightarrow> agree T m m'"
  by (auto simp: agree_def)

lemma agree_trans: "agree S m m' \<Longrightarrow> agree S m' m'' \<Longrightarrow> agree S m m''"
  by (auto simp: agree_def)

lemma tree_root: "tree l m t S \<Longrightarrow> t \<in> S"
  by (cases l) auto

text \<open>A tree only depends on its own pages.\<close>

lemma tree_agree:
  assumes "tree l m t S" and "agree S m m'" and "\<forall>x\<in>S. pg x"
  shows "tree l m' t S \<and> (\<forall>va. tlook l m' t va = tlook l m t va \<and> leaf l m' t va = leaf l m t va)"
  using assms
proof (induction l arbitrary: t S)
  case 0
  then have "pg t" "agree {t} m m'" by auto
  then show ?case using 0 entry_agree by simp
next
  case (Suc l)
  obtain f where f: "\<And>i. i < 512 \<Longrightarrow> if ptev (entry m t i) then tree l m (PTE2PA (entry m t i)) (f i) else f i = {}"
      "\<And>i. i < 512 \<Longrightarrow> t \<notin> f i" "disjoint_family_on f {..<512}" "S = insert t (\<Union>i<512. f i)"
    using Suc.prems(1) by auto
  have t: "pg t" "agree {t} m m'" using Suc.prems(2,3) f(4) by (auto simp: agree_def)
  have e: "i < 512 \<Longrightarrow> entry m' t i = entry m t i" for i using entry_agree t by blast
  have sub: "tree l m' (PTE2PA (entry m t i)) (f i) \<and>
      (\<forall>va. tlook l m' (PTE2PA (entry m t i)) va = tlook l m (PTE2PA (entry m t i)) va \<and>
            leaf l m' (PTE2PA (entry m t i)) va = leaf l m (PTE2PA (entry m t i)) va)"
    if "i < 512" "ptev (entry m t i)" for i
    by (rule Suc.IH) (use that f(1)[OF that(1)] f(4) Suc.prems(2,3) in \<open>auto simp: agree_def\<close>)
  have "tree (Suc l) m' t S"
    unfolding tree.simps by (rule exI[of _ f]) (use f e sub in auto)
  moreover have "tlook (Suc l) m' t va = tlook (Suc l) m t va \<and> leaf (Suc l) m' t va = leaf (Suc l) m t va" for va
    using e[of "PX (Suc l) va"] sub[of "PX (Suc l) va"] by (simp add: Let_def)
  ultimately show ?case by blast
qed

text \<open>Replacing the subtree below one entry.\<close>

lemma tree_replace:
  assumes f: "\<And>j. j < 512 \<Longrightarrow> if ptev (entry m t j) then tree l m (PTE2PA (entry m t j)) (f j) else f j = {}"
      "\<And>j. j < 512 \<Longrightarrow> t \<notin> f j" "disjoint_family_on f {..<512}" "\<And>j x. j < 512 \<Longrightarrow> x \<in> f j \<Longrightarrow> pg x"
    and i: "i < 512" and e: "\<And>j. j < 512 \<Longrightarrow> j \<noteq> i \<Longrightarrow> entry m' t j = entry m t j"
    and q: "ptev (entry m' t i)" "tree l m' (PTE2PA (entry m' t i)) Q" "t \<notin> Q"
      "\<And>j. j < 512 \<Longrightarrow> j \<noteq> i \<Longrightarrow> Q \<inter> f j = {}"
    and a: "\<And>j. j < 512 \<Longrightarrow> j \<noteq> i \<Longrightarrow> agree (f j) m m'"
  shows "tree (Suc l) m' t (insert t (Q \<union> (\<Union>j\<in>{..<512} - {i}. f j)))"
    and "PX (Suc l) va \<noteq> i \<Longrightarrow> tlook (Suc l) m' t va = tlook (Suc l) m t va"
proof -
  let ?g = "f(i := Q)"
  have o: "tree l m' (PTE2PA (entry m t j)) (f j) \<and>
      (\<forall>va. tlook l m' (PTE2PA (entry m t j)) va = tlook l m (PTE2PA (entry m t j)) va)"
    if "j < 512" "j \<noteq> i" "ptev (entry m t j)" for j
    using tree_agree[OF _ a[OF that(1,2)], of l "PTE2PA (entry m t j)"] f(1)[OF that(1)] f(4)[OF that(1)] that(3)
    by auto
  have "\<And>j. j < 512 \<Longrightarrow> if ptev (entry m' t j) then tree l m' (PTE2PA (entry m' t j)) (?g j) else ?g j = {}"
    using f(1) q e o by auto
  moreover have "\<And>j. j < 512 \<Longrightarrow> t \<notin> ?g j" using f(2) q(3) by simp
  moreover have "disjoint_family_on ?g {..<512}"
    using f(3) q(4) unfolding disjoint_family_on_def by (auto simp: fun_upd_def)
  moreover have "insert t (Q \<union> (\<Union>j\<in>{..<512} - {i}. f j)) = insert t (\<Union>j<512. ?g j)"
    using i by auto
  ultimately show "tree (Suc l) m' t (insert t (Q \<union> (\<Union>j\<in>{..<512} - {i}. f j)))"
    unfolding tree.simps by blast
  show "PX (Suc l) va \<noteq> i \<Longrightarrow> tlook (Suc l) m' t va = tlook (Suc l) m t va"
    using e[of "PX (Suc l) va"] o[of "PX (Suc l) va"] by (simp add: Let_def)
qed

lemma ld64_zero: "(\<And>k. k < 8 \<Longrightarrow> m (a + k) = 0) \<Longrightarrow> ld64 m a = 0"
  by (rule bit_word_eqI) (simp add: bit_ld64)

lemma zero_entry: "pg x \<Longrightarrow> \<forall>b\<in>page_addrs x. m b = 0 \<Longrightarrow> i < 512 \<Longrightarrow> entry m x i = 0"
  unfolding entry_def by (rule ld64_zero) (simp add: pte_at_in_page)

lemma zero_tree:
  assumes "pg x" and "\<forall>b\<in>page_addrs x. m b = 0"
  shows "tree l m x {x}" and "tlook l m x va = 0"
proof -
  have e: "i < 512 \<Longrightarrow> entry m x i = 0" for i using zero_entry assms by blast
  show "tree l m x {x}"
  proof (cases l)
    case (Suc k)
    have "\<exists>f. (\<forall>i<512. if ptev (entry m x i) then tree k m (PTE2PA (entry m x i)) (f i) else f i = {}) \<and>
      (\<forall>i<512. x \<notin> f i) \<and> disjoint_family_on f {..<512} \<and> {x} = insert x (\<Union>i<(512::nat). f i)"
      by (rule exI[of _ "\<lambda>_. {}"]) (simp add: e ptev_def disjoint_family_on_def)
    then show ?thesis using Suc by simp
  qed simp
  show "tlook l m x va = 0" by (cases l) (simp_all add: e ptev_def Let_def)
qed

lemma PGROUNDDOWN_aligned: "4096 dvd unat x \<Longrightarrow> PGROUNDDOWN x = x"
  by (simp add: word_unat_eq_iff unat_PGROUNDDOWN)

lemma pte_pointer: "pg x \<Longrightarrow> PTE2PA (PA2PTE x OR PTE_V) = x" "ptev (y OR PTE_V)"
proof -
  have "bit PTE_V n \<longleftrightarrow> n = 0" for n by (simp add: PTE_V_def bit_1_iff)
  then show "pg x \<Longrightarrow> PTE2PA (PA2PTE x OR PTE_V) = x"
    by (subst PTE2PA_PA2PTE) (auto simp: pg_def PGROUNDDOWN_aligned)
  have "(y OR PTE_V) AND PTE_V = 1" by (rule bit_word_eqI) (auto simp: PTE_V_def bit_simps)
  then show "ptev (y OR PTE_V)" by (simp add: ptev_def)
qed

lemma walk_loop_lookup: "walk_loop l t va False s = Ok (leaf l (phys s) t va) s"
  by (induction l arbitrary: t) (simp_all add: entry_def ptev_def Let_def)

lemma tlook_leaf:
  assumes "tree l m t S" and "\<forall>x\<in>S. pg x"
  shows "tlook l m t va = (if leaf l m t va = 0 then 0 else ld64 m (unat (leaf l m t va)))"
  using assms
proof (induction l arbitrary: t S)
  case 0
  then have "pg t" by simp
  then have "0 < unat (pte_at t (PX 0 va))" by (simp add: unat_pte_at pg_def)
  then show ?case by (auto simp: entry_def unat_eq_zero)
next
  case (Suc l)
  let ?i = "PX (Suc l) va"
  obtain f where f: "\<And>i. i < 512 \<Longrightarrow> if ptev (entry m t i) then tree l m (PTE2PA (entry m t i)) (f i) else f i = {}"
      "S = insert t (\<Union>i<512. f i)"
    using Suc.prems(1) by auto
  show ?case
  proof (cases "ptev (entry m t ?i)")
    case True
    have "\<forall>x\<in>f ?i. pg x" using f(2) Suc.prems(2) PX_less[of "Suc l" va] by blast
    then show ?thesis using Suc.IH[of "PTE2PA (entry m t ?i)" "f ?i"] f(1)[of ?i] True
      by (simp add: Let_def)
  qed (simp add: Let_def)
qed

section \<open>Walking with allocation\<close>

lemma entry_st64:
  assumes "pg t" and "i < 512" and "j < 512"
  shows "entry (st64 m (unat (pte_at t i)) v) t j = (if j = i then v else entry m t j)"
proof (cases "j = i")
  case False
  then have "unat (pte_at t j) + 8 \<le> unat (pte_at t i) \<or> unat (pte_at t i) + 8 \<le> unat (pte_at t j)"
    using assms by (simp add: unat_pte_at) arith
  then show ?thesis using False unfolding entry_def by (simp add: ld64_st64_other)
qed (simp add: entry_def)

lemma st64_entry_outside:
  "pg t \<Longrightarrow> i < 512 \<Longrightarrow> b \<notin> page_addrs t \<Longrightarrow> st64 m (unat (pte_at t i)) v b = m b"
  by (rule st64_outside) (auto simp: unat_pte_at page_addrs_def)

text \<open>One round of the loop that adds a page-table page: a zeroed page, taken from the free list,
  hung below entry \<open>i\<close> of \<open>t\<close>.\<close>

lemma table_added:
  assumes fp: "free_pages s (x # xs)" and t: "page_ok s t" "t \<notin> set (x # xs)" and i: "i < 512"
  shows "\<exists>u w. kalloc s = Ok x u \<and> w = wr64 (pte_at t i) v (fill x 0 u) \<and> x \<noteq> 0 \<and> x \<notin> set xs \<and>
     free_pages w xs \<and> mem_only s w \<and> (\<forall>b\<in>page_addrs x. phys w b = 0) \<and>
     (\<forall>j<512. entry (phys w) t j = (if j = i then v else entry (phys s) t j)) \<and>
     (\<forall>b. b \<notin> page_addrs x \<longrightarrow> b \<notin> page_addrs t \<longrightarrow> phys w b = phys s b)"
proof -
  obtain u where u: "kalloc s = Ok x u" "free_pages u xs" "x \<noteq> 0" "x \<notin> set xs" "page_ok s x"
      "\<forall>b. phys u b = (if b \<in> page_addrs x then 5 else phys s b)" "mem_only s u"
    using kalloc_pop[OF fp] by blast
  have end0: "0 < k_end s" using fp by (simp add: free_pages_def)
  have pgs: "pg x" "pg t" using u(5) t(1) end0 page_ok_pg by blast+
  have dj: "page_addrs x \<inter> page_addrs t = {}" using pg_disjoint pgs t(2) by auto
  let ?w = "wr64 (pte_at t i) v (fill x 0 u)"
  have m: "phys ?w b = (if b \<in> page_addrs x then 0 else phys s b)" if "b \<notin> page_addrs t" for b
    using that u(6) st64_entry_outside[OF pgs(2) i] by (auto simp: memset_apply page_addrs_def)
  have mo: "mem_only s ?w" by (intro mem_only_trans[OF u(7)] mem_only_trans[OF mem_only_phys mem_only_phys])
  have en: "entry (phys ?w) t j = (if j = i then v else entry (phys s) t j)" if "j < 512" for j
  proof -
    have "agree {t} (phys s) (phys (fill x 0 u))"
      using u(6) dj by (auto simp: agree_def memset_apply page_addrs_def)
    then have "entry (phys (fill x 0 u)) t j = entry (phys s) t j" using entry_agree pgs(2) that by blast
    then show ?thesis using entry_st64[OF pgs(2) i that] by simp
  qed
  have "free_pages ?w xs"
  proof (rule free_pages_frame[OF u(2)])
    fix y b assume y: "y \<in> set xs" "b \<in> page_addrs y"
    then have "page_ok s y" "y \<noteq> x" "y \<noteq> t" using fp t(2) by (auto simp: free_pages_def)
    then have "pg y" using page_ok_pg end0 by blast
    then have "b \<notin> page_addrs x" "b \<notin> page_addrs t"
      using y pg_disjoint[OF _ pgs(1), of y] pg_disjoint[OF _ pgs(2), of y] \<open>y \<noteq> x\<close> \<open>y \<noteq> t\<close> by auto
    then show "phys ?w b = phys u b" using m u(6) by simp
  qed simp_all
  moreover have "\<forall>b\<in>page_addrs x. phys ?w b = 0"
  proof
    fix b assume b: "b \<in> page_addrs x"
    then have "b \<notin> page_addrs t" using dj by blast
    from m[OF this] b show "phys ?w b = 0" by simp
  qed
  moreover have "\<forall>b. b \<notin> page_addrs x \<longrightarrow> b \<notin> page_addrs t \<longrightarrow> phys ?w b = phys s b" using m by simp
  ultimately show ?thesis
    by (intro exI[of _ u] exI[of _ ?w] conjI) (use u mo en in simp_all)
qed


text \<open>\<open>pt_inv\<close>: the pages of the tree and of the free list are proper pages and disjoint.
  \<open>grown\<close>: the tree took some pages from the free list and memory outside it did not change.\<close>

definition pt_inv :: "'a kvm_scheme \<Rightarrow> nat \<Rightarrow> u64 \<Rightarrow> u64 set \<Rightarrow> u64 list \<Rightarrow> bool" where
  "pt_inv s l t S xs \<longleftrightarrow> free_pages s xs \<and> tree l (phys s) t S \<and> (\<forall>x\<in>S. page_ok s x) \<and> S \<inter> set xs = {}"

definition grown ::
  "'a kvm_scheme \<Rightarrow> nat \<Rightarrow> u64 \<Rightarrow> u64 set \<Rightarrow> u64 list \<Rightarrow> 'a kvm_scheme \<Rightarrow> u64 set \<Rightarrow> u64 list \<Rightarrow> bool" where
  "grown s l t S xs u Q ys \<longleftrightarrow> mem_only s u \<and> pt_inv u l t Q ys \<and> Q \<union> set ys = S \<union> set xs \<and> S \<subseteq> Q \<and>
     (\<forall>b. (\<forall>x\<in>Q. b \<notin> page_addrs x) \<longrightarrow> phys u b = phys s b)"

lemma pt_inv_pg: "pt_inv s l t S xs \<Longrightarrow> x \<in> S \<union> set xs \<Longrightarrow> pg x"
  using page_ok_pg[of s x] by (auto simp: pt_inv_def free_pages_def)

lemma grown_refl: "pt_inv s l t S xs \<Longrightarrow> grown s l t S xs s S xs"
  by (simp add: grown_def)

text \<open>Growth of the subtree below entry \<open>i\<close> is growth of the tree.\<close>

lemma subtree_grown:
  assumes inv: "pt_inv s (Suc l) t S xs"
    and f: "\<And>j. j < 512 \<Longrightarrow> if ptev (entry (phys s) t j) then tree l (phys s) (PTE2PA (entry (phys s) t j)) (f j) else f j = {}"
      "\<And>j. j < 512 \<Longrightarrow> t \<notin> f j" "disjoint_family_on f {..<512}" "S = insert t (\<Union>j<512. f j)"
    and i: "i < 512" and mo: "mem_only s u"
    and e: "\<And>j. j < 512 \<Longrightarrow> j \<noteq> i \<Longrightarrow> entry (phys u) t j = entry (phys s) t j"
    and q: "ptev (entry (phys u) t i)" "tree l (phys u) (PTE2PA (entry (phys u) t i)) Q"
    and ys: "free_pages u ys" "Q \<inter> set ys = {}" "Q \<union> set ys = f i \<union> set xs" "f i \<subseteq> Q"
    and m: "\<And>b. b \<notin> page_addrs t \<Longrightarrow> (\<forall>x\<in>Q. b \<notin> page_addrs x) \<Longrightarrow> phys u b = phys s b"
  shows "grown s (Suc l) t S xs u (insert t (Q \<union> (\<Union>j\<in>{..<512} - {i}. f j))) ys"
    and "PX (Suc l) va \<noteq> i \<Longrightarrow> tlook (Suc l) (phys u) t va = tlook (Suc l) (phys s) t va"
proof -
  let ?R = "insert t (Q \<union> (\<Union>j\<in>{..<512} - {i}. f j))"
  have dS: "S \<inter> set xs = {}" using inv by (simp add: pt_inv_def)
  have fS: "j < 512 \<Longrightarrow> f j \<subseteq> S" for j using f(4) by blast
  have Qs: "Q \<subseteq> f i \<union> set xs" using ys(3) by blast
  have tQ: "t \<notin> Q" using Qs f(2)[OF i] dS f(4) by blast
  have fij: "j < 512 \<Longrightarrow> j \<noteq> i \<Longrightarrow> f i \<inter> f j = {}" for j
    using f(3) i unfolding disjoint_family_on_def by blast
  have Qf: "j < 512 \<Longrightarrow> j \<noteq> i \<Longrightarrow> Q \<inter> f j = {}" for j using Qs fij fS dS by blast
  have pgS: "x \<in> S \<Longrightarrow> pg x" and pgx: "x \<in> set xs \<Longrightarrow> pg x" for x using pt_inv_pg[OF inv] by auto
  have pgQ: "x \<in> Q \<Longrightarrow> pg x" for x using Qs fS[OF i] pgS pgx by blast
  have tS: "t \<in> S" using f(4) by blast
  have ag: "agree (f j) (phys s) (phys u)" if j: "j < 512" "j \<noteq> i" for j
    unfolding agree_def
  proof (intro ballI)
    fix x b assume x: "x \<in> f j" "b \<in> page_addrs x"
    have "pg x" "x \<noteq> t" "x \<notin> Q" using x(1) j fS pgS f(2) Qf by blast+
    then have "b \<notin> page_addrs t" "\<forall>y\<in>Q. b \<notin> page_addrs y"
      using x(2) pg_disjoint pgS[OF tS] pgQ by blast+
    then show "phys u b = phys s b" by (rule m)
  qed
  note R = tree_replace[OF f(1-3) _ i e q tQ Qf ag]
  have tr: "tree (Suc l) (phys u) t ?R" by (rule R(1)) (use fS pgS in blast)+
  show "PX (Suc l) va \<noteq> i \<Longrightarrow> tlook (Suc l) (phys u) t va = tlook (Suc l) (phys s) t va"
    by (rule R(2)) (use fS pgS in blast)+
  have UN: "(\<Union>j<512. f j) = f i \<union> (\<Union>j\<in>{..<512} - {i}. f j)" using i by blast
  have cov: "?R \<union> set ys = S \<union> set xs" "S \<subseteq> ?R" using f(4) UN ys(3,4) by blast+
  have "?R \<inter> set ys = {}"
  proof -
    have "set ys \<subseteq> f i \<union> set xs" using ys(3) by blast
    then have "t \<notin> set ys" "(\<Union>j\<in>{..<512} - {i}. f j) \<inter> set ys = {}"
      using tS dS f(2)[OF i] fS fij by blast+
    then show ?thesis using ys(2) by blast
  qed
  moreover have "page_ok u x" if "x \<in> ?R" for x
  proof -
    have "x \<in> S \<union> set xs" using that cov(1) by blast
    then have "page_ok s x" using inv by (auto simp: pt_inv_def free_pages_def)
    then show ?thesis using mem_onlyD(4)[OF mo] by simp
  qed
  moreover have "phys u b = phys s b" if "\<forall>x\<in>?R. b \<notin> page_addrs x" for b
    by (rule m) (use that in blast)+
  ultimately show "grown s (Suc l) t S xs u ?R ys"
    using tr cov ys(1) mo by (auto simp: grown_def pt_inv_def)
qed


text \<open>The two ways a round of \<^verbatim>\<open>walk\<close> goes down: through a valid entry, or through a new page.\<close>

definition walk_result ::
  "'a kvm_scheme \<Rightarrow> nat \<Rightarrow> u64 \<Rightarrow> u64 \<Rightarrow> u64 set \<Rightarrow> u64 list \<Rightarrow> u64 \<Rightarrow> 'a kvm_scheme \<Rightarrow> u64 set \<Rightarrow> u64 list \<Rightarrow> bool" where
  "walk_result s l t va S xs p u Q ys \<longleftrightarrow> grown s l t S xs u Q ys \<and>
     (\<forall>vb. tlook l (phys u) t vb = tlook l (phys s) t vb) \<and>
     (if p = 0 then ys = [] else leaf l (phys u) t va = p)"

lemma walk_down_valid:
  assumes inv: "pt_inv s (Suc l) t S xs"
    and f: "\<And>j. j < 512 \<Longrightarrow> if ptev (entry (phys s) t j) then tree l (phys s) (PTE2PA (entry (phys s) t j)) (f j) else f j = {}"
      "\<And>j. j < 512 \<Longrightarrow> t \<notin> f j" "disjoint_family_on f {..<512}" "S = insert t (\<Union>j<512. f j)"
    and v: "ptev (entry (phys s) t (PX (Suc l) va))"
    and r: "walk_result s l (PTE2PA (entry (phys s) t (PX (Suc l) va))) va (f (PX (Suc l) va)) xs p u Q ys"
  shows "\<exists>R. walk_result s (Suc l) t va S xs p u R ys"
proof -
  let ?i = "PX (Suc l) va"
  have i: "?i < 512" by simp
  have g: "mem_only s u" "free_pages u ys" "tree l (phys u) (PTE2PA (entry (phys s) t ?i)) Q" "Q \<inter> set ys = {}"
      "Q \<union> set ys = f ?i \<union> set xs" "f ?i \<subseteq> Q" "\<And>b. \<forall>x\<in>Q. b \<notin> page_addrs x \<Longrightarrow> phys u b = phys s b"
      "\<And>vb. tlook l (phys u) (PTE2PA (entry (phys s) t ?i)) vb = tlook l (phys s) (PTE2PA (entry (phys s) t ?i)) vb"
      "if p = 0 then ys = [] else leaf l (phys u) (PTE2PA (entry (phys s) t ?i)) va = p"
    using r by (auto simp: walk_result_def grown_def pt_inv_def)
  have tS: "t \<in> S" using f(4) by blast
  have fS: "f ?i \<subseteq> S" using f(4) i by blast
  have "t \<notin> Q" using g(5) f(2)[OF i] inv tS by (auto simp: pt_inv_def)
  then have "b \<in> page_addrs t \<Longrightarrow> \<forall>x\<in>Q. b \<notin> page_addrs x" for b
    using pg_disjoint pt_inv_pg[OF inv] tS fS g(5) by blast
  then have "agree {t} (phys s) (phys u)" using g(7) by (auto simp: agree_def)
  then have e: "j < 512 \<Longrightarrow> entry (phys u) t j = entry (phys s) t j" for j
    using entry_agree pt_inv_pg[OF inv] tS by blast
  note G = subtree_grown[OF inv f i g(1) e _ _ g(2,4,5,6) g(7)]
  have "grown s (Suc l) t S xs u (insert t (Q \<union> (\<Union>j\<in>{..<512} - {?i}. f j))) ys"
    by (rule G(1)) (use v g(3) e[OF i] in simp_all)
  moreover have "tlook (Suc l) (phys u) t vb = tlook (Suc l) (phys s) t vb" for vb
  proof (cases "PX (Suc l) vb = ?i")
    case True
    then show ?thesis using e[OF i] g(8) v by (simp add: Let_def)
  next
    case False
    then show ?thesis by (intro G(2)) (use v g(3) e[OF i] in simp_all)
  qed
  moreover have "if p = 0 then ys = [] else leaf (Suc l) (phys u) t va = p"
    using g(9) e[OF i] v by (simp add: Let_def)
  ultimately show ?thesis unfolding walk_result_def by blast
qed

lemma walk_down_new:
  assumes inv: "pt_inv s (Suc l) t S (x # xs)"
    and f: "\<And>j. j < 512 \<Longrightarrow> if ptev (entry (phys s) t j) then tree l (phys s) (PTE2PA (entry (phys s) t j)) (f j) else f j = {}"
      "\<And>j. j < 512 \<Longrightarrow> t \<notin> f j" "disjoint_family_on f {..<512}" "S = insert t (\<Union>j<512. f j)"
    and v: "\<not> ptev (entry (phys s) t (PX (Suc l) va))"
    and w: "mem_only s w" "x \<notin> set xs" "\<forall>b\<in>page_addrs x. phys w b = 0"
      "\<And>j. j < 512 \<Longrightarrow> entry (phys w) t j = (if j = PX (Suc l) va then PA2PTE x OR PTE_V else entry (phys s) t j)"
      "\<And>b. b \<notin> page_addrs x \<Longrightarrow> b \<notin> page_addrs t \<Longrightarrow> phys w b = phys s b"
    and r: "walk_result w l x va {x} xs p u Q ys"
  shows "\<exists>R. walk_result s (Suc l) t va S (x # xs) p u R ys"
proof -
  let ?i = "PX (Suc l) va"
  have i: "?i < 512" by simp
  have fi: "f ?i = {}" using f(1)[OF i] v by simp
  have pgs: "pg x" "pg t" using pt_inv_pg[OF inv] f(4) by auto
  have g: "mem_only w u" "free_pages u ys" "tree l (phys u) x Q" "Q \<inter> set ys = {}"
      "Q \<union> set ys = insert x (set xs)" "x \<in> Q" "\<And>b. \<forall>x\<in>Q. b \<notin> page_addrs x \<Longrightarrow> phys u b = phys w b"
      "\<And>vb. tlook l (phys u) x vb = tlook l (phys w) x vb"
      "if p = 0 then ys = [] else leaf l (phys u) x va = p"
    using r by (auto simp: walk_result_def grown_def pt_inv_def)
  have tn: "t \<notin> insert x (set xs)" using inv f(4) by (auto simp: pt_inv_def)
  then have "b \<in> page_addrs t \<Longrightarrow> \<forall>x\<in>Q. b \<notin> page_addrs x" for b
    using pg_disjoint[OF pgs(2)] pt_inv_pg[OF inv] g(5) by (metis Un_iff disjoint_iff list.simps(15))
  then have "agree {t} (phys w) (phys u)" using g(7) by (auto simp: agree_def)
  then have e: "j < 512 \<Longrightarrow> entry (phys u) t j = (if j = ?i then PA2PTE x OR PTE_V else entry (phys s) t j)" for j
    using entry_agree[OF pgs(2), of j "phys w" "phys u"] w(4) by simp
  have m: "phys u b = phys s b" if "b \<notin> page_addrs t" "\<forall>x\<in>Q. b \<notin> page_addrs x" for b
    using g(7)[OF that(2)] w(5)[of b] that g(6) by simp
  note G = subtree_grown[OF inv f i mem_only_trans[OF w(1) g(1)] _ _ _ g(2,4) _ _ m]
  note c = pte_pointer(1)[OF pgs(1)] pte_pointer(2)[of "PA2PTE x"]
  have "grown s (Suc l) t S (x # xs) u (insert t (Q \<union> (\<Union>j\<in>{..<512} - {?i}. f j))) ys"
    by (rule G(1)) (use e c fi g(3,5) in simp_all)
  moreover have "tlook (Suc l) (phys u) t vb = tlook (Suc l) (phys s) t vb" for vb
  proof (cases "PX (Suc l) vb = ?i")
    case True
    then show ?thesis using e[OF i] c v g(8) zero_tree(2)[OF pgs(1) w(3)] by (simp add: Let_def)
  next
    case False
    then show ?thesis by (intro G(2)) (use e c fi g(3,5) in simp_all)
  qed
  moreover have "if p = 0 then ys = [] else leaf (Suc l) (phys u) t va = p"
    using g(9) e[OF i] c by (simp add: Let_def)
  ultimately show ?thesis unfolding walk_result_def by blast
qed

lemma walk_alloc:
  assumes "pt_inv s l t S xs"
  shows "\<exists>p u Q ys. walk_loop l t va True s = Ok p u \<and> walk_result s l t va S xs p u Q ys"
  using assms
proof (induction l arbitrary: s t S xs)
  case 0
  have "pg t" using pt_inv_pg[OF 0, of t] 0 by (simp add: pt_inv_def)
  then have "0 < unat (pte_at t (PX 0 va))" by (simp add: unat_pte_at pg_def)
  then have "pte_at t (PX 0 va) \<noteq> 0" by auto
  then show ?case using grown_refl[OF 0] by (auto simp: walk_result_def)
next
  case (Suc l)
  let ?i = "PX (Suc l) va" and ?e = "entry (phys s) t (PX (Suc l) va)"
  obtain f where f: "\<And>i. i < 512 \<Longrightarrow> if ptev (entry (phys s) t i) then tree l (phys s) (PTE2PA (entry (phys s) t i)) (f i) else f i = {}"
      "\<And>i. i < 512 \<Longrightarrow> t \<notin> f i" "disjoint_family_on f {..<512}" "S = insert t (\<Union>i<512. f i)"
    using Suc.prems by (auto simp: pt_inv_def)
  show ?case
  proof (cases "ptev ?e")
    case True
    have "f ?i \<subseteq> S" using f(4) PX_less[of "Suc l" va] by blast
    then have "pt_inv s l (PTE2PA ?e) (f ?i) xs"
      using Suc.prems f(1)[of ?i] True by (auto simp: pt_inv_def)
    then obtain p u Q ys where r: "walk_loop l (PTE2PA ?e) va True s = Ok p u"
        "walk_result s l (PTE2PA ?e) va (f ?i) xs p u Q ys" using Suc.IH by blast
    then show ?thesis using walk_down_valid[OF Suc.prems f True r(2)] True
      by (auto simp: Let_def entry_def[symmetric] ptev_def[symmetric])
  next
    case False
    then have nv: "rd64 s (pte_at t ?i) AND PTE_V = 0" by (simp add: entry_def ptev_def)
    show ?thesis
    proof (cases xs)
      case Nil
      then have "kalloc s = Ok 0 s" using kalloc_empty[of s] Suc.prems by (auto simp: pt_inv_def)
      then have "walk_loop (Suc l) t va True s = Ok 0 s" using nv by (simp add: Let_def)
      then show ?thesis using grown_refl[OF Suc.prems] Nil by (auto simp: walk_result_def)
    next
      case (Cons x zs)
      note inv = Suc.prems[unfolded Cons]
      have t: "page_ok s t" "t \<notin> set (x # zs)" "free_pages s (x # zs)"
        using inv f(4) by (auto simp: pt_inv_def)
      obtain w1 w where w: "kalloc s = Ok x w1" "w = wr64 (pte_at t ?i) (PA2PTE x OR PTE_V) (fill x 0 w1)"
          "x \<noteq> 0" "x \<notin> set zs" "free_pages w zs" "mem_only s w" "\<forall>b\<in>page_addrs x. phys w b = 0"
          "\<forall>j<512. entry (phys w) t j = (if j = ?i then PA2PTE x OR PTE_V else entry (phys s) t j)"
          "\<forall>b. b \<notin> page_addrs x \<longrightarrow> b \<notin> page_addrs t \<longrightarrow> phys w b = phys s b"
        using table_added[OF t(3,1,2) PX_less] by blast
      have "page_ok w x" using t(3) mem_onlyD(4)[OF w(6)] by (simp add: free_pages_def)
      then have "pt_inv w l x {x} zs"
        using w(4,5) zero_tree(1)[OF pt_inv_pg[OF inv] w(7)] by (simp add: pt_inv_def)
      then obtain p u Q ys where r: "walk_loop l x va True w = Ok p u" "walk_result w l x va {x} zs p u Q ys"
        using Suc.IH by blast
      have "walk_loop (Suc l) t va True s = Ok p u"
        using nv w(1,3) r(1) unfolding w(2) by (simp add: Let_def)
      moreover have "\<exists>R. walk_result s (Suc l) t va S (x # zs) p u R ys"
        by (rule walk_down_new[OF inv f False w(6,4,7) _ _ r(2)]) (use w(8,9) in blast)+
      ultimately show ?thesis using Cons by blast
    qed
  qed
qed


section \<open>Writing a leaf entry\<close>

lemma leaf_in_tree:
  assumes "tree l m t S" and "\<forall>x\<in>S. pg x" and "leaf l m t va \<noteq> 0"
  shows "\<exists>x\<in>S. \<exists>i<512. leaf l m t va = pte_at x i"
  using assms
proof (induction l arbitrary: t S)
  case 0
  then show ?case by (auto intro!: exI[of _ "PX 0 va"])
next
  case (Suc l)
  let ?i = "PX (Suc l) va"
  obtain f where f: "\<And>i. i < 512 \<Longrightarrow> if ptev (entry m t i) then tree l m (PTE2PA (entry m t i)) (f i) else f i = {}"
      "S = insert t (\<Union>i<512. f i)"
    using Suc.prems(1) by auto
  have v: "ptev (entry m t ?i)" "leaf l m (PTE2PA (entry m t ?i)) va \<noteq> 0"
    using Suc.prems(3) by (auto simp: Let_def split: if_splits)
  have s: "f ?i \<subseteq> S" using f(2) PX_less[of "Suc l" va] by blast
  then have "\<exists>x\<in>f ?i. \<exists>i<512. leaf l m (PTE2PA (entry m t ?i)) va = pte_at x i"
    using Suc.IH[of _ "f ?i"] f(1)[of ?i] v Suc.prems(2) by (simp add: subset_iff)
  then show ?case using v(1) s by (auto simp: Let_def)
qed

lemma same_index_Suc: "same_index (Suc l) va vb \<longleftrightarrow> PX (Suc l) va = PX (Suc l) vb \<and> same_index l va vb"
  by (auto simp: same_index_def le_Suc_eq)

lemma tree_write_leaf:
  assumes "tree l m t S" and "\<forall>x\<in>S. pg x" and "leaf l m t va = p" and "p \<noteq> 0"
  shows "tree l (st64 m (unat p) v) t S \<and>
     (\<forall>vb. tlook l (st64 m (unat p) v) t vb = (if same_index l vb va then v else tlook l m t vb))"
  using assms
proof (induction l arbitrary: t S)
  case 0
  then show ?case using entry_st64[OF _ PX_less PX_less, of t m 0 va v] by (auto simp: same_index_def)
next
  case (Suc l)
  let ?m = "st64 m (unat p) v" and ?i = "PX (Suc l) va"
  let ?c = "PTE2PA (entry m t ?i)"
  have i: "?i < 512" by simp
  obtain f where f: "\<And>i. i < 512 \<Longrightarrow> if ptev (entry m t i) then tree l m (PTE2PA (entry m t i)) (f i) else f i = {}"
      "\<And>i. i < 512 \<Longrightarrow> t \<notin> f i" "disjoint_family_on f {..<512}" "S = insert t (\<Union>i<512. f i)"
    using Suc.prems(1) by auto
  have v: "ptev (entry m t ?i)" "leaf l m ?c va = p"
    using Suc.prems(3,4) by (auto simp: Let_def split: if_splits)
  have fS: "j < 512 \<Longrightarrow> x \<in> f j \<Longrightarrow> pg x" for j x using f(4) Suc.prems(2) by blast
  have tr: "tree l m ?c (f ?i)" using f(1)[OF i] v(1) by simp
  have IH: "tree l ?m ?c (f ?i) \<and> (\<forall>vb. tlook l ?m ?c vb = (if same_index l vb va then v else tlook l m ?c vb))"
    using Suc.IH[OF tr] v(2) Suc.prems(4) fS[OF i] by blast
  obtain x k where x: "x \<in> f ?i" "k < 512" "p = pte_at x k"
    using leaf_in_tree[OF tr] fS[OF i] v(2) Suc.prems(4) by blast
  have pgx: "pg x" "pg t" using fS[OF i x(1)] Suc.prems(2) f(4) by auto
  have out: "?m b = m b" if "b \<notin> page_addrs x" for b
    unfolding x(3) using that by (rule st64_entry_outside[OF pgx(1) x(2)])
  have ag: "agree {t} m ?m"
    using out pg_disjoint[OF pgx] f(2)[OF i] x(1) by (auto simp: agree_def)
  then have e: "j < 512 \<Longrightarrow> entry ?m t j = entry m t j" for j using entry_agree[OF pgx(2)] by blast
  have agj: "agree (f j) m ?m" if "j < 512" "j \<noteq> ?i" for j
  proof -
    have "x \<notin> f j" using f(3) i x(1) that unfolding disjoint_family_on_def by blast
    then show ?thesis using out pg_disjoint[OF pgx(1)] fS[OF that(1)] unfolding agree_def by blast
  qed
  have dj: "f ?i \<inter> f j = {}" if "j < 512" "j \<noteq> ?i" for j
    using f(3) i that unfolding disjoint_family_on_def by blast
  note R = tree_replace[OF f(1-3) fS i e _ _ f(2)[OF i] dj agj]
  have "tree (Suc l) ?m t (insert t (f ?i \<union> (\<Union>j\<in>{..<512} - {?i}. f j)))"
    by (rule R(1)) (use e[OF i] v(1) IH in auto)
  moreover have "insert t (f ?i \<union> (\<Union>j\<in>{..<512} - {?i}. f j)) = S" using f(4) i by blast
  moreover have "tlook (Suc l) ?m t vb = (if same_index (Suc l) vb va then v else tlook (Suc l) m t vb)" for vb
  proof (cases "PX (Suc l) vb = ?i")
    case True
    then show ?thesis using e[OF i] v(1) IH by (simp add: same_index_Suc Let_def)
  next
    case False
    then have "tlook (Suc l) ?m t vb = tlook (Suc l) m t vb"
      by (intro R(2)) (use e[OF i] v(1) IH in auto)
    then show ?thesis using False by (simp add: same_index_Suc)
  qed
  ultimately show ?case by simp
qed


section \<open>Mapping pages\<close>

text \<open>The leaf entry of a virtual address in a process's or the kernel's page table.\<close>

definition pte_of :: "'a kvm_scheme \<Rightarrow> u64 \<Rightarrow> u64 \<Rightarrow> u64" where
  "pte_of s pagetable va = tlook 2 (phys s) pagetable va"

definition in_pages :: "u64 \<Rightarrow> nat \<Rightarrow> u64 \<Rightarrow> bool" where
  "in_pages a n va \<longleftrightarrow> unat a \<le> unat va \<and> unat va < unat a + 4096 * n"

abbreviation pt_ok :: "'a kvm_scheme \<Rightarrow> u64 \<Rightarrow> u64 set \<Rightarrow> u64 list \<Rightarrow> bool" where
  "pt_ok s pagetable S xs \<equiv> pt_inv s 2 pagetable S xs"

lemma same_index_page:
  assumes "va < MAXVA" and "vb < MAXVA"
  shows "same_index 2 va vb \<longleftrightarrow> unat va div 4096 = unat vb div 4096"
proof
  assume "same_index 2 va vb"
  then have "PX 2 va = PX 2 vb" "PX 1 va = PX 1 vb" "PX 0 va = PX 0 vb" by (simp_all add: same_index_def)
  then have "unat (PGROUNDDOWN va) = unat (PGROUNDDOWN vb)" using PX_inject[OF assms] by simp
  then show "unat va div 4096 = unat vb div 4096" by (simp add: unat_PGROUNDDOWN)
next
  assume "unat va div 4096 = unat vb div 4096"
  then have "PGROUNDDOWN va = PGROUNDDOWN vb" by (simp add: word_unat_eq_iff unat_PGROUNDDOWN)
  then show "same_index 2 va vb" unfolding same_index_def by (metis PX_PGROUNDDOWN)
qed

lemma grown_trans:
  assumes "grown s l t S xs u Q ys" and "grown u l t Q ys w R zs"
  shows "grown s l t S xs w R zs"
proof -
  have "phys w b = phys s b" if "\<forall>x\<in>R. b \<notin> page_addrs x" for b
    using assms that unfolding grown_def by (metis subsetD)
  then show ?thesis using assms mem_only_trans[of s u w] unfolding grown_def by auto
qed

lemma walk_maxva: "va < MAXVA \<Longrightarrow> walk t va al s = walk_loop 2 t va al s"
  by (auto simp: walk_def)

lemma write_leaf_grown:
  assumes inv: "pt_ok s pt S xs" and p: "leaf 2 (phys s) pt va = p" "p \<noteq> 0" and va: "va < MAXVA"
  shows "grown s 2 pt S xs (wr64 p v s) S xs"
    and "vb < MAXVA \<Longrightarrow> pte_of (wr64 p v s) pt vb =
       (if unat vb div 4096 = unat va div 4096 then v else pte_of s pt vb)"
proof -
  let ?w = "wr64 p v s"
  have pgS: "\<forall>x\<in>S. pg x" using pt_inv_pg[OF inv] by blast
  have tr: "tree 2 (phys s) pt S" using inv by (simp add: pt_inv_def)
  note W = tree_write_leaf[OF tr pgS p, of v]
  obtain x k where x: "x \<in> S" "k < 512" "p = pte_at x k" using leaf_in_tree[OF tr pgS] p by blast
  have out: "b \<notin> page_addrs x \<Longrightarrow> phys ?w b = phys s b" for b
    using st64_entry_outside[OF _ x(2)] pgS x by simp
  have "free_pages ?w xs"
  proof (rule free_pages_frame)
    fix y b assume y: "y \<in> set xs" "b \<in> page_addrs y"
    then have "pg y" "y \<noteq> x" using pt_inv_pg[OF inv] inv x(1) by (auto simp: pt_inv_def)
    then show "phys ?w b = phys s b" using out y(2) pg_disjoint[of y x] pgS x(1) by blast
  qed (use inv in \<open>simp_all add: pt_inv_def\<close>)
  then have "pt_ok ?w pt S xs"
    using W inv mem_onlyD(4)[OF mem_only_phys[of s]] by (simp add: pt_inv_def)
  then show "grown s 2 pt S xs ?w S xs" using out x(1) by (auto simp: grown_def simp del: select_convs)
  show "vb < MAXVA \<Longrightarrow> pte_of ?w pt vb = (if unat vb div 4096 = unat va div 4096 then v else pte_of s pt vb)"
    using W same_index_page[OF _ va] by (simp add: pte_of_def)
qed

lemma map_one:
  assumes inv: "pt_ok s pt S xs" and a: "a < MAXVA" and n: "\<not> ptev (pte_of s pt a)"
  shows "\<exists>p u Q ys. walk pt a True s = Ok p u \<and> grown s 2 pt S xs u Q ys \<and>
     (\<forall>vb. pte_of u pt vb = pte_of s pt vb) \<and> (p = 0 \<longrightarrow> ys = []) \<and>
     (p \<noteq> 0 \<longrightarrow> rd64 u p AND PTE_V = 0 \<and> grown s 2 pt S xs (wr64 p v u) Q ys \<and>
       (\<forall>vb<MAXVA. pte_of (wr64 p v u) pt vb = (if unat vb div 4096 = unat a div 4096 then v else pte_of s pt vb)))"
proof -
  obtain p u Q ys where w: "walk_loop 2 pt a True s = Ok p u" "walk_result s 2 pt a S xs p u Q ys"
    using walk_alloc[OF inv] by blast
  then have g: "grown s 2 pt S xs u Q ys" "\<And>vb. pte_of u pt vb = pte_of s pt vb"
      "p = 0 \<Longrightarrow> ys = []" "p \<noteq> 0 \<Longrightarrow> leaf 2 (phys u) pt a = p"
    by (auto simp: walk_result_def pte_of_def)
  have iu: "pt_ok u pt Q ys" using g(1) by (simp add: grown_def)
  have "rd64 u p AND PTE_V = 0 \<and> grown s 2 pt S xs (wr64 p v u) Q ys \<and>
       (\<forall>vb<MAXVA. pte_of (wr64 p v u) pt vb = (if unat vb div 4096 = unat a div 4096 then v else pte_of s pt vb))"
    if p: "p \<noteq> 0"
  proof -
    have "rd64 u p = pte_of u pt a"
      using tlook_leaf[of 2 "phys u" pt Q a] iu pt_inv_pg[OF iu] g(4)[OF p] p by (simp add: pte_of_def pt_inv_def)
    then have "rd64 u p AND PTE_V = 0" using n g(2) by (simp add: ptev_def)
    then show ?thesis
      using grown_trans[OF g(1) write_leaf_grown(1)[OF iu g(4)[OF p] p a]]
        write_leaf_grown(2)[OF iu g(4)[OF p] p a] g(2) by simp
  qed
  then show ?thesis using w(1) g walk_maxva[OF a] by (metis (no_types, lifting))
qed


lemma div_page_eq: "4096 dvd (a :: nat) \<Longrightarrow> b div 4096 = a div 4096 \<longleftrightarrow> a \<le> b \<and> b < a + 4096"
  by (auto elim!: dvdE)

definition mapped_result ::
  "'a kvm_scheme \<Rightarrow> u64 \<Rightarrow> u64 \<Rightarrow> nat \<Rightarrow> u64 \<Rightarrow> u64 \<Rightarrow> int \<Rightarrow> 'a kvm_scheme \<Rightarrow> u64 list \<Rightarrow> bool" where
  "mapped_result s pt a n pa perm r u ys \<longleftrightarrow>
     (r = 0 \<or> r = -1 \<and> ys = []) \<and>
     (\<forall>vb<MAXVA. \<not> in_pages a n vb \<longrightarrow> pte_of u pt vb = pte_of s pt vb) \<and>
     (r = 0 \<longrightarrow> (\<forall>vb<MAXVA. in_pages a n vb \<longrightarrow>
        pte_of u pt vb = PA2PTE (pa + (PGROUNDDOWN vb - a)) OR perm OR PTE_V))"

lemma in_pages_Suc:
  assumes "4096 dvd unat a" and "unat (a + PGSIZE) = unat a + 4096"
  shows "in_pages a (Suc n) vb \<longleftrightarrow> unat vb div 4096 = unat a div 4096 \<or> in_pages (a + PGSIZE) n vb"
  using assms div_page_eq[OF assms(1), of "unat vb"] by (auto simp: in_pages_def)

lemma PGROUNDDOWN_same: "4096 dvd unat a \<Longrightarrow> unat vb div 4096 = unat a div 4096 \<Longrightarrow> PGROUNDDOWN vb = a"
  by (simp add: word_unat_eq_iff unat_PGROUNDDOWN)

lemma mapped_result_step:
  assumes al: "4096 dvd unat a" and na: "unat (a + PGSIZE) = unat a + 4096"
    and w: "\<And>vb. vb < MAXVA \<Longrightarrow> pte_of w pt vb =
      (if unat vb div 4096 = unat a div 4096 then PA2PTE pa OR perm OR PTE_V else pte_of s pt vb)"
    and t: "mapped_result w pt (a + PGSIZE) n (pa + PGSIZE) perm r t zs"
  shows "mapped_result s pt a (Suc n) pa perm r t zs"
  unfolding mapped_result_def
proof (intro conjI allI impI)
  have apart: "in_pages (a + PGSIZE) n vb \<Longrightarrow> unat vb div 4096 \<noteq> unat a div 4096" for vb
    using div_page_eq[OF al, of "unat vb"] na by (auto simp: in_pages_def)
  note ip = in_pages_Suc[OF al na]
  show "r = 0 \<or> r = -1 \<and> zs = []" using t by (simp add: mapped_result_def)
  show "pte_of t pt vb = pte_of s pt vb" if "vb < MAXVA" "\<not> in_pages a (Suc n) vb" for vb
    using that t w[OF that(1)] ip[of n vb] by (simp add: mapped_result_def)
  show "pte_of t pt vb = PA2PTE (pa + (PGROUNDDOWN vb - a)) OR perm OR PTE_V"
    if r: "r = 0" and vb: "vb < MAXVA" "in_pages a (Suc n) vb" for vb
  proof (cases "unat vb div 4096 = unat a div 4096")
    case True
    then have "\<not> in_pages (a + PGSIZE) n vb" using apart by blast
    then show ?thesis using t vb(1) w[OF vb(1)] True PGROUNDDOWN_same[OF al True]
      by (simp add: mapped_result_def)
  next
    case False
    then have "in_pages (a + PGSIZE) n vb" using vb(2) ip[of n vb] by simp
    moreover have "pa + PGSIZE + (PGROUNDDOWN vb - (a + PGSIZE)) = pa + (PGROUNDDOWN vb - a)" by simp
    ultimately show ?thesis using t r vb(1) unfolding mapped_result_def by metis
  qed
qed

lemma mappages_loop_maps:
  assumes "pt_ok s pt S xs" and "4096 dvd unat a" and "unat a + 4096 * Suc n \<le> 2 ^ 38"
    and "final = a + word_of_nat (4096 * n)"
    and "\<forall>vb<MAXVA. in_pages a (Suc n) vb \<longrightarrow> \<not> ptev (pte_of s pt vb)"
  shows "\<exists>r u Q ys. mappages_loop pt a final pa perm s = Ok r u \<and> grown s 2 pt S xs u Q ys \<and>
     mapped_result s pt a (Suc n) pa perm r u ys"
  using assms
proof (induction n arbitrary: a pa s S xs)
  case (Suc n)
  let ?v = "PA2PTE pa OR perm OR PTE_V"
  have a: "a < MAXVA" and na: "unat (a + PGSIZE) = unat a + 4096"
    using Suc.prems(3) next_page[of a] by (simp_all add: word_less_nat_alt unat_MAXVA)
  note ip = in_pages_Suc[OF Suc.prems(2) na]
  have "unat (word_of_nat (4096 * Suc n) :: u64) = 4096 * Suc n"
    unfolding unat_of_nat by (rule mod_less) (use Suc.prems(3) in simp)
  then have nf: "a \<noteq> final" using Suc.prems(4) by auto
  obtain p u Q ys where w: "walk pt a True s = Ok p u" "grown s 2 pt S xs u Q ys"
      "\<forall>vb. pte_of u pt vb = pte_of s pt vb" "p = 0 \<Longrightarrow> ys = []"
      "p \<noteq> 0 \<Longrightarrow> rd64 u p AND PTE_V = 0 \<and> grown s 2 pt S xs (wr64 p ?v u) Q ys \<and>
       (\<forall>vb<MAXVA. pte_of (wr64 p ?v u) pt vb = (if unat vb div 4096 = unat a div 4096 then ?v else pte_of s pt vb))"
    using map_one[OF Suc.prems(1) a, of ?v] Suc.prems(5) a ip[of "Suc n" a] by auto
  show ?case
  proof (cases "p = 0")
    case True
    then show ?thesis using w
      by (intro exI[of _ "-1"] exI[of _ u] exI[of _ Q] exI[of _ ys])
         (subst mappages_loop.simps, simp add: mapped_result_def)
  next
    case False
    let ?w = "wr64 p ?v u"
    have gw: "rd64 u p AND PTE_V = 0" "grown s 2 pt S xs ?w Q ys"
        "\<And>vb. vb < MAXVA \<Longrightarrow> pte_of ?w pt vb = (if unat vb div 4096 = unat a div 4096 then ?v else pte_of s pt vb)"
      using w(5)[OF False] by auto
    have ok: "pt_ok ?w pt Q ys" using gw(2) unfolding grown_def by blast
    have apart: "in_pages (a + PGSIZE) k vb \<Longrightarrow> unat vb div 4096 \<noteq> unat a div 4096" for k vb
      using div_page_eq[OF Suc.prems(2), of "unat vb"] na by (auto simp: in_pages_def)
    have "\<exists>r t R zs. mappages_loop pt (a + PGSIZE) final (pa + PGSIZE) perm ?w = Ok r t \<and>
        grown ?w 2 pt Q ys t R zs \<and> mapped_result ?w pt (a + PGSIZE) (Suc n) (pa + PGSIZE) perm r t zs"
    proof (rule Suc.IH[OF ok])
      show "4096 dvd unat (a + PGSIZE)" using Suc.prems(2) na by simp
      show "unat (a + PGSIZE) + 4096 * Suc n \<le> 2 ^ 38" using Suc.prems(3) na by simp
      show "final = a + PGSIZE + word_of_nat (4096 * n)" using Suc.prems(4) by (simp add: PGSIZE_def)
      show "\<forall>vb<MAXVA. in_pages (a + PGSIZE) (Suc n) vb \<longrightarrow> \<not> ptev (pte_of ?w pt vb)"
        using gw(3) apart ip Suc.prems(5) by simp
    qed
    then obtain r t R zs where t: "mappages_loop pt (a + PGSIZE) final (pa + PGSIZE) perm ?w = Ok r t"
        "grown ?w 2 pt Q ys t R zs" "mapped_result ?w pt (a + PGSIZE) (Suc n) (pa + PGSIZE) perm r t zs"
      by blast
    have "mappages_loop pt a final pa perm s = Ok r t"
      using w(1) False gw(1) nf t(1) by (subst mappages_loop.simps) (simp add: Let_def)
    then show ?thesis
      using mapped_result_step[OF Suc.prems(2) na gw(3) t(3)] grown_trans[OF gw(2) t(2)] by blast
  qed
next
  case 0
  let ?v = "PA2PTE pa OR perm OR PTE_V"
  have a: "a < MAXVA" and na: "unat (a + PGSIZE) = unat a + 4096"
    using "0.prems"(3) next_page[of a] by (simp_all add: word_less_nat_alt unat_MAXVA)
  obtain p u Q ys where w: "walk pt a True s = Ok p u" "grown s 2 pt S xs u Q ys"
      "\<forall>vb. pte_of u pt vb = pte_of s pt vb" "p = 0 \<Longrightarrow> ys = []"
      "p \<noteq> 0 \<Longrightarrow> rd64 u p AND PTE_V = 0 \<and> grown s 2 pt S xs (wr64 p ?v u) Q ys \<and>
       (\<forall>vb<MAXVA. pte_of (wr64 p ?v u) pt vb = (if unat vb div 4096 = unat a div 4096 then ?v else pte_of s pt vb))"
    using map_one[OF "0.prems"(1) a, of ?v] "0.prems"(5) a in_pages_Suc[OF "0.prems"(2) na, of 0 a] by auto
  show ?case
  proof (cases "p = 0")
    case True
    then show ?thesis using w
      by (intro exI[of _ "-1"] exI[of _ u] exI[of _ Q] exI[of _ ys])
         (subst mappages_loop.simps, simp add: mapped_result_def)
  next
    case False
    let ?w = "wr64 p ?v u"
    have "mapped_result ?w pt (a + PGSIZE) 0 (pa + PGSIZE) perm 0 ?w ys"
      by (auto simp: mapped_result_def in_pages_def)
    then have "mapped_result s pt a (Suc 0) pa perm 0 ?w ys"
      by (rule mapped_result_step[OF "0.prems"(2) na, rotated]) (use w(5)[OF False] in blast)
    moreover have "mappages_loop pt a final pa perm s = Ok 0 ?w"
      using w(1) w(5)[OF False] False "0.prems"(4) by (subst mappages_loop.simps) (simp add: Let_def)
    ultimately show ?thesis using w(5)[OF False] by blast
  qed
qed

lemma mappages_pages:
  assumes inv: "pt_ok s pt S xs" and va: "4096 dvd unat va" "unat va + 4096 * n \<le> 2 ^ 38" and n: "0 < n"
    and free: "\<forall>vb<MAXVA. in_pages va n vb \<longrightarrow> \<not> ptev (pte_of s pt vb)"
  shows "\<exists>r u Q ys. mappages pt va (word_of_nat (4096 * n)) pa perm s = Ok r u \<and> grown s 2 pt S xs u Q ys \<and>
     mapped_result s pt va n pa perm r u ys"
proof -
  obtain k where k: "n = Suc k" using n by (cases n) auto
  let ?sz = "word_of_nat (4096 * n) :: u64"
  have u: "unat ?sz = 4096 * n" unfolding unat_of_nat by (rule mod_less) (use va(2) in simp)
  have "unat (va mod 4096) = 0" "unat (?sz mod 4096) = 0" "unat ?sz \<noteq> 0"
    using va(1) u n by (simp_all add: unat_mod)
  then have z: "va mod PGSIZE = 0" "?sz mod PGSIZE = 0" "?sz \<noteq> 0" by (auto simp: PGSIZE_def unat_eq_zero)
  have f: "va + ?sz - PGSIZE = va + word_of_nat (4096 * k)" using k by (simp add: PGSIZE_def)
  show ?thesis
    using mappages_loop_maps[OF inv va(1) _ refl, of k pa perm] va(2) free z f k
    by (auto simp: mappages_def)
qed

text \<open>
  C5. Mapping pages: on a well-formed page table \<^verbatim>\<open>mappages\<close> over \<open>n\<close> unmapped pages either succeeds,
  and then exactly these pages translate, page by page, to the physical range from \<open>pa\<close> with the
  given permissions while every other address translates as before; or it runs out of memory, and
  then no address outside the range changed. In both cases the tables stay a proper tree, made of
  old and of free pages only, and no other memory is touched.
\<close>

theorem mappages_maps:
  assumes "pt_ok s pt S xs" and "4096 dvd unat va" and "unat va + 4096 * n \<le> 2 ^ 38" and "0 < n"
    and "\<forall>vb<MAXVA. in_pages va n vb \<longrightarrow> \<not> ptev (pte_of s pt vb)"
  shows "\<exists>r u Q ys. mappages pt va (word_of_nat (4096 * n)) pa perm s = Ok r u \<and>
     pt_ok u pt Q ys \<and> S \<subseteq> Q \<and> Q \<union> set ys = S \<union> set xs \<and>
     (\<forall>b. (\<forall>x\<in>Q. b \<notin> page_addrs x) \<longrightarrow> phys u b = phys s b) \<and>
     (r = 0 \<and> (\<forall>vb<MAXVA. pte_of u pt vb =
         (if in_pages va n vb then PA2PTE (pa + (PGROUNDDOWN vb - va)) OR perm OR PTE_V else pte_of s pt vb)) \<or>
      r = -1 \<and> ys = [] \<and> (\<forall>vb<MAXVA. \<not> in_pages va n vb \<longrightarrow> pte_of u pt vb = pte_of s pt vb))"
proof -
  obtain r u Q ys where m: "mappages pt va (word_of_nat (4096 * n)) pa perm s = Ok r u"
      "grown s 2 pt S xs u Q ys" "mapped_result s pt va n pa perm r u ys"
    using mappages_pages[OF assms, of pa perm] by blast
  show ?thesis
  proof (intro exI[of _ r] exI[of _ u] exI[of _ Q] exI[of _ ys] conjI)
    show "r = 0 \<and> (\<forall>vb<MAXVA. pte_of u pt vb =
         (if in_pages va n vb then PA2PTE (pa + (PGROUNDDOWN vb - va)) OR perm OR PTE_V else pte_of s pt vb)) \<or>
      r = -1 \<and> ys = [] \<and> (\<forall>vb<MAXVA. \<not> in_pages va n vb \<longrightarrow> pte_of u pt vb = pte_of s pt vb)"
      using m(3) by (auto simp: mapped_result_def)
  qed (use m(1,2) in \<open>simp_all add: grown_def\<close>)
qed


text \<open>A machine with four pages: an empty page table and a free list of three.\<close>

definition vm_state :: kvm where
  "vm_state = boot_mem\<lparr>k_end := 0x87FFC000, kmem_freelist := 0x87FFF000,
     phys := st64 (st64 (\<lambda>_. 0) 0x87FFF000 0x87FFE000) 0x87FFE000 0x87FFD000\<rparr>"

lemma vm_state_free: "free_pages vm_state [0x87FFF000, 0x87FFE000, 0x87FFD000]"
proof -
  have z: "ld64 (\<lambda>_. 0) a = 0" for a by (simp add: ld64_def)
  show ?thesis
    by (simp add: free_pages_def vm_state_def page_ok_def PGSIZE_def PHYSTOP_def KERNBASE_def ld64_st64_other z)
qed

lemma vm_state_ok: "pt_ok vm_state 0x87FFC000 {0x87FFC000} [0x87FFF000, 0x87FFE000, 0x87FFD000]"
  "pte_of vm_state 0x87FFC000 va = 0"
proof -
  have z: "\<forall>b\<in>page_addrs 0x87FFC000. phys vm_state b = 0"
    by (auto simp: page_addrs_def vm_state_def st64_def)
  have p: "page_ok vm_state 0x87FFC000"
    by (simp add: vm_state_def page_ok_def PGSIZE_def PHYSTOP_def KERNBASE_def)
  have g: "pg 0x87FFC000" by (simp add: pg_def)
  show "pt_ok vm_state 0x87FFC000 {0x87FFC000} [0x87FFF000, 0x87FFE000, 0x87FFD000]"
    using vm_state_free p zero_tree(1)[OF g z] by (simp add: pt_inv_def)
  show "pte_of vm_state 0x87FFC000 va = 0" using zero_tree(2)[OF g z] by (simp add: pte_of_def)
qed

theorem mappages_maps_witness:
  "\<exists>r u Q ys. mappages 0x87FFC000 0x1000 (word_of_nat (4096 * 2)) 0x5000 PTE_R vm_state = Ok r u \<and>
     pt_ok u 0x87FFC000 Q ys \<and> (r = 0 \<longrightarrow> pte_of u 0x87FFC000 0x2004 = PA2PTE 0x6000 OR PTE_R OR PTE_V)"
proof -
  have "\<forall>vb<MAXVA. in_pages 0x1000 2 vb \<longrightarrow> \<not> ptev (pte_of vm_state 0x87FFC000 vb)"
    by (simp add: vm_state_ok(2) ptev_def)
  from mappages_maps[OF vm_state_ok(1) _ _ _ this, of "0x5000" PTE_R]
  obtain r u Q ys where m: "mappages 0x87FFC000 0x1000 (word_of_nat (4096 * 2)) 0x5000 PTE_R vm_state = Ok r u"
      "pt_ok u 0x87FFC000 Q ys"
      "r = 0 \<Longrightarrow> \<forall>vb<MAXVA. in_pages 0x1000 2 vb \<longrightarrow>
         pte_of u 0x87FFC000 vb = PA2PTE (0x5000 + (PGROUNDDOWN vb - 0x1000)) OR PTE_R OR PTE_V"
    by auto
  have "0x2004 < MAXVA" "in_pages 0x1000 2 0x2004" by (simp_all add: MAXVA_def in_pages_def)
  moreover have "(0x5000 :: u64) + (PGROUNDDOWN 0x2004 - 0x1000) = 0x6000"
    by (simp add: PGROUNDDOWN_def PGSIZE_def)
  ultimately show ?thesis using m by metis
qed

end
