(* ===== verification/UserMem.thy ===== *)
theory UserMem
  imports PageTable
begin

text \<open>
  User memory as the kernel's copying routines see it: \<open>ubyte s pt a\<close> is the byte at user virtual
  address \<open>a\<close>, and \<^verbatim>\<open>copyin\<close>, \<^verbatim>\<open>copyout\<close>, \<^verbatim>\<open>copyinstr\<close> and \<^verbatim>\<open>vmfault\<close> are correct with respect to this
  view, whatever physical pages lie behind it.
\<close>

section \<open>The user view\<close>

definition user_pa :: "'a kvm_scheme \<Rightarrow> u64 \<Rightarrow> u64 \<Rightarrow> u64" where
  "user_pa s pt va =
     (let e = pte_of s pt va in
      if va < MAXVA \<and> ptev e \<and> e AND PTE_U \<noteq> 0 then PTE2PA e else 0)"

definition ubyte :: "'a kvm_scheme \<Rightarrow> u64 \<Rightarrow> nat \<Rightarrow> byte" where
  "ubyte s pt a = phys s (unat (user_pa s pt (word_of_nat a)) + a mod 4096)"

definition umapped :: "'a kvm_scheme \<Rightarrow> u64 \<Rightarrow> nat \<Rightarrow> bool" where
  "umapped s pt a \<longleftrightarrow> a < 2 ^ 38 \<and> user_pa s pt (word_of_nat a) \<noteq> 0"

definition uwritable :: "'a kvm_scheme \<Rightarrow> u64 \<Rightarrow> nat \<Rightarrow> bool" where
  "uwritable s pt a \<longleftrightarrow> umapped s pt a \<and> pte_of s pt (word_of_nat a) AND PTE_W \<noteq> 0"

text \<open>Mapped pages are neither page-table pages nor free, and no two virtual pages share one.\<close>

definition user_sep :: "'a kvm_scheme \<Rightarrow> u64 \<Rightarrow> u64 set \<Rightarrow> u64 list \<Rightarrow> bool" where
  "user_sep s pt S xs \<longleftrightarrow>
     (\<forall>va. user_pa s pt va \<noteq> 0 \<longrightarrow> pg (user_pa s pt va) \<and> user_pa s pt va \<notin> S \<union> set xs) \<and>
     (\<forall>va vb. user_pa s pt va \<noteq> 0 \<longrightarrow> user_pa s pt va = user_pa s pt vb \<longrightarrow> unat va div 4096 = unat vb div 4096)"

lemma unat_uaddr: "a < 2 ^ 38 \<Longrightarrow> unat (word_of_nat a :: u64) = a"
  unfolding unat_of_nat by (rule mod_less) simp

lemma same_index_down: "same_index 2 (PGROUNDDOWN va) va"
  by (simp add: same_index_def)

lemma tlook_same_index: "same_index l va vb \<Longrightarrow> tlook l m t va = tlook l m t vb"
proof (induction l arbitrary: t)
  case (Suc l)
  then show ?case by (simp add: same_index_Suc Let_def)
qed (simp add: same_index_def)

lemma pte_of_down: "pte_of s pt (PGROUNDDOWN va) = pte_of s pt va"
  unfolding pte_of_def by (rule tlook_same_index[OF same_index_down])

lemma MAXVA_down: "PGROUNDDOWN va < MAXVA \<longleftrightarrow> va < MAXVA"
proof -
  have "4096 * (unat va div 4096) < 2 ^ 38 \<longleftrightarrow> unat va < 2 ^ 38"
  proof
    assume "4096 * (unat va div 4096) < 2 ^ 38"
    then have "unat va div 4096 < 2 ^ 26" by simp
    then show "unat va < 2 ^ 38" by (simp add: div_less_iff_less_mult)
  qed (use mult_div_mod_eq[of 4096 "unat va"] in linarith)
  then show ?thesis by (simp add: word_less_nat_alt unat_PGROUNDDOWN unat_MAXVA)
qed

lemma user_pa_down: "user_pa s pt (PGROUNDDOWN va) = user_pa s pt va"
  by (simp add: user_pa_def pte_of_down MAXVA_down)

lemma user_pa_page:
  assumes "a div 4096 = b div 4096" and "a < 2 ^ 38" and "b < 2 ^ 38"
  shows "user_pa s pt (word_of_nat a) = user_pa s pt (word_of_nat b)"
    and "pte_of s pt (word_of_nat a) = pte_of s pt (word_of_nat b)"
proof -
  have "PGROUNDDOWN (word_of_nat a :: u64) = PGROUNDDOWN (word_of_nat b)"
    using assms by (simp add: word_unat_eq_iff unat_PGROUNDDOWN unat_uaddr)
  then show "user_pa s pt (word_of_nat a) = user_pa s pt (word_of_nat b)"
    "pte_of s pt (word_of_nat a) = pte_of s pt (word_of_nat b)"
    by (metis user_pa_down) (metis pte_of_down \<open>PGROUNDDOWN (word_of_nat a :: u64) = PGROUNDDOWN (word_of_nat b)\<close>)
qed

lemma PTE2PA_aligned: "4096 dvd unat (PTE2PA e)"
proof -
  have "unat (PTE2PA e) = take_bit 64 (push_bit 12 (unat (drop_bit 10 e)))"
    by (simp add: PTE2PA_def unsigned_push_bit_eq)
  also have "\<dots> = (4096 * unat (drop_bit 10 e)) mod 2 ^ 64"
    by (simp add: take_bit_eq_mod push_bit_eq_mult mult.commute)
  also have "4096 dvd \<dots>" by (rule dvd_mod) simp_all
  finally show ?thesis .
qed

lemma user_pa_aligned: "4096 dvd unat (user_pa s pt va)"
  by (simp add: user_pa_def Let_def PTE2PA_aligned)

lemma unat_page_plus:
  assumes "4096 dvd unat (x :: u64)" and "unat y < 4096"
  shows "unat (x + y) = unat x + unat y"
proof -
  obtain k where k: "unat x = 4096 * k" using assms(1) by (rule dvdE)
  have "unat x < 2 ^ 64" using unsigned_less[of x] by simp
  then have "4096 * k < 4096 * 2 ^ 52" using k by simp
  then have "k + 1 \<le> 2 ^ 52" by simp
  then have "unat x + 4096 \<le> 2 ^ 64" using k by simp
  then show ?thesis using assms(2) by (subst unat_add_lem[THEN iffD1]) simp_all
qed

text \<open>\<^verbatim>\<open>walkaddr\<close> computes \<open>user_pa\<close>.\<close>

lemma walk_no_alloc: "va < MAXVA \<Longrightarrow> walk pt va False s = Ok (leaf 2 (phys s) pt va) s"
  by (simp add: walk_maxva walk_loop_lookup)

lemma pte_of_leaf:
  assumes "pt_ok s pt S xs"
  shows "pte_of s pt va = (if leaf 2 (phys s) pt va = 0 then 0 else rd64 s (leaf 2 (phys s) pt va))"
proof -
  have "tree 2 (phys s) pt S" "\<forall>x\<in>S. pg x" using assms pt_inv_pg[OF assms] by (auto simp: pt_inv_def)
  then show ?thesis unfolding pte_of_def by (rule tlook_leaf)
qed

lemma walkaddr_user_pa:
  assumes "pt_ok s pt S xs"
  shows "walkaddr pt va s = Ok (user_pa s pt va) s"
proof (cases "va < MAXVA")
  case True
  then show ?thesis using pte_of_leaf[OF assms, of va] walk_no_alloc[OF True, of pt s]
    by (auto simp: walkaddr_def user_pa_def Let_def ptev_def)
next
  case False
  then show ?thesis by (auto simp: walkaddr_def user_pa_def not_less Let_def)
qed

section \<open>Reading user memory\<close>

lemma chunk_nat:
  assumes "a < 2 ^ 38" and "n < 2 ^ 38"
  shows "unat (chunk (word_of_nat a) (word_of_nat n)) = min (4096 - a mod 4096) n"
    and "word_of_nat n - chunk (word_of_nat a) (word_of_nat n) = (word_of_nat (n - min (4096 - a mod 4096) n) :: u64)"
proof -
  show c: "unat (chunk (word_of_nat a) (word_of_nat n)) = min (4096 - a mod 4096) n"
    using assms by (simp add: unat_chunk unat_uaddr)
  show "word_of_nat n - chunk (word_of_nat a) (word_of_nat n) = (word_of_nat (n - min (4096 - a mod 4096) n) :: u64)"
    using assms c by (simp add: word_unat_eq_iff unat_sub_if' unat_uaddr)
qed

lemma byte_address:
  assumes "a < 2 ^ 38" and "user_pa s pt (word_of_nat a) = x"
  shows "unat (x + (word_of_nat a - PGROUNDDOWN (word_of_nat a))) = unat x + a mod 4096"
  using unat_page_plus[of x "word_of_nat a - PGROUNDDOWN (word_of_nat a)"] user_pa_aligned[of s pt "word_of_nat a"]
    assms unat_page_offset[of "word_of_nat a"] by (simp add: unat_uaddr)

lemma page_run:
  fixes a k :: nat
  assumes "k < 4096 - a mod 4096"
  shows "(a + k) div 4096 = a div 4096" and "(a + k) mod 4096 = a mod 4096 + k"
proof -
  obtain q r where a: "a = 4096 * q + r" "r < 4096"
    using mult_div_mod_eq[of 4096 a] mod_less_divisor[of 4096 a] by (metis zero_less_numeral)
  then have "a mod 4096 = r" by simp
  then show "(a + k) div 4096 = a div 4096" "(a + k) mod 4096 = a mod 4096 + k"
    using assms a by (simp_all add: add.assoc)
qed

lemma next_user_page:
  assumes "a < 2 ^ 38" and "a + n < 2 ^ 38" and "4096 - a mod 4096 < n"
  shows "PGROUNDDOWN (word_of_nat a) + PGSIZE = (word_of_nat (a + (4096 - a mod 4096)) :: u64)"
proof -
  have d: "a = 4096 * (a div 4096) + a mod 4096" "a mod 4096 < 4096" by simp_all
  have "unat (PGROUNDDOWN (word_of_nat a)) = 4096 * (a div 4096)"
    using assms(1) by (simp add: unat_PGROUNDDOWN unat_uaddr)
  then have "unat (PGROUNDDOWN (word_of_nat a) + PGSIZE) = 4096 * (a div 4096) + 4096"
    using assms d next_page[of "PGROUNDDOWN (word_of_nat a)"] by linarith
  moreover have b: "a + (4096 - a mod 4096) < 2 ^ 38" using assms by simp
  ultimately show ?thesis unfolding word_unat_eq_iff unat_uaddr[OF b] using d by linarith
qed

lemma load_user_page:
  assumes "a + n < 2 ^ 38" and "n \<le> 4096 - a mod 4096"
  shows "load_bytes (phys s) (unat (user_pa s pt (word_of_nat a)) + a mod 4096) n = map (ubyte s pt) [a..<a + n]"
proof -
  have "phys s (unat (user_pa s pt (word_of_nat a)) + a mod 4096 + k) = ubyte s pt (a + k)" if "k < n" for k
    using page_run[of k a] user_pa_page(1)[of "a + k" a s pt] that assms by (simp add: ubyte_def add.assoc)
  then show ?thesis
    unfolding load_bytes_def by (intro nth_equalityI) simp_all
qed

text \<open>A round of the copying loops: the translation of the page, and what remains to be copied.\<close>

lemma copy_round:
  assumes "a + n < 2 ^ 38" and "0 < n"
  shows "(0 :: u64) < word_of_nat n"
    and "unat (chunk (word_of_nat a) (word_of_nat n)) = min (4096 - a mod 4096) n"
    and "word_of_nat n - chunk (word_of_nat a) (word_of_nat n) = (word_of_nat (n - min (4096 - a mod 4096) n) :: u64)"
    and "PGROUNDDOWN (word_of_nat a) < MAXVA"
proof -
  have b: "a < 2 ^ 38" "n < 2 ^ 38" using assms by auto
  show "(0 :: u64) < word_of_nat n" using assms b by (simp add: word_less_nat_alt unat_uaddr)
  show "PGROUNDDOWN (word_of_nat a) < MAXVA"
    unfolding MAXVA_down using b by (simp add: word_less_nat_alt unat_uaddr unat_MAXVA)
qed (use assms chunk_nat[of a n] in simp_all)

lemma copyin_bytes:
  assumes "pt_ok s pt S xs" and "a + n < 2 ^ 38" and "\<forall>b\<in>{a..<a + n}. umapped s pt b"
  shows "copyin h pt (word_of_nat a) (word_of_nat n) s = Ok (0, map (ubyte s pt) [a..<a + n]) s"
  using assms(2,3)
proof (induction n arbitrary: a rule: less_induct)
  case (less n)
  show ?case
  proof (cases "n = 0")
    case False
    let ?va = "word_of_nat a :: u64" and ?c = "min (4096 - a mod 4096) n"
    note r = copy_round[OF less.prems(1)]
    have n: "0 < n" and a: "a < 2 ^ 38" using less.prems(1) False by auto
    have c: "0 < ?c" "?c \<le> n" "a + ?c < 2 ^ 38" using n less.prems(1) by (auto simp: min_def)
    have m: "user_pa s pt ?va \<noteq> 0" using less.prems(2) n by (simp add: umapped_def)
    have rest: "copyin h pt (PGROUNDDOWN ?va + PGSIZE) (word_of_nat (n - ?c)) s = Ok (0, map (ubyte s pt) [a + ?c..<a + n]) s"
    proof (cases "?c = n")
      case True
      then show ?thesis by (subst copyin.simps) simp
    next
      case False
      then have l: "4096 - a mod 4096 < n" "?c = 4096 - a mod 4096" by auto
      have "copyin h pt (word_of_nat (a + ?c)) (word_of_nat (n - ?c)) s = Ok (0, map (ubyte s pt) [a + ?c..<a + ?c + (n - ?c)]) s"
        by (rule less.IH) (use c less.prems in auto)
      then show ?thesis using next_user_page[OF a less.prems(1) l(1)] l(2) c(2) by simp
    qed
    have "[a..<a + n] = [a..<a + ?c] @ [a + ?c..<a + n]"
      using c(2) upt_add_eq_append[of a "a + ?c" "n - ?c"] by simp
    then show ?thesis
      using r[OF n] rest m walkaddr_user_pa[OF assms(1), of "PGROUNDDOWN ?va"] byte_address[OF a refl, of s pt]
        load_user_page[OF c(3), of s pt]
      by (subst copyin.simps) (simp add: user_pa_down Let_def)
  qed (simp add: copyin.simps)
qed


section \<open>Writing user memory\<close>

lemma write_user_page:
  assumes inv: "pt_ok s pt S xs" and sep: "user_sep s pt S xs" and m: "umapped s pt a"
    and n: "n \<le> 4096 - a mod 4096"
    and w: "w = s\<lparr>phys := store_bytes (phys s) (unat (user_pa s pt (word_of_nat a)) + a mod 4096) src n\<rparr>"
  shows "pt_ok w pt S xs" and "pte_of w pt va = pte_of s pt va"
    and "umapped s pt b \<Longrightarrow> ubyte w pt b = (if a \<le> b \<and> b < a + n then src (b - a) else ubyte s pt b)"
proof -
  let ?x = "user_pa s pt (word_of_nat a)"
  have x: "pg ?x" "?x \<notin> S" "?x \<notin> set xs" "?x \<noteq> 0" and a: "a < 2 ^ 38"
    using m sep by (auto simp: umapped_def user_sep_def)
  have out: "b \<notin> page_addrs ?x \<Longrightarrow> phys w b = phys s b" for b
    using n by (auto simp: w store_bytes_def page_addrs_def)
  have apart: "y \<in> S \<union> set xs \<Longrightarrow> b \<in> page_addrs y \<Longrightarrow> phys w b = phys s b" for y b
    using out pg_disjoint[OF _ x(1), of y] pt_inv_pg[OF inv, of y] x(2,3) by auto
  then have ag: "agree S (phys s) (phys w)" by (auto simp: agree_def)
  have T: "tree 2 (phys w) pt S" "\<And>va. pte_of w pt va = pte_of s pt va"
    using tree_agree[OF _ ag, of 2 pt] inv pt_inv_pg[OF inv] unfolding pt_inv_def pte_of_def by auto
  have "free_pages w xs"
    by (rule free_pages_frame[of s]) (use inv apart w in \<open>auto simp: pt_inv_def\<close>)
  then show "pt_ok w pt S xs"
    using T(1) inv mem_onlyD(4)[OF mem_only_phys[of s]] by (simp add: pt_inv_def w)
  show "pte_of w pt va = pte_of s pt va" by (rule T(2))
  have up: "user_pa w pt va = user_pa s pt va" for va by (simp add: user_pa_def T(2))
  show "ubyte w pt b = (if a \<le> b \<and> b < a + n then src (b - a) else ubyte s pt b)" if b: "umapped s pt b"
  proof (cases "b div 4096 = a div 4096")
    case True
    have xb: "user_pa s pt (word_of_nat b) = ?x"
      using user_pa_page(1)[OF True] b a by (simp add: umapped_def)
    have e: "b + a mod 4096 = a + b mod 4096"
      using True mult_div_mod_eq[of 4096 a] mult_div_mod_eq[of 4096 b] by linarith
    have i: "a \<le> b \<and> b < a + n \<longleftrightarrow> a mod 4096 \<le> b mod 4096 \<and> b mod 4096 < a mod 4096 + n"
      "b mod 4096 - a mod 4096 = b - a"
      using e by linarith+
    have pw: "phys w = store_bytes (phys s) (unat ?x + a mod 4096) src n" by (simp add: w)
    show ?thesis unfolding ubyte_def up xb pw i(1) store_bytes_def using i(2) by (simp add: add.assoc)
  next
    case False
    have b38: "b < 2 ^ 38" using b by (simp add: umapped_def)
    have d: "user_pa s pt (word_of_nat b) \<noteq> ?x"
    proof
      assume "user_pa s pt (word_of_nat b) = ?x"
      then have "unat (word_of_nat a :: u64) div 4096 = unat (word_of_nat b :: u64) div 4096"
        using sep x(4) unfolding user_sep_def by metis
      then show False using False unat_uaddr[OF a] unat_uaddr[OF b38] by simp
    qed
    have "pg (user_pa s pt (word_of_nat b))" using b sep by (auto simp: umapped_def user_sep_def)
    then have "unat (user_pa s pt (word_of_nat b)) + b mod 4096 \<notin> page_addrs ?x"
      using pg_disjoint[OF _ x(1) d] by (auto simp: page_addrs_def)
    moreover have "\<not> (a \<le> b \<and> b < a + n)"
    proof
      assume h: "a \<le> b \<and> b < a + n"
      then have "b - a < 4096 - a mod 4096" using n by arith
      then show False using page_run(1)[of "b - a" a] h False by simp
    qed
    ultimately show ?thesis using out by (auto simp: ubyte_def up)
  qed
qed

lemma copyout_bytes:
  assumes "pt_ok s pt S xs" and "user_sep s pt S xs" and "a + n < 2 ^ 38" and "\<forall>b\<in>{a..<a + n}. uwritable s pt b"
  shows "\<exists>t. copyout h pt (word_of_nat a) src (word_of_nat n) s = Ok 0 t \<and> pt_ok t pt S xs \<and> mem_only s t \<and>
     (\<forall>va. pte_of t pt va = pte_of s pt va) \<and>
     (\<forall>b. umapped s pt b \<longrightarrow> ubyte t pt b = (if a \<le> b \<and> b < a + n then src (b - a) else ubyte s pt b))"
  using assms
proof (induction n arbitrary: a s src rule: less_induct)
  case (less n)
  show ?case
  proof (cases "n = 0")
    case True
    then show ?thesis using less.prems by (auto simp: copyout.simps)
  next
    case False
    let ?va = "word_of_nat a :: u64" and ?c = "min (4096 - a mod 4096) n"
    have n: "0 < n" and a: "a < 2 ^ 38" using less.prems(3) False by auto
    note r = copy_round[OF less.prems(3) n]
    have c: "0 < ?c" "?c \<le> n" "?c \<le> 4096 - a mod 4096" using n by (auto simp: min_def)
    have m: "umapped s pt a" "pte_of s pt ?va AND PTE_W \<noteq> 0" using less.prems(4) n by (auto simp: uwritable_def)
    let ?x = "user_pa s pt ?va"
    have x: "?x \<noteq> 0" using m(1) by (simp add: umapped_def)
    define w where "w = s\<lparr>phys := store_bytes (phys s) (unat ?x + a mod 4096) src ?c\<rparr>"
    note W = write_user_page[OF less.prems(1,2) m(1) c(3) w_def]
    have up: "user_pa w pt va = user_pa s pt va" for va by (simp add: user_pa_def W(2))
    have um: "umapped w pt b = umapped s pt b" "uwritable w pt b = uwritable s pt b" for b
      by (simp_all add: umapped_def uwritable_def up W(2))
    have sepw: "user_sep w pt S xs" using less.prems(2) unfolding user_sep_def up .
    have mo: "mem_only s w" by (simp add: w_def)
    let ?src = "\<lambda>i. src (i + ?c)"
    have "\<exists>t. copyout h pt (PGROUNDDOWN ?va + PGSIZE) ?src (word_of_nat (n - ?c)) w = Ok 0 t \<and> pt_ok t pt S xs \<and>
      mem_only w t \<and> (\<forall>va. pte_of t pt va = pte_of w pt va) \<and>
      (\<forall>b. umapped w pt b \<longrightarrow> ubyte t pt b = (if a + ?c \<le> b \<and> b < a + n then ?src (b - (a + ?c)) else ubyte w pt b))"
    proof (cases "?c = n")
      case True
      then show ?thesis using W(1) by (subst copyout.simps) auto
    next
      case False
      then have l: "4096 - a mod 4096 < n" "?c = 4096 - a mod 4096" by auto
      have "\<exists>t. copyout h pt (word_of_nat (a + ?c)) ?src (word_of_nat (n - ?c)) w = Ok 0 t \<and> pt_ok t pt S xs \<and>
        mem_only w t \<and> (\<forall>va. pte_of t pt va = pte_of w pt va) \<and>
        (\<forall>b. umapped w pt b \<longrightarrow> ubyte t pt b =
          (if a + ?c \<le> b \<and> b < a + ?c + (n - ?c) then ?src (b - (a + ?c)) else ubyte w pt b))"
        by (rule less.IH) (use c W(1) sepw less.prems um in auto)
      then show ?thesis using next_user_page[OF a less.prems(3) l(1)] l(2) c(2) by simp
    qed
    then obtain t where t: "copyout h pt (PGROUNDDOWN ?va + PGSIZE) ?src (word_of_nat (n - ?c)) w = Ok 0 t"
        "pt_ok t pt S xs" "mem_only w t" "\<And>va. pte_of t pt va = pte_of w pt va"
        "\<And>b. umapped w pt b \<Longrightarrow> ubyte t pt b = (if a + ?c \<le> b \<and> b < a + n then ?src (b - (a + ?c)) else ubyte w pt b)"
      by blast
    have lf: "leaf 2 (phys s) pt (PGROUNDDOWN ?va) \<noteq> 0"
      "rd64 s (leaf 2 (phys s) pt (PGROUNDDOWN ?va)) AND PTE_W \<noteq> 0"
      using pte_of_leaf[OF less.prems(1), of "PGROUNDDOWN ?va"] m(2) by (auto simp: pte_of_down split: if_splits)
    have "copyout h pt ?va src (word_of_nat n) s = Ok 0 t"
      using r x lf t(1) walkaddr_user_pa[OF less.prems(1), of "PGROUNDDOWN ?va"]
        walk_no_alloc[OF r(4), of pt s] byte_address[OF a refl, of s pt]
      by (subst copyout.simps) (simp add: user_pa_down Let_def w_def not_le[symmetric])
    moreover have "ubyte t pt b = (if a \<le> b \<and> b < a + n then src (b - a) else ubyte s pt b)" if "umapped s pt b" for b
      using t(5)[of b] W(3)[OF that] that um(1) c(2) by auto
    ultimately show ?thesis using t W(2) mem_only_trans[OF mo t(3)] by auto
  qed
qed


text \<open>
  C14. User memory round trip: bytes that \<^verbatim>\<open>copyout\<close> writes to a mapped, writable range, across any
  number of scattered physical pages, are the bytes \<^verbatim>\<open>copyin\<close> reads back, and every other mapped
  user byte keeps its value.
\<close>

theorem copyout_copyin_roundtrip:
  assumes "pt_ok s pt S xs" and "user_sep s pt S xs" and "a + n < 2 ^ 38" and "\<forall>b\<in>{a..<a + n}. uwritable s pt b"
  shows "\<exists>t. copyout h pt (word_of_nat a) src (word_of_nat n) s = Ok 0 t \<and>
     copyin h pt (word_of_nat a) (word_of_nat n) t = Ok (0, map src [0..<n]) t \<and>
     (\<forall>b. umapped s pt b \<longrightarrow> b \<notin> {a..<a + n} \<longrightarrow> ubyte t pt b = ubyte s pt b)"
proof -
  obtain t where t: "copyout h pt (word_of_nat a) src (word_of_nat n) s = Ok 0 t" "pt_ok t pt S xs"
      "\<And>va. pte_of t pt va = pte_of s pt va"
      "\<And>b. umapped s pt b \<Longrightarrow> ubyte t pt b = (if a \<le> b \<and> b < a + n then src (b - a) else ubyte s pt b)"
    using copyout_bytes[OF assms, of h src] by blast
  have um: "umapped t pt b = umapped s pt b" for b by (simp add: umapped_def user_pa_def t(3))
  have m: "\<forall>b\<in>{a..<a + n}. umapped s pt b" using assms(4) by (simp add: uwritable_def)
  have "map (ubyte t pt) [a..<a + n] = map src [0..<n]"
    using t(4) m by (intro nth_equalityI) simp_all
  then have "copyin h pt (word_of_nat a) (word_of_nat n) t = Ok (0, map src [0..<n]) t"
    using copyin_bytes[OF t(2) assms(3), of h] m um by simp
  then show ?thesis using t by auto
qed

section \<open>Strings from user memory\<close>

lemma copyinstr_bytes_nonzero:
  "\<forall>k<n. m (p + k) \<noteq> 0 \<Longrightarrow> copyinstr_bytes m p n = (map (\<lambda>k. m (p + k)) [0..<n], False)"
proof (induction n arbitrary: p)
  case (Suc n)
  have "m p \<noteq> 0" using Suc.prems by (metis add.right_neutral zero_less_Suc)
  moreover have "copyinstr_bytes m (Suc p) n = (map (\<lambda>k. m (Suc p + k)) [0..<n], False)"
    by (rule Suc.IH) (use Suc.prems in auto)
  moreover have "map (\<lambda>k. m (p + k)) [0..<Suc n] = m p # map (\<lambda>k. m (Suc p + k)) [0..<n]"
    by (simp add: upt_conv_Cons map_Suc_upt[symmetric] del: upt_Suc)
  ultimately show ?case by simp
qed simp

lemma copyinstr_bytes_zero:
  "j < n \<Longrightarrow> m (p + j) = 0 \<Longrightarrow> \<forall>k<j. m (p + k) \<noteq> 0 \<Longrightarrow>
   copyinstr_bytes m p n = (map (\<lambda>k. m (p + k)) [0..<Suc j], True)"
proof (induction j arbitrary: p n)
  case 0
  then show ?case by (cases n) auto
next
  case (Suc j)
  then obtain k where n: "n = Suc k" by (cases n) auto
  have "m p \<noteq> 0" using Suc.prems(3) by (metis add.right_neutral zero_less_Suc)
  moreover have "copyinstr_bytes m (Suc p) k = (map (\<lambda>k. m (Suc p + k)) [0..<Suc j], True)"
    by (rule Suc.IH) (use Suc.prems n in auto)
  moreover have "map (\<lambda>k. m (p + k)) [0..<Suc (Suc j)] = m p # map (\<lambda>k. m (Suc p + k)) [0..<Suc j]"
    by (simp add: upt_conv_Cons map_Suc_upt[symmetric] del: upt_Suc)
  ultimately show ?case using n by simp
qed

lemma ubyte_run:
  assumes "a + k < 2 ^ 38" and "k < 4096 - a mod 4096"
  shows "phys s (unat (user_pa s pt (word_of_nat a)) + a mod 4096 + k) = ubyte s pt (a + k)"
  using page_run[OF assms(2)] user_pa_page(1)[of "a + k" a s pt] assms(1) by (simp add: ubyte_def add.assoc)

lemma copyinstr_string:
  assumes "pt_ok s pt S xs" and "a + n < 2 ^ 38" and "j < n" and "ubyte s pt (a + j) = 0"
    and "\<forall>k<j. ubyte s pt (a + k) \<noteq> 0" and "\<forall>b\<in>{a..a + j}. umapped s pt b"
  shows "copyinstr pt (word_of_nat a) (word_of_nat n) s = Ok (0, map (ubyte s pt) [a..<Suc (a + j)]) s"
  using assms(2-)
proof (induction n arbitrary: a j rule: less_induct)
  case (less n)
  let ?va = "word_of_nat a :: u64" and ?c = "min (4096 - a mod 4096) n"
  have n: "0 < n" and a: "a < 2 ^ 38" using less.prems by auto
  note r = copy_round[OF less.prems(1) n]
  let ?p = "unat (user_pa s pt ?va) + a mod 4096"
  have m: "user_pa s pt ?va \<noteq> 0" using less.prems(5) by (simp add: umapped_def)
  have run: "k < ?c \<Longrightarrow> phys s (?p + k) = ubyte s pt (a + k)" for k
    using ubyte_run[of a k s pt] less.prems(1) by simp
  have head: "copyinstr pt ?va (word_of_nat n) s =
     (let (bs, got_null) = copyinstr_bytes (phys s) ?p ?c in
      if got_null then Ok (0, bs) s
      else bnd (copyinstr pt (PGROUNDDOWN ?va + PGSIZE) (word_of_nat n - chunk ?va (word_of_nat n)) s)
             (\<lambda>(r, rest) s. Ok (r, bs @ rest) s))"
    using m walkaddr_user_pa[OF assms(1), of "PGROUNDDOWN ?va"] byte_address[OF a refl, of s pt]
    by (subst copyinstr.simps) (simp add: r(1,2) user_pa_down Let_def)
  show ?case
  proof (cases "j < ?c")
    case True
    have "copyinstr_bytes (phys s) ?p ?c = (map (\<lambda>k. phys s (?p + k)) [0..<Suc j], True)"
      by (rule copyinstr_bytes_zero) (use True run less.prems in auto)
    moreover have "map (\<lambda>k. phys s (?p + k)) [0..<Suc j] = map (ubyte s pt) [a..<Suc (a + j)]"
      by (rule nth_equalityI) (use run True in \<open>simp_all del: upt_Suc\<close>)
    ultimately show ?thesis using head by simp
  next
    case False
    then have l: "4096 - a mod 4096 < n" "?c = 4096 - a mod 4096" "?c \<le> j" "0 < ?c"
      using less.prems(2) by (auto simp: min_def split: if_splits)
    have h: "copyinstr_bytes (phys s) ?p ?c = (map (\<lambda>k. phys s (?p + k)) [0..<?c], False)"
      by (rule copyinstr_bytes_nonzero) (use run less.prems(4) l(3) in auto)
    have b: "map (\<lambda>k. phys s (?p + k)) [0..<?c] = map (ubyte s pt) [a..<a + ?c]"
      by (rule nth_equalityI) (use run in simp_all)
    have t: "copyinstr pt (word_of_nat (a + ?c)) (word_of_nat (n - ?c)) s
        = Ok (0, map (ubyte s pt) [a + ?c..<Suc (a + ?c + (j - ?c))]) s"
    proof (rule less.IH)
      show "\<forall>k<j - ?c. ubyte s pt (a + ?c + k) \<noteq> 0"
      proof (intro allI impI)
        fix k assume "k < j - ?c"
        then have "?c + k < j" by arith
        then show "ubyte s pt (a + ?c + k) \<noteq> 0" using less.prems(4) by (metis add.assoc)
      qed
    qed (use less.prems l in auto)
    have nx: "PGROUNDDOWN ?va + PGSIZE = word_of_nat (a + ?c)"
      unfolding l(2) by (rule next_user_page[OF a less.prems(1) l(1)])
    have u: "[a..<Suc (a + j)] = [a..<a + ?c] @ [a + ?c..<Suc (a + ?c + (j - ?c))]"
      using l(3) upt_add_eq_append[of a "a + ?c" "Suc (a + j) - (a + ?c)"] by simp
    show ?thesis unfolding head r(3) h nx t b u by simp
  qed
qed



section \<open>A concrete address space\<close>

text \<open>One user page at virtual address 0: three page-table pages and the page itself.\<close>

definition user_state :: kvm where
  "user_state = boot_mem\<lparr>k_end := 0x87FFC000,
     phys := st64 (st64 (st64 (\<lambda>_. 0) 0x87FFC000 (PA2PTE 0x87FFF000 OR PTE_V))
       0x87FFF000 (PA2PTE 0x87FFE000 OR PTE_V))
       0x87FFE000 (PA2PTE 0x87FFD000 OR PTE_R OR PTE_W OR PTE_U OR PTE_V)\<rparr>"

lemma entry_write_first:
  "pg t \<Longrightarrow> i < 512 \<Longrightarrow> entry (st64 m (unat t) v) t i = (if i = 0 then v else entry m t i)"
  using entry_st64[of t 0 i m v] by (simp add: pte_at_def)

lemma entry_write_far:
  "pg t \<Longrightarrow> i < 512 \<Longrightarrow> a + 8 \<le> unat t \<or> unat t + 4096 \<le> a \<Longrightarrow> entry (st64 m a v) t i = entry m t i"
  unfolding entry_def by (rule ld64_st64_other) (auto simp: unat_pte_at)

lemma user_state_entries:
  assumes i: "i < 512"
  shows "entry (phys user_state) 0x87FFC000 i = (if i = 0 then PA2PTE 0x87FFF000 OR PTE_V else 0)"
    and "entry (phys user_state) 0x87FFF000 i = (if i = 0 then PA2PTE 0x87FFE000 OR PTE_V else 0)"
    and "entry (phys user_state) 0x87FFE000 i =
      (if i = 0 then PA2PTE 0x87FFD000 OR PTE_R OR PTE_W OR PTE_U OR PTE_V else 0)"
proof -
  have z: "entry (\<lambda>_. 0) a i = 0" for a by (simp add: entry_def ld64_def)
  have g: "pg 0x87FFC000" "pg 0x87FFF000" "pg 0x87FFE000" by (simp_all add: pg_def)
  have p: "phys user_state = st64 (st64 (st64 (\<lambda>_. 0) 0x87FFC000 (PA2PTE 0x87FFF000 OR PTE_V))
       0x87FFF000 (PA2PTE 0x87FFE000 OR PTE_V))
       0x87FFE000 (PA2PTE 0x87FFD000 OR PTE_R OR PTE_W OR PTE_U OR PTE_V)"
    by (simp add: user_state_def)
  note f = entry_write_first[OF g(1) i] entry_write_first[OF g(2) i] entry_write_first[OF g(3) i]
  note r = entry_write_far[OF g(1) i] entry_write_far[OF g(2) i] entry_write_far[OF g(3) i]
  have n: "unat (0x87FFC000 :: u64) = 0x87FFC000" "unat (0x87FFF000 :: u64) = 0x87FFF000"
    "unat (0x87FFE000 :: u64) = 0x87FFE000" by simp_all
  show "entry (phys user_state) 0x87FFC000 i = (if i = 0 then PA2PTE 0x87FFF000 OR PTE_V else 0)"
    unfolding p by (simp add: r f[unfolded n] z)
  show "entry (phys user_state) 0x87FFF000 i = (if i = 0 then PA2PTE 0x87FFE000 OR PTE_V else 0)"
    unfolding p by (simp add: r f[unfolded n] z)
  show "entry (phys user_state) 0x87FFE000 i =
      (if i = 0 then PA2PTE 0x87FFD000 OR PTE_R OR PTE_W OR PTE_U OR PTE_V else 0)"
    unfolding p by (simp add: r f[unfolded n] z)
qed

lemma single_child:
  assumes "ptev (entry m t 0)" and "\<And>i. i < 512 \<Longrightarrow> i \<noteq> 0 \<Longrightarrow> entry m t i = 0"
    and "tree l m (PTE2PA (entry m t 0)) Q" and "t \<notin> Q"
  shows "tree (Suc l) m t (insert t Q)"
proof -
  let ?f = "\<lambda>i :: nat. if i = 0 then Q else {}"
  have "if ptev (entry m t i) then tree l m (PTE2PA (entry m t i)) (?f i) else ?f i = {}" if "i < 512" for i
    using assms that by (cases "i = 0") (simp_all add: ptev_def)
  moreover have "disjoint_family_on ?f {..<512}" by (simp add: disjoint_family_on_def)
  moreover have "insert t Q = insert t (\<Union>i<512. ?f i)" by auto
  ultimately show ?thesis using assms(4) unfolding tree.simps by (intro exI[of _ ?f]) simp
qed

lemma user_state_tree: "tree 2 (phys user_state) 0x87FFC000 {0x87FFC000, 0x87FFF000, 0x87FFE000}"
proof -
  have g: "pg 0x87FFF000" "pg 0x87FFE000" by (simp_all add: pg_def)
  note c = pte_pointer(1)[OF g(1)] pte_pointer(1)[OF g(2)] pte_pointer(2)
  have one: "tree 1 (phys user_state) 0x87FFF000 {0x87FFF000, 0x87FFE000}"
    unfolding One_nat_def by (rule single_child) (simp_all add: user_state_entries c)
  show ?thesis
    unfolding numeral_2_eq_2 by (rule single_child) (use one in \<open>simp_all add: user_state_entries c\<close>)
qed

lemma user_state_ok: "pt_ok user_state 0x87FFC000 {0x87FFC000, 0x87FFF000, 0x87FFE000} []"
  using user_state_tree
  by (simp add: pt_inv_def free_pages_def user_state_def boot_mem_simps page_ok_def PGSIZE_def PHYSTOP_def KERNBASE_def)

lemma user_state_pte:
  "pte_of user_state 0x87FFC000 va =
     (if same_index 2 va 0 then PA2PTE 0x87FFD000 OR PTE_R OR PTE_W OR PTE_U OR PTE_V else 0)"
proof -
  have g: "pg 0x87FFF000" "pg 0x87FFE000" by (simp_all add: pg_def)
  note c = pte_pointer(1)[OF g(1)] pte_pointer(1)[OF g(2)] pte_pointer(2)
  have p: "PX k 0 = 0" for k by (simp add: PX_div)
  have z: "\<not> ptev 0" by (simp add: ptev_def)
  have s: "same_index 2 va 0 \<longleftrightarrow> PX 2 va = 0 \<and> PX 1 va = 0 \<and> PX 0 va = 0"
    by (simp add: numeral_2_eq_2 same_index_Suc) (simp add: same_index_def p)
  show ?thesis unfolding s pte_of_def
    by (simp add: numeral_2_eq_2 user_state_entries c z Let_def)
qed


lemma user_state_pa:
  "user_pa user_state 0x87FFC000 va = (if va < MAXVA \<and> unat va div 4096 = 0 then 0x87FFD000 else 0)"
proof -
  have p: "PTE2PA (PA2PTE 0x87FFD000 OR PTE_R OR PTE_W OR PTE_U OR PTE_V) = 0x87FFD000"
    by (simp add: PTE2PA_def PA2PTE_def pte_bit_defs)
  have u: "(PA2PTE 0x87FFD000 OR PTE_R OR PTE_W OR PTE_U OR PTE_V) AND PTE_U \<noteq> 0"
    "ptev (PA2PTE 0x87FFD000 OR PTE_R OR PTE_W OR PTE_U OR PTE_V)"
    by (simp_all add: PA2PTE_def pte_bit_defs ptev_def)
  have z: "0 < MAXVA" "\<not> ptev 0" by (simp_all add: MAXVA_def ptev_def)
  show ?thesis using p u z(2) same_index_page[OF _ z(1), of va]
    by (auto simp: user_pa_def user_state_pte Let_def)
qed

lemma user_state_sep: "user_sep user_state 0x87FFC000 {0x87FFC000, 0x87FFF000, 0x87FFE000} []"
  unfolding user_sep_def user_state_pa by (auto simp: pg_def)

lemma user_state_writable: "a < 4096 \<Longrightarrow> uwritable user_state 0x87FFC000 a \<and> umapped user_state 0x87FFC000 a"
proof -
  assume a: "a < 4096"
  then have u: "unat (word_of_nat a :: u64) = a" by (intro unat_uaddr) simp
  have z: "0 < MAXVA" by (simp add: MAXVA_def)
  have m: "word_of_nat a < MAXVA" using a u by (simp add: word_less_nat_alt unat_MAXVA)
  then have "umapped user_state 0x87FFC000 a" using a u by (simp add: umapped_def user_state_pa)
  moreover have "pte_of user_state 0x87FFC000 (word_of_nat a) AND PTE_W \<noteq> 0"
    using same_index_page[OF m z] a u by (simp add: user_state_pte PA2PTE_def pte_bit_defs)
  ultimately show ?thesis by (simp add: uwritable_def)
qed

theorem copyout_copyin_roundtrip_witness:
  "\<exists>t. copyout 0 0x87FFC000 (word_of_nat 100) (\<lambda>i. word_of_nat i) (word_of_nat 50) user_state = Ok 0 t \<and>
     copyin 0 0x87FFC000 (word_of_nat 100) (word_of_nat 50) t = Ok (0, map (\<lambda>i. word_of_nat i) [0..<50]) t"
proof -
  have "\<forall>b\<in>{100..<100 + 50}. uwritable user_state 0x87FFC000 b" using user_state_writable by simp
  from copyout_copyin_roundtrip[OF user_state_ok user_state_sep _ this, of 0 "\<lambda>i. word_of_nat i"]
  show ?thesis by auto
qed



section \<open>Lazy allocation\<close>

lemma mappages_single:
  assumes inv: "pt_ok s pt S xs" and va: "4096 dvd unat va" "va < MAXVA" and n: "\<not> ptev (pte_of s pt va)"
  shows "\<exists>r u Q ys. mappages pt va PGSIZE pa perm s = Ok r u \<and> grown s 2 pt S xs u Q ys \<and>
     (r = -1 \<and> ys = [] \<and> (\<forall>vb. pte_of u pt vb = pte_of s pt vb) \<or>
      r = 0 \<and> (\<forall>vb<MAXVA. pte_of u pt vb =
        (if unat vb div 4096 = unat va div 4096 then PA2PTE pa OR perm OR PTE_V else pte_of s pt vb)))"
proof -
  let ?v = "PA2PTE pa OR perm OR PTE_V"
  have "unat (va mod 4096) = 0" using va(1) by (simp add: unat_mod)
  then have al: "va mod PGSIZE = 0" by (simp add: PGSIZE_def unat_eq_zero)
  obtain p u Q ys where w: "walk pt va True s = Ok p u" "grown s 2 pt S xs u Q ys"
      "\<forall>vb. pte_of u pt vb = pte_of s pt vb" "p = 0 \<Longrightarrow> ys = []"
      "p \<noteq> 0 \<Longrightarrow> rd64 u p AND PTE_V = 0 \<and> grown s 2 pt S xs (wr64 p ?v u) Q ys \<and>
       (\<forall>vb<MAXVA. pte_of (wr64 p ?v u) pt vb = (if unat vb div 4096 = unat va div 4096 then ?v else pte_of s pt vb))"
    using map_one[OF inv va(2) n, of ?v] by blast
  have m: "mappages pt va PGSIZE pa perm s = mappages_loop pt va va pa perm s"
    using al by (simp add: mappages_def) (simp add: PGSIZE_def)
  show ?thesis
  proof (cases "p = 0")
    case True
    then have "mappages pt va PGSIZE pa perm s = Ok (-1) u"
      unfolding m using w(1) by (subst mappages_loop.simps) simp
    then show ?thesis using w True by blast
  next
    case False
    then have "mappages pt va PGSIZE pa perm s = Ok 0 (wr64 p ?v u)"
      unfolding m using w(1) w(5) by (subst mappages_loop.simps) (simp add: Let_def)
    then show ?thesis using w(5)[OF False] by blast
  qed
qed

text \<open>A page just allocated and zeroed, not yet part of the tree.\<close>

lemma fresh_page:
  assumes inv: "pt_ok s pt S (x # xs)"
  shows "\<exists>u. kalloc s = Ok x u \<and> pt_ok (fill x 0 u) pt S xs \<and> mem_only s (fill x 0 u) \<and> x \<noteq> 0 \<and>
     page_ok s x \<and> x \<notin> S \<union> set xs \<and>
     (\<forall>b. phys (fill x 0 u) b = (if b \<in> page_addrs x then 0 else phys s b)) \<and>
     (\<forall>va. pte_of (fill x 0 u) pt va = pte_of s pt va)"
proof -
  obtain u where u: "kalloc s = Ok x u" "free_pages u xs" "x \<noteq> 0" "x \<notin> set xs" "page_ok s x"
      "\<forall>b. phys u b = (if b \<in> page_addrs x then 5 else phys s b)" "mem_only s u"
    using kalloc_pop[of s x xs] inv by (auto simp: pt_inv_def)
  let ?w = "fill x 0 u"
  have m: "\<forall>b. phys ?w b = (if b \<in> page_addrs x then 0 else phys s b)"
    using u(6) by (simp add: memset_apply page_addrs_def)
  have mo: "mem_only s ?w" by (rule mem_only_trans[OF u(7) mem_only_phys])
  have pgx: "pg x" and xS: "x \<notin> S" using pt_inv_pg[OF inv, of x] inv by (auto simp: pt_inv_def)
  have ag: "agree S (phys s) (phys ?w)"
    using m pg_disjoint[OF pgx] pt_inv_pg[OF inv] xS unfolding agree_def by (metis UnI1 disjoint_iff)
  have T: "tree 2 (phys ?w) pt S \<and> (\<forall>va. tlook 2 (phys ?w) pt va = tlook 2 (phys s) pt va \<and>
      leaf 2 (phys ?w) pt va = leaf 2 (phys s) pt va)"
    by (rule tree_agree[OF _ ag]) (use inv pt_inv_pg[OF inv] in \<open>auto simp: pt_inv_def\<close>)
  have "free_pages ?w xs"
  proof (rule free_pages_frame[OF u(2)])
    fix y b assume y: "y \<in> set xs" "b \<in> page_addrs y"
    then have "b \<notin> page_addrs x" using pg_disjoint[OF pgx, of y] pt_inv_pg[OF inv, of y] u(4) by auto
    then show "phys ?w b = phys u b" using m u(6) by simp
  qed simp_all
  then have "pt_ok ?w pt S xs" using T inv mem_onlyD(4)[OF mo] by (auto simp: pt_inv_def)
  then show ?thesis using u m mo T xS by (intro exI[of _ u]) (simp add: pte_of_def)
qed

lemma kfree_returns:
  assumes inv: "pt_ok s pt S xs" and x: "page_ok s x" "x \<notin> S \<union> set xs"
  shows "\<exists>t. kfree x s = Ok () t \<and> pt_ok t pt S (x # xs) \<and> mem_only s t \<and> (\<forall>va. pte_of t pt va = pte_of s pt va)"
proof -
  obtain t where t: "kfree x s = Ok () t" "free_pages t (x # xs)" "\<forall>b. b \<notin> page_addrs x \<longrightarrow> phys t b = phys s b"
      "mem_only s t"
    using kfree_push[of s xs x] inv x by (auto simp: pt_inv_def)
  have "0 < k_end s" using inv by (simp add: pt_inv_def free_pages_def)
  then have pgx: "pg x" using page_ok_pg x(1) by blast
  have ag: "agree S (phys s) (phys t)"
    using t(3) pg_disjoint[OF pgx] pt_inv_pg[OF inv] x(2) unfolding agree_def by (metis UnI1 disjoint_iff)
  have T: "tree 2 (phys t) pt S \<and> (\<forall>va. tlook 2 (phys t) pt va = tlook 2 (phys s) pt va \<and>
      leaf 2 (phys t) pt va = leaf 2 (phys s) pt va)"
    by (rule tree_agree[OF _ ag]) (use inv pt_inv_pg[OF inv] in \<open>auto simp: pt_inv_def\<close>)
  then have "pt_ok t pt S (x # xs)" using t(2) x(2) inv mem_onlyD(4)[OF t(4)] by (auto simp: pt_inv_def)
  then show ?thesis using t(1,4) T by (auto simp: pte_of_def)
qed


lemma pte_flags_rwu:
  assumes "pg x"
  shows "PTE2PA (PA2PTE x OR (PTE_W OR PTE_U OR PTE_R) OR PTE_V) = x"
    "ptev (PA2PTE x OR (PTE_W OR PTE_U OR PTE_R) OR PTE_V)"
    "(PA2PTE x OR (PTE_W OR PTE_U OR PTE_R) OR PTE_V) AND PTE_U \<noteq> 0"
    "(PA2PTE x OR (PTE_W OR PTE_U OR PTE_R) OR PTE_V) AND PTE_W \<noteq> 0"
proof -
  let ?f = "(PTE_W OR PTE_U OR PTE_R) OR PTE_V"
  have f: "?f = 23" by (simp add: pte_bit_defs)
  have "\<not> bit (23 :: u64) n" if "10 \<le> n" for n
  proof -
    have "(23 :: u64) = take_bit 10 23" by simp
    then show ?thesis using that by (metis bit_take_bit_iff not_less)
  qed
  then show "PTE2PA (PA2PTE x OR (PTE_W OR PTE_U OR PTE_R) OR PTE_V) = x"
    unfolding f using PTE2PA_PA2PTE[of 23 x] assms by (simp add: pg_def PGROUNDDOWN_aligned)
  have b: "bit (PA2PTE x OR ?f) 0" "bit (PA2PTE x OR ?f) 2" "bit (PA2PTE x OR ?f) 4"
    unfolding f by (simp_all add: bit_or_iff bit_numeral_rec)
  have "bit ((PA2PTE x OR ?f) AND PTE_V) 0" "bit ((PA2PTE x OR ?f) AND PTE_U) 4" "bit ((PA2PTE x OR ?f) AND PTE_W) 2"
    using b by (simp_all add: bit_and_iff pte_bit_defs bit_push_bit_iff bit_1_iff)
  then show "ptev (PA2PTE x OR (PTE_W OR PTE_U OR PTE_R) OR PTE_V)"
    "(PA2PTE x OR (PTE_W OR PTE_U OR PTE_R) OR PTE_V) AND PTE_U \<noteq> 0"
    "(PA2PTE x OR (PTE_W OR PTE_U OR PTE_R) OR PTE_V) AND PTE_W \<noteq> 0"
    by (auto simp: ptev_def)
qed

text \<open>The user view after a zeroed page \<open>x\<close> has been mapped at the page of \<open>va\<close>.\<close>

lemma fresh_mapping:
  assumes pgx: "pg x" and xn: "x \<notin> Q" "x \<in> S \<union> set xs" and pgQ: "\<forall>q\<in>Q. pg q" and Q: "Q \<subseteq> S \<union> set xs"
    and m: "\<And>b. \<forall>q\<in>Q. b \<notin> page_addrs q \<Longrightarrow> phys t b = (if b \<in> page_addrs x then 0 else phys s b)"
    and pte: "\<forall>vb<MAXVA. pte_of t pt vb =
       (if unat vb div 4096 = unat va div 4096 then PA2PTE x OR (PTE_W OR PTE_U OR PTE_R) OR PTE_V else pte_of s pt vb)"
    and sep: "user_sep s pt S xs" and va: "va < MAXVA" "\<not> ptev (pte_of s pt va)"
  shows "b div 4096 = unat va div 4096 \<Longrightarrow> uwritable t pt b \<and> ubyte t pt b = 0"
    and "umapped s pt b \<Longrightarrow> umapped t pt b \<and> ubyte t pt b = ubyte s pt b"
proof -
  note fl = pte_flags_rwu[OF pgx]
  have x0: "x \<noteq> 0" using pgx by (auto simp: pg_def)
  have off: "y \<notin> Q \<Longrightarrow> pg y \<Longrightarrow> \<forall>q\<in>Q. unat y + b mod 4096 \<notin> page_addrs q" for y b
    using pg_disjoint[of y] pgQ by (fastforce simp: page_addrs_def)
  show "uwritable t pt b \<and> ubyte t pt b = 0" if b: "b div 4096 = unat va div 4096"
  proof -
    have "unat va div 4096 < 2 ^ 26" using va(1) by (simp add: word_less_nat_alt unat_MAXVA div_less_iff_less_mult)
    then have b38: "b < 2 ^ 38" unfolding b[symmetric] by (simp add: div_less_iff_less_mult)
    have u: "unat (word_of_nat b :: u64) = b" by (rule unat_uaddr[OF b38])
    have bm: "word_of_nat b < MAXVA" using b38 u by (simp add: word_less_nat_alt unat_MAXVA)
    have p: "pte_of t pt (word_of_nat b) = PA2PTE x OR (PTE_W OR PTE_U OR PTE_R) OR PTE_V"
      using pte bm u b by simp
    then have up: "user_pa t pt (word_of_nat b) = x" using bm fl by (simp add: user_pa_def)
    then have "ubyte t pt b = 0" using m[OF off[OF xn(1) pgx, of b]] by (simp add: ubyte_def page_addrs_def)
    then show ?thesis using b38 up x0 p fl(4) by (simp add: uwritable_def umapped_def)
  qed
  show "umapped t pt b \<and> ubyte t pt b = ubyte s pt b" if b: "umapped s pt b"
  proof -
    let ?vb = "word_of_nat b :: u64"
    have b38: "b < 2 ^ 38" using b by (simp add: umapped_def)
    have y: "user_pa s pt ?vb \<noteq> 0" "?vb < MAXVA" "ptev (pte_of s pt ?vb)"
      using b by (auto simp: umapped_def user_pa_def Let_def split: if_splits)
    have "unat ?vb div 4096 \<noteq> unat va div 4096"
      using same_index_page[OF y(2) va(1)] tlook_same_index[of 2 ?vb va] y(3) va(2) by (auto simp: pte_of_def)
    then have "pte_of t pt ?vb = pte_of s pt ?vb" using pte y(2) by simp
    then have up: "user_pa t pt ?vb = user_pa s pt ?vb" by (simp add: user_pa_def)
    have yp: "pg (user_pa s pt ?vb)" "user_pa s pt ?vb \<notin> S \<union> set xs" using sep y(1) by (auto simp: user_sep_def)
    then have "user_pa s pt ?vb \<noteq> x" "user_pa s pt ?vb \<notin> Q" using xn(2) Q by auto
    then have "unat (user_pa s pt ?vb) + b mod 4096 \<notin> page_addrs x"
      using pg_disjoint[OF yp(1) pgx] by (auto simp: page_addrs_def)
    then have "ubyte t pt b = ubyte s pt b"
      using m[OF off[OF \<open>user_pa s pt ?vb \<notin> Q\<close> yp(1), of b]] by (simp add: ubyte_def up)
    then show ?thesis using b up by (simp add: umapped_def)
  qed
qed



definition fault_state :: kvm where
  "fault_state = vm_state\<lparr>proc := [blank_proc\<lparr>p_sz := 0x2000, p_pagetable := 0x87FFC000\<rparr>],
     cpus := (\<lambda>_. boot_cpu\<lparr>c_proc := Some 0\<rparr>)\<rparr>"


end
