(* ===== verification/Sleeplock.thy ===== *)
theory Sleeplock
  imports Vm
begin

text \<open>
  Sleep locks (\<^verbatim>\<open>kernel/sleeplock.c\<close>): long-term locks of buffers and inodes. A pointer to a sleep
  lock is a \<open>slid\<close>. The spin lock inside protects single steps of the model. \<open>acquiresleep\<close> answers
  \<open>Sleep\<close> when the lock is taken: the process waits on the lock's channel and tries again when woken.
\<close>

datatype slid = SlBuf nat | SlInode nat

record sleeplock =
  sl_locked :: bool
  sl_name :: string
  sl_pid :: int

record kslp = kvm +
  slocks :: "slid \<Rightarrow> sleeplock"

fun sl_chan :: "slid \<Rightarrow> chan" where
  "sl_chan (SlBuf i) = ChanBufLock i"
| "sl_chan (SlInode i) = ChanInodeLock i"

definition upd_slock :: "slid \<Rightarrow> (sleeplock \<Rightarrow> sleeplock) \<Rightarrow> 'a kslp_scheme \<Rightarrow> 'a kslp_scheme" where
  "upd_slock k f s = s\<lparr>slocks := (slocks s)(k := f (slocks s k))\<rparr>"

definition initsleeplock :: "slid \<Rightarrow> string \<Rightarrow> 'a kslp_scheme \<Rightarrow> 'a kslp_scheme" where
  "initsleeplock k name s = upd_slock k (\<lambda>_. \<lparr>sl_locked = False, sl_name = name, sl_pid = 0\<rparr>) s"

definition acquiresleep :: "nat \<Rightarrow> slid \<Rightarrow> 'a kslp_scheme \<Rightarrow> (unit, 'a kslp_scheme) res" where
  "acquiresleep h k s =
     (case myproc h s of
        None \<Rightarrow> Panic ''kerneltrap''
      | Some i \<Rightarrow>
          if sl_locked (slocks s k) then Sleep (sl_chan k) s
          else Ok () (upd_slock k (\<lambda>l. l\<lparr>sl_locked := True, sl_pid := p_pid (proc s ! i)\<rparr>) s))"

definition releasesleep :: "nat \<Rightarrow> slid \<Rightarrow> 'a kslp_scheme \<Rightarrow> 'a kslp_scheme" where
  "releasesleep h k s = wakeup h (sl_chan k) (upd_slock k (\<lambda>l. l\<lparr>sl_locked := False, sl_pid := 0\<rparr>) s)"

definition holdingsleep :: "nat \<Rightarrow> slid \<Rightarrow> 'a kslp_scheme \<Rightarrow> (bool, 'a kslp_scheme) res" where
  "holdingsleep h k s =
     (case myproc h s of
        None \<Rightarrow> Panic ''kerneltrap''
      | Some i \<Rightarrow> Ok (sl_locked (slocks s k) \<and> sl_pid (slocks s k) = p_pid (proc s ! i)) s)"

section \<open>Ownership\<close>

text \<open>\<open>holds h s k\<close>: the process running on \<open>h\<close> holds the lock.\<close>

definition holds :: "nat \<Rightarrow> 'a kslp_scheme \<Rightarrow> slid \<Rightarrow> bool" where
  "holds h s k \<longleftrightarrow> sl_locked (slocks s k) \<and>
     (\<exists>i. myproc h s = Some i \<and> sl_pid (slocks s k) = p_pid (proc s ! i))"

lemma upd_slock_simps [simp]:
  "slocks (upd_slock k f s) k' = (if k' = k then f (slocks s k) else slocks s k')"
  "proc (upd_slock k f s) = proc s" "cpus (upd_slock k f s) = cpus s" "myproc h (upd_slock k f s) = myproc h s"
  "phys (upd_slock k f s) = phys s" "kslp.more (upd_slock k f s) = kslp.more s"
  by (simp_all add: upd_slock_def myproc_def)

lemma wakeup_slocks [simp]:
  "slocks (wakeup h c s) = slocks s" "phys (wakeup h c s) = phys s" "kslp.more (wakeup h c s) = kslp.more s"
  "kmem_freelist (wakeup h c s) = kmem_freelist s" "k_end (wakeup h c s) = k_end s"
  by (simp_all add: wakeup_def)

lemma acquiresleep_free:
  "myproc h s = Some i \<Longrightarrow> \<not> sl_locked (slocks s k) \<Longrightarrow>
   acquiresleep h k s = Ok () (upd_slock k (\<lambda>l. l\<lparr>sl_locked := True, sl_pid := p_pid (proc s ! i)\<rparr>) s)"
  by (simp add: acquiresleep_def)

lemma holdingsleep_holds: "myproc h s = Some i \<Longrightarrow> holdingsleep h k s = Ok (holds h s k) s"
  by (simp add: holdingsleep_def holds_def)
end
