(* ===== verification/Bio.thy ===== *)
theory Bio
  imports Sleeplock
begin

text \<open>
  The buffer cache (\<^verbatim>\<open>kernel/bio.c\<close>). Buffers are numbered; number \<^verbatim>\<open>NBUF\<close> is \<^verbatim>\<open>bcache.head\<close>, the
  sentinel of the doubly linked list that keeps them in order of use. The disk is the store the
  driver reads and writes: a block transfer is one step, and \<open>dtrace\<close> records the writes in the order
  in which they reach the disk. The driver addresses the disk by block number only.
\<close>

type_synonym block = "nat \<Rightarrow> byte"

record buf =
  b_valid :: bool
  b_disk :: bool
  b_dev :: u32
  b_blockno :: u32
  b_refcnt :: u32
  b_prev :: nat
  b_next :: nat
  b_data :: block

record kbio = kslp +
  bufs :: "nat \<Rightarrow> buf"
  disk :: "u32 \<Rightarrow> block"
  dtrace :: "(u32 \<times> block) list"

abbreviation bhead :: nat where
  "bhead \<equiv> NBUF"

definition upd_buf :: "nat \<Rightarrow> (buf \<Rightarrow> buf) \<Rightarrow> 'a kbio_scheme \<Rightarrow> 'a kbio_scheme" where
  "upd_buf i f s = s\<lparr>bufs := (bufs s)(i := f (bufs s i))\<rparr>"

section \<open>The operations\<close>

definition binit_one :: "nat \<Rightarrow> 'a kbio_scheme \<Rightarrow> 'a kbio_scheme" where
  "binit_one b s =
     (let s = upd_buf b (\<lambda>x. x\<lparr>b_next := b_next (bufs s bhead)\<rparr>) s;
          s = upd_buf b (\<lambda>x. x\<lparr>b_prev := bhead\<rparr>) s;
          s = initsleeplock (SlBuf b) ''buffer'' s;
          s = upd_buf (b_next (bufs s bhead)) (\<lambda>x. x\<lparr>b_prev := b\<rparr>) s
      in upd_buf bhead (\<lambda>x. x\<lparr>b_next := b\<rparr>) s)"

definition binit :: "'a kbio_scheme \<Rightarrow> 'a kbio_scheme" where
  "binit s =
     (let s = initlock LkBcache ''bcache'' s;
          s = upd_buf bhead (\<lambda>x. x\<lparr>b_prev := bhead\<rparr>) s;
          s = upd_buf bhead (\<lambda>x. x\<lparr>b_next := bhead\<rparr>) s
      in fold binit_one [0..<NBUF] s)"

text \<open>The two loops of \<^verbatim>\<open>bget\<close> walk the list in either direction until they come back to the head.
  The first argument bounds the number of steps: the list has \<^verbatim>\<open>NBUF\<close> buffers and the head.\<close>

fun bfind :: "nat \<Rightarrow> u32 \<Rightarrow> u32 \<Rightarrow> nat \<Rightarrow> 'a kbio_scheme \<Rightarrow> nat option option" where
  "bfind 0 dev blockno b s = None"
| "bfind (Suc k) dev blockno b s =
     (if b = bhead then Some None
      else if b_dev (bufs s b) = dev \<and> b_blockno (bufs s b) = blockno then Some (Some b)
      else bfind k dev blockno (b_next (bufs s b)) s)"

fun brecycle :: "nat \<Rightarrow> nat \<Rightarrow> 'a kbio_scheme \<Rightarrow> nat option option" where
  "brecycle 0 b s = None"
| "brecycle (Suc k) b s =
     (if b = bhead then Some None
      else if b_refcnt (bufs s b) = 0 then Some (Some b)
      else brecycle k (b_prev (bufs s b)) s)"

definition bget :: "nat \<Rightarrow> u32 \<Rightarrow> u32 \<Rightarrow> 'a kbio_scheme \<Rightarrow> (nat, 'a kbio_scheme) res" where
  "bget h dev blockno s =
     (case bfind (Suc NBUF) dev blockno (b_next (bufs s bhead)) s of
        None \<Rightarrow> Spin
      | Some (Some b) \<Rightarrow>
          bnd (acquiresleep h (SlBuf b) (upd_buf b (\<lambda>x. x\<lparr>b_refcnt := b_refcnt x + 1\<rparr>) s)) (\<lambda>_ s. Ok b s)
      | Some None \<Rightarrow>
          (case brecycle (Suc NBUF) (b_prev (bufs s bhead)) s of
             None \<Rightarrow> Spin
           | Some None \<Rightarrow> Panic ''bget: no buffers''
           | Some (Some b) \<Rightarrow>
               bnd (acquiresleep h (SlBuf b)
                     (upd_buf b (\<lambda>x. x\<lparr>b_dev := dev, b_blockno := blockno, b_valid := False, b_refcnt := 1\<rparr>) s))
                 (\<lambda>_ s. Ok b s)))"

definition disk_rw :: "nat \<Rightarrow> bool \<Rightarrow> 'a kbio_scheme \<Rightarrow> 'a kbio_scheme" where
  "disk_rw b write s =
     (let n = b_blockno (bufs s b); d = b_data (bufs s b) in
      if write then s\<lparr>disk := (disk s)(n := d), dtrace := dtrace s @ [(n, d)]\<rparr>
      else upd_buf b (\<lambda>x. x\<lparr>b_data := disk s n\<rparr>) s)"

definition bread :: "nat \<Rightarrow> u32 \<Rightarrow> u32 \<Rightarrow> 'a kbio_scheme \<Rightarrow> (nat, 'a kbio_scheme) res" where
  "bread h dev blockno s =
     bnd (bget h dev blockno s) (\<lambda>b s.
       if \<not> b_valid (bufs s b) then Ok b (upd_buf b (\<lambda>x. x\<lparr>b_valid := True\<rparr>) (disk_rw b False s))
       else Ok b s)"

definition bwrite :: "nat \<Rightarrow> nat \<Rightarrow> 'a kbio_scheme \<Rightarrow> (unit, 'a kbio_scheme) res" where
  "bwrite h b s =
     bnd (holdingsleep h (SlBuf b) s) (\<lambda>held s.
       if \<not> held then Panic ''bwrite'' else Ok () (disk_rw b True s))"

definition blist_front :: "nat \<Rightarrow> 'a kbio_scheme \<Rightarrow> 'a kbio_scheme" where
  "blist_front b s =
     (let s = upd_buf (b_next (bufs s b)) (\<lambda>x. x\<lparr>b_prev := b_prev (bufs s b)\<rparr>) s;
          s = upd_buf (b_prev (bufs s b)) (\<lambda>x. x\<lparr>b_next := b_next (bufs s b)\<rparr>) s;
          s = upd_buf b (\<lambda>x. x\<lparr>b_next := b_next (bufs s bhead)\<rparr>) s;
          s = upd_buf b (\<lambda>x. x\<lparr>b_prev := bhead\<rparr>) s;
          s = upd_buf (b_next (bufs s bhead)) (\<lambda>x. x\<lparr>b_prev := b\<rparr>) s
      in upd_buf bhead (\<lambda>x. x\<lparr>b_next := b\<rparr>) s)"

definition brelse :: "nat \<Rightarrow> nat \<Rightarrow> 'a kbio_scheme \<Rightarrow> (unit, 'a kbio_scheme) res" where
  "brelse h b s =
     bnd (holdingsleep h (SlBuf b) s) (\<lambda>held s.
       if \<not> held then Panic ''brelse''
       else
         let s = releasesleep h (SlBuf b) s;
             s = upd_buf b (\<lambda>x. x\<lparr>b_refcnt := b_refcnt x - 1\<rparr>) s
         in Ok () (if b_refcnt (bufs s b) = 0 then blist_front b s else s))"

definition bpin :: "nat \<Rightarrow> 'a kbio_scheme \<Rightarrow> 'a kbio_scheme" where
  "bpin b s = upd_buf b (\<lambda>x. x\<lparr>b_refcnt := b_refcnt x + 1\<rparr>) s"

definition bunpin :: "nat \<Rightarrow> 'a kbio_scheme \<Rightarrow> 'a kbio_scheme" where
  "bunpin b s = upd_buf b (\<lambda>x. x\<lparr>b_refcnt := b_refcnt x - 1\<rparr>) s"

section \<open>The list of buffers\<close>

text \<open>\<open>seg n p a xs b\<close>: following \<open>n\<close> from \<open>a\<close> visits \<open>xs\<close> and arrives at \<open>b\<close>, and \<open>p\<close> leads back.
  The cache list is a segment from the head to itself.\<close>

fun seg :: "(nat \<Rightarrow> nat) \<Rightarrow> (nat \<Rightarrow> nat) \<Rightarrow> nat \<Rightarrow> nat list \<Rightarrow> nat \<Rightarrow> bool" where
  "seg n p a [] b \<longleftrightarrow> n a = b \<and> p b = a"
| "seg n p a (x # xs) b \<longleftrightarrow> n a = x \<and> p x = a \<and> seg n p x xs b"

abbreviation bnext :: "'a kbio_scheme \<Rightarrow> nat \<Rightarrow> nat" where
  "bnext s \<equiv> \<lambda>i. b_next (bufs s i)"

abbreviation bprev :: "'a kbio_scheme \<Rightarrow> nat \<Rightarrow> nat" where
  "bprev s \<equiv> \<lambda>i. b_prev (bufs s i)"

definition blist :: "'a kbio_scheme \<Rightarrow> nat list \<Rightarrow> bool" where
  "blist s xs \<longleftrightarrow> seg (bnext s) (bprev s) bhead xs bhead \<and> distinct xs \<and> bhead \<notin> set xs"

lemma seg_append: "seg n p a (xs @ y # ys) b \<longleftrightarrow> seg n p a xs y \<and> seg n p y ys b"
  by (induction xs arbitrary: a) auto

lemma seg_cong:
  "(\<And>x. x \<in> insert a (set xs) \<Longrightarrow> n x = n' x) \<Longrightarrow> (\<And>x. x \<in> insert b (set xs) \<Longrightarrow> p x = p' x) \<Longrightarrow>
   seg n p a xs b = seg n' p' a xs b"
  by (induction xs arbitrary: a) auto

lemma upd_buf_simps [simp]:
  "bufs (upd_buf i f s) j = (if j = i then f (bufs s i) else bufs s j)"
  "disk (upd_buf i f s) = disk s" "dtrace (upd_buf i f s) = dtrace s" "slocks (upd_buf i f s) = slocks s"
  "proc (upd_buf i f s) = proc s" "cpus (upd_buf i f s) = cpus s" "myproc h (upd_buf i f s) = myproc h s"
  "phys (upd_buf i f s) = phys s" "kbio.more (upd_buf i f s) = kbio.more s"
  by (simp_all add: upd_buf_def myproc_def)

lemma seg_last_prev: "seg n p a xs b \<Longrightarrow> p b = last (a # xs)"
  by (induction xs arbitrary: a) auto

lemma seg_first_next: "seg n p a xs b \<Longrightarrow> n a = hd (xs @ [b])"
  by (cases xs) auto

text \<open>Unlinking \<open>b\<close> and linking it in front, on the list: \<open>ys @ b # zs\<close> becomes \<open>b # ys @ zs\<close>.\<close>

lemma seg_unlink:
  assumes "seg n p h (ys @ b # zs) h" and "distinct (h # ys @ b # zs)"
  shows "seg (n(p b := n b)) (p(n b := p b)) h (ys @ zs) h"
proof -
  let ?n = "n(p b := n b)" and ?p = "p(n b := p b)"
  have s1: "seg n p h ys b" and s2: "seg n p b zs h" using assms(1) by (simp_all add: seg_append)
  have pb: "p b = last (h # ys)" using seg_last_prev[OF s1] .
  then have pin: "p b \<in> set (h # ys)" by (metis last_in_set list.distinct(1))
  show ?thesis
  proof (cases zs)
    case Nil
    then have nh: "n b = h" "p h = b" using s2 by auto
    show ?thesis
    proof (cases ys rule: rev_cases)
      case Nil
      then show ?thesis using \<open>zs = []\<close> nh pb assms(2) by simp
    next
      case (snoc ys' y)
      then have "seg n p h ys' y" "n y = b" "p b = y" using s1 by (simp_all add: seg_append)
      moreover have "seg ?n ?p h ys' y = seg n p h ys' y"
        by (rule seg_cong) (use snoc assms(2) nh \<open>p b = y\<close> in auto)
      ultimately show ?thesis using snoc \<open>zs = []\<close> nh by (simp add: seg_append)
    qed
  next
    case (Cons z zs')
    then have nz: "n b = z" "p z = b" "seg n p z zs' h" using s2 by auto
    have r: "seg ?n ?p z zs' h = seg n p z zs' h"
    proof (rule seg_cong)
      fix x assume "x \<in> insert z (set zs')"
      then have "x \<noteq> p b" using pin assms(2) Cons by auto
      then show "?n x = n x" by simp
    next
      fix x assume "x \<in> insert h (set zs')"
      then show "?p x = p x" using nz(1) assms(2) Cons by auto
    qed
    show ?thesis
    proof (cases ys rule: rev_cases)
      case Nil
      then show ?thesis using Cons nz r pb by simp
    next
      case (snoc ys' y)
      then have "seg n p h ys' y" "p b = y" using s1 by (simp_all add: seg_append)
      moreover have "seg ?n ?p h ys' y = seg n p h ys' y"
        by (rule seg_cong) (use snoc assms(2) nz(1) \<open>p b = y\<close> Cons in auto)
      ultimately show ?thesis using snoc Cons nz r by (simp add: seg_append)
    qed
  qed
qed

lemma seg_push:
  assumes "seg n p h xs h" and "distinct (b # h # xs)"
  shows "seg (n(b := n h, h := b)) (p(b := h, n h := b)) h (b # xs) h"
proof -
  show ?thesis
  proof (cases xs)
    case Nil
    then show ?thesis using assms by auto
  next
    case (Cons x xs')
    have "seg (n(b := x, h := b)) (p(b := h, x := b)) x xs' h = seg n p x xs' h"
      by (rule seg_cong) (use assms Cons in auto)
    then show ?thesis using assms Cons by auto
  qed
qed


lemma set_links:
  "bnext (upd_buf i (\<lambda>x. x\<lparr>b_next := v\<rparr>) s) = (bnext s)(i := v)"
  "bprev (upd_buf i (\<lambda>x. x\<lparr>b_next := v\<rparr>) s) = bprev s"
  "bnext (upd_buf i (\<lambda>x. x\<lparr>b_prev := v\<rparr>) s) = bnext s"
  "bprev (upd_buf i (\<lambda>x. x\<lparr>b_prev := v\<rparr>) s) = (bprev s)(i := v)"
  by (rule ext, simp)+

lemma blist_front_links:
  assumes nb: "bnext s b \<noteq> b" and bh: "b \<noteq> bhead"
  shows "bnext (blist_front b s) =
      ((bnext s)(bprev s b := bnext s b))(b := ((bnext s)(bprev s b := bnext s b)) bhead, bhead := b)"
    and "bprev (blist_front b s) =
      ((bprev s)(bnext s b := bprev s b))(b := bhead, ((bnext s)(bprev s b := bnext s b)) bhead := b)"
proof -
  define s1 where "s1 = upd_buf (bnext s b) (\<lambda>x. x\<lparr>b_prev := bprev s b\<rparr>) s"
  define s2 where "s2 = upd_buf (bprev s1 b) (\<lambda>x. x\<lparr>b_next := bnext s1 b\<rparr>) s1"
  define s3 where "s3 = upd_buf b (\<lambda>x. x\<lparr>b_next := bnext s2 bhead\<rparr>) s2"
  define s4 where "s4 = upd_buf b (\<lambda>x. x\<lparr>b_prev := bhead\<rparr>) s3"
  define s5 where "s5 = upd_buf (bnext s4 bhead) (\<lambda>x. x\<lparr>b_prev := b\<rparr>) s4"
  have f: "blist_front b s = upd_buf bhead (\<lambda>x. x\<lparr>b_next := b\<rparr>) s5"
    unfolding blist_front_def Let_def s1_def s2_def s3_def s4_def s5_def ..
  have 1: "bnext s1 = bnext s" "bprev s1 = (bprev s)(bnext s b := bprev s b)"
    unfolding s1_def by (rule set_links)+
  have p1: "bprev s1 b = bprev s b" using fun_cong[OF 1(2), of b] nb by simp
  have n1: "bnext s1 b = bnext s b" using fun_cong[OF 1(1), of b] .
  have 2: "bnext s2 = (bnext s)(bprev s b := bnext s b)" "bprev s2 = bprev s1"
    unfolding s2_def set_links p1 n1 using 1(1) by simp_all
  have 3: "bnext s3 = (bnext s2)(b := bnext s2 bhead)" "bprev s3 = bprev s2"
    unfolding s3_def by (rule set_links)+
  have 4: "bnext s4 = bnext s3" "bprev s4 = (bprev s3)(b := bhead)"
    unfolding s4_def by (rule set_links)+
  have n4: "bnext s4 bhead = bnext s2 bhead" using fun_cong[OF 4(1), of bhead] fun_cong[OF 3(1), of bhead] bh by simp
  have 5: "bnext s5 = bnext s4" "bprev s5 = (bprev s4)(bnext s2 bhead := b)"
    unfolding s5_def set_links n4 by simp_all
  have n2: "bnext s2 bhead = ((bnext s)(bprev s b := bnext s b)) bhead" using fun_cong[OF 2(1)] .
  show "bnext (blist_front b s) =
      ((bnext s)(bprev s b := bnext s b))(b := ((bnext s)(bprev s b := bnext s b)) bhead, bhead := b)"
    unfolding f set_links 5(1) 4(1) 3(1) n2 2(1) ..
  show "bprev (blist_front b s) =
      ((bprev s)(bnext s b := bprev s b))(b := bhead, ((bnext s)(bprev s b := bnext s b)) bhead := b)"
    unfolding f set_links 5(2) 4(2) 3(2) 2(2) 1(2) n2 ..
qed

lemma blist_front_moves:
  assumes "blist s (ys @ b # zs)"
  shows "blist (blist_front b s) (b # ys @ zs)"
proof -
  let ?n = "(bnext s)(bprev s b := bnext s b)" and ?p = "(bprev s)(bnext s b := bprev s b)"
  have s: "seg (bnext s) (bprev s) bhead (ys @ b # zs) bhead" and d: "distinct (bhead # ys @ b # zs)"
    using assms by (auto simp: blist_def)
  have u: "seg ?n ?p bhead (ys @ zs) bhead" by (rule seg_unlink[OF s d])
  have "seg (bnext s) (bprev s) b zs bhead" using s by (simp add: seg_append)
  then have nb: "bnext s b \<noteq> b" using seg_first_next d by (cases zs) auto
  have "seg (?n(b := ?n bhead, bhead := b)) (?p(b := bhead, ?n bhead := b)) bhead (b # ys @ zs) bhead"
    by (rule seg_push[OF u]) (use d in auto)
  then show ?thesis
    using blist_front_links[OF nb] d by (simp add: blist_def)
qed

text \<open>\<open>blist_front\<close> changes links only.\<close>

definition strip :: "buf \<Rightarrow> bool \<times> bool \<times> u32 \<times> u32 \<times> u32 \<times> block" where
  "strip x = (b_valid x, b_disk x, b_dev x, b_blockno x, b_refcnt x, b_data x)"

lemma strip_fields:
  "strip x = strip y \<Longrightarrow> b_valid x = b_valid y \<and> b_dev x = b_dev y \<and> b_blockno x = b_blockno y \<and>
     b_refcnt x = b_refcnt y \<and> b_data x = b_data y \<and> b_disk x = b_disk y"
  by (simp add: strip_def)

lemma strip_upd [simp]: "strip (x\<lparr>b_prev := a\<rparr>) = strip x" "strip (x\<lparr>b_next := a\<rparr>) = strip x"
  by (simp_all add: strip_def)

lemma strip_links:
  "strip (bufs (upd_buf i (\<lambda>x. x\<lparr>b_prev := v\<rparr>) s) j) = strip (bufs s j)"
  "strip (bufs (upd_buf i (\<lambda>x. x\<lparr>b_next := v\<rparr>) s) j) = strip (bufs s j)"
  by simp_all

lemma blist_front_frame [simp]:
  "strip (bufs (blist_front b s) i) = strip (bufs s i)" "disk (blist_front b s) = disk s"
  "dtrace (blist_front b s) = dtrace s" "slocks (blist_front b s) = slocks s" "proc (blist_front b s) = proc s"
  "cpus (blist_front b s) = cpus s" "myproc h (blist_front b s) = myproc h s"
  "kbio.more (blist_front b s) = kbio.more s"
  by (simp_all only: blist_front_def Let_def strip_links upd_buf_simps(2-))

lemma binit_one_pushes:
  assumes "blist s xs" and "b \<notin> set xs" and "b \<noteq> bhead"
  shows "blist (binit_one b s) (b # xs)"
proof -
  have "seg ((bnext s)(b := bnext s bhead, bhead := b)) ((bprev s)(b := bhead, bnext s bhead := b)) bhead (b # xs) bhead"
    by (rule seg_push) (use assms in \<open>auto simp: blist_def\<close>)
  moreover have "bnext (binit_one b s) = (bnext s)(b := bnext s bhead, bhead := b)"
    "bprev (binit_one b s) = (bprev s)(b := bhead, bnext s bhead := b)"
    using assms(3)
    by (simp_all add: binit_one_def Let_def initsleeplock_def upd_slock_def upd_buf_def fun_upd_def fun_eq_iff)
  ultimately show ?thesis using assms by (simp add: blist_def)
qed

lemma binit_list: "blist (binit s) (rev [0..<NBUF])"
proof -
  let ?s = "upd_buf bhead (\<lambda>x. x\<lparr>b_next := bhead\<rparr>) (upd_buf bhead (\<lambda>x. x\<lparr>b_prev := bhead\<rparr>) (initlock LkBcache ''bcache'' s))"
  have "k \<le> NBUF \<Longrightarrow> blist (fold binit_one [0..<k] ?s) (rev [0..<k])" for k
  proof (induction k)
    case 0
    then show ?case by (simp add: blist_def)
  next
    case (Suc k)
    then show ?case using binit_one_pushes[of "fold binit_one [0..<k] ?s" "rev [0..<k]" k] by simp
  qed
  then show ?thesis by (simp add: binit_def Let_def)
qed

section \<open>Searching the list\<close>

lemma bfind_list:
  "seg (bnext s) p a xs bhead \<Longrightarrow> bhead \<notin> set xs \<Longrightarrow> length xs < k \<Longrightarrow>
   bfind k dev blockno (bnext s a) s =
     Some (find (\<lambda>b. b_dev (bufs s b) = dev \<and> b_blockno (bufs s b) = blockno) xs)"
proof (induction xs arbitrary: a k)
  case Nil
  then show ?case by (cases k) auto
next
  case (Cons x xs)
  then obtain j where "k = Suc j" by (cases k) auto
  then show ?case using Cons.IH[of x j] Cons.prems by auto
qed

lemma brecycle_list:
  "seg n (bprev s) bhead xs b \<Longrightarrow> bhead \<notin> set xs \<Longrightarrow> length xs < k \<Longrightarrow>
   brecycle k (bprev s b) s = Some (find (\<lambda>b. b_refcnt (bufs s b) = 0) (rev xs))"
proof (induction xs arbitrary: b k rule: rev_induct)
  case Nil
  then show ?case by (cases k) auto
next
  case (snoc x xs)
  then obtain j where "k = Suc j" by (cases k) auto
  then show ?case using snoc.IH[of x j] snoc.prems by (auto simp: seg_append)
qed

section \<open>The cache invariant and the view of the disk\<close>

text \<open>All buffers are on the list; a buffer has been used for the one disk or never; no block is
  cached twice; a buffer nobody refers to holds nothing the disk does not have; a locked buffer is
  referred to.\<close>

definition bcache_inv :: "'a kbio_scheme \<Rightarrow> nat list \<Rightarrow> bool" where
  "bcache_inv s xs \<longleftrightarrow> blist s xs \<and> set xs = {..<NBUF} \<and>
     (\<forall>i<NBUF. b_dev (bufs s i) = 1 \<or> b_dev (bufs s i) = 0 \<and> \<not> b_valid (bufs s i) \<and> b_refcnt (bufs s i) = 0) \<and>
     (\<forall>i<NBUF. \<forall>j<NBUF. b_dev (bufs s i) = 1 \<longrightarrow> b_dev (bufs s j) = 1 \<longrightarrow>
        b_blockno (bufs s i) = b_blockno (bufs s j) \<longrightarrow> i = j) \<and>
     (\<forall>i<NBUF. b_refcnt (bufs s i) = 0 \<longrightarrow> b_valid (bufs s i) \<longrightarrow> b_data (bufs s i) = disk s (b_blockno (bufs s i))) \<and>
     (\<forall>i<NBUF. sl_locked (slocks s (SlBuf i)) \<longrightarrow> b_refcnt (bufs s i) \<noteq> 0)"

text \<open>What a reader of block \<open>n\<close> sees: the cached copy if there is one, the disk otherwise.\<close>

definition bview :: "'a kbio_scheme \<Rightarrow> u32 \<Rightarrow> block" where
  "bview s n =
     (case find (\<lambda>i. b_dev (bufs s i) = 1 \<and> b_blockno (bufs s i) = n \<and> b_valid (bufs s i)) [0..<NBUF] of
        Some i \<Rightarrow> b_data (bufs s i) | None \<Rightarrow> disk s n)"

lemma bcache_unique:
  "bcache_inv s xs \<Longrightarrow> i < NBUF \<Longrightarrow> j < NBUF \<Longrightarrow> b_dev (bufs s i) = 1 \<Longrightarrow> b_dev (bufs s j) = 1 \<Longrightarrow>
   b_blockno (bufs s i) = b_blockno (bufs s j) \<Longrightarrow> i = j"
  unfolding bcache_inv_def by blast

lemma bview_cached:
  assumes "bcache_inv s xs" and "i < NBUF" and "b_dev (bufs s i) = 1" and "b_valid (bufs s i)"
  shows "bview s (b_blockno (bufs s i)) = b_data (bufs s i)"
proof -
  let ?P = "\<lambda>j. b_dev (bufs s j) = 1 \<and> b_blockno (bufs s j) = b_blockno (bufs s i) \<and> b_valid (bufs s j)"
  have "i \<in> set [0..<NBUF] \<and> ?P i" using assms by simp
  then have "find ?P [0..<NBUF] \<noteq> None" unfolding find_None_iff by blast
  then obtain j where j: "find ?P [0..<NBUF] = Some j" by blast
  then obtain k where "k < length [0..<NBUF]" "?P ([0..<NBUF] ! k)" "j = [0..<NBUF] ! k"
    unfolding find_Some_iff by blast
  then have "j < NBUF" "?P j" by simp_all
  then have "j = i" using bcache_unique[OF assms(1)] assms by simp
  then show ?thesis using j by (simp add: bview_def)
qed

lemma bview_uncached:
  assumes "\<And>i. i < NBUF \<Longrightarrow> b_dev (bufs s i) = 1 \<Longrightarrow> b_blockno (bufs s i) = n \<Longrightarrow> \<not> b_valid (bufs s i)"
  shows "bview s n = disk s n"
proof -
  have "find (\<lambda>i. b_dev (bufs s i) = 1 \<and> b_blockno (bufs s i) = n \<and> b_valid (bufs s i)) [0..<NBUF] = None"
    unfolding find_None_iff using assms by auto
  then show ?thesis by (simp add: bview_def)
qed


text \<open>Buffer \<open>b\<close> comes to hold \<open>d\<close> for block \<open>n\<close>: it did so before, or nobody used it.\<close>

lemma bcache_hold:
  assumes inv: "bcache_inv s xs" and b: "b < NBUF"
    and t: "\<And>i. bufs t i = (if i = b then X else bufs s i)" "disk t = disk s"
    and sl: "\<And>i. i \<noteq> b \<Longrightarrow> slocks t (SlBuf i) = slocks s (SlBuf i)"
    and X: "b_dev X = 1" "b_blockno X = n" "b_valid X" "b_refcnt X \<noteq> 0" "b_prev X = bprev s b" "b_next X = bnext s b"
    and old: "b_dev (bufs s b) = 1 \<and> b_blockno (bufs s b) = n \<or>
      b_refcnt (bufs s b) = 0 \<and> (\<forall>i<NBUF. b_dev (bufs s i) = 1 \<longrightarrow> b_blockno (bufs s i) \<noteq> n)"
  shows "bcache_inv t xs" and "bview t k = (if k = n then b_data X else bview s k)"
proof -
  have other: "i < NBUF \<Longrightarrow> i \<noteq> b \<Longrightarrow> b_dev (bufs s i) = 1 \<Longrightarrow> b_blockno (bufs s i) \<noteq> n" for i
    using old bcache_unique[OF inv _ b, of i] by auto
  have "bnext t = bnext s" "bprev t = bprev s" using t(1) X(5,6) by (auto simp: fun_eq_iff)
  then have bl: "blist t xs" using inv by (simp add: bcache_inv_def blist_def)
  show it: "bcache_inv t xs"
    unfolding bcache_inv_def
  proof (intro conjI allI impI)
    fix i j assume ij: "i < NBUF" "j < NBUF" "b_dev (bufs t i) = 1" "b_dev (bufs t j) = 1"
      "b_blockno (bufs t i) = b_blockno (bufs t j)"
    show "i = j"
    proof (cases "i = b \<or> j = b")
      case True
      then show ?thesis using ij other[of i] other[of j] t(1) X(1,2) by metis
    next
      case False
      then show ?thesis using ij t(1) bcache_unique[OF inv, of i j] by simp
    qed
  qed (use inv bl t sl X in \<open>auto simp: bcache_inv_def\<close>)
  show "bview t k = (if k = n then b_data X else bview s k)"
  proof (cases "k = n")
    case True
    then show ?thesis using bview_cached[OF it b] t(1) X by simp
  next
    case False
    show ?thesis
    proof (cases "\<exists>i<NBUF. b_dev (bufs t i) = 1 \<and> b_blockno (bufs t i) = k \<and> b_valid (bufs t i)")
      case True
      then obtain i where i: "i < NBUF" "b_dev (bufs t i) = 1" "b_blockno (bufs t i) = k" "b_valid (bufs t i)" by blast
      then have "i \<noteq> b" using t(1) X(2) False by auto
      then show ?thesis using bview_cached[OF it i(1,2,4)] bview_cached[OF inv i(1)] i t(1) False by simp
    next
      case nt: False
      then have "bview t k = disk s k" using bview_uncached[of t k] t(2) by auto
      moreover have "bview s k = disk s k"
      proof (cases "b_dev (bufs s b) = 1 \<and> b_blockno (bufs s b) = k \<and> b_valid (bufs s b)")
        case True
        then have "b_refcnt (bufs s b) = 0" using old False by auto
        then have "b_data (bufs s b) = disk s k" using inv b True unfolding bcache_inv_def by blast
        then show ?thesis using bview_cached[OF inv b] True by simp
      next
        case False
        then show ?thesis using nt t(1) by (intro bview_uncached) metis
      qed
      ultimately show ?thesis using False by simp
    qed
  qed
qed

text \<open>A read does not block and does not panic when the block is cached and unlocked, or is not
  cached and some buffer is unused.\<close>

definition bready :: "'a kbio_scheme \<Rightarrow> u32 \<Rightarrow> bool" where
  "bready s n \<longleftrightarrow>
     (\<exists>i<NBUF. b_dev (bufs s i) = 1 \<and> b_blockno (bufs s i) = n \<and> \<not> sl_locked (slocks s (SlBuf i)) \<and>
        b_refcnt (bufs s i) + 1 \<noteq> 0) \<or>
     (\<forall>i<NBUF. b_dev (bufs s i) = 1 \<longrightarrow> b_blockno (bufs s i) \<noteq> n) \<and> (\<exists>i<NBUF. b_refcnt (bufs s i) = 0)"

text \<open>The state after a read: buffer \<open>b\<close> is locked and holds what the block's reader should see;
  no block looks different and the disk is untouched.\<close>

definition bgot :: "nat \<Rightarrow> 'a kbio_scheme \<Rightarrow> u32 \<Rightarrow> nat \<Rightarrow> 'a kbio_scheme \<Rightarrow> nat list \<Rightarrow> bool" where
  "bgot h s n b t xs \<longleftrightarrow> bcache_inv t xs \<and> b < NBUF \<and>
     (b_dev (bufs s b) = 1 \<and> b_blockno (bufs s b) = n \<or> b_refcnt (bufs s b) = 0) \<and> holds h t (SlBuf b) \<and> \<not> sl_locked (slocks s (SlBuf b)) \<and>
     b_valid (bufs t b) \<and> b_dev (bufs t b) = 1 \<and> b_blockno (bufs t b) = n \<and> b_data (bufs t b) = bview s n \<and>
     b_refcnt (bufs t b) = b_refcnt (bufs s b) + 1 \<and> b_refcnt (bufs t b) \<noteq> 0 \<and>
     (\<forall>k. bview t k = bview s k) \<and> (\<forall>i. i \<noteq> b \<longrightarrow> bufs t i = bufs s i) \<and>
     (\<forall>k. k \<noteq> SlBuf b \<longrightarrow> slocks t k = slocks s k) \<and> disk t = disk s \<and> dtrace t = dtrace s \<and>
     proc t = proc s \<and> cpus t = cpus s \<and> kbio.more t = kbio.more s"

lemma bread_locked:
  assumes inv: "bcache_inv s xs" and me: "myproc h s = Some p"
    and b: "b < NBUF" "\<not> sl_locked (slocks s (SlBuf b))"
    and X: "b_dev (f (bufs s b)) = 1" "b_blockno (f (bufs s b)) = n" "b_prev (f (bufs s b)) = bprev s b"
      "b_next (f (bufs s b)) = bnext s b"
      "b_refcnt (f (bufs s b)) = b_refcnt (bufs s b) + 1" "b_refcnt (f (bufs s b)) \<noteq> 0"
      "b_valid (f (bufs s b)) \<Longrightarrow> b_data (f (bufs s b)) = bview s n"
      "\<not> b_valid (f (bufs s b)) \<Longrightarrow> disk s n = bview s n"
    and old: "b_dev (bufs s b) = 1 \<and> b_blockno (bufs s b) = n \<or>
      b_refcnt (bufs s b) = 0 \<and> (\<forall>i<NBUF. b_dev (bufs s i) = 1 \<longrightarrow> b_blockno (bufs s i) \<noteq> n)"
    and g: "bget h 1 n s = bnd (acquiresleep h (SlBuf b) (upd_buf b f s)) (\<lambda>_ s. Ok b s)"
  shows "\<exists>t. bread h 1 n s = Ok b t \<and> bgot h s n b t xs"
proof -
  define u where "u = upd_slock (SlBuf b) (\<lambda>l. l\<lparr>sl_locked := True, sl_pid := p_pid (proc s ! p)\<rparr>) (upd_buf b f s)"
  have gu: "bget h 1 n s = Ok b u" using g b(2) me acquiresleep_free[of h "upd_buf b f s" p "SlBuf b"]
    by (simp add: u_def)
  have ub: "bufs u i = (if i = b then f (bufs s b) else bufs s i)" for i
    by (simp add: u_def upd_slock_def)
  define t where "t = (if b_valid (bufs u b) then u else upd_buf b (\<lambda>x. x\<lparr>b_valid := True\<rparr>) (disk_rw b False u))"
  have bt: "bread h 1 n s = Ok b t" using gu by (simp add: bread_def t_def)
  have du: "disk u = disk s" "dtrace u = dtrace s" "proc u = proc s" "cpus u = cpus s" "kbio.more u = kbio.more s"
    by (simp_all add: u_def upd_slock_def upd_buf_def)
  have tb: "bufs t i = (if i = b then (f (bufs s b))\<lparr>b_valid := True, b_data := bview s n\<rparr> else bufs s i)" for i
  proof (cases "b_valid (f (bufs s b))")
    case True
    then have "(f (bufs s b))\<lparr>b_valid := True, b_data := bview s n\<rparr> = f (bufs s b)" using X(7) by simp
    then show ?thesis using True by (simp add: t_def ub)
  next
    case False
    then show ?thesis using X(2,8) by (simp add: t_def ub disk_rw_def Let_def du)
  qed
  have fr: "disk t = disk s" "dtrace t = dtrace s" "proc t = proc s" "cpus t = cpus s" "kbio.more t = kbio.more s"
    "slocks t = slocks u"
    using du by (simp_all add: t_def disk_rw_def Let_def)
  have su: "slocks u k = (if k = SlBuf b then (slocks s k)\<lparr>sl_locked := True, sl_pid := p_pid (proc s ! p)\<rparr> else slocks s k)" for k
    by (simp add: u_def)
  have it: "bcache_inv t xs" "\<And>k. bview t k = (if k = n then bview s n else bview s k)"
    using bcache_hold[OF inv b(1) tb fr(1), of n] X(1-6) old su fr(6) by auto
  have "holds h t (SlBuf b)" using me fr su by (simp add: holds_def myproc_def)
  then have "bgot h s n b t xs" using it X(1,2,5,6) b fr su tb old by (auto simp: bgot_def)
  then show ?thesis using bt by blast
qed

lemma bread_ready:
  assumes inv: "bcache_inv s xs" and me: "myproc h s = Some p" and r: "bready s n"
  shows "\<exists>b t. bread h 1 n s = Ok b t \<and> bgot h s n b t xs"
proof -
  let ?P = "\<lambda>b. b_dev (bufs s b) = 1 \<and> b_blockno (bufs s b) = n"
  have xs: "blist s xs" "set xs = {..<NBUF}" using inv by (auto simp: bcache_inv_def)
  have len: "length xs < Suc NBUF" using xs distinct_card[of xs] by (simp add: blist_def)
  have f: "bfind (Suc NBUF) 1 n (bnext s bhead) s = Some (find ?P xs)"
    by (rule bfind_list[OF _ _ len]) (use xs in \<open>auto simp: blist_def\<close>)
  show ?thesis
  proof (cases "\<exists>i<NBUF. ?P i")
    case True
    then obtain i where i: "i < NBUF" "?P i" "\<not> sl_locked (slocks s (SlBuf i))" "b_refcnt (bufs s i) + 1 \<noteq> 0"
      using r unfolding bready_def by blast
    have "find ?P xs \<noteq> None" using i xs(2) unfolding find_None_iff by auto
    then obtain b where "find ?P xs = Some b" by blast
    moreover then have "?P b" "b < NBUF" using xs(2) by (auto dest: find_SomeD)
    moreover then have "b = i" using bcache_unique[OF inv] i by simp
    ultimately have g: "bget h 1 n s = bnd (acquiresleep h (SlBuf i) (upd_buf i (\<lambda>x. x\<lparr>b_refcnt := b_refcnt x + 1\<rparr>) s)) (\<lambda>_ s. Ok i s)"
      using f by (simp add: bget_def)
    have "\<exists>t. bread h 1 n s = Ok i t \<and> bgot h s n i t xs"
    proof (rule bread_locked[OF inv me i(1,3) _ _ _ _ _ _ _ _ _ g])
      show "\<not> b_valid ((bufs s i)\<lparr>b_refcnt := b_refcnt (bufs s i) + 1\<rparr>) \<Longrightarrow> disk s n = bview s n"
        using bview_uncached[of s n] bcache_unique[OF inv _ i(1)] i(2) by force
    qed (use i bview_cached[OF inv i(1)] in auto)
    then show ?thesis by blast
  next
    case False
    then have no: "\<forall>i<NBUF. b_dev (bufs s i) = 1 \<longrightarrow> b_blockno (bufs s i) \<noteq> n" and ex: "\<exists>i<NBUF. b_refcnt (bufs s i) = 0"
      using r unfolding bready_def by blast+
    have "find ?P xs = None" using no xs(2) unfolding find_None_iff by auto
    moreover have "brecycle (Suc NBUF) (bprev s bhead) s = Some (find (\<lambda>b. b_refcnt (bufs s b) = 0) (rev xs))"
      by (rule brecycle_list[OF _ _ len]) (use xs in \<open>auto simp: blist_def\<close>)
    moreover have "find (\<lambda>b. b_refcnt (bufs s b) = 0) (rev xs) \<noteq> None" using ex xs(2) unfolding find_None_iff by auto
    then obtain b where b: "find (\<lambda>b. b_refcnt (bufs s b) = 0) (rev xs) = Some b" by blast
    ultimately have g: "bget h 1 n s = bnd (acquiresleep h (SlBuf b)
          (upd_buf b (\<lambda>x. x\<lparr>b_dev := 1, b_blockno := n, b_valid := False, b_refcnt := 1\<rparr>) s)) (\<lambda>_ s. Ok b s)"
      using f by (simp add: bget_def)
    have r0: "b_refcnt (bufs s b) = 0" "b < NBUF" using find_SomeD[OF b] xs(2) by auto
    have "\<not> sl_locked (slocks s (SlBuf b))" using inv r0 by (auto simp: bcache_inv_def)
    moreover have "disk s n = bview s n" using bview_uncached[of s n] no by auto
    ultimately have "\<exists>t. bread h 1 n s = Ok b t \<and> bgot h s n b t xs"
      using r0 no by (intro bread_locked[OF inv me r0(2) _ _ _ _ _ _ _ _ _ _ g]) auto
    then show ?thesis by blast
  qed
qed


section \<open>Writing, releasing and pinning\<close>

text \<open>\<open>psame\<close>: processes may have been woken, nothing else happened to them.\<close>

definition psame :: "'a kbio_scheme \<Rightarrow> 'a kbio_scheme \<Rightarrow> bool" where
  "psame s t \<longleftrightarrow> length (proc t) = length (proc s) \<and> (\<forall>i<length (proc s). p_pid (proc t ! i) = p_pid (proc s ! i)) \<and>
     cpus t = cpus s"

lemma psame_refl [simp]: "psame s s"
  by (simp add: psame_def)

lemma psame_trans: "psame s t \<Longrightarrow> psame t u \<Longrightarrow> psame s u"
  by (simp add: psame_def)

lemma psame_myproc: "psame s t \<Longrightarrow> myproc h t = myproc h s"
  by (simp add: psame_def myproc_def)

lemma psame_holds:
  "psame s t \<Longrightarrow> myproc h s = Some p \<Longrightarrow> p < length (proc s) \<Longrightarrow> slocks t k = slocks s k \<Longrightarrow> holds h t k = holds h s k"
  by (auto simp: holds_def psame_myproc) (auto simp: psame_def)

definition set_data :: "nat \<Rightarrow> block \<Rightarrow> 'a kbio_scheme \<Rightarrow> 'a kbio_scheme" where
  "set_data b d s = upd_buf b (\<lambda>x. x\<lparr>b_data := d\<rparr>) s"

lemma set_data_simps [simp]:
  "disk (set_data b d s) = disk s" "dtrace (set_data b d s) = dtrace s" "slocks (set_data b d s) = slocks s"
  "proc (set_data b d s) = proc s" "cpus (set_data b d s) = cpus s" "myproc h (set_data b d s) = myproc h s"
  "kbio.more (set_data b d s) = kbio.more s" "psame s (set_data b d s)"
  "bufs (set_data b d s) i = (if i = b then (bufs s b)\<lparr>b_data := d\<rparr> else bufs s i)"
  by (simp_all add: set_data_def psame_def)

text \<open>Buffer \<open>b\<close> is in use for block \<open>n\<close> of the disk.\<close>

definition buf_for :: "'a kbio_scheme \<Rightarrow> nat \<Rightarrow> u32 \<Rightarrow> bool" where
  "buf_for s b n \<longleftrightarrow> b < NBUF \<and> b_dev (bufs s b) = 1 \<and> b_blockno (bufs s b) = n \<and> b_valid (bufs s b) \<and>
     b_refcnt (bufs s b) \<noteq> 0"

lemma set_data_view:
  assumes "bcache_inv s xs" and "buf_for s b n"
  shows "bcache_inv (set_data b d s) xs" and "bview (set_data b d s) k = (if k = n then d else bview s k)"
    and "buf_for (set_data b d s) b n"
  using bcache_hold[OF assms(1), of b "set_data b d s" "(bufs s b)\<lparr>b_data := d\<rparr>" n] assms(2)
  by (auto simp: buf_for_def)

lemma buf_for_data: "bcache_inv s xs \<Longrightarrow> buf_for s b n \<Longrightarrow> b_data (bufs s b) = bview s n"
  using bview_cached[of s xs b] by (simp add: buf_for_def)

lemma bwrite_through:
  assumes inv: "bcache_inv s xs" and me: "myproc h s = Some p" and b: "buf_for s b n" "holds h s (SlBuf b)"
  shows "\<exists>t. bwrite h b s = Ok () t \<and> bcache_inv t xs \<and> (\<forall>k. bview t k = bview s k) \<and> bufs t = bufs s \<and>
     slocks t = slocks s \<and> disk t = (disk s)(n := bview s n) \<and> dtrace t = dtrace s @ [(n, bview s n)] \<and>
     proc t = proc s \<and> cpus t = cpus s \<and> kbio.more t = kbio.more s"
proof -
  let ?t = "disk_rw b True s"
  have d: "b_blockno (bufs s b) = n" "b_data (bufs s b) = bview s n" "b < NBUF" "b_dev (bufs s b) = 1" "b_valid (bufs s b)"
    "b_refcnt (bufs s b) \<noteq> 0"
    using b(1) buf_for_data[OF inv b(1)] by (auto simp: buf_for_def)
  have f: "bufs ?t = bufs s" "slocks ?t = slocks s" "disk ?t = (disk s)(n := bview s n)"
    "dtrace ?t = dtrace s @ [(n, bview s n)]" "proc ?t = proc s" "cpus ?t = cpus s" "kbio.more ?t = kbio.more s"
    using d by (simp_all add: disk_rw_def Let_def)
  have clean: "b_data (bufs s i) = disk ?t (b_blockno (bufs s i))"
    if "i < NBUF" "b_refcnt (bufs s i) = 0" "b_valid (bufs s i)" for i
  proof -
    have "b_dev (bufs s i) = 1" using inv that by (auto simp: bcache_inv_def)
    then have "b_blockno (bufs s i) \<noteq> n" using bcache_unique[OF inv that(1) d(3)] d that by auto
    then show ?thesis using inv that f(3) by (simp add: bcache_inv_def)
  qed
  have it: "bcache_inv ?t xs" using inv clean unfolding bcache_inv_def blist_def f(1,2) by blast
  have "bview ?t k = bview s k" for k
  proof (cases "k = n")
    case True
    then show ?thesis using bview_cached[OF it d(3)] bview_cached[OF inv d(3)] d f(1) by simp
  next
    case False
    then show ?thesis by (simp add: bview_def f(1,3) split: option.splits)
  qed
  moreover have "bwrite h b s = Ok () ?t" using me b(2) by (simp add: bwrite_def holdingsleep_holds)
  ultimately show ?thesis using it f by blast
qed

lemma bview_strip:
  "(\<And>i. strip (bufs t i) = strip (bufs s i)) \<Longrightarrow> disk t = disk s \<Longrightarrow> bview t k = bview s k"
proof -
  assume s: "\<And>i. strip (bufs t i) = strip (bufs s i)" and d: "disk t = disk s"
  have "b_dev (bufs t i) = b_dev (bufs s i)" "b_blockno (bufs t i) = b_blockno (bufs s i)"
    "b_valid (bufs t i) = b_valid (bufs s i)" "b_data (bufs t i) = b_data (bufs s i)" for i
    using strip_fields[OF s[of i]] by auto
  then show ?thesis using d by (simp add: bview_def cong: option.case_cong)
qed

text \<open>Changing the reference count of one buffer.\<close>

lemma bcache_refcnt:
  assumes inv: "bcache_inv s xs" and t: "\<And>i. bufs t i = (if i = b then (bufs s b)\<lparr>b_refcnt := r\<rparr> else bufs s i)"
      "disk t = disk s" "\<And>i. i \<noteq> b \<Longrightarrow> slocks t (SlBuf i) = slocks s (SlBuf i)"
    and b: "buf_for s b n" and c: "r = 0 \<Longrightarrow> bview s n = disk s n \<and> \<not> sl_locked (slocks t (SlBuf b))"
  shows "bcache_inv t xs" and "bview t k = bview s k"
proof -
  have l: "bnext t = bnext s" "bprev t = bprev s" using t(1) by (auto simp: fun_eq_iff)
  have d: "b < NBUF" "b_dev (bufs s b) = 1" "b_blockno (bufs s b) = n" "b_data (bufs s b) = bview s n"
    using b buf_for_data[OF inv b] by (auto simp: buf_for_def)
  have e: "b_dev (bufs t i) = b_dev (bufs s i)" "b_blockno (bufs t i) = b_blockno (bufs s i)"
    "b_valid (bufs t i) = b_valid (bufs s i)" "b_data (bufs t i) = b_data (bufs s i)"
    "b_refcnt (bufs t i) = (if i = b then r else b_refcnt (bufs s i))" for i
    by (simp_all add: t(1))
  show "bcache_inv t xs"
    unfolding bcache_inv_def e
  proof (intro conjI allI impI)
    show "blist t xs" using inv l by (simp add: bcache_inv_def blist_def)
    fix i assume i: "i < NBUF"
    show "b_dev (bufs s i) = 1 \<or> b_dev (bufs s i) = 0 \<and> \<not> b_valid (bufs s i) \<and> (if i = b then r else b_refcnt (bufs s i)) = 0"
      using inv i d by (auto simp: bcache_inv_def)
    show "(if i = b then r else b_refcnt (bufs s i)) = 0 \<Longrightarrow> b_valid (bufs s i) \<Longrightarrow>
        b_data (bufs s i) = disk t (b_blockno (bufs s i))"
      using inv i d c t(2) by (auto simp: bcache_inv_def split: if_splits)
    show "sl_locked (slocks t (SlBuf i)) \<Longrightarrow> (if i = b then r else b_refcnt (bufs s i)) \<noteq> 0"
      using inv i c t(3) by (auto simp: bcache_inv_def)
  qed (use inv bcache_unique[OF inv] in \<open>auto simp: bcache_inv_def\<close>)
  show "bview t k = bview s k" using e t(2) by (simp add: bview_def cong: option.case_cong)
qed


lemma releasesleep_bio:
  "bufs (releasesleep h k s) = bufs s" "disk (releasesleep h k s) = disk s" "dtrace (releasesleep h k s) = dtrace s"
  "kbio.more (releasesleep h k s) = kbio.more s"
  "slocks (releasesleep h k s) k' = (if k' = k then (slocks s k)\<lparr>sl_locked := False, sl_pid := 0\<rparr> else slocks s k')"
  by (simp_all add: releasesleep_def wakeup_def upd_slock_def)

lemma releasesleep_psame: "psame s (releasesleep h k s)"
  by (simp add: releasesleep_def psame_def wakeup_pid)

lemma brelse_releases:
  assumes inv: "bcache_inv s xs" and me: "myproc h s = Some p" and b: "buf_for s b n" "holds h s (SlBuf b)"
    and c: "b_refcnt (bufs s b) = 1 \<Longrightarrow> bview s n = disk s n"
  shows "\<exists>t ys. brelse h b s = Ok () t \<and> bcache_inv t ys \<and> (\<forall>k. bview t k = bview s k) \<and> psame s t \<and>
     (\<forall>i. strip (bufs t i) = strip (if i = b then (bufs s b)\<lparr>b_refcnt := b_refcnt (bufs s b) - 1\<rparr> else bufs s i)) \<and>
     \<not> sl_locked (slocks t (SlBuf b)) \<and> (\<forall>k. k \<noteq> SlBuf b \<longrightarrow> slocks t k = slocks s k) \<and>
     disk t = disk s \<and> dtrace t = dtrace s \<and> kbio.more t = kbio.more s"
proof -
  define u where "u = releasesleep h (SlBuf b) s"
  define v where "v = upd_buf b (\<lambda>x. x\<lparr>b_refcnt := b_refcnt x - 1\<rparr>) u"
  define t where "t = (if b_refcnt (bufs v b) = 0 then blist_front b v else v)"
  have u: "bufs u = bufs s" "disk u = disk s" "dtrace u = dtrace s" "kbio.more u = kbio.more s" "psame s u"
    "\<And>k. slocks u k = (if k = SlBuf b then (slocks s k)\<lparr>sl_locked := False, sl_pid := 0\<rparr> else slocks s k)"
    using releasesleep_psame by (simp_all add: u_def releasesleep_bio)
  have v: "bufs v i = (if i = b then (bufs s b)\<lparr>b_refcnt := b_refcnt (bufs s b) - 1\<rparr> else bufs s i)" "disk v = disk s"
    "dtrace v = dtrace s" "kbio.more v = kbio.more s" "psame s v" "slocks v = slocks u" for i
    using u by (simp_all add: v_def psame_def)
  have iv: "bcache_inv v xs" "\<And>k. bview v k = bview s k"
    using bcache_refcnt[OF inv v(1,2) _ b(1)] c u(6) v(6) by auto
  have t: "strip (bufs t i) = strip (bufs v i)" "disk t = disk v" "dtrace t = dtrace v" "kbio.more t = kbio.more v"
    "slocks t = slocks v" "psame v t" for i
    by (simp_all add: t_def psame_def)
  have "\<exists>ys. blist t ys \<and> set ys = {..<NBUF}"
  proof (cases "b_refcnt (bufs v b) = 0")
    case True
    have "b \<in> set xs" using inv b(1) by (auto simp: bcache_inv_def buf_for_def)
    then obtain ys zs where xs: "xs = ys @ b # zs" by (auto simp: in_set_conv_decomp)
    have "blist t (b # ys @ zs)" using iv(1) blist_front_moves xs True by (auto simp: bcache_inv_def t_def)
    moreover have "set (b # ys @ zs) = set xs" using xs by auto
    ultimately show ?thesis using inv unfolding bcache_inv_def by (intro exI[of _ "b # ys @ zs"]) simp
  next
    case False
    then show ?thesis using iv(1) by (auto simp: t_def bcache_inv_def)
  qed
  then obtain ys where ys: "blist t ys" "set ys = {..<NBUF}" by blast
  have f: "b_valid (bufs t i) = b_valid (bufs v i)" "b_dev (bufs t i) = b_dev (bufs v i)"
    "b_blockno (bufs t i) = b_blockno (bufs v i)" "b_refcnt (bufs t i) = b_refcnt (bufs v i)"
    "b_data (bufs t i) = b_data (bufs v i)" for i
    using strip_fields[OF t(1)[of i]] by auto
  have "bcache_inv t ys" using iv(1) ys unfolding bcache_inv_def f t(2,5) by blast
  moreover have "bview t k = bview s k" for k using bview_strip[of t v k] t(1,2) iv(2) by simp
  moreover have "brelse h b s = Ok () t"
    using me b(2) by (simp add: brelse_def holdingsleep_holds Let_def t_def v_def u_def)
  ultimately show ?thesis using t v u(6) psame_trans[OF v(5) t(6)] by (intro exI[of _ t] exI[of _ ys]) auto
qed

end
