(* ===== verification/Bcache.thy ===== *)
theory Bcache
  imports Bio
begin

text \<open>
  What the clients of the buffer cache rely on: an abstract cache state, the laws of \<^verbatim>\<open>bread\<close>,
  \<^verbatim>\<open>bwrite\<close>, \<^verbatim>\<open>brelse\<close>, \<^verbatim>\<open>bpin\<close> and \<^verbatim>\<open>bunpin\<close> over it, and the locale that collects them.
\<close>

section \<open>The cache as its clients see it\<close>

text \<open>For a client a block has a content, a content on disk and a number of references; the process
  on \<open>h\<close> has some blocks locked.\<close>

record cache =
  c_view :: "u32 \<Rightarrow> block"
  c_disk :: "u32 \<Rightarrow> block"
  c_refs :: "u32 \<Rightarrow> nat"
  c_held :: "u32 set"
  c_trace :: "(u32 \<times> block) list"

definition brefs :: "'a kbio_scheme \<Rightarrow> u32 \<Rightarrow> nat" where
  "brefs s n =
     (case find (\<lambda>i. b_dev (bufs s i) = 1 \<and> b_blockno (bufs s i) = n) [0..<NBUF] of
        Some i \<Rightarrow> unat (b_refcnt (bufs s i)) | None \<Rightarrow> 0)"

definition bstate :: "nat \<Rightarrow> 'a kbio_scheme \<Rightarrow> cache \<Rightarrow> bool" where
  "bstate h s c \<longleftrightarrow> (\<exists>xs. bcache_inv s xs) \<and> (\<exists>p. myproc h s = Some p \<and> p < length (proc s)) \<and>
     bview s = c_view c \<and> disk s = c_disk c \<and> brefs s = c_refs c \<and> dtrace s = c_trace c \<and>
     (\<forall>i<NBUF. sl_locked (slocks s (SlBuf i)) \<longleftrightarrow> b_dev (bufs s i) = 1 \<and> b_blockno (bufs s i) \<in> c_held c) \<and>
     (\<forall>i<NBUF. sl_locked (slocks s (SlBuf i)) \<longrightarrow> holds h s (SlBuf i)) \<and>
     (\<forall>n\<in>c_held c. c_refs c n \<noteq> 0)"

definition c_ready :: "u32 \<Rightarrow> cache \<Rightarrow> bool" where
  "c_ready n c \<longleftrightarrow> n \<notin> c_held c \<and> c_refs c n + 1 < 2 ^ 32 \<and> (c_refs c n \<noteq> 0 \<or> card {k. c_refs c k \<noteq> 0} < NBUF)"

definition c_read :: "u32 \<Rightarrow> cache \<Rightarrow> cache" where
  "c_read n c = c\<lparr>c_refs := (c_refs c)(n := c_refs c n + 1), c_held := insert n (c_held c)\<rparr>"

definition c_put :: "u32 \<Rightarrow> block \<Rightarrow> cache \<Rightarrow> cache" where
  "c_put n d c = c\<lparr>c_view := (c_view c)(n := d)\<rparr>"

definition c_write :: "u32 \<Rightarrow> cache \<Rightarrow> cache" where
  "c_write n c = c\<lparr>c_disk := (c_disk c)(n := c_view c n), c_trace := c_trace c @ [(n, c_view c n)]\<rparr>"

definition c_unref :: "u32 \<Rightarrow> cache \<Rightarrow> cache" where
  "c_unref n c = c\<lparr>c_refs := (c_refs c)(n := c_refs c n - 1)\<rparr>"

definition c_release :: "u32 \<Rightarrow> cache \<Rightarrow> cache" where
  "c_release n c = (c_unref n c)\<lparr>c_held := c_held c - {n}\<rparr>"

lemma unat_eq_zero: "unat (x :: u32) = 0 \<longleftrightarrow> x = 0"
  by (metis unat_0 word_unat_eq_iff)

lemma unat_inc: "unat (x :: u32) + 1 < 2 ^ 32 \<Longrightarrow> unat (x + 1) = unat x + 1"
  by (simp add: unat_word_ariths)

lemma unat_dec: "unat (x :: u32) \<noteq> 0 \<Longrightarrow> unat (x - 1) = unat x - 1"
  by (metis unat_0 unat_minus_one)

lemma brefs_cached:
  assumes "bcache_inv s xs" and "i < NBUF" and "b_dev (bufs s i) = 1"
  shows "brefs s (b_blockno (bufs s i)) = unat (b_refcnt (bufs s i))"
proof -
  let ?P = "\<lambda>j. b_dev (bufs s j) = 1 \<and> b_blockno (bufs s j) = b_blockno (bufs s i)"
  have "find ?P [0..<NBUF] \<noteq> None" using assms unfolding find_None_iff by auto
  then obtain j where j: "find ?P [0..<NBUF] = Some j" by blast
  then have "j < NBUF" "?P j" by (auto dest: find_SomeD)
  then have "j = i" using bcache_unique[OF assms(1)] assms by simp
  then show ?thesis using j by (simp add: brefs_def)
qed

lemma brefs_uncached:
  assumes "\<And>i. i < NBUF \<Longrightarrow> b_dev (bufs s i) = 1 \<Longrightarrow> b_blockno (bufs s i) \<noteq> n"
  shows "brefs s n = 0"
proof -
  have "find (\<lambda>i. b_dev (bufs s i) = 1 \<and> b_blockno (bufs s i) = n) [0..<NBUF] = None"
    unfolding find_None_iff using assms by auto
  then show ?thesis by (simp add: brefs_def)
qed


lemma brefs_cases:
  assumes "bcache_inv s xs"
  obtains i where "i < NBUF" "b_dev (bufs s i) = 1" "b_blockno (bufs s i) = n" "brefs s n = unat (b_refcnt (bufs s i))"
  | "\<And>i. i < NBUF \<Longrightarrow> b_dev (bufs s i) = 1 \<Longrightarrow> b_blockno (bufs s i) \<noteq> n" "brefs s n = 0"
  using brefs_cached[OF assms] brefs_uncached[of s n] by metis

lemma bstate_free_buffer:
  assumes inv: "bcache_inv s xs" and c: "card {k. brefs s k \<noteq> 0} < NBUF"
  shows "\<exists>i<NBUF. b_refcnt (bufs s i) = 0"
proof (rule ccontr)
  assume "\<not> ?thesis"
  then have r: "\<And>i. i < NBUF \<Longrightarrow> b_refcnt (bufs s i) \<noteq> 0" by blast
  then have d: "\<And>i. i < NBUF \<Longrightarrow> b_dev (bufs s i) = 1" using inv by (auto simp: bcache_inv_def)
  let ?f = "\<lambda>i. b_blockno (bufs s i)"
  have "inj_on ?f {..<NBUF}" using bcache_unique[OF inv] d by (auto intro!: inj_onI)
  then have "card (?f ` {..<NBUF}) = NBUF" by (simp add: card_image)
  moreover have "{k. brefs s k \<noteq> 0} = ?f ` {..<NBUF}"
  proof (intro set_eqI iffI)
    fix k assume "k \<in> {k. brefs s k \<noteq> 0}"
    then show "k \<in> ?f ` {..<NBUF}" by (cases rule: brefs_cases[OF inv, of k]) auto
  next
    fix k assume "k \<in> ?f ` {..<NBUF}"
    then obtain i where "i < NBUF" "k = ?f i" by auto
    then show "k \<in> {k. brefs s k \<noteq> 0}" using brefs_cached[OF inv, of i] d r unat_eq_zero[of "b_refcnt (bufs s i)"] by simp
  qed
  ultimately show False using c by simp
qed

lemma c_ready_bready:
  assumes "bstate h s c" and "c_ready n c"
  shows "bready s n"
proof -
  obtain xs where inv: "bcache_inv s xs" using assms(1) by (auto simp: bstate_def)
  have r: "c_refs c = brefs s" using assms(1) by (simp add: bstate_def)
  show ?thesis
  proof (cases rule: brefs_cases[OF inv, of n])
    case (1 i)
    then have "\<not> sl_locked (slocks s (SlBuf i))" using assms by (auto simp: bstate_def c_ready_def)
    moreover have "unat (b_refcnt (bufs s i) + 1) = unat (b_refcnt (bufs s i)) + 1"
      using assms(2) 1 r by (intro unat_inc) (simp add: c_ready_def)
    then have "b_refcnt (bufs s i) + 1 \<noteq> 0" by (metis Suc_eq_plus1 unat_0 nat.distinct(1))
    ultimately show ?thesis using 1 unfolding bready_def by blast
  next
    case 2
    then have "\<exists>i<NBUF. b_refcnt (bufs s i) = 0"
      using bstate_free_buffer[OF inv] assms(2) r by (simp add: c_ready_def)
    then show ?thesis using 2 unfolding bready_def by blast
  qed
qed

lemma bgot_brefs:
  assumes inv: "bcache_inv s xs" and g: "bgot h s n b t xs"
  shows "brefs t = (brefs s)(n := brefs s n + 1)"
proof
  fix k
  have it: "bcache_inv t xs" and b: "b < NBUF" "b_dev (bufs t b) = 1" "b_blockno (bufs t b) = n"
    "b_refcnt (bufs t b) = b_refcnt (bufs s b) + 1" "b_refcnt (bufs t b) \<noteq> 0" "\<And>i. i \<noteq> b \<Longrightarrow> bufs t i = bufs s i"
    "b_dev (bufs s b) = 1 \<and> b_blockno (bufs s b) = n \<or> b_refcnt (bufs s b) = 0"
    using g unfolding bgot_def by blast+
  have u: "unat (b_refcnt (bufs t b)) = unat (b_refcnt (bufs s b)) + 1"
    using b(4,5) unatSuc[of "b_refcnt (bufs s b)"] by (simp add: add.commute)
  have other: "i < NBUF \<Longrightarrow> b_dev (bufs s i) = 1 \<Longrightarrow> b_blockno (bufs s i) = n \<Longrightarrow> i = b" for i
    using bcache_unique[OF it, of i b] b by metis
  show "brefs t k = ((brefs s)(n := brefs s n + 1)) k"
  proof (cases "k = n")
    case True
    have "brefs s n = unat (b_refcnt (bufs s b))"
      by (cases rule: brefs_cases[OF inv, of n]) (use other b in \<open>auto simp: unat_eq_zero\<close>)
    then show ?thesis using True brefs_cached[OF it b(1,2)] b(3) u by simp
  next
    case False
    show ?thesis
    proof (cases rule: brefs_cases[OF it, of k])
      case (1 i)
      then have "i \<noteq> b" using b(3) False by auto
      then show ?thesis using 1 b(6) brefs_cached[OF inv, of i] False by simp
    next
      case 2
      show ?thesis
      proof (cases rule: brefs_cases[OF inv, of k])
        case (1 i)
        then have "i = b" using 2 b(6) by metis
        then show ?thesis using 1 2 b(7) False by auto
      qed (use 2 False in simp)
    qed
  qed
qed

lemma bread_law:
  assumes s: "bstate h s c" and r: "c_ready n c"
  shows "\<exists>b t. bread h 1 n s = Ok b t \<and> bstate h t (c_read n c) \<and> buf_for t b n \<and> kbio.more t = kbio.more s \<and>
     (\<forall>b' n'. buf_for s b' n' \<longrightarrow> buf_for t b' n')"
proof -
  obtain xs p where inv: "bcache_inv s xs" and me: "myproc h s = Some p" "p < length (proc s)"
    using s by (auto simp: bstate_def)
  obtain b t where b: "bread h 1 n s = Ok b t" "bgot h s n b t xs"
    using bread_ready[OF inv me(1) c_ready_bready[OF s r]] by blast
  have t: "bcache_inv t xs" "b < NBUF" "holds h t (SlBuf b)" "b_valid (bufs t b)" "b_dev (bufs t b) = 1"
    "b_blockno (bufs t b) = n" "b_refcnt (bufs t b) \<noteq> 0" "bview t = bview s" "\<And>i. i \<noteq> b \<Longrightarrow> bufs t i = bufs s i"
    "\<And>k. k \<noteq> SlBuf b \<Longrightarrow> slocks t k = slocks s k" "disk t = disk s" "dtrace t = dtrace s" "proc t = proc s"
    "cpus t = cpus s" "kbio.more t = kbio.more s" "b_dev (bufs s b) = 1 \<and> b_blockno (bufs s b) = n \<or> b_refcnt (bufs s b) = 0"
    using b(2) unfolding bgot_def by (blast | blast intro: ext)+
  have my: "myproc h t = myproc h s" using t(14) by (simp add: myproc_def)
  have h: "holds h t k = holds h s k" if "k \<noteq> SlBuf b" for k using t(10)[OF that] t(13) my by (simp add: holds_def)
  have lk: "sl_locked (slocks t (SlBuf b))" using t(3) by (simp add: holds_def)
  have "bstate h t (c_read n c)"
    unfolding bstate_def
  proof (intro conjI allI impI ballI)
    fix i assume i: "i < NBUF"
    have u: "b_dev (bufs t i) = 1 \<Longrightarrow> b_blockno (bufs t i) = n \<Longrightarrow> i = b"
      using bcache_unique[OF t(1) i t(2)] t(5,6) by simp
    show "sl_locked (slocks t (SlBuf i)) \<longleftrightarrow> b_dev (bufs t i) = 1 \<and> b_blockno (bufs t i) \<in> c_held (c_read n c)"
    proof (cases "i = b")
      case True
      then show ?thesis using lk t(5,6) by (simp add: c_read_def)
    next
      case False
      then have "sl_locked (slocks t (SlBuf i)) \<longleftrightarrow> b_dev (bufs t i) = 1 \<and> b_blockno (bufs t i) \<in> c_held c"
        using s i t(9,10) by (simp add: bstate_def)
      then show ?thesis using u False by (auto simp: c_read_def)
    qed
    show "sl_locked (slocks t (SlBuf i)) \<Longrightarrow> holds h t (SlBuf i)"
      using s i h t(3,10) by (cases "i = b") (auto simp: bstate_def)
  qed (use s t my me bgot_brefs[OF inv b(2)] in \<open>auto simp: bstate_def c_read_def\<close>)
  moreover have "buf_for t b n" using t by (simp add: buf_for_def)
  moreover have "buf_for t b' n'" if "buf_for s b' n'" for b' n'
    using that t by (cases "b' = b") (auto simp: buf_for_def)
  ultimately show ?thesis using b(1) t(15) by blast
qed


lemma buf_for_unique:
  "bcache_inv s xs \<Longrightarrow> buf_for s b n \<Longrightarrow> i < NBUF \<Longrightarrow> b_dev (bufs s i) = 1 \<Longrightarrow> b_blockno (bufs s i) = n \<Longrightarrow> i = b"
  using bcache_unique[of s xs i b] by (simp add: buf_for_def)

lemma brefs_bufs: "bufs t = bufs s \<Longrightarrow> brefs t = brefs s"
  unfolding brefs_def by (simp cong: option.case_cong)

lemma brefs_update:
  assumes inv: "bcache_inv s xs" and b: "buf_for s b n"
    and t: "\<And>i. b_dev (bufs t i) = b_dev (bufs s i)" "\<And>i. b_blockno (bufs t i) = b_blockno (bufs s i)"
      "\<And>i. b_refcnt (bufs t i) = (if i = b then r else b_refcnt (bufs s i))"
  shows "brefs t = (brefs s)(n := unat r)"
proof
  fix k
  let ?P = "\<lambda>i. b_dev (bufs s i) = 1 \<and> b_blockno (bufs s i) = k"
  have e: "brefs t k = (case find ?P [0..<NBUF] of Some i \<Rightarrow> unat (if i = b then r else b_refcnt (bufs s i)) | None \<Rightarrow> 0)"
    unfolding brefs_def t ..
  have ib: "find ?P [0..<NBUF] = Some i \<Longrightarrow> k = n \<longleftrightarrow> i = b" for i
    using find_SomeD[of ?P "[0..<NBUF]" i] buf_for_unique[OF inv b, of i] b by (auto simp: buf_for_def)
  have "k = n \<Longrightarrow> find ?P [0..<NBUF] \<noteq> None"
    using b unfolding find_None_iff by (auto simp: buf_for_def)
  then show "brefs t k = ((brefs s)(n := unat r)) k"
    unfolding e using ib by (auto simp: brefs_def split: option.splits)
qed

lemma bstate_parts:
  assumes "bstate h s c"
  obtains xs p where "bcache_inv s xs" "myproc h s = Some p" "p < length (proc s)" "bview s = c_view c" "disk s = c_disk c"
    "brefs s = c_refs c" "dtrace s = c_trace c"
  using assms unfolding bstate_def by blast

lemma bstate_locked:
  "bstate h s c \<Longrightarrow> i < NBUF \<Longrightarrow> sl_locked (slocks s (SlBuf i)) \<longleftrightarrow> b_dev (bufs s i) = 1 \<and> b_blockno (bufs s i) \<in> c_held c"
  by (simp add: bstate_def)

lemma bstate_holds: "bstate h s c \<Longrightarrow> buf_for s b n \<Longrightarrow> n \<in> c_held c \<Longrightarrow> holds h s (SlBuf b)"
  by (simp add: bstate_def buf_for_def)

text \<open>A state with the same locks and processes that differs in data, reference counts and disk only.\<close>

lemma bstate_same_locks:
  assumes s: "bstate h s c" and t: "bcache_inv t xs" "slocks t = slocks s" "proc t = proc s" "cpus t = cpus s"
      "\<And>i. b_dev (bufs t i) = b_dev (bufs s i)" "\<And>i. b_blockno (bufs t i) = b_blockno (bufs s i)"
    and c: "bview t = c_view c'" "disk t = c_disk c'" "brefs t = c_refs c'" "dtrace t = c_trace c'" "c_held c' = c_held c"
      "\<And>n. n \<in> c_held c \<Longrightarrow> c_refs c' n \<noteq> 0"
  shows "bstate h t c'"
proof -
  have m: "myproc h t = myproc h s" using t(4) by (simp add: myproc_def)
  have "holds h t k = holds h s k" for k using t m by (simp add: holds_def)
  then show ?thesis using s t(1) c unfolding bstate_def m t(2,3,5,6) by auto
qed

lemma put_law:
  assumes s: "bstate h s c" and b: "buf_for s b n"
  shows "bstate h (set_data b d s) (c_put n d c) \<and> kbio.more (set_data b d s) = kbio.more s \<and>
     (\<forall>b' n'. buf_for (set_data b d s) b' n' = buf_for s b' n')"
proof -
  obtain xs where p: "bcache_inv s xs" "bview s = c_view c" "disk s = c_disk c" "brefs s = c_refs c" "dtrace s = c_trace c"
    using s by (rule bstate_parts)
  have r: "brefs (set_data b d s) = (brefs s)(n := unat (b_refcnt (bufs s b)))"
    by (rule brefs_update[OF p(1) b]) auto
  have "brefs s n = unat (b_refcnt (bufs s b))" using brefs_cached[OF p(1), of b] b by (simp add: buf_for_def)
  then have r': "brefs (set_data b d s) = c_refs c" unfolding r p(4) by (simp add: fun_upd_idem)
  have "bstate h (set_data b d s) (c_put n d c)"
  proof (rule bstate_same_locks[OF s set_data_view(1)[OF p(1) b]])
    show "bview (set_data b d s) = c_view (c_put n d c)"
      using set_data_view(2)[OF p(1) b, of d] p(2) by (auto simp: c_put_def)
  qed (use p r' s in \<open>auto simp: c_put_def bstate_def\<close>)
  then show ?thesis by (simp add: buf_for_def)
qed

lemma write_law:
  assumes s: "bstate h s c" and b: "buf_for s b n" and l: "n \<in> c_held c"
  shows "\<exists>t. bwrite h b s = Ok () t \<and> bstate h t (c_write n c) \<and> kbio.more t = kbio.more s \<and>
     (\<forall>b' n'. buf_for t b' n' = buf_for s b' n')"
proof -
  obtain xs p where p: "bcache_inv s xs" "myproc h s = Some p" "bview s = c_view c" "disk s = c_disk c" "brefs s = c_refs c"
      "dtrace s = c_trace c"
    using s by (rule bstate_parts)
  obtain t where t: "bwrite h b s = Ok () t" "bcache_inv t xs" "\<forall>k. bview t k = bview s k" "bufs t = bufs s"
     "slocks t = slocks s" "disk t = (disk s)(n := bview s n)" "dtrace t = dtrace s @ [(n, bview s n)]"
     "proc t = proc s" "cpus t = cpus s" "kbio.more t = kbio.more s"
    using bwrite_through[OF p(1,2) b bstate_holds[OF s b l]] by blast
  have "bstate h t (c_write n c)"
  proof (rule bstate_same_locks[OF s t(2,5,8,9)])
    show "bview t = c_view (c_write n c)" using t(3) p(3) by (auto simp: c_write_def)
    show "brefs t = c_refs (c_write n c)" using p(5) brefs_bufs[OF t(4)] by (simp add: c_write_def)
  qed (use t p s in \<open>auto simp: c_write_def bstate_def\<close>)
  then show ?thesis using t by (auto simp: buf_for_def)
qed

lemma unpin_law:
  assumes s: "bstate h s c" and b: "buf_for s b n" and l: "2 \<le> c_refs c n"
  shows "bstate h (bunpin b s) (c_unref n c) \<and> kbio.more (bunpin b s) = kbio.more s \<and>
     (\<forall>b' n'. buf_for (bunpin b s) b' n' = buf_for s b' n')"
proof -
  obtain xs where p: "bcache_inv s xs" "bview s = c_view c" "disk s = c_disk c" "brefs s = c_refs c" "dtrace s = c_trace c"
    using s by (rule bstate_parts)
  let ?r = "b_refcnt (bufs s b) - 1"
  have rn: "c_refs c n = unat (b_refcnt (bufs s b))"
    using brefs_cached[OF p(1), of b] b p(4) by (simp add: buf_for_def)
  then have ur: "unat ?r = c_refs c n - 1" using l unat_dec[of "b_refcnt (bufs s b)"] by simp
  then have r0: "?r \<noteq> 0" using l by (metis One_nat_def diff_is_0_eq unat_0 not_less_eq_eq numeral_2_eq_2)
  have bt: "bufs (bunpin b s) i = (if i = b then (bufs s b)\<lparr>b_refcnt := ?r\<rparr> else bufs s i)" for i
    by (simp add: bunpin_def)
  have it: "bcache_inv (bunpin b s) xs" "\<And>k. bview (bunpin b s) k = bview s k"
    using bcache_refcnt[OF p(1) bt _ _ b] r0 by (auto simp: bunpin_def)
  have "bstate h (bunpin b s) (c_unref n c)"
  proof (rule bstate_same_locks[OF s it(1)])
    show "bview (bunpin b s) = c_view (c_unref n c)" using it(2) p(2) by (auto simp: c_unref_def)
    have "brefs (bunpin b s) = (brefs s)(n := unat ?r)"
      by (rule brefs_update[OF p(1) b]) (auto simp: bt)
    then show "brefs (bunpin b s) = c_refs (c_unref n c)" using ur p(4) by (simp add: c_unref_def)
  qed (use p s l in \<open>auto simp: c_unref_def bstate_def bunpin_def\<close>)
  then show ?thesis using b r0 by (auto simp: buf_for_def bunpin_def)
qed


lemma release_law:
  assumes s: "bstate h s c" and b: "buf_for s b n" and l: "n \<in> c_held c" and cl: "c_refs c n = 1 \<Longrightarrow> c_view c n = c_disk c n"
  shows "\<exists>t. brelse h b s = Ok () t \<and> bstate h t (c_release n c) \<and> kbio.more t = kbio.more s \<and>
     (\<forall>b' n'. n' \<noteq> n \<longrightarrow> buf_for t b' n' = buf_for s b' n')"
proof -
  obtain xs p where p: "bcache_inv s xs" "myproc h s = Some p" "p < length (proc s)" "bview s = c_view c" "disk s = c_disk c"
      "brefs s = c_refs c" "dtrace s = c_trace c"
    using s by (rule bstate_parts)
  let ?r = "b_refcnt (bufs s b) - 1"
  have rn: "c_refs c n = unat (b_refcnt (bufs s b))"
    using brefs_cached[OF p(1), of b] b p(6) by (simp add: buf_for_def)
  have cl': "b_refcnt (bufs s b) = 1 \<Longrightarrow> bview s n = disk s n" using cl rn p(4,5) by simp
  obtain t ys where t: "brelse h b s = Ok () t" "bcache_inv t ys" "\<forall>k. bview t k = bview s k" "psame s t"
      "\<forall>i. strip (bufs t i) = strip (if i = b then (bufs s b)\<lparr>b_refcnt := ?r\<rparr> else bufs s i)"
      "\<not> sl_locked (slocks t (SlBuf b))" "\<forall>k. k \<noteq> SlBuf b \<longrightarrow> slocks t k = slocks s k"
      "disk t = disk s" "dtrace t = dtrace s" "kbio.more t = kbio.more s"
    using brelse_releases[OF p(1,2) b bstate_holds[OF s b l] cl'] by blast
  have f: "b_dev (bufs t i) = b_dev (bufs s i)" "b_blockno (bufs t i) = b_blockno (bufs s i)"
    "b_valid (bufs t i) = b_valid (bufs s i)" "b_refcnt (bufs t i) = (if i = b then ?r else b_refcnt (bufs s i))" for i
    using strip_fields[OF t(5)[rule_format, of i]] by (auto split: if_splits)
  have "brefs t = (brefs s)(n := unat ?r)" by (rule brefs_update[OF p(1) b f(1,2,4)])
  moreover have "unat ?r = c_refs c n - 1"
    using rn unat_dec[of "b_refcnt (bufs s b)"] b by (simp add: buf_for_def unat_eq_zero)
  ultimately have rt: "brefs t = c_refs (c_release n c)" using p(6) by (simp add: c_release_def c_unref_def)
  have nb: "b_dev (bufs s i) = 1 \<Longrightarrow> b_blockno (bufs s i) = n \<longleftrightarrow> i = b" if "i < NBUF" for i
    using buf_for_unique[OF p(1) b that] b by (auto simp: buf_for_def)
  have "bstate h t (c_release n c)"
    unfolding bstate_def
  proof (intro conjI allI impI ballI)
    fix i assume i: "i < NBUF"
    show lk: "sl_locked (slocks t (SlBuf i)) \<longleftrightarrow> b_dev (bufs t i) = 1 \<and> b_blockno (bufs t i) \<in> c_held (c_release n c)"
    proof (cases "i = b")
      case True
      then show ?thesis using t(6) nb[OF i] by (simp add: f c_release_def)
    next
      case False
      then show ?thesis using t(7) nb[OF i] bstate_locked[OF s i] by (auto simp: f c_release_def)
    qed
    assume "sl_locked (slocks t (SlBuf i))"
    then have "i \<noteq> b" "sl_locked (slocks s (SlBuf i))" using t(6,7) by (auto split: if_splits)
    then show "holds h t (SlBuf i)" using psame_holds[OF t(4) p(2,3)] t(7) s i by (simp add: bstate_def)
  next
    show "\<exists>xs. bcache_inv t xs" using t(2) by blast
    show "\<exists>p. myproc h t = Some p \<and> p < length (proc t)" using p(2,3) psame_myproc[OF t(4)] t(4) by (simp add: psame_def)
    show "bview t = c_view (c_release n c)" using t(3) p(4) by (auto simp: c_release_def c_unref_def)
    fix k assume "k \<in> c_held (c_release n c)"
    then show "c_refs (c_release n c) k \<noteq> 0" using s by (simp add: c_release_def c_unref_def bstate_def)
  qed (use t p rt in \<open>simp_all add: c_release_def c_unref_def\<close>)
  moreover have "buf_for t b' n' = buf_for s b' n'" if "n' \<noteq> n" for b' n'
    using that b by (auto simp: buf_for_def f)
  ultimately show ?thesis using t(1,10) by blast
qed

lemma pin_law:
  assumes s: "bstate h s c" and b: "buf_for s b n" and l: "c_refs c n + 1 < 2 ^ 32"
  shows "bstate h (bpin b s) (c\<lparr>c_refs := (c_refs c)(n := c_refs c n + 1)\<rparr>) \<and> kbio.more (bpin b s) = kbio.more s \<and>
     (\<forall>b' n'. buf_for (bpin b s) b' n' = buf_for s b' n')"
proof -
  obtain xs where p: "bcache_inv s xs" "bview s = c_view c" "disk s = c_disk c" "brefs s = c_refs c" "dtrace s = c_trace c"
    using s by (rule bstate_parts)
  let ?r = "b_refcnt (bufs s b) + 1"
  have rn: "c_refs c n = unat (b_refcnt (bufs s b))"
    using brefs_cached[OF p(1), of b] b p(4) by (simp add: buf_for_def)
  then have ur: "unat ?r = c_refs c n + 1" using l by (simp add: unat_inc)
  then have r0: "?r \<noteq> 0" by (metis Suc_eq_plus1 unat_0 nat.distinct(1))
  have bt: "bufs (bpin b s) i = (if i = b then (bufs s b)\<lparr>b_refcnt := ?r\<rparr> else bufs s i)" for i
    by (simp add: bpin_def)
  have it: "bcache_inv (bpin b s) xs" "\<And>k. bview (bpin b s) k = bview s k"
    using bcache_refcnt[OF p(1) bt _ _ b] r0 by (auto simp: bpin_def)
  have "bstate h (bpin b s) (c\<lparr>c_refs := (c_refs c)(n := c_refs c n + 1)\<rparr>)"
  proof (rule bstate_same_locks[OF s it(1)])
    have "brefs (bpin b s) = (brefs s)(n := unat ?r)"
      by (rule brefs_update[OF p(1) b]) (auto simp: bt)
    then show "brefs (bpin b s) = c_refs (c\<lparr>c_refs := (c_refs c)(n := c_refs c n + 1)\<rparr>)" using ur p(4) by simp
  qed (use p s it(2) in \<open>auto simp: bstate_def bpin_def\<close>)
  then show ?thesis using b r0 by (auto simp: buf_for_def bpin_def)
qed


lemma bstate_clean:
  assumes s: "bstate h s c" and r: "c_refs c n = 0"
  shows "c_view c n = c_disk c n"
proof -
  obtain xs where p: "bcache_inv s xs" "bview s = c_view c" "disk s = c_disk c" "brefs s = c_refs c"
    using s by (rule bstate_parts)
  have "bview s n = disk s n"
  proof (cases rule: brefs_cases[OF p(1), of n])
    case (1 i)
    then have z: "b_refcnt (bufs s i) = 0" using r p(4) by (simp add: unat_eq_zero)
    show ?thesis
    proof (cases "b_valid (bufs s i)")
      case True
      then have "b_data (bufs s i) = disk s n" using p(1) 1 z by (auto simp: bcache_inv_def)
      then show ?thesis using bview_cached[OF p(1) 1(1,2) True] 1(3) by simp
    next
      case False
      then show ?thesis using bview_uncached[of s n] bcache_unique[OF p(1) _ 1(1)] 1 by metis
    qed
  next
    case 2
    then show ?thesis by (intro bview_uncached) auto
  qed
  then show ?thesis using p by simp
qed

section \<open>The interface\<close>

text \<open>Writing block \<open>n\<close> through to the disk.\<close>

definition c_store :: "u32 \<Rightarrow> block \<Rightarrow> cache \<Rightarrow> cache" where
  "c_store n d c = c\<lparr>c_view := (c_view c)(n := d), c_disk := (c_disk c)(n := d), c_trace := c_trace c @ [(n, d)]\<rparr>"

lemmas cache_defs = c_ready_def c_read_def c_put_def c_write_def c_unref_def c_release_def c_store_def

locale block_cache =
  fixes repr :: "nat \<Rightarrow> 's \<Rightarrow> cache \<Rightarrow> bool" and up :: "'s \<Rightarrow> 'u" and hnd :: "'s \<Rightarrow> nat \<Rightarrow> u32 \<Rightarrow> bool"
    and rd :: "nat \<Rightarrow> u32 \<Rightarrow> 's \<Rightarrow> (nat, 's) res" and wr rl :: "nat \<Rightarrow> nat \<Rightarrow> 's \<Rightarrow> (unit, 's) res"
    and put :: "nat \<Rightarrow> block \<Rightarrow> 's \<Rightarrow> 's" and get :: "'s \<Rightarrow> nat \<Rightarrow> block" and unpin :: "nat \<Rightarrow> 's \<Rightarrow> 's"
  assumes rd_ok: "repr h s c \<Longrightarrow> c_ready n c \<Longrightarrow>
      \<exists>b t. rd h n s = Ok b t \<and> repr h t (c_read n c) \<and> hnd t b n \<and> up t = up s \<and> (\<forall>b' n'. hnd s b' n' \<longrightarrow> hnd t b' n')"
    and get_ok: "repr h s c \<Longrightarrow> hnd s b n \<Longrightarrow> get s b = c_view c n"
    and put_ok: "repr h s c \<Longrightarrow> hnd s b n \<Longrightarrow>
      repr h (put b d s) (c_put n d c) \<and> up (put b d s) = up s \<and> (\<forall>b' n'. hnd (put b d s) b' n' = hnd s b' n')"
    and wr_ok: "repr h s c \<Longrightarrow> hnd s b n \<Longrightarrow> n \<in> c_held c \<Longrightarrow>
      \<exists>t. wr h b s = Ok () t \<and> repr h t (c_write n c) \<and> up t = up s \<and> (\<forall>b' n'. hnd t b' n' = hnd s b' n')"
    and rl_ok: "repr h s c \<Longrightarrow> hnd s b n \<Longrightarrow> n \<in> c_held c \<Longrightarrow> (c_refs c n = 1 \<Longrightarrow> c_view c n = c_disk c n) \<Longrightarrow>
      \<exists>t. rl h b s = Ok () t \<and> repr h t (c_release n c) \<and> up t = up s \<and> (\<forall>b' n'. n' \<noteq> n \<longrightarrow> hnd t b' n' = hnd s b' n')"
    and unpin_ok: "repr h s c \<Longrightarrow> hnd s b n \<Longrightarrow> 2 \<le> c_refs c n \<Longrightarrow>
      repr h (unpin b s) (c_unref n c) \<and> up (unpin b s) = up s \<and> (\<forall>b' n'. hnd (unpin b s) b' n' = hnd s b' n')"
    and refs_clean: "repr h s c \<Longrightarrow> c_refs c n = 0 \<Longrightarrow> c_view c n = c_disk c n"
begin

text \<open>Reading a block without changing it.\<close>

lemma peek_block:
  assumes s: "repr h s c" and r: "c_ready n c"
  shows "\<exists>t b u. rd h n s = Ok b t \<and> get t b = c_view c n \<and> rl h b t = Ok () u \<and> repr h u c \<and> up u = up s"
proof -
  obtain b t where t: "rd h n s = Ok b t" "repr h t (c_read n c)" "hnd t b n" "up t = up s" using rd_ok[OF s r] by blast
  have "c_refs c n = 0 \<Longrightarrow> c_view c n = c_disk c n" by (rule refs_clean[OF s])
  then obtain u where u: "rl h b t = Ok () u" "repr h u (c_release n (c_read n c))" "up u = up t"
    using rl_ok[OF t(2,3)] by (auto simp: cache_defs)
  have "c_release n (c_read n c) = c" using r by (simp add: cache_defs)
  then show ?thesis using t u get_ok[OF t(2,3)] by (auto simp: cache_defs)
qed

text \<open>Changing a block and writing it.\<close>

lemma modify_block:
  assumes s: "repr h s c" and r: "c_ready n c"
  shows "\<exists>t. bnd (rd h n s) (\<lambda>b s. bnd (wr h b (put b (f (get s b)) s)) (\<lambda>_ s. rl h b s)) = Ok () t \<and>
     repr h t (c_store n (f (c_view c n)) c) \<and> up t = up s"
proof -
  obtain b t1 where t1: "rd h n s = Ok b t1" "repr h t1 (c_read n c)" "hnd t1 b n" "up t1 = up s" using rd_ok[OF s r] by blast
  have g: "get t1 b = c_view c n" using get_ok[OF t1(2,3)] by (simp add: cache_defs)
  let ?t2 = "put b (f (c_view c n)) t1"
  have t2: "repr h ?t2 (c_put n (f (c_view c n)) (c_read n c))" "hnd ?t2 b n" "up ?t2 = up s"
    using put_ok[OF t1(2,3)] t1(3,4) by auto
  obtain t3 where t3: "wr h b ?t2 = Ok () t3" "repr h t3 (c_write n (c_put n (f (c_view c n)) (c_read n c)))" "hnd t3 b n"
      "up t3 = up s"
    using wr_ok[OF t2(1,2)] t2(2,3) by (auto simp: cache_defs)
  obtain t4 where t4: "rl h b t3 = Ok () t4" "repr h t4 (c_release n (c_write n (c_put n (f (c_view c n)) (c_read n c))))"
      "up t4 = up s"
    using rl_ok[OF t3(2,3)] t3(4) by (auto simp: cache_defs)
  have "c_release n (c_write n (c_put n (f (c_view c n)) (c_read n c))) = c_store n (f (c_view c n)) c"
    using r by (simp add: cache_defs)
  then show ?thesis using t1(1) g t3(1) t4 by simp
qed

text \<open>Copying block \<open>m\<close>, which is referred to, over block \<open>n\<close>.\<close>

lemma copy_block:
  assumes s: "repr h s c" and r: "c_ready n c" and m: "m \<noteq> n" "m \<notin> c_held c" "c_refs c m \<noteq> 0" "c_refs c m + 1 < 2 ^ 32"
  shows "\<exists>t. bnd (rd h n s) (\<lambda>a s. bnd (rd h m s) (\<lambda>b s.
       bnd (wr h a (put a (get s b) s)) (\<lambda>_ s. bnd (rl h b s) (\<lambda>_ s. rl h a s)))) = Ok () t \<and>
     repr h t (c_store n (c_view c m) c) \<and> up t = up s"
proof -
  obtain a t1 where t1: "rd h n s = Ok a t1" "repr h t1 (c_read n c)" "hnd t1 a n" "up t1 = up s" using rd_ok[OF s r] by blast
  have "c_ready m (c_read n c)" using m by (simp add: cache_defs)
  then obtain b t2 where t2: "rd h m t1 = Ok b t2" "repr h t2 (c_read m (c_read n c))" "hnd t2 b m" "hnd t2 a n" "up t2 = up s"
    using rd_ok[OF t1(2), of m] t1(3,4) by auto
  let ?c2 = "c_read m (c_read n c)" and ?d = "c_view c m"
  have g: "get t2 b = ?d" using get_ok[OF t2(2,3)] by (simp add: cache_defs)
  let ?t3 = "put a ?d t2" and ?c3 = "c_put n ?d ?c2"
  have t3: "repr h ?t3 ?c3" "hnd ?t3 a n" "hnd ?t3 b m" "up ?t3 = up s"
    using put_ok[OF t2(2,4)] t2(3-5) by auto
  obtain t4 where t4: "wr h a ?t3 = Ok () t4" "repr h t4 (c_write n ?c3)" "hnd t4 a n" "hnd t4 b m" "up t4 = up s"
    using wr_ok[OF t3(1,2)] t3(2-4) by (auto simp: cache_defs)
  obtain t5 where t5: "rl h b t4 = Ok () t5" "repr h t5 (c_release m (c_write n ?c3))" "hnd t5 a n" "up t5 = up s"
    using rl_ok[OF t4(2,4)] t4(3,5) m by (auto simp: cache_defs)
  obtain t6 where t6: "rl h a t5 = Ok () t6" "repr h t6 (c_release n (c_release m (c_write n ?c3)))" "up t6 = up s"
    using rl_ok[OF t5(2,3)] t5(4) m by (auto simp: cache_defs)
  have "c_release n (c_release m (c_write n ?c3)) = c_store n ?d c"
    using r m by (intro cache.equality) (auto simp: cache_defs fun_eq_iff)
  then show ?thesis using t1(1) t2(1) g t4(1) t5(1) t6 by simp
qed

text \<open>Copying a log block \<open>m\<close> home to block \<open>n\<close>, which loses a pin if it has one.\<close>

lemma install_block:
  assumes s: "repr h s c" and r: "c_ready m c" "c_ready n (c_read m c)" and m: "m \<noteq> n" and p: "pinned \<Longrightarrow> c_refs c n \<noteq> 0"
  shows "\<exists>t. bnd (rd h m s) (\<lambda>a s. bnd (rd h n s) (\<lambda>b s.
       bnd (wr h b (put b (get s a) s)) (\<lambda>_ s.
         let s = if pinned then unpin b s else s in bnd (rl h a s) (\<lambda>_ s. rl h b s)))) = Ok () t \<and>
     repr h t (if pinned then c_unref n (c_store n (c_view c m) c) else c_store n (c_view c m) c) \<and> up t = up s"
proof -
  obtain a t1 where t1: "rd h m s = Ok a t1" "repr h t1 (c_read m c)" "hnd t1 a m" "up t1 = up s" using rd_ok[OF s r(1)] by blast
  obtain b t2 where t2: "rd h n t1 = Ok b t2" "repr h t2 (c_read n (c_read m c))" "hnd t2 b n" "hnd t2 a m" "up t2 = up s"
    using rd_ok[OF t1(2) r(2)] t1(3,4) by auto
  let ?c2 = "c_read n (c_read m c)" and ?d = "c_view c m"
  have g: "get t2 a = ?d" using get_ok[OF t2(2,4)] by (simp add: cache_defs)
  let ?t3 = "put b ?d t2" and ?c3 = "c_put n ?d ?c2"
  have t3: "repr h ?t3 ?c3" "hnd ?t3 b n" "hnd ?t3 a m" "up ?t3 = up s"
    using put_ok[OF t2(2,3)] t2(3-5) by auto
  obtain t4 where t4: "wr h b ?t3 = Ok () t4" "repr h t4 (c_write n ?c3)" "hnd t4 b n" "hnd t4 a m" "up t4 = up s"
    using wr_ok[OF t3(1,2)] t3(2-4) by (auto simp: cache_defs)
  let ?t5 = "if pinned then unpin b t4 else t4" and ?c5 = "if pinned then c_unref n (c_write n ?c3) else c_write n ?c3"
  have "pinned \<Longrightarrow> 2 \<le> c_refs (c_write n ?c3) n" using p m by (auto simp: cache_defs)
  then have t5: "repr h ?t5 ?c5" "hnd ?t5 b n" "hnd ?t5 a m" "up ?t5 = up s"
    using unpin_ok[OF t4(2,3)] t4(2-5) by (auto split: if_splits)
  have cl: "c_refs c m = 0 \<Longrightarrow> c_view c m = c_disk c m" by (rule refs_clean[OF s])
  obtain t6 where t6: "rl h a ?t5 = Ok () t6" "repr h t6 (c_release m ?c5)" "hnd t6 b n" "up t6 = up s"
  proof -
    have "m \<in> c_held ?c5" "c_refs ?c5 m = 1 \<Longrightarrow> c_view ?c5 m = c_disk ?c5 m" using m cl by (auto simp: cache_defs split: if_splits)
    then show ?thesis using rl_ok[OF t5(1,3)] t5(2,4) m that by auto
  qed
  obtain t7 where t7: "rl h b t6 = Ok () t7" "repr h t7 (c_release n (c_release m ?c5))" "up t7 = up s"
  proof -
    have "n \<in> c_held (c_release m ?c5)" "c_view (c_release m ?c5) n = c_disk (c_release m ?c5) n"
      using m by (auto simp: cache_defs)
    then show ?thesis using rl_ok[OF t6(2,3)] t6(4) that by auto
  qed
  have "c_release n (c_release m ?c5) = (if pinned then c_unref n (c_store n ?d c) else c_store n ?d c)"
    using r m by (intro cache.equality) (auto simp: cache_defs fun_eq_iff)
  then show ?thesis using t1(1) t2(1) g t4(1) t6(1) t7 by (simp add: Let_def)
qed

end

interpretation bcache: block_cache bstate kbio.more buf_for "\<lambda>h. bread h 1" bwrite brelse set_data
    "\<lambda>s b. b_data (bufs s b)" bunpin
proof
  fix h and s :: "'a kbio_scheme" and c b n assume "bstate h s c" "buf_for s b n"
  then show "b_data (bufs s b) = c_view c n" by (metis bstate_parts buf_for_data)
qed (fact bread_law put_law write_law release_law unpin_law bstate_clean)+


section \<open>Boot\<close>

text \<open>After a reboot nothing is cached or referred to.\<close>

definition fresh_cache :: "(u32 \<Rightarrow> block) \<Rightarrow> cache" where
  "fresh_cache D = \<lparr>c_view = D, c_disk = D, c_refs = (\<lambda>_. 0), c_held = {}, c_trace = []\<rparr>"

lemma NBUF_ge: "1 < NBUF"
  by (simp add: param_defs)

lemma binit_one_frame:
  "strip (bufs (binit_one b s) i) = strip (bufs s i)" "disk (binit_one b s) = disk s" "dtrace (binit_one b s) = dtrace s"
  "proc (binit_one b s) = proc s" "cpus (binit_one b s) = cpus s" "kbio.more (binit_one b s) = kbio.more s"
  "sl_locked (slocks (binit_one b s) (SlBuf i)) = (i \<noteq> b \<and> sl_locked (slocks s (SlBuf i)))"
  by (simp_all add: binit_one_def Let_def initsleeplock_def upd_slock_def upd_buf_def)

lemma binit_fold_frame:
  "strip (bufs (fold binit_one bs s) i) = strip (bufs s i)" "disk (fold binit_one bs s) = disk s"
  "dtrace (fold binit_one bs s) = dtrace s" "proc (fold binit_one bs s) = proc s" "cpus (fold binit_one bs s) = cpus s"
  "kbio.more (fold binit_one bs s) = kbio.more s"
  "sl_locked (slocks (fold binit_one bs s) (SlBuf i)) = (i \<notin> set bs \<and> sl_locked (slocks s (SlBuf i)))"
  by (induction bs arbitrary: s) (auto simp: binit_one_frame)

lemma binit_frame:
  "strip (bufs (binit s) i) = strip (bufs s i)" "disk (binit s) = disk s"
  "dtrace (binit s) = dtrace s" "proc (binit s) = proc s" "cpus (binit s) = cpus s"
  "kbio.more (binit s) = kbio.more s" "i < NBUF \<Longrightarrow> \<not> sl_locked (slocks (binit s) (SlBuf i))"
  by (simp_all add: binit_def Let_def binit_fold_frame initlock_def upd_buf_def)

text \<open>The buffers of a kernel that has just been loaded are zero.\<close>

definition bss_bufs :: "'a kbio_scheme \<Rightarrow> bool" where
  "bss_bufs s \<longleftrightarrow> (\<forall>i<NBUF. b_dev (bufs s i) = 0 \<and> \<not> b_valid (bufs s i) \<and> b_refcnt (bufs s i) = 0)"

lemma binit_fresh:
  assumes z: "bss_bufs s" and m: "myproc h s = Some p" "p < length (proc s)" and d: "dtrace s = []"
  shows "bstate h (binit s) (fresh_cache (disk s))"
proof -
  let ?t = "binit s"
  have f: "b_dev (bufs ?t i) = 0" "\<not> b_valid (bufs ?t i)" "b_refcnt (bufs ?t i) = 0" if "i < NBUF" for i
    using strip_fields[OF binit_frame(1)[of s i]] z that by (auto simp: bss_bufs_def)
  have inv: "bcache_inv ?t (rev [0..<NBUF])"
    using binit_list[of s] f binit_frame(7)[where s = s] by (auto simp: bcache_inv_def)
  have "bview ?t = disk s" using bview_uncached[of ?t] f binit_frame(2)[of s] by auto
  moreover have "brefs ?t = (\<lambda>_. 0)" using brefs_uncached[of ?t] f by fastforce
  moreover have "myproc h ?t = Some p" using m(1) binit_frame(5)[of s] by (simp add: myproc_def)
  ultimately show ?thesis
    using inv m(2) d binit_frame[where s = s] f unfolding bstate_def fresh_cache_def by auto
qed

section \<open>The cache is a block store\<close>

text \<open>Clients that read and write whole blocks, and the array of blocks they may think of.\<close>

datatype breq = BLoad u32 | BStore u32 block

fun bserve :: "nat \<Rightarrow> breq list \<Rightarrow> 'a kbio_scheme \<Rightarrow> (block list, 'a kbio_scheme) res" where
  "bserve h [] s = Ok [] s"
| "bserve h (BLoad n # rs) s =
     bnd (bread h 1 n s) (\<lambda>b s. let d = b_data (bufs s b) in
     bnd (brelse h b s) (\<lambda>_ s. bnd (bserve h rs s) (\<lambda>ds s. Ok (d # ds) s)))"
| "bserve h (BStore n d # rs) s =
     bnd (bnd (bread h 1 n s) (\<lambda>b s. bnd (bwrite h b (set_data b d s)) (\<lambda>_ s. brelse h b s))) (\<lambda>_ s. bserve h rs s)"

fun store_run :: "breq list \<Rightarrow> (u32 \<Rightarrow> block) \<Rightarrow> block list \<times> (u32 \<Rightarrow> block)" where
  "store_run [] D = ([], D)"
| "store_run (BLoad n # rs) D = (let (ds, D') = store_run rs D in (D n # ds, D'))"
| "store_run (BStore n d # rs) D = store_run rs (D(n := d))"

lemma bserve_store:
  assumes "bstate h s c" and "c_held c = {}" and "c_refs c = (\<lambda>_. 0)"
  shows "\<exists>t. bserve h rs s = Ok (fst (store_run rs (c_view c))) t \<and> disk t = snd (store_run rs (c_disk c))"
  using assms
proof (induction rs arbitrary: s c)
  case Nil
  then show ?case by (simp add: bstate_def)
next
  case (Cons r rs)
  have ready: "c_ready n c" for n using Cons.prems NBUF_ge by (simp add: c_ready_def)
  have vd: "c_view c = c_disk c" using bstate_clean[OF Cons.prems(1)] Cons.prems(3) by auto
  show ?case
  proof (cases r)
    case (BLoad n)
    obtain t b u where t: "bread h 1 n s = Ok b t" "b_data (bufs t b) = c_view c n" "brelse h b t = Ok () u" "bstate h u c"
      using bcache.peek_block[OF Cons.prems(1) ready[of n]] by blast
    then show ?thesis
      using BLoad Cons.IH[OF t(4) Cons.prems(2,3)] vd by (auto simp: Let_def case_prod_beta)
  next
    case (BStore n d)
    obtain t where t: "bnd (bread h 1 n s) (\<lambda>b s. bnd (bwrite h b (set_data b d s)) (\<lambda>_ s. brelse h b s)) = Ok () t"
        "bstate h t (c_store n d c)"
      using bcache.modify_block[OF Cons.prems(1) ready[of n], of "\<lambda>_. d"] by blast
    then show ?thesis
      using BStore Cons.IH[OF t(2)] Cons.prems(2,3) by (auto simp: c_store_def fun_upd_def)
  qed
qed


text \<open>A machine that runs process 0 on CPU 0 and has just been loaded.\<close>

definition bio_boot :: kbio where
  "bio_boot = \<lparr>cpus = (cpus boot_mem)(0 := (cpus boot_mem 0)\<lparr>c_proc := Some 0\<rparr>), locks = locks boot_mem,
     proc = replicate NPROC blank_proc, initproc = None, nextpid = 1, idle_governor = idle_governor boot_mem,
     ticks = 0, stimecmp = (\<lambda>_. 0), tframe = tframe boot_mem, kmem_freelist = 0, phys = (\<lambda>_. 0), kernel_pagetable = 0,
     satp = (\<lambda>_. 0), k_end = 0x87FFE000, k_etext = 0x80008000, k_trampoline = 0x80007000,
     slocks = (\<lambda>_. \<lparr>sl_locked = False, sl_name = '''', sl_pid = 0\<rparr>),
     bufs = (\<lambda>_. \<lparr>b_valid = False, b_disk = False, b_dev = 0, b_blockno = 0, b_refcnt = 0, b_prev = 0, b_next = 0,
       b_data = (\<lambda>_. 0)\<rparr>),
     disk = (\<lambda>_ _. 0), dtrace = []\<rparr>"


end
