(* ===== verification/Bytes.thy ===== *)
theory Bytes
  imports CString
begin

text \<open>
  Halfwords and words in byte blocks: the little-endian layout of the integer fields of the on-disk
  structures and of the log header.
\<close>

definition ld16 :: "mem \<Rightarrow> nat \<Rightarrow> u16" where
  "ld16 m a = ucast (m a) OR push_bit 8 (ucast (m (a + 1)))"

definition st16 :: "mem \<Rightarrow> nat \<Rightarrow> u16 \<Rightarrow> mem" where
  "st16 m a v = m(a := ucast v, a + 1 := ucast (drop_bit 8 v))"

definition ld32 :: "mem \<Rightarrow> nat \<Rightarrow> u32" where
  "ld32 m a =
     ucast (m a) OR push_bit 8 (ucast (m (a + 1))) OR push_bit 16 (ucast (m (a + 2))) OR
     push_bit 24 (ucast (m (a + 3)))"

definition st32 :: "mem \<Rightarrow> nat \<Rightarrow> u32 \<Rightarrow> mem" where
  "st32 m a v =
     m(a := ucast v, a + 1 := ucast (drop_bit 8 v), a + 2 := ucast (drop_bit 16 v), a + 3 := ucast (drop_bit 24 v))"

text \<open>An array of words: \<open>st32s m a vs\<close> stores \<open>vs\<close> at \<open>a\<close>, \<open>a + 4\<close> and so on.\<close>

fun st32s :: "mem \<Rightarrow> nat \<Rightarrow> u32 list \<Rightarrow> mem" where
  "st32s m a [] = m"
| "st32s m a (v # vs) = st32s (st32 m a v) (a + 4) vs"

definition ld32s :: "mem \<Rightarrow> nat \<Rightarrow> nat \<Rightarrow> u32 list" where
  "ld32s m a k = map (\<lambda>i. ld32 m (a + 4 * i)) [0..<k]"

lemma ld16_st16 [simp]: "ld16 (st16 m a v) a = v"
  by (rule bit_word_eqI) (auto simp: ld16_def st16_def bit_simps)

lemma ld32_st32 [simp]: "ld32 (st32 m a v) a = v"
proof (rule bit_word_eqI)
  fix n assume n: "n < LENGTH(32)"
  then have "n < 24 \<or> 24 + (n - 24) = n" by auto
  then show "bit (ld32 (st32 m a v) a) n = bit v n"
    using n by (auto simp: ld32_def st32_def bit_simps)
qed

text \<open>Loads and stores that do not overlap.\<close>

lemma st16_other [simp]: "b < a \<or> a + 2 \<le> b \<Longrightarrow> st16 m a v b = m b"
  by (auto simp: st16_def)

lemma st32_other [simp]: "b < a \<or> a + 4 \<le> b \<Longrightarrow> st32 m a v b = m b"
  by (auto simp: st32_def)

lemma ld16_cong:
  assumes "\<And>i. i < 2 \<Longrightarrow> m (a + i) = m' (a + i)"
  shows "ld16 m a = ld16 m' a"
  using assms[of 0] assms[of 1] by (simp add: ld16_def)

lemma ld32_cong:
  assumes "\<And>i. i < 4 \<Longrightarrow> m (a + i) = m' (a + i)"
  shows "ld32 m a = ld32 m' a"
  using assms[of 0] assms[of 1] assms[of 2] assms[of 3] by (simp add: ld32_def)

lemma ld16_st16_other [simp]: "b + 2 \<le> a \<or> a + 2 \<le> b \<Longrightarrow> ld16 (st16 m a v) b = ld16 m b"
  by (auto intro!: ld16_cong)

lemma ld32_st32_other [simp]: "b + 4 \<le> a \<or> a + 4 \<le> b \<Longrightarrow> ld32 (st32 m a v) b = ld32 m b"
  by (auto intro!: ld32_cong)

lemma ld16_st32_other [simp]: "b + 2 \<le> a \<or> a + 4 \<le> b \<Longrightarrow> ld16 (st32 m a v) b = ld16 m b"
  by (auto intro!: ld16_cong)

lemma ld32_st16_other [simp]: "b + 4 \<le> a \<or> a + 2 \<le> b \<Longrightarrow> ld32 (st16 m a v) b = ld32 m b"
  by (auto intro!: ld32_cong)

lemma ld32_st32s_other [simp]: "b + 4 \<le> a \<or> a + 4 * length vs \<le> b \<Longrightarrow> ld32 (st32s m a vs) b = ld32 m b"
  by (induction vs arbitrary: m a) auto

lemma ld32_st32s: "i < length vs \<Longrightarrow> ld32 (st32s m a vs) (a + 4 * i) = vs ! i"
proof (induction vs arbitrary: m a i)
  case (Cons v vs)
  show ?case
  proof (cases i)
    case (Suc j)
    then show ?thesis using Cons.IH[of j "st32 m a v" "a + 4"] Cons.prems by (simp add: algebra_simps)
  qed simp
qed simp

lemma ld32s_st32s: "k = length vs \<Longrightarrow> ld32s (st32s m a vs) a k = vs"
  by (auto simp: ld32s_def ld32_st32s intro: nth_equalityI)

lemma length_ld32s [simp]: "length (ld32s m a k) = k"
  by (simp add: ld32s_def)

lemma nth_ld32s [simp]: "i < k \<Longrightarrow> ld32s m a k ! i = ld32 m (a + 4 * i)"
  by (simp add: ld32s_def)

end
