(* ===== verification/Log.thy ===== *)
theory Log
  imports Bcache Bytes
begin

text \<open>
  The write-ahead log (\<^verbatim>\<open>kernel/log.c\<close>): group commit of the blocks that file-system calls change.
  Block numbers are kept as unsigned words, as \<^verbatim>\<open>bread\<close> takes them. The message printed for each block
  during recovery is not modelled.
\<close>

record klog = kbio +
  log_start :: u32
  outstanding :: int
  committing :: bool
  log_dev :: u32
  lh_n :: int
  lh_block :: "nat \<Rightarrow> u32"

section \<open>The operations\<close>

text \<open>One round of the loop of \<^verbatim>\<open>install_trans\<close>, and the loop.\<close>

definition install_one :: "nat \<Rightarrow> bool \<Rightarrow> nat \<Rightarrow> 'a klog_scheme \<Rightarrow> (unit, 'a klog_scheme) res" where
  "install_one h recovering tail s =
     bnd (bread h (log_dev s) (log_start s + of_nat tail + 1) s) (\<lambda>lbuf s.
     bnd (bread h (log_dev s) (lh_block s tail) s) (\<lambda>dbuf s.
     bnd (bwrite h dbuf (set_data dbuf (b_data (bufs s lbuf)) s)) (\<lambda>_ s.
       let s = if \<not> recovering then bunpin dbuf s else s
       in bnd (brelse h lbuf s) (\<lambda>_ s. brelse h dbuf s))))"

definition install_trans :: "nat \<Rightarrow> bool \<Rightarrow> 'a klog_scheme \<Rightarrow> (unit, 'a klog_scheme) res" where
  "install_trans h recovering s = mfor (install_one h recovering) [0..<nat (lh_n s)] s"

text \<open>The header block: the count, then the block numbers. A count above \<^verbatim>\<open>LOGBLOCKS\<close> makes the loop of
  \<^verbatim>\<open>read_head\<close> write past the array, which has no defined meaning.\<close>

definition read_head :: "nat \<Rightarrow> 'a klog_scheme \<Rightarrow> (unit, 'a klog_scheme) res" where
  "read_head h s =
     bnd (bread h (log_dev s) (log_start s) s) (\<lambda>b s.
       let d = b_data (bufs s b); n = sint (ld32 d 0) in
       if n > int LOGBLOCKS then Panic ''log.lh.block: index out of bounds''
       else brelse h b (s\<lparr>lh_n := n, lh_block := (\<lambda>i. if i < nat n then ld32 d (4 + 4 * i) else lh_block s i)\<rparr>))"

definition head_block :: "int \<Rightarrow> u32 list \<Rightarrow> block \<Rightarrow> block" where
  "head_block n bs d = st32s (st32 d 0 (word_of_int n)) 4 bs"

definition write_head :: "nat \<Rightarrow> 'a klog_scheme \<Rightarrow> (unit, 'a klog_scheme) res" where
  "write_head h s =
     bnd (bread h (log_dev s) (log_start s) s) (\<lambda>b s.
     bnd (bwrite h b (set_data b (head_block (lh_n s) (map (lh_block s) [0..<nat (lh_n s)]) (b_data (bufs s b))) s)) (\<lambda>_ s.
       brelse h b s))"

definition recover_from_log :: "nat \<Rightarrow> 'a klog_scheme \<Rightarrow> (unit, 'a klog_scheme) res" where
  "recover_from_log h s =
     bnd (read_head h s) (\<lambda>_ s. bnd (install_trans h True s) (\<lambda>_ s. write_head h (s\<lparr>lh_n := 0\<rparr>)))"

definition sizeof_logheader :: nat where
  "sizeof_logheader = 4 + 4 * LOGBLOCKS"

definition BSIZE :: nat where
  "BSIZE = 1024"

definition initlog :: "nat \<Rightarrow> u32 \<Rightarrow> u32 \<Rightarrow> 'a klog_scheme \<Rightarrow> (unit, 'a klog_scheme) res" where
  "initlog h dev logstart s =
     (if sizeof_logheader \<ge> BSIZE then Panic ''initlog: too big logheader''
      else recover_from_log h ((initlock LkLog ''log'' s)\<lparr>log_start := logstart, log_dev := dev\<rparr>))"

text \<open>\<^verbatim>\<open>begin_op\<close> sleeps while a commit runs or the log might run out of space, and tests again when
  it is woken.\<close>

definition begin_op :: "'a klog_scheme \<Rightarrow> (unit, 'a klog_scheme) res" where
  "begin_op s =
     (if committing s then Sleep ChanLog s
      else if i32 (lh_n s + (outstanding s + 1) * int MAXOPBLOCKS) > int LOGBLOCKS then Sleep ChanLog s
      else Ok () (s\<lparr>outstanding := i32 (outstanding s + 1)\<rparr>))"

definition write_log_one :: "nat \<Rightarrow> nat \<Rightarrow> 'a klog_scheme \<Rightarrow> (unit, 'a klog_scheme) res" where
  "write_log_one h tail s =
     bnd (bread h (log_dev s) (log_start s + of_nat tail + 1) s) (\<lambda>to s.
     bnd (bread h (log_dev s) (lh_block s tail) s) (\<lambda>from s.
     bnd (bwrite h to (set_data to (b_data (bufs s from)) s)) (\<lambda>_ s.
     bnd (brelse h from s) (\<lambda>_ s. brelse h to s))))"

definition write_log :: "nat \<Rightarrow> 'a klog_scheme \<Rightarrow> (unit, 'a klog_scheme) res" where
  "write_log h s = mfor (write_log_one h) [0..<nat (lh_n s)] s"

definition commit :: "nat \<Rightarrow> 'a klog_scheme \<Rightarrow> (unit, 'a klog_scheme) res" where
  "commit h s =
     (if lh_n s > 0 then
        bnd (write_log h s) (\<lambda>_ s.
        bnd (write_head h s) (\<lambda>_ s.
        bnd (install_trans h False s) (\<lambda>_ s. write_head h (s\<lparr>lh_n := 0\<rparr>))))
      else Ok () s)"

definition end_op :: "nat \<Rightarrow> 'a klog_scheme \<Rightarrow> (unit, 'a klog_scheme) res" where
  "end_op h s =
     (let s = s\<lparr>outstanding := i32 (outstanding s - 1)\<rparr> in
      if committing s then Panic ''log.committing''
      else if outstanding s = 0 then
        bnd (commit h (s\<lparr>committing := True\<rparr>)) (\<lambda>_ s. Ok () (wakeup h ChanLog (s\<lparr>committing := False\<rparr>)))
      else Ok () (wakeup h ChanLog s))"

definition log_write :: "nat \<Rightarrow> 'a klog_scheme \<Rightarrow> (unit, 'a klog_scheme) res" where
  "log_write b s =
     (if lh_n s \<ge> int LOGBLOCKS then Panic ''too big a transaction''
      else if outstanding s < 1 then Panic ''log_write outside of trans''
      else
        let i = (case find (\<lambda>i. lh_block s i = b_blockno (bufs s b)) [0..<nat (lh_n s)] of
                   Some i \<Rightarrow> i | None \<Rightarrow> nat (lh_n s));
            s = s\<lparr>lh_block := (lh_block s)(i := b_blockno (bufs s b))\<rparr>
        in Ok () (if int i = lh_n s then (bpin b s)\<lparr>lh_n := lh_n s + 1\<rparr> else s))"


section \<open>What the cache operations leave alone\<close>

lemma acquiresleep_more: "acquiresleep h k s = Ok u t \<Longrightarrow> kslp.more t = kslp.more s"
  by (auto simp: acquiresleep_def upd_slock_def split: option.splits if_splits)

lemma bget_more: "bget h d n s = Ok b t \<Longrightarrow> kbio.more t = kbio.more s"
proof -
  have a: "acquiresleep h k (upd_buf i f s) = Ok u t \<Longrightarrow> kbio.more t = kbio.more s" for k i f u
    by (auto simp: acquiresleep_def upd_slock_def upd_buf_def split: option.splits if_splits)
  show "bget h d n s = Ok b t \<Longrightarrow> kbio.more t = kbio.more s"
    using a by (auto simp: bget_def bnd_Ok_iff split: option.splits)
qed

lemma bread_more: "bread h d n s = Ok b t \<Longrightarrow> kbio.more t = kbio.more s"
  by (auto simp: bread_def bnd_Ok_iff disk_rw_def Let_def dest!: bget_more split: if_splits)

lemma holdingsleep_state: "holdingsleep h k s = Ok u t \<Longrightarrow> t = s"
  by (auto simp: holdingsleep_def split: option.splits)

lemma bwrite_more: "bwrite h b s = Ok u t \<Longrightarrow> kbio.more t = kbio.more s"
  by (auto simp: bwrite_def bnd_Ok_iff disk_rw_def Let_def dest!: holdingsleep_state split: if_splits)

lemma brelse_more: "brelse h b s = Ok u t \<Longrightarrow> kbio.more t = kbio.more s"
  by (auto simp: brelse_def bnd_Ok_iff Let_def releasesleep_bio dest!: holdingsleep_state split: if_splits)

lemma bunpin_more [simp]: "kbio.more (bunpin b s) = kbio.more s"
  by (simp add: bunpin_def)

lemma bpin_more [simp]: "kbio.more (bpin b s) = kbio.more s"
  by (simp add: bpin_def)

lemma log_fields:
  assumes "kbio.more t = kbio.more s"
  shows "log_start t = log_start s" "outstanding t = outstanding s" "committing t = committing s"
    "log_dev t = log_dev s" "lh_n t = lh_n s" "lh_block t = lh_block s"
  using assms by (cases t; cases s; simp)+

lemma kbio_eqs:
  "bufs (s\<lparr>lh_n := n\<rparr>) = bufs s" "slocks (s\<lparr>lh_n := n\<rparr>) = slocks s" "disk (s\<lparr>lh_n := n\<rparr>) = disk s"
  "bufs (s\<lparr>lh_block := x\<rparr>) = bufs s" "slocks (s\<lparr>lh_block := x\<rparr>) = slocks s" "disk (s\<lparr>lh_block := x\<rparr>) = disk s"
  by simp_all

text \<open>The cache state does not depend on the fields of the log.\<close>

lemma bstate_cong:
  assumes "bufs t = bufs s" "slocks t = slocks s" "disk t = disk s" "dtrace t = dtrace s" "proc t = proc s" "cpus t = cpus s"
  shows "bstate h t c = bstate h s c"
proof -
  have m: "myproc h t = myproc h s" using assms by (simp add: myproc_def)
  have "holds h t k = holds h s k" for k using assms m by (simp add: holds_def)
  moreover have "bview t = bview s" using assms by (intro ext) (simp add: bview_def cong: option.case_cong)
  moreover have "bcache_inv t xs = bcache_inv s xs" for xs using assms by (simp add: bcache_inv_def blist_def)
  ultimately show ?thesis using assms m brefs_bufs[OF assms(1)] by (simp add: bstate_def)
qed

lemma bstate_log [simp]:
  "bstate h (s\<lparr>lh_n := n\<rparr>) c = bstate h s c" "bstate h (s\<lparr>lh_block := x\<rparr>) c = bstate h s c"
  "bstate h (s\<lparr>log_start := a, log_dev := d\<rparr>) c = bstate h s c"
  by (rule bstate_cong; simp)+

lemma bstate_initlock [simp]: "bstate h (initlock l nm s) c = bstate h s c"
  by (rule bstate_cong; simp add: initlock_def)

section \<open>Sequences of writes\<close>

fun apply_writes :: "(u32 \<times> block) list \<Rightarrow> (u32 \<Rightarrow> block) \<Rightarrow> u32 \<Rightarrow> block" where
  "apply_writes [] D = D"
| "apply_writes (w # ws) D = apply_writes ws (D(fst w := snd w))"

definition c_stores :: "(u32 \<times> block) list \<Rightarrow> cache \<Rightarrow> cache" where
  "c_stores ws c = c\<lparr>c_view := apply_writes ws (c_view c), c_disk := apply_writes ws (c_disk c), c_trace := c_trace c @ ws\<rparr>"

lemma apply_writes_append [simp]: "apply_writes (ws @ vs) D = apply_writes vs (apply_writes ws D)"
  by (induction ws arbitrary: D) auto

lemma apply_writes_other [simp]: "k \<notin> fst ` set ws \<Longrightarrow> apply_writes ws D k = D k"
  by (induction ws arbitrary: D) auto

lemma apply_writes_nth:
  "distinct (map fst ws) \<Longrightarrow> i < length ws \<Longrightarrow> apply_writes ws D (fst (ws ! i)) = snd (ws ! i)"
proof (induction ws arbitrary: i D)
  case (Cons w ws)
  then show ?case by (cases i) auto
qed simp

lemma c_stores_append: "c_stores (ws @ vs) c = c_stores vs (c_stores ws c)"
  by (simp add: c_stores_def)

lemma c_stores_simps [simp]:
  "c_refs (c_stores ws c) = c_refs c" "c_held (c_stores ws c) = c_held c" "c_view (c_stores ws c) = apply_writes ws (c_view c)"
  "c_disk (c_stores ws c) = apply_writes ws (c_disk c)" "c_trace (c_stores ws c) = c_trace c @ ws" "c_stores [] c = c"
  by (simp_all add: c_stores_def)

lemma c_store_stores: "c_store n d c = c_stores [(n, d)] c"
  by (simp add: c_store_def c_stores_def)

section \<open>Where the log lies\<close>

definition lblk :: "u32 \<Rightarrow> nat \<Rightarrow> u32" where
  "lblk st i = st + of_nat i + 1"

definition log_area :: "u32 \<Rightarrow> u32 set" where
  "log_area st = insert st (lblk st ` {..<LOGBLOCKS})"

text \<open>The area does not wrap around, and \<open>bs\<close> can be logged in it.\<close>

definition log_geom :: "u32 \<Rightarrow> u32 list \<Rightarrow> bool" where
  "log_geom st bs \<longleftrightarrow> unat st + LOGBLOCKS < 2 ^ 32 \<and> length bs \<le> LOGBLOCKS \<and> distinct bs \<and> set bs \<inter> log_area st = {}"

text \<open>The in-memory header lists \<open>bs\<close>.\<close>

definition log_at :: "'a klog_scheme \<Rightarrow> u32 \<Rightarrow> u32 list \<Rightarrow> bool" where
  "log_at s st bs \<longleftrightarrow> log_dev s = 1 \<and> log_start s = st \<and> lh_n s = int (length bs) \<and> (\<forall>i<length bs. lh_block s i = bs ! i)"

lemma log_at_cong: "kbio.more t = kbio.more s \<Longrightarrow> log_at t st bs = log_at s st bs"
  using log_fields[of t s] by (simp add: log_at_def)

lemma unat_lblk:
  assumes "log_geom st bs" and "i < LOGBLOCKS"
  shows "unat (lblk st i) = unat st + i + 1"
proof -
  have e: "lblk st i = word_of_nat (unat st + i + 1)" by (simp add: lblk_def)
  have "unat st + i + 1 < 2 ^ LENGTH(32)" using assms by (simp add: log_geom_def)
  then show ?thesis unfolding e unat_of_nat by (rule mod_less)
qed

lemma lblk_eq: "log_geom st bs \<Longrightarrow> i < LOGBLOCKS \<Longrightarrow> j < LOGBLOCKS \<Longrightarrow> lblk st i = lblk st j \<longleftrightarrow> i = j"
  by (metis add_left_cancel add_right_cancel unat_lblk)

lemma lblk_start: "log_geom st bs \<Longrightarrow> i < LOGBLOCKS \<Longrightarrow> lblk st i \<noteq> st"
  by (metis add.assoc less_add_one less_irrefl_nat trans_less_add1 unat_lblk add_cancel_right_right add_is_0 one_neq_zero)

lemma log_home:
  "log_geom st bs \<Longrightarrow> i < length bs \<Longrightarrow> j < LOGBLOCKS \<Longrightarrow> bs ! i \<noteq> lblk st j \<and> bs ! i \<noteq> st \<and> lblk st j \<noteq> bs ! i"
  using nth_mem[of i bs] unfolding log_geom_def log_area_def disjoint_iff by (metis insertCI lessThan_iff image_eqI)

definition log_writes :: "u32 \<Rightarrow> u32 list \<Rightarrow> (u32 \<Rightarrow> block) \<Rightarrow> (u32 \<times> block) list" where
  "log_writes st bs V = map (\<lambda>i. (lblk st i, V (bs ! i))) [0..<length bs]"

definition home_writes :: "u32 \<Rightarrow> u32 list \<Rightarrow> (u32 \<Rightarrow> block) \<Rightarrow> (u32 \<times> block) list" where
  "home_writes st bs V = map (\<lambda>i. (bs ! i, V (lblk st i))) [0..<length bs]"

lemma log_writes_area: "log_geom st bs \<Longrightarrow> fst ` set (log_writes st bs V) \<subseteq> log_area st"
  by (auto simp: log_writes_def log_area_def log_geom_def)

lemma home_writes_set: "fst ` set (home_writes st bs V) = set bs"
  by (auto simp: home_writes_def in_set_conv_nth image_iff) force


section \<open>The loops on the cache state\<close>

text \<open>With the header in force a round of either loop is a block copy of the cache interface.\<close>

lemma write_log_one_eq:
  assumes "log_at s st bs" and "i < length bs"
  shows "write_log_one h i s =
     bnd (bread h 1 (lblk st i) s) (\<lambda>a s. bnd (bread h 1 (bs ! i) s) (\<lambda>b s.
       bnd (bwrite h a (set_data a (b_data (bufs s b)) s)) (\<lambda>_ s. bnd (brelse h b s) (\<lambda>_ s. brelse h a s))))"
proof -
  have s: "log_dev s = 1" "log_start s = st" using assms by (auto simp: log_at_def)
  have "log_dev t = 1" "lh_block t i = bs ! i" if "bread h 1 (lblk st i) s = Ok b t" for b t
    using log_fields[OF bread_more[OF that]] assms by (auto simp: log_at_def)
  then show ?thesis unfolding write_log_one_def s lblk_def[symmetric] by (intro bnd_cong refl) simp
qed

lemma install_one_eq:
  assumes "log_at s st bs" and "i < length bs"
  shows "install_one h recovering i s =
     bnd (bread h 1 (lblk st i) s) (\<lambda>a s. bnd (bread h 1 (bs ! i) s) (\<lambda>b s.
       bnd (bwrite h b (set_data b (b_data (bufs s a)) s)) (\<lambda>_ s.
         let s = if \<not> recovering then bunpin b s else s in bnd (brelse h a s) (\<lambda>_ s. brelse h b s))))"
proof -
  have s: "log_dev s = 1" "log_start s = st" using assms by (auto simp: log_at_def)
  have "log_dev t = 1" "lh_block t i = bs ! i" if "bread h 1 (lblk st i) s = Ok b t" for b t
    using log_fields[OF bread_more[OF that]] assms by (auto simp: log_at_def)
  then show ?thesis unfolding install_one_def s lblk_def[symmetric] by (intro bnd_cong refl) simp
qed

text \<open>No block is locked, the blocks of the transaction are pinned and a buffer is left for the log.\<close>

definition log_pinned :: "cache \<Rightarrow> u32 list \<Rightarrow> bool" where
  "log_pinned c bs \<longleftrightarrow> c_held c = {} \<and> (\<forall>k. c_refs c k + 1 < 2 ^ 32) \<and> (\<forall>b\<in>set bs. c_refs c b \<noteq> 0) \<and>
     card {k. c_refs c k \<noteq> 0} < NBUF"

lemma log_lblk_home:
  assumes "log_geom st bs" and "i < length bs" and "j < length bs"
  shows "bs ! i \<noteq> lblk st j" "lblk st j \<noteq> bs ! i"
  using log_home[OF assms(1,2), of j] assms(1,3) by (auto simp: log_geom_def)

lemma log_writes_miss:
  assumes "log_geom st bs" and "i < length bs" and "k \<le> length bs"
  shows "bs ! i \<notin> fst ` set (map (\<lambda>j. (lblk st j, f j)) [0..<k])" "lblk st i \<notin> fst ` set (map (\<lambda>j. (bs ! j, f j)) [0..<k])"
proof -
  have "\<forall>j<k. bs ! i \<noteq> lblk st j \<and> lblk st i \<noteq> bs ! j"
    using log_lblk_home[OF assms(1)] assms(2,3) by (meson less_le_trans)
  then show "bs ! i \<notin> fst ` set (map (\<lambda>j. (lblk st j, f j)) [0..<k])"
    "lblk st i \<notin> fst ` set (map (\<lambda>j. (bs ! j, f j)) [0..<k])" by force+
qed

lemma write_log_ok:
  assumes s: "bstate h s c" "log_at s st bs" and g: "log_geom st bs" and p: "log_pinned c bs"
  shows "\<exists>t. write_log h s = Ok () t \<and> bstate h t (c_stores (log_writes st bs (c_view c)) c) \<and> kbio.more t = kbio.more s"
proof -
  let ?C = "\<lambda>k. c_stores (map (\<lambda>i. (lblk st i, c_view c (bs ! i))) [0..<k]) c"
  let ?J = "\<lambda>k t. bstate h t (?C k) \<and> kbio.more t = kbio.more s"
  have "\<exists>t. mfor (write_log_one h) [0..<length bs] s = Ok () t \<and> ?J (length bs) t"
  proof (rule mfor_upt)
    fix i t assume i: "i < length bs" and J: "?J i t"
    have la: "log_at t st bs" using J s(2) log_at_cong by blast
    have r: "c_ready (lblk st i) (?C i)" using p by (simp add: c_ready_def log_pinned_def)
    have "c_view (?C i) (bs ! i) = c_view c (bs ! i)"
      unfolding c_stores_simps by (rule apply_writes_other[OF log_writes_miss(1)[OF g i]]) (use i in simp)
    then have "?C (Suc i) = c_store (lblk st i) (c_view (?C i) (bs ! i)) (?C i)"
      by (simp add: c_store_stores c_stores_append del: c_stores_simps(3-5))
    then show "\<exists>u. write_log_one h i t = Ok () u \<and> ?J (Suc i) u"
      using bcache.copy_block[OF conjunct1[OF J] r, of "bs ! i"] J p i log_lblk_home[OF g i i] write_log_one_eq[OF la i]
      by (auto simp: log_pinned_def simp del: upt_Suc)
  qed (use s in simp)
  then show ?thesis using s(2) by (auto simp: write_log_def log_at_def log_writes_def)
qed

text \<open>Installing: with pins, each block loses one.\<close>

definition c_unpins :: "u32 set \<Rightarrow> cache \<Rightarrow> cache" where
  "c_unpins B c = c\<lparr>c_refs := (\<lambda>b. if b \<in> B then c_refs c b - 1 else c_refs c b)\<rparr>"

lemma c_unpins_simps [simp]:
  "c_view (c_unpins B c) = c_view c" "c_disk (c_unpins B c) = c_disk c" "c_held (c_unpins B c) = c_held c"
  "c_trace (c_unpins B c) = c_trace c" "c_unpins {} c = c"
  by (simp_all add: c_unpins_def)

lemma c_unpins_stores: "c_stores ws (c_unpins B c) = c_unpins B (c_stores ws c)"
  by (intro cache.equality) (simp_all add: c_unpins_def cong: if_cong)

lemma card_unpins: "card {k. c_refs (c_unpins B c) k \<noteq> 0} \<le> card {k. c_refs c k \<noteq> 0}"
proof (rule card_mono)
  show "finite {k. c_refs c k \<noteq> 0}" by (rule finite_subset[OF subset_UNIV]) simp
qed (auto simp: c_unpins_def)

lemma install_trans_ok:
  assumes s: "bstate h s c" "log_at s st bs" and g: "log_geom st bs" and p: "log_pinned c bs"
  shows "\<exists>t. install_trans h False s = Ok () t \<and> kbio.more t = kbio.more s \<and>
     bstate h t (c_unpins (set bs) (c_stores (home_writes st bs (c_view c)) c))"
proof -
  let ?W = "\<lambda>k. map (\<lambda>i. (bs ! i, c_view c (lblk st i))) [0..<k]"
  let ?C = "\<lambda>k. c_unpins (set (take k bs)) (c_stores (?W k) c)"
  let ?J = "\<lambda>k t. bstate h t (?C k) \<and> kbio.more t = kbio.more s"
  have "\<exists>t. mfor (install_one h False) [0..<length bs] s = Ok () t \<and> ?J (length bs) t"
  proof (rule mfor_upt)
    fix i t assume i: "i < length bs" and J: "?J i t"
    have la: "log_at t st bs" using J s(2) log_at_cong by blast
    have nt: "bs ! i \<notin> set (take i bs)" using g i by (auto simp: log_geom_def in_set_conv_nth nth_eq_iff_index_eq)
    have le: "c_refs (?C i) k \<le> c_refs c k" for k by (simp add: c_unpins_def)
    have lt: "c_refs (?C i) k + 1 < 2 ^ 32" for k
      using p le[of k] unfolding log_pinned_def by (meson add_right_mono le_less_trans)
    have "card {k. c_refs (?C i) k \<noteq> 0} \<le> card {k. c_refs c k \<noteq> 0}"
      using card_unpins[of "set (take i bs)" "c_stores (?W i) c"] by simp
    then have r: "c_ready (lblk st i) (?C i)"
      using p lt unfolding c_ready_def log_pinned_def by simp
    have ri: "c_refs (?C i) (bs ! i) \<noteq> 0" using nt p i by (simp add: c_unpins_def log_pinned_def)
    have r2: "c_ready (bs ! i) (c_read (lblk st i) (?C i))"
      using ri p lt log_lblk_home[OF g i i]
      unfolding c_ready_def c_read_def log_pinned_def by simp
    have v: "c_view (?C i) (lblk st i) = c_view c (lblk st i)"
      unfolding c_unpins_simps c_stores_simps by (rule apply_writes_other[OF log_writes_miss(2)[OF g i]]) (use i in simp)
    have "?C (Suc i) = c_unref (bs ! i) (c_store (bs ! i) (c_view (?C i) (lblk st i)) (?C i))"
      unfolding v using i nt
      by (intro cache.equality) (auto simp: c_unpins_def c_unref_def c_store_def c_stores_def take_Suc_conv_app_nth fun_eq_iff)
    then show "\<exists>u. install_one h False i t = Ok () u \<and> ?J (Suc i) u"
      using bcache.install_block[OF conjunct1[OF J] r r2, of True] ri J log_lblk_home[OF g i i] install_one_eq[OF la i]
      by (auto simp del: upt_Suc)
  qed (use s in simp)
  then show ?thesis using s(2) by (auto simp: install_trans_def log_at_def home_writes_def)
qed


lemma install_recover_ok:
  assumes s: "bstate h s c" "log_at s st bs" and g: "log_geom st bs" and c: "c_held c = {}" "c_refs c = (\<lambda>_. 0)"
  shows "\<exists>t. install_trans h True s = Ok () t \<and> kbio.more t = kbio.more s \<and> bstate h t (c_stores (home_writes st bs (c_view c)) c)"
proof -
  let ?W = "\<lambda>k. map (\<lambda>i. (bs ! i, c_view c (lblk st i))) [0..<k]"
  let ?C = "\<lambda>k. c_stores (?W k) c"
  let ?J = "\<lambda>k t. bstate h t (?C k) \<and> kbio.more t = kbio.more s"
  have "\<exists>t. mfor (install_one h True) [0..<length bs] s = Ok () t \<and> ?J (length bs) t"
  proof (rule mfor_upt)
    fix i t assume i: "i < length bs" and J: "?J i t"
    have la: "log_at t st bs" using J s(2) log_at_cong by blast
    have r: "c_ready (lblk st i) (?C i)" using c NBUF_ge by (simp add: c_ready_def)
    have r2: "c_ready (bs ! i) (c_read (lblk st i) (?C i))"
      using c NBUF_ge log_lblk_home[OF g i i] by (simp add: c_ready_def c_read_def)
    have v: "c_view (?C i) (lblk st i) = c_view c (lblk st i)"
      unfolding c_stores_simps by (rule apply_writes_other[OF log_writes_miss(2)[OF g i]]) (use i in simp)
    have "?C (Suc i) = c_store (bs ! i) (c_view (?C i) (lblk st i)) (?C i)"
      unfolding v by (simp add: c_store_stores c_stores_append del: c_stores_simps(3-5))
    then show "\<exists>u. install_one h True i t = Ok () u \<and> ?J (Suc i) u"
      using bcache.install_block[OF conjunct1[OF J] r r2, of False] J log_lblk_home[OF g i i] install_one_eq[OF la i]
      by (auto simp del: upt_Suc)
  qed (use s in simp)
  then show ?thesis using s(2) by (auto simp: install_trans_def log_at_def home_writes_def)
qed

lemma log_at_blocks: "log_at s st bs \<Longrightarrow> map (lh_block s) [0..<nat (lh_n s)] = bs"
  by (auto simp: log_at_def intro: nth_equalityI)

lemma log_at_empty: "log_at s st bs \<Longrightarrow> log_at (s\<lparr>lh_n := 0\<rparr>) st []"
  by (simp add: log_at_def)

lemma write_head_ok:
  assumes s: "bstate h s c" "log_at s st bs" and r: "c_ready st c"
  shows "\<exists>t. write_head h s = Ok () t \<and> kbio.more t = kbio.more s \<and>
     bstate h t (c_store st (head_block (int (length bs)) bs (c_view c st)) c)"
proof -
  have e: "log_dev s = 1" "log_start s = st" using s(2) by (auto simp: log_at_def)
  have "lh_n t = int (length bs) \<and> map (lh_block t) [0..<length bs] = bs" if "bread h 1 st s = Ok b t" for b t
  proof -
    have "log_at t st bs" using log_at_cong[OF bread_more[OF that]] s(2) by blast
    then show ?thesis using log_at_blocks[of t st bs] by (metis log_at_def nat_int)
  qed
  then have "write_head h s = bnd (bread h 1 st s) (\<lambda>b s.
       bnd (bwrite h b (set_data b (head_block (int (length bs)) bs (b_data (bufs s b))) s)) (\<lambda>_ s. brelse h b s))"
    unfolding write_head_def e by (intro bnd_cong refl) simp
  then show ?thesis using bcache.modify_block[OF s(1) r, of "head_block (int (length bs)) bs"] by auto
qed

lemma read_head_ok:
  assumes s: "bstate h s c" "log_dev s = 1" "log_start s = st" and r: "c_ready st c"
    and n: "sint (ld32 (c_view c st) 0) = int (length bs)" "length bs \<le> LOGBLOCKS"
      "\<And>i. i < length bs \<Longrightarrow> ld32 (c_view c st) (4 + 4 * i) = bs ! i"
  shows "\<exists>t. read_head h s = Ok () t \<and> bstate h t c \<and> log_at t st bs"
proof -
  obtain b t where t: "bread h 1 st s = Ok b t" "bstate h t (c_read st c)" "buf_for t b st" "kbio.more t = kbio.more s"
    using bread_law[OF s(1) r] by blast
  have d: "b_data (bufs t b) = c_view c st" using bcache.get_ok[OF t(2,3)] by (simp add: c_read_def)
  let ?u = "t\<lparr>lh_n := int (length bs), lh_block := (\<lambda>i. if i < length bs then ld32 (c_view c st) (4 + 4 * i) else lh_block t i)\<rparr>"
  have u: "bstate h ?u (c_read st c)" "buf_for ?u b st" using t(2,3) by (simp_all add: buf_for_def)
  have "c_refs c st = 0 \<Longrightarrow> c_view c st = c_disk c st" by (rule bstate_clean[OF s(1)])
  then obtain v where v: "brelse h b ?u = Ok () v" "bstate h v (c_release st (c_read st c))" "kbio.more v = kbio.more ?u"
    using release_law[OF u] by (auto simp: c_read_def)
  have "c_release st (c_read st c) = c" using r by (simp add: cache_defs)
  moreover have "log_at v st bs"
    using log_at_cong[OF v(3)] log_fields[OF t(4)] s(2,3) n(3) by (simp add: log_at_def)
  moreover have "read_head h s = Ok () v" using t(1) d n(1,2) v(1) s(2,3) by (simp add: read_head_def Let_def cong: if_cong)
  ultimately show ?thesis using v(2) by auto
qed

text \<open>The whole recovery, from a disk whose header lists \<open>bs\<close>.\<close>

lemma recover_ok:
  assumes s: "bstate h s (fresh_cache D)" "log_dev s = 1" "log_start s = st" and g: "log_geom st bs"
    and n: "sint (ld32 (D st) 0) = int (length bs)" "\<And>i. i < length bs \<Longrightarrow> ld32 (D st) (4 + 4 * i) = bs ! i"
  shows "\<exists>t d. recover_from_log h s = Ok () t \<and> disk t = (apply_writes (home_writes st bs D) D)(st := d)"
proof -
  have r: "c_ready st (fresh_cache D)" using NBUF_ge by (simp add: c_ready_def fresh_cache_def)
  obtain t1 where t1: "read_head h s = Ok () t1" "bstate h t1 (fresh_cache D)" "log_at t1 st bs"
    using read_head_ok[OF s r, of bs] n g by (auto simp: fresh_cache_def log_geom_def)
  obtain t2 where t2: "install_trans h True t1 = Ok () t2" "kbio.more t2 = kbio.more t1"
      "bstate h t2 (c_stores (home_writes st bs D) (fresh_cache D))"
    using install_recover_ok[OF t1(2,3) g] by (auto simp: fresh_cache_def)
  let ?c = "c_stores (home_writes st bs D) (fresh_cache D)"
  have la: "log_at (t2\<lparr>lh_n := 0\<rparr>) st []" using log_at_empty log_at_cong[OF t2(2)] t1(3) by blast
  have r2: "c_ready st ?c" using NBUF_ge by (simp add: c_ready_def fresh_cache_def)
  obtain t3 where "write_head h (t2\<lparr>lh_n := 0\<rparr>) = Ok () t3" "bstate h t3 (c_store st (head_block 0 [] (c_view ?c st)) ?c)"
    using write_head_ok[OF _ la r2] t2(3) by auto
  moreover then have "disk t3 = (apply_writes (home_writes st bs D) D)(st := head_block 0 [] (c_view ?c st))"
    by (simp add: bstate_def c_store_def fresh_cache_def)
  ultimately show ?thesis using t1(1) t2(1) by (auto simp: recover_from_log_def)
qed


section \<open>Commit\<close>

text \<open>The writes of a commit, in order: log blocks, header, home blocks, empty header.\<close>

definition commit_writes :: "u32 \<Rightarrow> u32 list \<Rightarrow> (u32 \<Rightarrow> block) \<Rightarrow> (u32 \<times> block) list" where
  "commit_writes st bs V =
     log_writes st bs V @ [(st, head_block (int (length bs)) bs (V st))] @ map (\<lambda>b. (b, V b)) bs @
     [(st, head_block 0 [] (head_block (int (length bs)) bs (V st)))]"

lemma start_miss:
  assumes "log_geom st bs"
  shows "st \<notin> fst ` set (log_writes st bs V)" "st \<notin> set bs"
proof -
  have "\<forall>i<length bs. st \<noteq> lblk st i" using lblk_start[OF assms] assms by (metis log_geom_def less_le_trans)
  then show "st \<notin> fst ` set (log_writes st bs V)" by (auto simp: log_writes_def)
  show "st \<notin> set bs" using assms by (auto simp: log_geom_def log_area_def)
qed

lemma log_writes_view:
  assumes g: "log_geom st bs" and i: "i < length bs"
  shows "apply_writes (log_writes st bs V) D (lblk st i) = V (bs ! i)"
proof -
  have "inj_on (lblk st) (set [0..<length bs])"
    using lblk_eq[OF g] g by (auto simp: inj_on_def log_geom_def)
  then have "distinct (map fst (log_writes st bs V))" by (simp add: log_writes_def comp_def distinct_map)
  then show ?thesis using apply_writes_nth[of "log_writes st bs V" i D] i by (simp add: log_writes_def)
qed

lemma home_writes_logged:
  assumes "\<And>i. i < length bs \<Longrightarrow> D (lblk st i) = V (bs ! i)"
  shows "home_writes st bs D = map (\<lambda>b. (b, V b)) bs"
  using assms by (intro nth_equalityI) (simp_all add: home_writes_def)

lemma commit_ok:
  assumes s: "bstate h s c" "log_at s st bs" and g: "log_geom st bs" and p: "log_pinned c bs" and ne: "bs \<noteq> []"
    and r: "c_refs c st = 0"
  shows "\<exists>t. commit h s = Ok () t \<and>
     bstate h t (c_unpins (set bs) (c_stores (commit_writes st bs (c_view c)) c)) \<and> log_at t st []"
proof -
  let ?V = "c_view c" and ?n = "int (length bs)"
  let ?c1 = "c_stores (log_writes st bs ?V) c"
  let ?H = "head_block ?n bs (?V st)"
  let ?c2 = "c_stores [(st, ?H)] ?c1"
  let ?c3 = "c_unpins (set bs) (c_stores (map (\<lambda>b. (b, ?V b)) bs) ?c2)"
  obtain t1 where t1: "write_log h s = Ok () t1" "bstate h t1 ?c1" "kbio.more t1 = kbio.more s"
    using write_log_ok[OF s g p] by blast
  have v1: "c_view ?c1 st = ?V st" using start_miss(1)[OF g] by simp
  have l1: "log_at t1 st bs" using log_at_cong[OF t1(3)] s(2) by blast
  have r1: "c_ready st ?c1" using p by (simp add: c_ready_def log_pinned_def)
  obtain t2 where t2: "write_head h t1 = Ok () t2" "bstate h t2 ?c2" "kbio.more t2 = kbio.more t1"
    using write_head_ok[OF t1(2) l1 r1] unfolding v1 c_store_stores by blast
  have l2: "log_at t2 st bs" using log_at_cong[OF t2(3)] l1 by blast
  have "c_view ?c2 (lblk st i) = ?V (bs ! i)" if "i < length bs" for i
  proof -
    have "lblk st i \<noteq> st" using lblk_start[OF g] g that by (simp add: log_geom_def)
    then show ?thesis using log_writes_view[OF g that] by simp
  qed
  then have hw: "home_writes st bs (c_view ?c2) = map (\<lambda>b. (b, ?V b)) bs" by (rule home_writes_logged)
  have "log_pinned ?c2 bs" using p by (simp add: log_pinned_def)
  from install_trans_ok[OF t2(2) l2 g this, unfolded hw]
  obtain t3 where t3: "install_trans h False t2 = Ok () t3" "bstate h t3 ?c3" "kbio.more t3 = kbio.more t2" by blast
  have l3: "log_at (t3\<lparr>lh_n := 0\<rparr>) st []" using log_at_empty log_at_cong[OF t3(3)] l2 by blast
  have v3: "c_view ?c3 st = ?H" using start_miss(2)[OF g] by (simp add: image_image)
  have "card {k. c_refs ?c3 k \<noteq> 0} \<le> card {k. c_refs c k \<noteq> 0}"
    using card_unpins[of "set bs" "c_stores (map (\<lambda>b. (b, ?V b)) bs) ?c2"] by simp
  then have r3: "c_ready st ?c3" using p r by (simp add: c_ready_def log_pinned_def c_unpins_def)
  obtain t4 where t4: "write_head h (t3\<lparr>lh_n := 0\<rparr>) = Ok () t4" "bstate h t4 (c_store st (head_block 0 [] ?H) ?c3)"
      "kbio.more t4 = kbio.more (t3\<lparr>lh_n := 0\<rparr>)"
    using write_head_ok[OF _ l3 r3, unfolded v3] t3(2) by auto
  have "c_store st (head_block 0 [] ?H) ?c3 = c_unpins (set bs) (c_stores (commit_writes st bs ?V) c)"
    unfolding c_store_stores c_unpins_stores commit_writes_def c_stores_append ..
  moreover have "commit h s = Ok () t4"
    using s(2) ne t1(1) t2(1) t3(1) t4(1) by (simp add: commit_def log_at_def)
  ultimately show ?thesis using t4(2) log_at_cong[OF t4(3)] l3 by auto
qed


section \<open>Crash safety\<close>

lemma head_block_count: "ld32 (head_block n bs d) 0 = word_of_int n"
  by (simp add: head_block_def)

lemma head_block_nth: "i < length bs \<Longrightarrow> ld32 (head_block n bs d) (4 + 4 * i) = bs ! i"
  by (simp add: head_block_def ld32_st32s)

lemma sint_count: "n \<le> LOGBLOCKS \<Longrightarrow> sint (word_of_int (int n) :: u32) = int n"
  unfolding int_word_sint by (simp add: param_defs)

lemma apply_self: "apply_writes (map (\<lambda>b. (b, V b)) bs) D k = (if k \<in> set bs then V k else D k)"
  by (induction bs arbitrary: D) auto

text \<open>The disk when the machine stops after \<open>k\<close> of the writes between states \<open>s\<close> and \<open>t\<close>.\<close>

definition crash_disk :: "'a klog_scheme \<Rightarrow> 'a klog_scheme \<Rightarrow> nat \<Rightarrow> u32 \<Rightarrow> block" where
  "crash_disk s t k = apply_writes (take k (drop (length (dtrace s)) (dtrace t))) (disk s)"

text \<open>A transaction ready to be committed: no block is locked, the logged blocks are distinct, lie
  outside the log and are pinned, a buffer is free, no log block is in use, the log on disk is empty,
  and what is not logged is on disk.\<close>

definition log_ready :: "nat \<Rightarrow> 'a klog_scheme \<Rightarrow> u32 list \<Rightarrow> bool" where
  "log_ready h s bs \<longleftrightarrow>
     (\<exists>c. bstate h s c \<and> log_pinned c bs \<and> c_refs c (log_start s) = 0) \<and> log_at s (log_start s) bs \<and>
     log_geom (log_start s) bs \<and> bs \<noteq> [] \<and> ld32 (disk s (log_start s)) 0 = 0 \<and>
     (\<forall>b. b \<notin> set bs \<longrightarrow> b \<notin> log_area (log_start s) \<longrightarrow> bview s b = disk s b)"

lemma initlog_ok:
  assumes r: "bstate h r (fresh_cache D)" and g: "log_geom st bs"
    and n: "sint (ld32 (D st) 0) = int (length bs)" "\<And>i. i < length bs \<Longrightarrow> ld32 (D st) (4 + 4 * i) = bs ! i"
  shows "\<exists>u. initlog h 1 st r = Ok () u \<and> (\<forall>b. b \<noteq> st \<longrightarrow> disk u b = apply_writes (home_writes st bs D) D b)"
proof -
  have "\<exists>u d. recover_from_log h ((initlock LkLog ''log'' r)\<lparr>log_start := st, log_dev := 1\<rparr>) = Ok () u \<and>
      disk u = (apply_writes (home_writes st bs D) D)(st := d)"
    by (rule recover_ok) (use r g n in simp_all)
  then show ?thesis by (auto simp: initlog_def sizeof_logheader_def BSIZE_def param_defs)
qed

lemma recover_old:
  assumes r: "bstate h r (fresh_cache D)" and g: "log_geom st []" and n: "ld32 (D st) 0 = 0"
  shows "\<exists>u. initlog h 1 st r = Ok () u \<and> (\<forall>b. b \<noteq> st \<longrightarrow> disk u b = D b)"
  using initlog_ok[OF r g] n by (simp add: home_writes_def)

lemma recover_new:
  assumes r: "bstate h r (fresh_cache D)" and g: "log_geom st bs" and n: "D st = head_block (int (length bs)) bs d"
    and l: "\<And>i. i < length bs \<Longrightarrow> D (lblk st i) = V (bs ! i)"
  shows "\<exists>u. initlog h 1 st r = Ok () u \<and> (\<forall>b. b \<noteq> st \<longrightarrow> disk u b = (if b \<in> set bs then V b else D b))"
proof -
  have "sint (ld32 (D st) 0) = int (length bs)" using g sint_count[of "length bs"] by (simp add: n head_block_count log_geom_def)
  then show ?thesis using initlog_ok[OF r g] home_writes_logged[of bs D st V, OF l] by (simp add: n head_block_nth apply_self)
qed

lemma take_commit:
  fixes st bs V defines "H \<equiv> head_block (int (length bs)) bs (V st)"
  shows "take k (commit_writes st bs V) =
     (if k \<le> length bs then take k (log_writes st bs V)
      else if k \<le> 2 * length bs + 1 then log_writes st bs V @ (st, H) # take (k - length bs - 1) (map (\<lambda>b. (b, V b)) bs)
      else commit_writes st bs V)"
proof -
  have "length (commit_writes st bs V) = 2 * length bs + 2" by (simp add: commit_writes_def log_writes_def)
  moreover have "k \<le> 2 * length bs + 1 \<Longrightarrow> length bs < k \<Longrightarrow>
      take k (commit_writes st bs V) = log_writes st bs V @ (st, H) # take (k - length bs - 1) (map (\<lambda>b. (b, V b)) bs)"
    by (cases "k - length bs") (auto simp: commit_writes_def H_def log_writes_def)
  ultimately show ?thesis by (auto simp: commit_writes_def log_writes_def)
qed

lemma crash_recovery:
  assumes g: "log_geom st bs" and z: "ld32 (D st) 0 = 0"
    and cl: "\<And>b. b \<notin> set bs \<Longrightarrow> b \<notin> log_area st \<Longrightarrow> V b = D b"
    and r: "bstate h r (fresh_cache (apply_writes (take k (commit_writes st bs V)) D))"
  shows "\<exists>u. initlog h 1 st r = Ok () u \<and>
     (\<forall>b. b \<notin> log_area st \<longrightarrow> disk u b = (if k \<le> length bs then D b else V b))"
proof -
  let ?W = "log_writes st bs V" and ?H = "head_block (int (length bs)) bs (V st)"
  let ?D = "apply_writes (take k (commit_writes st bs V)) D"
  have g0: "log_geom st []" using g by (simp add: log_geom_def)
  have st: "st \<in> log_area st" by (simp add: log_area_def)
  have W: "b \<notin> log_area st \<Longrightarrow> b \<notin> fst ` set ?W" for b using log_writes_area[OF g, of V] by blast
  have area: "b \<in> log_area st \<Longrightarrow> b \<notin> set bs" for b using g by (auto simp: log_geom_def)
  consider "k \<le> length bs" | "length bs < k" "k \<le> 2 * length bs + 1" | "2 * length bs + 1 < k" by linarith
  then show ?thesis
  proof cases
    case 1
    have D: "?D b = D b" if "b \<notin> fst ` set ?W" for b
      using 1 that in_set_takeD[of _ k ?W] by (auto simp: take_commit intro!: apply_writes_other)
    obtain u where "initlog h 1 st r = Ok () u" "\<forall>b. b \<noteq> st \<longrightarrow> disk u b = ?D b"
      using recover_old[OF r g0] D[OF start_miss(1)[OF g]] z by auto
    moreover then have "disk u b = D b" if "b \<notin> log_area st" for b using D[OF W[OF that]] st that by metis
    ultimately show ?thesis using 1 by auto
  next
    case 2
    let ?T = "take (k - length bs - 1) (map (\<lambda>b. (b, V b)) bs)"
    have T: "b \<notin> set bs \<Longrightarrow> b \<notin> fst ` set ?T" for b by (auto dest!: in_set_takeD)
    have D: "?D = apply_writes ?T ((apply_writes ?W D)(st := ?H))" using 2 by (simp add: take_commit)
    have h: "?D st = ?H" using T[OF area[OF st]] unfolding D by simp
    have l: "?D (lblk st i) = V (bs ! i)" if "i < length bs" for i
    proof -
      have "lblk st i \<in> log_area st" "lblk st i \<noteq> st"
        using that g lblk_start[OF g, of i] by (auto simp: log_area_def log_geom_def)
      then show ?thesis using T[OF area] log_writes_view[OF g that] unfolding D by simp
    qed
    have o: "?D b = D b" if "b \<notin> set bs" "b \<notin> log_area st" for b
      using that T[of b] W[of b] st unfolding D by auto
    obtain u where "initlog h 1 st r = Ok () u" "\<forall>b. b \<noteq> st \<longrightarrow> disk u b = (if b \<in> set bs then V b else ?D b)"
      using recover_new[OF r g h l] by blast
    moreover then have "disk u b = V b" if "b \<notin> log_area st" for b using o[OF _ that] cl[OF _ that] st that by metis
    ultimately show ?thesis using 2(1) by auto
  next
    case 3
    then have D: "?D = (apply_writes (map (\<lambda>b. (b, V b)) bs) ((apply_writes ?W D)(st := ?H)))(st := head_block 0 [] ?H)"
      by (simp add: take_commit) (simp add: commit_writes_def)
    have "ld32 (?D st) 0 = 0" unfolding D by (simp add: head_block_count)
    then obtain u where u: "initlog h 1 st r = Ok () u" "\<forall>b. b \<noteq> st \<longrightarrow> disk u b = ?D b"
      using recover_old[OF r g0] by blast
    have "?D b = V b" if "b \<notin> log_area st" for b
      using that W[OF that] st cl[of b] unfolding D by (auto simp: apply_self)
    then have "disk u b = V b" if "b \<notin> log_area st" for b using u(2) st that by metis
    then show ?thesis using u(1) 3 by auto
  qed
qed

text \<open>
  C1. Commit is atomic with respect to crashes: \<open>commit\<close> returns, and if the machine stops after any
  number \<open>k\<close> of its disk writes, then recovery at the next boot returns and the data blocks hold
  either all the old contents (\<open>k\<close> at most the number of logged blocks: the header is not yet written)
  or all the new ones.
\<close>

theorem commit_crash_safe:
  assumes "log_ready h s bs"
  shows "\<exists>t. commit h s = Ok () t \<and>
     (\<forall>k r h'. bstate h' r (fresh_cache (crash_disk s t k)) \<longrightarrow>
       (\<exists>u. initlog h' 1 (log_start s) r = Ok () u \<and>
         (\<forall>b. b \<notin> log_area (log_start s) \<longrightarrow> disk u b = (if k \<le> length bs then disk s b else bview s b))))"
proof -
  let ?st = "log_start s"
  obtain c where c: "bstate h s c" "log_pinned c bs" "c_refs c ?st = 0"
    and a: "log_at s ?st bs" "log_geom ?st bs" "bs \<noteq> []" "ld32 (disk s ?st) 0 = 0"
      "\<And>b. b \<notin> set bs \<Longrightarrow> b \<notin> log_area ?st \<Longrightarrow> bview s b = disk s b"
    using assms unfolding log_ready_def by blast
  obtain t where t: "commit h s = Ok () t" "bstate h t (c_unpins (set bs) (c_stores (commit_writes ?st bs (c_view c)) c))"
    using commit_ok[OF c(1) a(1,2) c(2) a(3) c(3)] by blast
  have v: "c_view c = bview s" and "dtrace s = c_trace c" using c(1) by (auto simp: bstate_def)
  then have "crash_disk s t k = apply_writes (take k (commit_writes ?st bs (bview s))) (disk s)" for k
    using t(2) by (simp add: crash_disk_def bstate_def)
  note cd = this
  show ?thesis
    by (intro exI[of _ t] conjI allI impI t(1))
      (rule crash_recovery[of ?st bs "disk s" "bview s", OF a(2,4,5)], simp_all add: cd)
qed


text \<open>A machine that starts with the disk \<open>D\<close>, and one in which block 40 has been changed and logged.\<close>

definition log_boot :: "(u32 \<Rightarrow> block) \<Rightarrow> klog" where
  "log_boot D = binit (kbio.extend (bio_boot\<lparr>disk := D\<rparr>) (klog.fields 2 0 False 1 1 (\<lambda>_. 40)))"

definition log_sample :: klog where
  "log_sample = upd_buf 0 (\<lambda>x. x\<lparr>b_valid := True, b_dev := 1, b_blockno := 40, b_refcnt := 1, b_data := (\<lambda>_. 7)\<rparr>)
     (log_boot (\<lambda>_ _. 0))"

lemma log_boot_fresh: "bstate 0 (log_boot D) (fresh_cache D)"
  using binit_fresh[of "kbio.extend (bio_boot\<lparr>disk := D\<rparr>) (klog.fields 2 0 False 1 1 (\<lambda>_. 40))" 0 0]
  by (simp add: log_boot_def bio_boot_def kbio.defs klog.defs bss_bufs_def myproc_def param_defs)

lemma log_boot_fields:
  "log_start (log_boot D) = 2" "log_dev (log_boot D) = 1" "lh_n (log_boot D) = 1" "lh_block (log_boot D) = (\<lambda>_. 40)"
  "i < NBUF \<Longrightarrow> b_dev (bufs (log_boot D) i) = 0" "i < NBUF \<Longrightarrow> b_refcnt (bufs (log_boot D) i) = 0" "disk (log_boot D) = D"
proof -
  let ?s = "kbio.extend (bio_boot\<lparr>disk := D\<rparr>) (klog.fields 2 0 False 1 1 (\<lambda>_. 40))"
  have "kbio.more (log_boot D) = kbio.more ?s" by (simp add: log_boot_def binit_frame)
  from log_fields[OF this] show "log_start (log_boot D) = 2" "log_dev (log_boot D) = 1" "lh_n (log_boot D) = 1"
      "lh_block (log_boot D) = (\<lambda>_. 40)"
    by (simp_all add: kbio.defs klog.defs)
  show "i < NBUF \<Longrightarrow> b_dev (bufs (log_boot D) i) = 0" "i < NBUF \<Longrightarrow> b_refcnt (bufs (log_boot D) i) = 0"
    using strip_fields[OF binit_frame(1)[of ?s i]] by (simp_all add: log_boot_def kbio.defs bio_boot_def)
  show "disk (log_boot D) = D" by (simp add: log_boot_def binit_frame kbio.defs)
qed

lemma log_sample_state:
  "bstate 0 log_sample \<lparr>c_view = (\<lambda>_ _. 0)(40 := \<lambda>_. 7), c_disk = (\<lambda>_ _. 0), c_refs = (\<lambda>_. 0)(40 := 1), c_held = {},
     c_trace = []\<rparr>"
proof -
  let ?s = "log_boot (\<lambda>_ _. 0)"
  let ?f = "\<lambda>x :: buf. x\<lparr>b_valid := True, b_dev := 1, b_blockno := 40, b_refcnt := 1, b_data := (\<lambda>_. 7)\<rparr>"
  have f: "bstate 0 ?s (fresh_cache (\<lambda>_ _. 0))" by (rule log_boot_fresh)
  obtain xs p where p: "bcache_inv ?s xs" "myproc 0 ?s = Some p" "p < length (proc ?s)" "bview ?s = (\<lambda>_ _. 0)"
      "disk ?s = (\<lambda>_ _. 0)" "dtrace ?s = []"
    using f by (rule bstate_parts) (simp add: fresh_cache_def)
  have n: "\<And>i. i < NBUF \<Longrightarrow> b_dev (bufs ?s i) = 0" "\<And>i. i < NBUF \<Longrightarrow> b_refcnt (bufs ?s i) = 0"
    using log_boot_fields by auto
  have N: "0 < NBUF" using NBUF_ge by simp
  have b: "bufs log_sample i = (if i = 0 then ?f (bufs ?s 0) else bufs ?s i)" for i by (simp add: log_sample_def)
  have fr: "disk log_sample = disk ?s" "slocks log_sample = slocks ?s" "proc log_sample = proc ?s" "cpus log_sample = cpus ?s"
    "dtrace log_sample = dtrace ?s" by (simp_all add: log_sample_def)
  have inv: "bcache_inv log_sample xs" "\<And>k. bview log_sample k = (if k = 40 then (\<lambda>_. 7) else bview ?s k)"
    using bcache_hold[OF p(1) N b fr(1), of 40] fr(2) n N by auto
  have "brefs log_sample k = ((\<lambda>_. 0)(40 := 1)) k" for k
  proof (cases "k = 40")
    case True
    then show ?thesis using brefs_cached[OF inv(1) N] b[of 0] by simp
  next
    case False
    have "b_blockno (bufs log_sample i) \<noteq> k" if "i < NBUF" "b_dev (bufs log_sample i) = 1" for i
      using b[of i] n(1)[OF that(1)] that(2) False by (cases "i = 0") auto
    then show ?thesis using brefs_uncached[of log_sample k] False by simp
  qed
  moreover have "\<not> sl_locked (slocks ?s (SlBuf i))" if "i < NBUF" for i using f that by (auto simp: bstate_def fresh_cache_def)
  ultimately show ?thesis using inv p fr unfolding bstate_def by (auto simp: myproc_def)
qed

lemma log_sample_ready: "log_ready 0 log_sample [40]"
proof -
  let ?c = "\<lparr>c_view = (\<lambda>_ _. 0)(40 := \<lambda>_. 7), c_disk = (\<lambda>_ _. 0), c_refs = (\<lambda>_. 0)(40 := 1), c_held = {}, c_trace = []\<rparr>"
  have c: "bview log_sample = c_view ?c" "disk log_sample = c_disk ?c"
    using log_sample_state unfolding bstate_def by blast+
  have st: "log_start log_sample = 2" "log_at log_sample 2 [40]"
    using log_fields[of log_sample "log_boot (\<lambda>_ _. 0)"] log_boot_fields[where D = "\<lambda>_ _. 0"]
    by (simp_all add: log_sample_def log_at_def)
  have "log_pinned ?c [40]" using NBUF_ge by (simp add: log_pinned_def)
  moreover have "log_geom 2 [40]"
  proof -
    have g: "log_geom 2 []" by (simp add: log_geom_def param_defs)
    have "(40::u32) \<noteq> lblk 2 i" if "i < LOGBLOCKS" for i
    proof -
      have "unat (lblk 2 i) = 3 + i" using unat_lblk[OF g that] by simp
      then have "unat (lblk 2 i) \<noteq> unat (40::u32)" using that by (simp add: param_defs)
      then show ?thesis by metis
    qed
    then show ?thesis by (auto simp: log_geom_def log_area_def param_defs)
  qed
  moreover have "ld32 (\<lambda>_. 0) 0 = 0" by (simp add: ld32_def)
  ultimately show ?thesis
    unfolding log_ready_def st(1) c using log_sample_state st(2) by (intro conjI exI[of _ ?c]) auto
qed

theorem commit_crash_safe_witness:
  "\<exists>t. commit 0 log_sample = Ok () t \<and>
     (\<exists>u. initlog 0 1 2 (log_boot (crash_disk log_sample t 1)) = Ok () u \<and> disk u 40 = (\<lambda>_. 0)) \<and>
     (\<exists>u. initlog 0 1 2 (log_boot (crash_disk log_sample t 2)) = Ok () u \<and> disk u 40 = (\<lambda>_. 7))"
proof -
  have g: "40 \<notin> log_area (log_start log_sample)" and st: "log_start log_sample = 2"
    and d: "disk log_sample 40 = (\<lambda>_. 0)" "bview log_sample 40 = (\<lambda>_. 7)"
    using log_sample_ready log_sample_state log_fields[of log_sample "log_boot (\<lambda>_ _. 0)"] log_boot_fields[where D = "\<lambda>_ _. 0"]
    by (auto simp: log_ready_def log_geom_def bstate_def log_sample_def)
  obtain t where t: "commit 0 log_sample = Ok () t" "\<And>k (r :: klog) h'. bstate h' r (fresh_cache (crash_disk log_sample t k)) \<Longrightarrow>
       (\<exists>u. initlog h' 1 (log_start log_sample) r = Ok () u \<and>
         (\<forall>b. b \<notin> log_area (log_start log_sample) \<longrightarrow>
            disk u b = (if k \<le> length [40::u32] then disk log_sample b else bview log_sample b)))"
    using commit_crash_safe[OF log_sample_ready] by blast
  show ?thesis using t(1) t(2)[OF log_boot_fresh, of 1] t(2)[OF log_boot_fresh, of 2] g st d by auto
qed

end
