(* ===== verification/LogSpace.thy ===== *)
theory LogSpace
  imports Log
begin

text \<open>
  Space in the log: the reservation that \<^verbatim>\<open>begin_op\<close> makes is enough for every file-system call that
  logs at most \<^verbatim>\<open>MAXOPBLOCKS\<close> blocks, in every interleaving of calls; and what happens when the whole
  log is used.
\<close>

section \<open>The log fields under commit\<close>

lemma write_log_one_more: "write_log_one h i s = Ok () t \<Longrightarrow> kbio.more t = kbio.more s"
  by (auto simp: write_log_one_def bnd_Ok_iff dest!: bread_more bwrite_more brelse_more)

lemma install_one_more: "install_one h r i s = Ok () t \<Longrightarrow> kbio.more t = kbio.more s"
  by (auto simp: install_one_def bnd_Ok_iff Let_def dest!: bread_more bwrite_more brelse_more split: if_splits)

lemma write_head_more: "write_head h s = Ok () t \<Longrightarrow> kbio.more t = kbio.more s"
  by (auto simp: write_head_def bnd_Ok_iff dest!: bread_more bwrite_more brelse_more)

lemma write_log_more: "write_log h s = Ok () t \<Longrightarrow> kbio.more t = kbio.more s"
  unfolding write_log_def by (rule mfor_keeps[where F = kbio.more]) (rule write_log_one_more)

lemma install_trans_more: "install_trans h r s = Ok () t \<Longrightarrow> kbio.more t = kbio.more s"
  unfolding install_trans_def by (rule mfor_keeps[where F = kbio.more]) (rule install_one_more)

lemma commit_fields:
  assumes "commit h s = Ok () t"
  shows "outstanding t = outstanding s" "committing t = committing s" "lh_n t = min 0 (lh_n s)"
proof -
  have "outstanding t = outstanding s \<and> committing t = committing s \<and> lh_n t = min 0 (lh_n s)"
  proof (cases "lh_n s > 0")
    case True
    then obtain a b c where "write_log h s = Ok () a" "write_head h a = Ok () b" "install_trans h False b = Ok () c"
        "write_head h (c\<lparr>lh_n := 0\<rparr>) = Ok () t"
      using assms by (auto simp: commit_def bnd_Ok_iff)
    then show ?thesis
      using True log_fields[OF write_log_more, of h s a] log_fields[OF write_head_more, of h a b]
        log_fields[OF install_trans_more, of h False b c] log_fields[OF write_head_more, of h "c\<lparr>lh_n := 0\<rparr>" t] by simp
  next
    case False
    then show ?thesis using assms by (auto simp: commit_def)
  qed
  then show "outstanding t = outstanding s" "committing t = committing s" "lh_n t = min 0 (lh_n s)" by auto
qed

section \<open>Interleavings of file-system calls\<close>

text \<open>The state is the kernel together with, for each call in progress, the number of blocks it may
  still log. A call may end at any time; other kernel activity does not touch the log.\<close>

inductive log_step :: "nat \<Rightarrow> 'a klog_scheme \<times> nat list \<Rightarrow> 'a klog_scheme \<times> nat list \<Rightarrow> bool" for h where
  Begin: "begin_op s = Ok () t \<Longrightarrow> log_step h (s, rs) (t, rs @ [MAXOPBLOCKS])"
| Write: "i < length rs \<Longrightarrow> 0 < rs ! i \<Longrightarrow> log_write b s = Ok () t \<Longrightarrow> log_step h (s, rs) (t, rs[i := rs ! i - 1])"
| End: "end_op h s = Ok () t \<Longrightarrow> log_step h (s, xs @ r # ys) (t, xs @ ys)"
| Other: "kbio.more t = kbio.more s \<Longrightarrow> log_step h (s, rs) (t, rs)"

definition log_space :: "'a klog_scheme \<Rightarrow> nat list \<Rightarrow> bool" where
  "log_space s rs \<longleftrightarrow> \<not> committing s \<and> outstanding s = int (length rs) \<and> length rs \<le> 3 \<and> (\<forall>r\<in>set rs. r \<le> MAXOPBLOCKS) \<and>
     0 \<le> lh_n s \<and> lh_n s + int (sum_list rs) \<le> int LOGBLOCKS"

lemma wakeup_log [simp]:
  "committing (wakeup h c s) = committing s" "outstanding (wakeup h c s) = outstanding s" "lh_n (wakeup h c s) = lh_n s"
  by (simp_all add: wakeup_def)

lemma sum_list_le: "\<forall>r\<in>set rs. r \<le> (m :: nat) \<Longrightarrow> sum_list rs \<le> m * length rs"
  by (induction rs) auto

lemma log_write_space:
  assumes "log_space s rs" and "i < length rs" and "0 < rs ! i"
  shows "\<exists>t. log_write b s = Ok () t \<and> log_space t (rs[i := rs ! i - 1])"
proof -
  let ?rs = "rs[i := rs ! i - 1]"
  have sum: "sum_list ?rs + 1 = sum_list rs"
    using assms(2,3) sum_list_update[of i rs "rs ! i - 1"] member_le_sum_list[of "rs ! i" rs] by simp
  then have lt: "lh_n s < int LOGBLOCKS" "1 \<le> outstanding s"
    using assms unfolding log_space_def by linarith+
  have mem: "\<forall>r\<in>set ?rs. r \<le> MAXOPBLOCKS"
    using assms nth_mem[OF assms(2)] by (intro list_update_Ball) (auto simp: log_space_def intro: le_trans[OF diff_le_self])
  have "kbio.more (bpin b s) = kbio.more s" for b :: nat and s :: "'a klog_scheme" by simp
  from log_fields[OF this] have p: "committing (bpin b s) = committing s" "outstanding (bpin b s) = outstanding s" for b and s :: "'a klog_scheme"
    by auto
  show ?thesis
    using assms(1) sum lt mem list.size(3)[where 'a = nat] assms(2) by (auto simp: log_write_def Let_def log_space_def p)
qed

lemma begin_op_space:
  assumes "log_space s rs" and "begin_op s = Ok () t"
  shows "log_space t (rs @ [MAXOPBLOCKS])"
proof -
  let ?k = "lh_n s + (outstanding s + 1) * int MAXOPBLOCKS"
  have r: "0 \<le> lh_n s" "lh_n s \<le> 30" "outstanding s = int (length rs)" "length rs \<le> 3"
    using assms(1) by (auto simp: log_space_def param_defs)
  then have "i32 ?k = ?k" by (simp add: param_defs)
  then have t: "t = s\<lparr>outstanding := i32 (outstanding s + 1)\<rparr>" "?k \<le> 30"
    using assms(2) by (auto simp: begin_op_def param_defs split: if_splits)
  have "int (sum_list rs) \<le> 10 * outstanding s"
    using sum_list_le[of rs MAXOPBLOCKS] assms(1) r(3) by (simp add: log_space_def param_defs)
  then show ?thesis using assms(1) t r by (auto simp: log_space_def param_defs)
qed

lemma end_op_space:
  assumes "log_space s (xs @ r # ys)" and "end_op h s = Ok () t"
  shows "log_space t (xs @ ys)"
proof -
  let ?s = "s\<lparr>outstanding := i32 (outstanding s - 1)\<rparr>"
  have o: "i32 (outstanding s - 1) = int (length (xs @ ys))" using assms(1) by (simp add: log_space_def)
  show ?thesis
  proof (cases "xs @ ys = []")
    case True
    then obtain u where u: "commit h (?s\<lparr>committing := True\<rparr>) = Ok () u" "t = wakeup h ChanLog (u\<lparr>committing := False\<rparr>)"
      using assms o by (auto simp: end_op_def log_space_def Let_def bnd_Ok_iff)
    then show ?thesis using assms(1) True o commit_fields[OF u(1)] by (simp add: log_space_def)
  next
    case False
    then have "int (length (xs @ ys)) \<noteq> 0" by (metis length_0_conv of_nat_eq_0_iff)
    then have "t = wakeup h ChanLog ?s" using assms o by (simp add: end_op_def log_space_def Let_def)
    then show ?thesis using assms(1) o by (simp add: log_space_def)
  qed
qed

lemma log_step_space: "log_step h x y \<Longrightarrow> log_space (fst x) (snd x) \<Longrightarrow> log_space (fst y) (snd y)"
proof (induction rule: log_step.induct)
  case (Write i rs b s t)
  then show ?case using log_write_space[of s rs i b] by auto
next
  case (Other t s rs)
  then show ?case using log_fields[of t s] by (simp add: log_space_def)
qed (auto intro: begin_op_space end_op_space)

lemma log_reach_space: "(log_step h)\<^sup>*\<^sup>* x y \<Longrightarrow> log_space (fst x) (snd x) \<Longrightarrow> log_space (fst y) (snd y)"
  by (induction rule: rtranclp_induct) (auto intro: log_step_space)

text \<open>
  C10. Reservation suffices: however file-system calls interleave, as long as each logs at most
  \<open>MAXOPBLOCKS\<close> blocks, \<open>log_write\<close> finds room (it never panics with "too big a transaction" or
  "outside of trans"), the log never holds more than \<open>LOGBLOCKS\<close> blocks, and no commit is in progress while a
  call is (the check of \<open>end_op\<close>).
\<close>

theorem log_never_overflows:
  assumes "(log_step h)\<^sup>*\<^sup>* (s0, []) (s, rs)" and "\<not> committing s0" and "outstanding s0 = 0" and "lh_n s0 = 0"
    and "i < length rs" and "0 < rs ! i"
  shows "(\<exists>t. log_write b s = Ok () t) \<and> lh_n s < int LOGBLOCKS \<and> \<not> committing s"
proof -
  have sp: "log_space s rs"
    using log_reach_space[OF assms(1)] assms(2-4) by (simp add: log_space_def)
  obtain t where t: "log_write b s = Ok () t" using log_write_space[OF sp assms(5,6)] by blast
  then have "lh_n s < int LOGBLOCKS" by (auto simp: log_write_def split: if_splits)
  moreover have "\<not> committing s" using sp by (simp add: log_space_def)
  ultimately show ?thesis using t by blast
qed


lemma log_boot_outstanding: "outstanding (log_boot D) = 0" "committing (log_boot D) = False"
proof -
  let ?s = "kbio.extend (bio_boot\<lparr>disk := D\<rparr>) (klog.fields 2 0 False 1 1 (\<lambda>_. 40))"
  have "kbio.more (log_boot D) = kbio.more ?s" by (simp add: log_boot_def binit_frame)
  from log_fields[OF this] show "outstanding (log_boot D) = 0" "committing (log_boot D) = False"
    by (simp_all add: kbio.defs klog.defs)
qed

theorem log_never_overflows_witness:
  "\<exists>s t. (log_step 0)\<^sup>*\<^sup>* ((log_boot (\<lambda>_ _. 0))\<lparr>lh_n := 0\<rparr>, []) (s, [MAXOPBLOCKS]) \<and> log_write 0 s = Ok () t"
proof -
  let ?init = "(log_boot (\<lambda>_ _. 0))\<lparr>lh_n := 0\<rparr>"
  let ?s = "?init\<lparr>outstanding := 1\<rparr>"
  have f: "\<not> committing ?init" "outstanding ?init = 0" "lh_n ?init = 0" by (simp_all add: log_boot_outstanding)
  then have "begin_op ?init = Ok () ?s" by (simp add: begin_op_def param_defs)
  then have "log_step 0 (?init, []) (?s, [] @ [MAXOPBLOCKS])" by (rule Begin)
  then have "(log_step 0)\<^sup>*\<^sup>* (?init, []) (?s, [MAXOPBLOCKS])" by auto
  then show ?thesis using log_never_overflows[OF _ f, of 0 ?s "[MAXOPBLOCKS]" 0] by (auto simp: param_defs)
qed

section \<open>A full log\<close>

lemma bread_no_buffers:
  assumes inv: "bcache_inv s xs" and r: "\<And>i. i < NBUF \<Longrightarrow> b_refcnt (bufs s i) \<noteq> 0 \<and> b_blockno (bufs s i) \<noteq> n"
  shows "bread h 1 n s = Panic ''bget: no buffers''"
proof -
  have xs: "blist s xs" "set xs = {..<NBUF}" using inv by (auto simp: bcache_inv_def)
  have len: "length xs < Suc NBUF" using xs distinct_card[of xs] by (simp add: blist_def)
  have "bfind (Suc NBUF) 1 n (bnext s bhead) s = Some (find (\<lambda>b. b_dev (bufs s b) = 1 \<and> b_blockno (bufs s b) = n) xs)"
    by (rule bfind_list[OF _ _ len]) (use xs in \<open>auto simp: blist_def\<close>)
  moreover have "find (\<lambda>b. b_dev (bufs s b) = 1 \<and> b_blockno (bufs s b) = n) xs = None"
    using r xs(2) unfolding find_None_iff by auto
  moreover have "brecycle (Suc NBUF) (bprev s bhead) s = Some (find (\<lambda>b. b_refcnt (bufs s b) = 0) (rev xs))"
    by (rule brecycle_list[OF _ _ len]) (use xs in \<open>auto simp: blist_def\<close>)
  moreover have "find (\<lambda>b. b_refcnt (bufs s b) = 0) (rev xs) = None"
    using r xs(2) unfolding find_None_iff by auto
  ultimately show ?thesis by (simp add: bread_def bget_def)
qed

text \<open>When the transaction pins as many blocks as there are buffers, the buffers hold just those blocks.\<close>

lemma full_cache:
  assumes s: "bcache_inv s xs" and bs: "distinct bs" "length bs = NBUF" "\<And>b. b \<in> set bs \<Longrightarrow> brefs s b \<noteq> 0" and i: "i < NBUF"
  shows "b_refcnt (bufs s i) \<noteq> 0 \<and> b_blockno (bufs s i) \<in> set bs"
proof -
  let ?B = "{j. j < NBUF \<and> b_dev (bufs s j) = 1 \<and> b_refcnt (bufs s j) \<noteq> 0 \<and> b_blockno (bufs s j) \<in> set bs}"
  have "set bs \<subseteq> (\<lambda>j. b_blockno (bufs s j)) ` ?B"
  proof
    fix b assume b: "b \<in> set bs"
    show "b \<in> (\<lambda>j. b_blockno (bufs s j)) ` ?B"
      by (cases rule: brefs_cases[OF s, of b]) (use bs(3)[OF b] b in \<open>auto simp: unat_eq_zero\<close>)
  qed
  then have "card (set bs) \<le> card ?B" by (intro surj_card_le) auto
  moreover have "card (set bs) = NBUF" using distinct_card[OF bs(1)] bs(2) by simp
  ultimately have "?B = {..<NBUF}" by (intro card_seteq) auto
  then show ?thesis using i by blast
qed

text \<open>
  C35. A transaction that fills the log cannot be committed: \<open>NBUF\<close> equals \<open>LOGBLOCKS\<close>, so when all
  \<open>LOGBLOCKS\<close> logged blocks are pinned no buffer is left to write the first log block through, and
  \<open>commit\<close> panics in \<open>bget\<close>.
\<close>

theorem full_log_commit_panics:
  assumes "bcache_inv s xs" and "log_at s st bs" and "log_geom st bs" and "length bs = LOGBLOCKS"
    and "\<forall>b\<in>set bs. brefs s b \<noteq> 0"
  shows "commit h s = Panic ''bget: no buffers''"
proof -
  have N: "length bs = NBUF" "0 < length bs" using assms(4) by (simp_all add: param_defs)
  have "b_refcnt (bufs s i) \<noteq> 0 \<and> b_blockno (bufs s i) \<noteq> lblk st 0" if "i < NBUF" for i
  proof -
    have "b_refcnt (bufs s i) \<noteq> 0 \<and> b_blockno (bufs s i) \<in> set bs"
      using full_cache[OF assms(1) _ N(1) _ that] assms(3,5) by (simp add: log_geom_def)
    moreover have "lblk st 0 \<in> log_area st" using assms(4) N(2) by (simp add: log_area_def)
    ultimately show ?thesis using assms(3) by (auto simp: log_geom_def)
  qed
  then have "bread h 1 (lblk st 0) s = Panic ''bget: no buffers''" by (intro bread_no_buffers[OF assms(1)])
  then have "write_log_one h 0 s = Panic ''bget: no buffers''" using write_log_one_eq[OF assms(2) N(2)] by simp
  moreover have "[0..<nat (lh_n s)] = 0 # [1..<nat (lh_n s)]" "lh_n s > 0"
    using assms(2) N(2) by (auto simp: log_at_def upt_conv_Cons)
  ultimately show ?thesis by (simp add: commit_def write_log_def)
qed

text \<open>All buffers hold a pinned block: 40 to 69.\<close>

definition full_sample :: klog where
  "full_sample = (log_boot (\<lambda>_ _. 0))\<lparr>
     bufs := (\<lambda>i. if i < NBUF then (bufs (log_boot (\<lambda>_ _. 0)) i)\<lparr>b_valid := True, b_dev := 1, b_blockno := 40 + of_nat i,
       b_refcnt := 1, b_data := (\<lambda>_. 0)\<rparr> else bufs (log_boot (\<lambda>_ _. 0)) i),
     lh_n := int LOGBLOCKS, lh_block := (\<lambda>i. 40 + of_nat i)\<rparr>"

definition full_blocks :: "u32 list" where
  "full_blocks = map (\<lambda>i. 40 + of_nat i) [0..<LOGBLOCKS]"

lemma unat_40: "i < 30 \<Longrightarrow> unat (40 + of_nat i :: u32) = 40 + i"
  by (simp add: unat_word_ariths unat_of_nat)

lemma of_nat_eq_30: "i < 30 \<Longrightarrow> j < 30 \<Longrightarrow> (of_nat i :: u32) = of_nat j \<longleftrightarrow> i = j"
  using unat_40 by (metis add_left_cancel)

lemma full_sample_inv: "\<exists>xs. bcache_inv full_sample xs"
proof -
  let ?s = "log_boot (\<lambda>_ _. 0)"
  obtain xs where xs: "bcache_inv ?s xs" using log_boot_fresh by (rule bstate_parts)
  have "bnext full_sample = bnext ?s" "bprev full_sample = bprev ?s" by (auto simp: full_sample_def)
  then have "blist full_sample xs" using xs by (simp add: bcache_inv_def blist_def)
  moreover have "\<not> sl_locked (slocks full_sample (SlBuf i))" if "i < NBUF" for i
    using log_boot_fresh[of "\<lambda>_ _. 0"] that by (auto simp: full_sample_def bstate_def fresh_cache_def)
  ultimately have "bcache_inv full_sample xs"
    using xs of_nat_eq_30 by (auto simp: bcache_inv_def full_sample_def param_defs)
  then show ?thesis by blast
qed

theorem full_log_commit_panics_witness: "commit 0 full_sample = Panic ''bget: no buffers''"
proof -
  obtain xs where xs: "bcache_inv full_sample xs" using full_sample_inv by blast
  have at: "log_at full_sample 2 full_blocks"
    using log_boot_fields[where D = "\<lambda>_ _. 0"] by (simp add: full_sample_def log_at_def full_blocks_def)
  have g: "log_geom 2 full_blocks"
  proof -
    have g0: "log_geom 2 []" by (simp add: log_geom_def param_defs)
    have "(40 + of_nat i :: u32) \<noteq> lblk 2 j" if "i < LOGBLOCKS" "j < LOGBLOCKS" for i j
      using unat_lblk[OF g0 that(2)] unat_40[of i] that
      by (auto simp: param_defs)
    moreover have "(40 + of_nat i :: u32) \<noteq> 2" if "i < LOGBLOCKS" for i
    proof
      assume "(40 + of_nat i :: u32) = 2"
      from arg_cong[OF this, of unat] have "unat (40 + of_nat i :: u32) = unat (2 :: u32)" .
      then show False using unat_40[of i] that by (simp add: param_defs)
    qed
    ultimately show ?thesis
      by (auto simp: log_geom_def full_blocks_def distinct_map inj_on_def of_nat_eq_30 param_defs log_area_def)
  qed
  have "brefs full_sample b \<noteq> 0" if "b \<in> set full_blocks" for b
  proof -
    from that obtain i where i: "i < NBUF" "b = 40 + of_nat i" by (auto simp: full_blocks_def param_defs)
    then show ?thesis using brefs_cached[OF xs i(1)] by (simp add: full_sample_def)
  qed
  then show ?thesis by (intro full_log_commit_panics[OF xs at g]) (simp_all add: full_blocks_def)
qed

end
