(* ===== verification/FsLayout.thy ===== *)
theory FsLayout
  imports Log
begin

text \<open>
  The on-disk layout of the file system (\<^verbatim>\<open>kernel/fs.h\<close>) and the in-memory inode (\<^verbatim>\<open>kernel/file.h\<close>):
  super block, disk inodes and directory entries with their byte encodings, and the macros that
  locate them. Short fields are kept as 16-bit words.
\<close>

abbreviation (input) ROOTINO :: u32 where "ROOTINO \<equiv> 1"
abbreviation (input) FSMAGIC :: u32 where "FSMAGIC \<equiv> 0x10203040"
definition NDIRECT :: nat where "NDIRECT = 12"
definition NINDIRECT :: nat where "NINDIRECT = BSIZE div 4"
definition MAXFILE :: nat where "MAXFILE = NDIRECT + NINDIRECT"
definition DIRSIZ :: nat where "DIRSIZ = 14"

abbreviation (input) T_DIR :: u16 where "T_DIR \<equiv> 1"
abbreviation (input) T_FILE :: u16 where "T_FILE \<equiv> 2"
abbreviation (input) T_DEVICE :: u16 where "T_DEVICE \<equiv> 3"

record superblock =
  sb_magic :: u32
  sb_size :: u32
  sb_nblocks :: u32
  sb_ninodes :: u32
  sb_nlog :: u32
  sb_logstart :: u32
  sb_inodestart :: u32
  sb_bmapstart :: u32

record dinode =
  d_type :: u16
  d_major :: u16
  d_minor :: u16
  d_nlink :: u16
  d_size :: u32
  d_addrs :: "u32 list"

record dirent =
  de_inum :: u16
  de_name :: "byte list"

record inode =
  i_dev :: u32
  i_inum :: u32
  i_ref :: int
  i_valid :: bool
  i_type :: u16
  i_major :: u16
  i_minor :: u16
  i_nlink :: u16
  i_size :: u32
  i_addrs :: "u32 list"

definition sizeof_dinode :: nat where "sizeof_dinode = 4 * 2 + 4 + 4 * (NDIRECT + 1)"
definition sizeof_dirent :: nat where "sizeof_dirent = 2 + DIRSIZ"

definition IPB :: nat where "IPB = BSIZE div sizeof_dinode"
definition BPB :: nat where "BPB = BSIZE * 8"

definition IBLOCK :: "u32 \<Rightarrow> superblock \<Rightarrow> u32" where
  "IBLOCK i sb = i div of_nat IPB + sb_inodestart sb"

definition BBLOCK :: "u32 \<Rightarrow> superblock \<Rightarrow> u32" where
  "BBLOCK b sb = b div of_nat BPB + sb_bmapstart sb"

lemmas fs_consts = BSIZE_def NDIRECT_def NINDIRECT_def MAXFILE_def DIRSIZ_def sizeof_dinode_def sizeof_dirent_def
  IPB_def BPB_def

section \<open>Encodings\<close>

definition get_superblock :: "block \<Rightarrow> superblock" where
  "get_superblock d = \<lparr>sb_magic = ld32 d 0, sb_size = ld32 d 4, sb_nblocks = ld32 d 8, sb_ninodes = ld32 d 12,
     sb_nlog = ld32 d 16, sb_logstart = ld32 d 20, sb_inodestart = ld32 d 24, sb_bmapstart = ld32 d 28\<rparr>"

text \<open>\<^verbatim>\<open>(struct dinode*)bp->data + inum%IPB\<close> as an offset in the block.\<close>

definition dinode_off :: "u32 \<Rightarrow> nat" where
  "dinode_off inum = unat (inum mod of_nat IPB) * sizeof_dinode"

definition get_dinode :: "block \<Rightarrow> nat \<Rightarrow> dinode" where
  "get_dinode d a = \<lparr>d_type = ld16 d a, d_major = ld16 d (a + 2), d_minor = ld16 d (a + 4), d_nlink = ld16 d (a + 6),
     d_size = ld32 d (a + 8), d_addrs = ld32s d (a + 12) (NDIRECT + 1)\<rparr>"

definition put_dinode :: "block \<Rightarrow> nat \<Rightarrow> dinode \<Rightarrow> block" where
  "put_dinode d a v =
     (let d = st16 d a (d_type v); d = st16 d (a + 2) (d_major v); d = st16 d (a + 4) (d_minor v);
          d = st16 d (a + 6) (d_nlink v); d = st32 d (a + 8) (d_size v)
      in st32s d (a + 12) (d_addrs v))"

definition get_dirent :: "byte list \<Rightarrow> dirent" where
  "get_dirent bs = \<lparr>de_inum = ld16 (\<lambda>i. bs ! i) 0, de_name = take DIRSIZ (drop 2 bs)\<rparr>"

definition put_dirent :: "dirent \<Rightarrow> byte list" where
  "put_dirent de = [ucast (de_inum de), ucast (drop_bit 8 (de_inum de))] @ de_name de"

lemma ld16_st32s_other [simp]: "b + 2 \<le> a \<or> a + 4 * length vs \<le> b \<Longrightarrow> ld16 (st32s m a vs) b = ld16 m b"
  by (induction vs arbitrary: m a) auto

lemma st32s_other [simp]: "b < a \<or> a + 4 * length vs \<le> b \<Longrightarrow> st32s m a vs b = m b"
  by (induction vs arbitrary: m a) auto

lemma get_put_dinode: "length (d_addrs v) = NDIRECT + 1 \<Longrightarrow> get_dinode (put_dinode d a v) a = v"
  by (simp add: get_dinode_def put_dinode_def Let_def ld32s_st32s)

text \<open>Neighbouring inodes of the block keep their contents.\<close>

lemma ld32s_cong: "(\<And>i. i < 4 * k \<Longrightarrow> m (a + i) = m' (a + i)) \<Longrightarrow> ld32s m a k = ld32s m' a k"
  unfolding ld32s_def by (intro map_cong refl ld32_cong) (auto simp: add.assoc)

lemma put_dinode_outside:
  "length (d_addrs v) = NDIRECT + 1 \<Longrightarrow> b < a \<or> a + sizeof_dinode \<le> b \<Longrightarrow> put_dinode d a v b = d b"
  by (auto simp: put_dinode_def Let_def fs_consts)

lemma get_put_dinode_other:
  assumes "length (d_addrs v) = NDIRECT + 1" and "b + sizeof_dinode \<le> a \<or> a + sizeof_dinode \<le> b"
  shows "get_dinode (put_dinode d a v) b = get_dinode d b"
proof -
  have o: "put_dinode d a v (b + i) = d (b + i)" if "i < sizeof_dinode" for i
    using put_dinode_outside[OF assms(1), of "b + i" a d] assms(2) that by auto
  have l16: "ld16 (put_dinode d a v) (b + k) = ld16 d (b + k)" if "k + 2 \<le> sizeof_dinode" for k
    by (rule ld16_cong) (use o[of "k + _"] that in \<open>simp add: add.assoc\<close>)
  have l32: "ld32 (put_dinode d a v) (b + k) = ld32 d (b + k)" if "k + 4 \<le> sizeof_dinode" for k
    by (rule ld32_cong) (use o[of "k + _"] that in \<open>simp add: add.assoc\<close>)
  have "ld32s (put_dinode d a v) (b + 12) (NDIRECT + 1) = ld32s d (b + 12) (NDIRECT + 1)"
    by (rule ld32s_cong) (use o[of "12 + _"] in \<open>simp add: add.assoc fs_consts\<close>)
  then show ?thesis using l16[of 0] l16[of 2] l16[of 4] l16[of 6] l32[of 8] by (simp add: get_dinode_def fs_consts)
qed

lemma get_put_dirent: "length (de_name de) = DIRSIZ \<Longrightarrow> get_dirent (put_dirent de) = de"
proof -
  assume l: "length (de_name de) = DIRSIZ"
  have "ld16 (\<lambda>i. put_dirent de ! i) 0 = ld16 (st16 (\<lambda>_. 0) 0 (de_inum de)) 0"
    by (rule ld16_cong) (auto simp: put_dirent_def st16_def less_Suc_eq numeral_2_eq_2)
  then show ?thesis using l by (simp add: get_dirent_def put_dirent_def)
qed

lemma length_put_dirent: "length (de_name de) = DIRSIZ \<Longrightarrow> length (put_dirent de) = sizeof_dirent"
  by (simp add: put_dirent_def sizeof_dirent_def)

lemma dinode_off_disjoint:
  assumes "dinode_off i \<noteq> dinode_off j"
  shows "dinode_off i + sizeof_dinode \<le> dinode_off j \<or> dinode_off j + sizeof_dinode \<le> dinode_off i"
proof -
  have "a \<noteq> b \<Longrightarrow> a * sizeof_dinode + sizeof_dinode \<le> b * sizeof_dinode \<or> b * sizeof_dinode + sizeof_dinode \<le> a * sizeof_dinode"
    for a b :: nat
    by (cases a b rule: linorder_cases)
       (auto simp: mult_Suc[symmetric] add.commute simp del: mult_Suc intro!: mult_le_mono1)
  then show ?thesis using assms by (auto simp: dinode_off_def)
qed



end
