(* ===== verification/Inode.thy ===== *)
theory Inode
  imports FsLayout UserMem
begin

text \<open>
  Blocks and inodes (\<^verbatim>\<open>kernel/fs.c\<close>, first part): the block bitmap, the inode table, and reading and
  writing inode contents. An inode pointer is its index in \<^verbatim>\<open>itable.inode\<close>; pointers of the model are
  never null. Messages printed on the console are not modelled. Sizes and offsets that have passed
  the overflow checks of the code are natural numbers.
\<close>

record kfs = klog +
  sb :: superblock
  itable :: "nat \<Rightarrow> inode"

definition upd_inode :: "nat \<Rightarrow> (inode \<Rightarrow> inode) \<Rightarrow> 'a kfs_scheme \<Rightarrow> 'a kfs_scheme" where
  "upd_inode i f s = s\<lparr>itable := (itable s)(i := f (itable s i))\<rparr>"

section \<open>Where data comes from and goes to\<close>

text \<open>The source or destination of \<^verbatim>\<open>readi\<close> and \<^verbatim>\<open>writei\<close>: a user address, a physical address that the
  kernel uses directly, or a variable of the caller, whose bytes are passed in or handed back.\<close>

datatype kaddr = UserA u64 | PhysA u64 | Local "byte list"

fun advance :: "kaddr \<Rightarrow> nat \<Rightarrow> kaddr" where
  "advance (UserA a) m = UserA (a + of_nat m)"
| "advance (PhysA a) m = PhysA (a + of_nat m)"
| "advance (Local bs) m = Local (drop m bs)"

definition either_copyout :: "nat \<Rightarrow> kaddr \<Rightarrow> (nat \<Rightarrow> byte) \<Rightarrow> nat \<Rightarrow> 'a kvm_scheme \<Rightarrow> (int, 'a kvm_scheme) res" where
  "either_copyout h dst src len s =
     (case myproc h s of
        None \<Rightarrow> Panic ''kerneltrap''
      | Some i \<Rightarrow>
          (case dst of
             UserA a \<Rightarrow> copyout h (p_pagetable (proc s ! i)) a src (of_nat len) s
           | PhysA a \<Rightarrow> Ok 0 (s\<lparr>phys := store_bytes (phys s) (unat a) src len\<rparr>)
           | Local bs \<Rightarrow> Ok 0 s))"

definition either_copyin :: "nat \<Rightarrow> kaddr \<Rightarrow> nat \<Rightarrow> 'a kvm_scheme \<Rightarrow> (int \<times> byte list, 'a kvm_scheme) res" where
  "either_copyin h src len s =
     (case myproc h s of
        None \<Rightarrow> Panic ''kerneltrap''
      | Some i \<Rightarrow>
          (case src of
             UserA a \<Rightarrow> copyin h (p_pagetable (proc s ! i)) a (of_nat len) s
           | PhysA a \<Rightarrow> Ok (0, load_bytes (phys s) (unat a) len) s
           | Local bs \<Rightarrow> Ok (0, take len bs) s))"

section \<open>Super block and free blocks\<close>

definition readsb :: "nat \<Rightarrow> u32 \<Rightarrow> 'a kfs_scheme \<Rightarrow> (unit, 'a kfs_scheme) res" where
  "readsb h dev s =
     bnd (bread h dev 1 s) (\<lambda>bp s.
       let s = s\<lparr>sb := get_superblock (b_data (bufs s bp))\<rparr> in brelse h bp s)"

definition bzero :: "nat \<Rightarrow> u32 \<Rightarrow> u32 \<Rightarrow> 'a kfs_scheme \<Rightarrow> (unit, 'a kfs_scheme) res" where
  "bzero h dev bno s =
     bnd (bread h dev bno s) (\<lambda>bp s.
       let s = set_data bp (memset (b_data (bufs s bp)) 0 0 BSIZE) s in
       bnd (log_write bp s) (\<lambda>_ s. brelse h bp s))"

text \<open>The bitmap: bit \<open>bi\<close> of a bitmap block.\<close>

definition bmask :: "nat \<Rightarrow> byte" where
  "bmask bi = push_bit (bi mod 8) 1"

definition bit_free :: "block \<Rightarrow> nat \<Rightarrow> bool" where
  "bit_free d bi \<longleftrightarrow> d (bi div 8) AND bmask bi = 0"

definition mark_used :: "block \<Rightarrow> nat \<Rightarrow> block" where
  "mark_used d bi = d(bi div 8 := d (bi div 8) OR bmask bi)"

definition mark_free :: "block \<Rightarrow> nat \<Rightarrow> block" where
  "mark_free d bi = d(bi div 8 := d (bi div 8) AND NOT (bmask bi))"

text \<open>The outer loop of \<^verbatim>\<open>balloc\<close> goes from bitmap block to bitmap block, the inner one (\<open>find\<close>) over
  the bits of one.\<close>

function balloc_loop :: "nat \<Rightarrow> u32 \<Rightarrow> nat \<Rightarrow> nat \<Rightarrow> 'a kfs_scheme \<Rightarrow> (u32, 'a kfs_scheme) res" where
  "balloc_loop h dev b sz s =
     (if b < sz then
        bnd (bread h dev (BBLOCK (of_nat b) (sb s)) s) (\<lambda>bp s.
          case find (bit_free (b_data (bufs s bp))) [0..<min BPB (sz - b)] of
            Some bi \<Rightarrow>
              let s = set_data bp (mark_used (b_data (bufs s bp)) bi) s in
              bnd (log_write bp s) (\<lambda>_ s. bnd (brelse h bp s) (\<lambda>_ s.
              bnd (bzero h dev (of_nat (b + bi)) s) (\<lambda>_ s. Ok (of_nat (b + bi)) s)))
          | None \<Rightarrow> bnd (brelse h bp s) (\<lambda>_ s. balloc_loop h dev (b + BPB) sz s))
      else Ok 0 s)"
  by pat_completeness auto
termination
  by (relation "measure (\<lambda>(h, dev, b, sz, s). sz - b)") (auto simp: fs_consts)

declare balloc_loop.simps [simp del]

definition balloc :: "nat \<Rightarrow> u32 \<Rightarrow> 'a kfs_scheme \<Rightarrow> (u32, 'a kfs_scheme) res" where
  "balloc h dev s = balloc_loop h dev 0 (unat (sb_size (sb s))) s"

definition bfree :: "nat \<Rightarrow> u32 \<Rightarrow> u32 \<Rightarrow> 'a kfs_scheme \<Rightarrow> (unit, 'a kfs_scheme) res" where
  "bfree h dev b s =
     bnd (bread h dev (BBLOCK b (sb s)) s) (\<lambda>bp s.
       let bi = unat b mod BPB; d = b_data (bufs s bp) in
       if bit_free d bi then Panic ''freeing free block''
       else bnd (log_write bp (set_data bp (mark_free d bi) s)) (\<lambda>_ s. brelse h bp s))"

section \<open>The inode table\<close>

definition iinit :: "'a kfs_scheme \<Rightarrow> 'a kfs_scheme" where
  "iinit s = fold (\<lambda>i s. initsleeplock (SlInode i) ''inode'' s) [0..<NINODE] (initlock LkItable ''itable'' s)"

definition iget :: "u32 \<Rightarrow> u32 \<Rightarrow> 'a kfs_scheme \<Rightarrow> (nat, 'a kfs_scheme) res" where
  "iget dev inum s =
     (case find (\<lambda>i. i_ref (itable s i) > 0 \<and> i_dev (itable s i) = dev \<and> i_inum (itable s i) = inum) [0..<NINODE] of
        Some i \<Rightarrow> Ok i (upd_inode i (\<lambda>ip. ip\<lparr>i_ref := i32 (i_ref ip + 1)\<rparr>) s)
      | None \<Rightarrow>
          (case find (\<lambda>i. i_ref (itable s i) = 0) [0..<NINODE] of
             None \<Rightarrow> Panic ''iget: no inodes''
           | Some i \<Rightarrow> Ok i (upd_inode i (\<lambda>ip. ip\<lparr>i_dev := dev, i_inum := inum, i_ref := 1, i_valid := False\<rparr>) s)))"

text \<open>The loop of \<^verbatim>\<open>ialloc\<close>; 0 inodes left is the result \<open>None\<close>.\<close>

fun ialloc_loop :: "nat \<Rightarrow> u32 \<Rightarrow> u16 \<Rightarrow> nat list \<Rightarrow> 'a kfs_scheme \<Rightarrow> (nat option, 'a kfs_scheme) res" where
  "ialloc_loop h dev ty [] s = Ok None s"
| "ialloc_loop h dev ty (inum # is) s =
     bnd (bread h dev (IBLOCK (of_nat inum) (sb s)) s) (\<lambda>bp s.
       let d = b_data (bufs s bp); a = dinode_off (of_nat inum) in
       if d_type (get_dinode d a) = 0 then
         let s = set_data bp (st16 (memset d a 0 sizeof_dinode) a ty) s in
         bnd (log_write bp s) (\<lambda>_ s. bnd (brelse h bp s) (\<lambda>_ s.
         bnd (iget dev (of_nat inum) s) (\<lambda>ip s. Ok (Some ip) s)))
       else bnd (brelse h bp s) (\<lambda>_ s. ialloc_loop h dev ty is s))"

definition ialloc :: "nat \<Rightarrow> u32 \<Rightarrow> u16 \<Rightarrow> 'a kfs_scheme \<Rightarrow> (nat option, 'a kfs_scheme) res" where
  "ialloc h dev ty s = ialloc_loop h dev ty [1..<unat (sb_ninodes (sb s))] s"

definition to_dinode :: "inode \<Rightarrow> dinode" where
  "to_dinode ip = \<lparr>d_type = i_type ip, d_major = i_major ip, d_minor = i_minor ip, d_nlink = i_nlink ip,
     d_size = i_size ip, d_addrs = i_addrs ip\<rparr>"

definition iupdate :: "nat \<Rightarrow> nat \<Rightarrow> 'a kfs_scheme \<Rightarrow> (unit, 'a kfs_scheme) res" where
  "iupdate h ip s =
     bnd (bread h (i_dev (itable s ip)) (IBLOCK (i_inum (itable s ip)) (sb s)) s) (\<lambda>bp s.
       let s = set_data bp (put_dinode (b_data (bufs s bp)) (dinode_off (i_inum (itable s ip))) (to_dinode (itable s ip))) s in
       bnd (log_write bp s) (\<lambda>_ s. brelse h bp s))"

definition idup :: "nat \<Rightarrow> 'a kfs_scheme \<Rightarrow> 'a kfs_scheme" where
  "idup ip s = upd_inode ip (\<lambda>x. x\<lparr>i_ref := i32 (i_ref x + 1)\<rparr>) s"

definition from_dinode :: "dinode \<Rightarrow> inode \<Rightarrow> inode" where
  "from_dinode d ip = ip\<lparr>i_type := d_type d, i_major := d_major d, i_minor := d_minor d, i_nlink := d_nlink d,
     i_size := d_size d, i_addrs := d_addrs d\<rparr>"

definition ilock :: "nat \<Rightarrow> nat \<Rightarrow> 'a kfs_scheme \<Rightarrow> (unit, 'a kfs_scheme) res" where
  "ilock h ip s =
     (if i_ref (itable s ip) < 1 then Panic ''ilock''
      else
        bnd (acquiresleep h (SlInode ip) s) (\<lambda>_ s.
          if \<not> i_valid (itable s ip) then
            bnd (bread h (i_dev (itable s ip)) (IBLOCK (i_inum (itable s ip)) (sb s)) s) (\<lambda>bp s.
              let d = get_dinode (b_data (bufs s bp)) (dinode_off (i_inum (itable s ip)));
                  s = upd_inode ip (from_dinode d) s
              in bnd (brelse h bp s) (\<lambda>_ s.
                let s = upd_inode ip (\<lambda>x. x\<lparr>i_valid := True\<rparr>) s in
                if i_type (itable s ip) = 0 then Panic ''ilock: no type'' else Ok () s))
          else Ok () s))"

definition iunlock :: "nat \<Rightarrow> nat \<Rightarrow> 'a kfs_scheme \<Rightarrow> (unit, 'a kfs_scheme) res" where
  "iunlock h ip s =
     bnd (holdingsleep h (SlInode ip) s) (\<lambda>held s.
       if \<not> held \<or> i_ref (itable s ip) < 1 then Panic ''iunlock''
       else Ok () (releasesleep h (SlInode ip) s))"


section \<open>Inode content\<close>

definition bmap :: "nat \<Rightarrow> nat \<Rightarrow> nat \<Rightarrow> 'a kfs_scheme \<Rightarrow> (u32, 'a kfs_scheme) res" where
  "bmap h ip bn s =
     (if bn < NDIRECT then
        let addr = i_addrs (itable s ip) ! bn in
        if addr = 0 then
          bnd (balloc h (i_dev (itable s ip)) s) (\<lambda>addr s.
            if addr = 0 then Ok 0 s
            else Ok addr (upd_inode ip (\<lambda>x. x\<lparr>i_addrs := (i_addrs x)[bn := addr]\<rparr>) s))
        else Ok addr s
      else
        let bn = bn - NDIRECT in
        if bn < NINDIRECT then
          let addr = i_addrs (itable s ip) ! NDIRECT in
          bnd (if addr = 0 then
                 bnd (balloc h (i_dev (itable s ip)) s) (\<lambda>addr s.
                   if addr = 0 then Ok 0 s
                   else Ok addr (upd_inode ip (\<lambda>x. x\<lparr>i_addrs := (i_addrs x)[NDIRECT := addr]\<rparr>) s))
               else Ok addr s) (\<lambda>addr s.
            if addr = 0 then Ok 0 s
            else
              bnd (bread h (i_dev (itable s ip)) addr s) (\<lambda>bp s.
                let addr = ld32 (b_data (bufs s bp)) (4 * bn) in
                bnd (if addr = 0 then
                       bnd (balloc h (i_dev (itable s ip)) s) (\<lambda>addr s.
                         if addr \<noteq> 0 then
                           bnd (log_write bp (set_data bp (st32 (b_data (bufs s bp)) (4 * bn) addr) s)) (\<lambda>_ s. Ok addr s)
                         else Ok addr s)
                     else Ok addr s) (\<lambda>addr s.
                bnd (brelse h bp s) (\<lambda>_ s. Ok addr s))))
        else Panic ''bmap: out of range'')"

abbreviation (input) itrunc_direct :: "nat \<Rightarrow> nat \<Rightarrow> nat \<Rightarrow> 'a kfs_scheme \<Rightarrow> (unit, 'a kfs_scheme) res" where
  "itrunc_direct h ip i s \<equiv>
     (if i_addrs (itable s ip) ! i \<noteq> 0 then
        bnd (bfree h (i_dev (itable s ip)) (i_addrs (itable s ip) ! i) s) (\<lambda>_ s.
          Ok () (upd_inode ip (\<lambda>x. x\<lparr>i_addrs := (i_addrs x)[i := 0]\<rparr>) s))
      else Ok () s)"

abbreviation (input) itrunc_indirect :: "nat \<Rightarrow> nat \<Rightarrow> nat \<Rightarrow> nat \<Rightarrow> 'a kfs_scheme \<Rightarrow> (unit, 'a kfs_scheme) res" where
  "itrunc_indirect h ip bp j s \<equiv>
     (let a = ld32 (b_data (bufs s bp)) (4 * j) in
      if a \<noteq> 0 then bfree h (i_dev (itable s ip)) a s else Ok () s)"

definition itrunc :: "nat \<Rightarrow> nat \<Rightarrow> 'a kfs_scheme \<Rightarrow> (unit, 'a kfs_scheme) res" where
  "itrunc h ip s =
     bnd (mfor (itrunc_direct h ip) [0..<NDIRECT] s) (\<lambda>_ s.
     bnd (if i_addrs (itable s ip) ! NDIRECT \<noteq> 0 then
            bnd (bread h (i_dev (itable s ip)) (i_addrs (itable s ip) ! NDIRECT) s) (\<lambda>bp s.
            bnd (mfor (itrunc_indirect h ip bp) [0..<NINDIRECT] s) (\<lambda>_ s.
            bnd (brelse h bp s) (\<lambda>_ s.
            bnd (bfree h (i_dev (itable s ip)) (i_addrs (itable s ip) ! NDIRECT) s) (\<lambda>_ s.
              Ok () (upd_inode ip (\<lambda>x. x\<lparr>i_addrs := (i_addrs x)[NDIRECT := 0]\<rparr>) s)))))
          else Ok () s) (\<lambda>_ s.
       iupdate h ip (upd_inode ip (\<lambda>x. x\<lparr>i_size := 0\<rparr>) s)))"

definition iput :: "nat \<Rightarrow> nat \<Rightarrow> 'a kfs_scheme \<Rightarrow> (unit, 'a kfs_scheme) res" where
  "iput h ip s =
     (let x = itable s ip in
      bnd (if i_ref x = 1 \<and> i_valid x \<and> i_nlink x = 0 then
             bnd (acquiresleep h (SlInode ip) s) (\<lambda>_ s.
             bnd (itrunc h ip s) (\<lambda>_ s.
             bnd (iupdate h ip (upd_inode ip (\<lambda>x. x\<lparr>i_type := 0\<rparr>) s)) (\<lambda>_ s.
               Ok () (releasesleep h (SlInode ip) (upd_inode ip (\<lambda>x. x\<lparr>i_valid := False\<rparr>) s)))))
           else Ok () s) (\<lambda>_ s.
        Ok () (upd_inode ip (\<lambda>x. x\<lparr>i_ref := i32 (i_ref x - 1)\<rparr>) s)))"

definition iunlockput :: "nat \<Rightarrow> nat \<Rightarrow> 'a kfs_scheme \<Rightarrow> (unit, 'a kfs_scheme) res" where
  "iunlockput h ip s = bnd (iunlock h ip s) (\<lambda>_ s. iput h ip s)"

text \<open>One round of \<^verbatim>\<open>ireclaim\<close>: an inode that is allocated and has no link is released.\<close>

definition ireclaim_one :: "nat \<Rightarrow> u32 \<Rightarrow> nat \<Rightarrow> 'a kfs_scheme \<Rightarrow> (unit, 'a kfs_scheme) res" where
  "ireclaim_one h dev inum s =
     bnd (bread h dev (IBLOCK (of_nat inum) (sb s)) s) (\<lambda>bp s.
       let d = get_dinode (b_data (bufs s bp)) (dinode_off (of_nat inum)) in
       bnd (if d_type d \<noteq> 0 \<and> d_nlink d = 0 then bnd (iget dev (of_nat inum) s) (\<lambda>ip s. Ok (Some ip) s)
            else Ok None s) (\<lambda>ip s.
       bnd (brelse h bp s) (\<lambda>_ s.
         case ip of
           None \<Rightarrow> Ok () s
         | Some ip \<Rightarrow>
             bnd (begin_op s) (\<lambda>_ s. bnd (ilock h ip s) (\<lambda>_ s. bnd (iunlock h ip s) (\<lambda>_ s.
             bnd (iput h ip s) (\<lambda>_ s. end_op h s)))))))"

definition ireclaim :: "nat \<Rightarrow> u32 \<Rightarrow> 'a kfs_scheme \<Rightarrow> (unit, 'a kfs_scheme) res" where
  "ireclaim h dev s = mfor (ireclaim_one h dev) [1..<unat (sb_ninodes (sb s))] s"

definition fsinit :: "nat \<Rightarrow> u32 \<Rightarrow> 'a kfs_scheme \<Rightarrow> (unit, 'a kfs_scheme) res" where
  "fsinit h dev s =
     bnd (readsb h dev s) (\<lambda>_ s.
       if sb_magic (sb s) \<noteq> FSMAGIC then Panic ''invalid file system''
       else bnd (initlog h dev (sb_logstart (sb s)) s) (\<lambda>_ s. ireclaim h dev s))"

record stat =
  st_dev :: u32
  st_ino :: u32
  st_type :: u16
  st_nlink :: u16
  st_size :: u64

definition stati :: "inode \<Rightarrow> stat" where
  "stati ip = \<lparr>st_dev = i_dev ip, st_ino = i_inum ip, st_type = i_type ip, st_nlink = i_nlink ip,
     st_size = ucast (i_size ip)\<rparr>"

text \<open>The part of one block that a transfer of \<open>left\<close> bytes at offset \<open>off\<close> covers.\<close>

definition span :: "nat \<Rightarrow> nat \<Rightarrow> nat" where
  "span off left = min left (BSIZE - off mod BSIZE)"

lemma span_pos: "0 < left \<Longrightarrow> 0 < span off left"
  by (simp add: span_def BSIZE_def)

text \<open>The loop of \<^verbatim>\<open>readi\<close> with \<open>left\<close> bytes to go and \<open>tot\<close> done; it returns the count, or -1, and the
  bytes it has handed over.\<close>

function readi_loop ::
  "nat \<Rightarrow> nat \<Rightarrow> kaddr \<Rightarrow> nat \<Rightarrow> nat \<Rightarrow> nat \<Rightarrow> 'a kfs_scheme \<Rightarrow> (int \<times> byte list, 'a kfs_scheme) res" where
  "readi_loop h ip dst off left tot s =
     (if 0 < left then
        bnd (bmap h ip (off div BSIZE) s) (\<lambda>addr s.
          if addr = 0 then Ok (int tot, []) s
          else
            bnd (bread h (i_dev (itable s ip)) addr s) (\<lambda>bp s.
              let m = span off left; d = b_data (bufs s bp) in
              bnd (either_copyout h dst (\<lambda>k. d (off mod BSIZE + k)) m s) (\<lambda>r s.
                if r = -1 then bnd (brelse h bp s) (\<lambda>_ s. Ok (-1, []) s)
                else
                  bnd (brelse h bp s) (\<lambda>_ s.
                  bnd (readi_loop h ip (advance dst m) (off + m) (left - m) (tot + m) s) (\<lambda>(r, bs) s.
                    Ok (r, load_bytes d (off mod BSIZE) m @ bs) s)))))
      else Ok (int tot, []) s)"
  by pat_completeness auto
termination
  by (relation "measure (\<lambda>(h, ip, dst, off, left, tot, s). left)") (use span_pos in auto)

declare readi_loop.simps [simp del]

definition readi :: "nat \<Rightarrow> nat \<Rightarrow> kaddr \<Rightarrow> u32 \<Rightarrow> u32 \<Rightarrow> 'a kfs_scheme \<Rightarrow> (int \<times> byte list, 'a kfs_scheme) res" where
  "readi h ip dst off n s =
     (let sz = i_size (itable s ip) in
      if off > sz \<or> off + n < off then Ok (0, []) s
      else
        let n = if off + n > sz then sz - off else n in
        readi_loop h ip dst (unat off) (unat n) 0 s)"

text \<open>The loop of \<^verbatim>\<open>writei\<close>; it returns the count and the offset it has reached. A copy that fails half
  way has changed the buffer already.\<close>

function writei_loop ::
  "nat \<Rightarrow> nat \<Rightarrow> kaddr \<Rightarrow> nat \<Rightarrow> nat \<Rightarrow> nat \<Rightarrow> 'a kfs_scheme \<Rightarrow> (nat \<times> nat, 'a kfs_scheme) res" where
  "writei_loop h ip src off left tot s =
     (if 0 < left then
        bnd (bmap h ip (off div BSIZE) s) (\<lambda>addr s.
          if addr = 0 then Ok (tot, off) s
          else
            bnd (bread h (i_dev (itable s ip)) addr s) (\<lambda>bp s.
              let m = span off left in
              bnd (either_copyin h src m s) (\<lambda>(r, bs) s.
                let s = set_data bp (store_bytes (b_data (bufs s bp)) (off mod BSIZE) (\<lambda>k. bs ! k) (length bs)) s in
                if r = -1 then bnd (brelse h bp s) (\<lambda>_ s. Ok (tot, off) s)
                else
                  bnd (log_write bp s) (\<lambda>_ s. bnd (brelse h bp s) (\<lambda>_ s.
                    writei_loop h ip (advance src m) (off + m) (left - m) (tot + m) s)))))
      else Ok (tot, off) s)"
  by pat_completeness auto
termination
  by (relation "measure (\<lambda>(h, ip, src, off, left, tot, s). left)") (use span_pos in auto)

declare writei_loop.simps [simp del]

definition writei :: "nat \<Rightarrow> nat \<Rightarrow> kaddr \<Rightarrow> u32 \<Rightarrow> u32 \<Rightarrow> 'a kfs_scheme \<Rightarrow> (int, 'a kfs_scheme) res" where
  "writei h ip src off n s =
     (if off > i_size (itable s ip) \<or> off + n < off then Ok (-1) s
      else if unat (off + n) > MAXFILE * BSIZE then Ok (-1) s
      else
        bnd (writei_loop h ip src (unat off) (unat n) 0 s) (\<lambda>(tot, off) s.
          let s = if off > unat (i_size (itable s ip)) then upd_inode ip (\<lambda>x. x\<lparr>i_size := of_nat off\<rparr>) s else s in
          bnd (iupdate h ip s) (\<lambda>_ s. Ok (int tot) s)))"

end
