(* ===== verification/Dir.thy ===== *)
theory Dir
  imports Inode
begin

text \<open>
  Directories and path names (\<^verbatim>\<open>kernel/fs.c\<close>, second part). A path is the list of its bytes up to the
  terminating null; a path element is the list of the bytes that \<^verbatim>\<open>skipelem\<close> leaves in \<^verbatim>\<open>name\<close>, which the
  code terminates when there is room.
\<close>

section \<open>Path elements\<close>

definition slash :: byte where "slash = 47"

definition skipelem :: "byte list \<Rightarrow> (byte list \<times> byte list) option" where
  "skipelem path =
     (let path = dropWhile (\<lambda>c. c = slash) path in
      if path = [] then None
      else
        let elem = takeWhile (\<lambda>c. c \<noteq> slash) path;
            path = dropWhile (\<lambda>c. c \<noteq> slash) path;
            name = (if length elem \<ge> DIRSIZ then take DIRSIZ elem else elem)
        in Some (dropWhile (\<lambda>c. c = slash) path, name))"

definition cstr_of :: "byte list \<Rightarrow> cstr" where
  "cstr_of bs = (\<lambda>i. if i < length bs then bs ! i else 0)"

definition namecmp :: "cstr \<Rightarrow> cstr \<Rightarrow> int" where
  "namecmp s t = strncmp s t DIRSIZ"

section \<open>Directory entries\<close>

text \<open>The loop of \<^verbatim>\<open>dirlookup\<close> over the offsets below the size of the directory, which stays the same
  while the caller holds the lock.\<close>

function dirlookup_loop ::
  "nat \<Rightarrow> nat \<Rightarrow> byte list \<Rightarrow> nat \<Rightarrow> nat \<Rightarrow> 'a kfs_scheme \<Rightarrow> ((nat \<times> nat) option, 'a kfs_scheme) res" where
  "dirlookup_loop h dp name off sz s =
     (if off < sz then
        bnd (readi h dp (Local []) (of_nat off) (of_nat sizeof_dirent) s) (\<lambda>(r, bs) s.
          if r \<noteq> int sizeof_dirent then Panic ''dirlookup read''
          else
            let de = get_dirent bs in
            if de_inum de = 0 then dirlookup_loop h dp name (off + sizeof_dirent) sz s
            else if namecmp (cstr_of name) (cstr_of (de_name de)) = 0 then
              bnd (iget (i_dev (itable s dp)) (ucast (de_inum de)) s) (\<lambda>ip s. Ok (Some (ip, off)) s)
            else dirlookup_loop h dp name (off + sizeof_dirent) sz s)
      else Ok None s)"
  by pat_completeness auto
termination
  by (relation "measure (\<lambda>(h, dp, name, off, sz, s). sz - off)") (auto simp: fs_consts)

declare dirlookup_loop.simps [simp del]

definition dirlookup :: "nat \<Rightarrow> nat \<Rightarrow> byte list \<Rightarrow> 'a kfs_scheme \<Rightarrow> ((nat \<times> nat) option, 'a kfs_scheme) res" where
  "dirlookup h dp name s =
     (if i_type (itable s dp) \<noteq> T_DIR then Panic ''dirlookup not DIR''
      else dirlookup_loop h dp name 0 (unat (i_size (itable s dp))) s)"

text \<open>The offset of the first unused entry, or the size of the directory.\<close>

function dirlink_free :: "nat \<Rightarrow> nat \<Rightarrow> nat \<Rightarrow> nat \<Rightarrow> 'a kfs_scheme \<Rightarrow> (nat, 'a kfs_scheme) res" where
  "dirlink_free h dp off sz s =
     (if off < sz then
        bnd (readi h dp (Local []) (of_nat off) (of_nat sizeof_dirent) s) (\<lambda>(r, bs) s.
          if r \<noteq> int sizeof_dirent then Panic ''dirlink read''
          else if de_inum (get_dirent bs) = 0 then Ok off s
          else dirlink_free h dp (off + sizeof_dirent) sz s)
      else Ok off s)"
  by pat_completeness auto
termination
  by (relation "measure (\<lambda>(h, dp, off, sz, s). sz - off)") (auto simp: fs_consts)

declare dirlink_free.simps [simp del]

text \<open>\<^verbatim>\<open>strncpy(de.name, name, DIRSIZ)\<close> and the number.\<close>

abbreviation (input) new_dirent :: "byte list \<Rightarrow> u32 \<Rightarrow> dirent" where
  "new_dirent name inum \<equiv>
     \<lparr>de_inum = ucast inum, de_name = map (strncpy (\<lambda>_. 0) (cstr_of name) (int DIRSIZ)) [0..<DIRSIZ]\<rparr>"

definition dirlink :: "nat \<Rightarrow> nat \<Rightarrow> byte list \<Rightarrow> u32 \<Rightarrow> 'a kfs_scheme \<Rightarrow> (int, 'a kfs_scheme) res" where
  "dirlink h dp name inum s =
     bnd (dirlookup h dp name s) (\<lambda>found s.
       case found of
         Some (ip, _) \<Rightarrow> bnd (iput h ip s) (\<lambda>_ s. Ok (-1) s)
       | None \<Rightarrow>
           bnd (dirlink_free h dp 0 (unat (i_size (itable s dp))) s) (\<lambda>off s.
           bnd (writei h dp (Local (put_dirent (new_dirent name inum))) (of_nat off) (of_nat sizeof_dirent) s) (\<lambda>r s.
             if r \<noteq> int sizeof_dirent then Ok (-1) s else Ok 0 s)))"

section \<open>Paths\<close>

lemma skipelem_shorter: "skipelem path = Some (rest, name) \<Longrightarrow> length rest < length path"
proof -
  assume "skipelem path = Some (rest, name)"
  then obtain c p where p: "dropWhile (\<lambda>c. c = slash) path = c # p" "c \<noteq> slash"
    and r: "rest = dropWhile (\<lambda>c. c = slash) (dropWhile (\<lambda>c. c \<noteq> slash) (c # p))"
    by (cases "dropWhile (\<lambda>c. c = slash) path") (auto simp: skipelem_def Let_def dropWhile_eq_Cons_conv split: if_splits)
  have "length rest \<le> length p"
    using p(2) order_trans[OF length_dropWhile_le length_dropWhile_le[of "\<lambda>c. c \<noteq> slash" p]] by (simp add: r)
  moreover have "length (c # p) \<le> length path" using p(1) length_dropWhile_le[of "\<lambda>c. c = slash" path] by simp
  ultimately show ?thesis by simp
qed

text \<open>The loop of \<^verbatim>\<open>namex\<close>: the inode found, or \<open>None\<close>, and the last element taken from the path.\<close>

function namex_loop ::
  "nat \<Rightarrow> bool \<Rightarrow> nat \<Rightarrow> byte list \<Rightarrow> byte list \<Rightarrow> 'a kfs_scheme \<Rightarrow> (nat option \<times> byte list, 'a kfs_scheme) res" where
  "namex_loop h parent ip path name s =
     (case skipelem path of
        None \<Rightarrow>
          if parent then bnd (iput h ip s) (\<lambda>_ s. Ok (None, name) s)
          else Ok (Some ip, name) s
      | Some (path', name') \<Rightarrow>
          bnd (ilock h ip s) (\<lambda>_ s.
            if i_type (itable s ip) \<noteq> T_DIR then bnd (iunlockput h ip s) (\<lambda>_ s. Ok (None, name') s)
            else if parent \<and> path' = [] then bnd (iunlock h ip s) (\<lambda>_ s. Ok (Some ip, name') s)
            else
              bnd (dirlookup h ip name' s) (\<lambda>found s.
                case found of
                  None \<Rightarrow> bnd (iunlockput h ip s) (\<lambda>_ s. Ok (None, name') s)
                | Some (nxt, _) \<Rightarrow> bnd (iunlockput h ip s) (\<lambda>_ s. namex_loop h parent nxt path' name' s))))"
  by pat_completeness auto
termination
  by (relation "measure (\<lambda>(h, parent, ip, path, name, s). length path)") (auto dest: skipelem_shorter)

declare namex_loop.simps [simp del]

definition namex :: "nat \<Rightarrow> byte list \<Rightarrow> bool \<Rightarrow> 'a kfs_scheme \<Rightarrow> (nat option \<times> byte list, 'a kfs_scheme) res" where
  "namex h path parent s =
     bnd (if path \<noteq> [] \<and> hd path = slash then iget (of_nat ROOTDEV) ROOTINO s
          else (case myproc h s of
                  None \<Rightarrow> Panic ''kerneltrap''
                | Some i \<Rightarrow>
                    (case p_cwd (proc s ! i) of
                       None \<Rightarrow> Panic ''kerneltrap''
                     | Some ip \<Rightarrow> Ok ip (idup ip s)))) (\<lambda>ip s.
       namex_loop h parent ip path [] s)"

definition namei :: "nat \<Rightarrow> byte list \<Rightarrow> 'a kfs_scheme \<Rightarrow> (nat option, 'a kfs_scheme) res" where
  "namei h path s = bnd (namex h path False s) (\<lambda>(ip, _) s. Ok ip s)"

definition nameiparent :: "nat \<Rightarrow> byte list \<Rightarrow> 'a kfs_scheme \<Rightarrow> (nat option \<times> byte list, 'a kfs_scheme) res" where
  "nameiparent h path s = namex h path True s"

end
