(* ===== verification/Printf.thy ===== *)
theory Printf
  imports CString
begin

text \<open>
  Formatted output of the kernel (\<^verbatim>\<open>kernel/printf.c\<close>) and of user programs (\<^verbatim>\<open>user/printf.c\<close>) as the
  byte sequence that reaches the console or the file. The two files share the code for numbers but
  not the table of digits (lower and upper case), which is a parameter here, as is what a single
  character turns into. The variable arguments are a list; a format that asks for an argument that is
  not there, which has no defined meaning in C, gives \<open>None\<close>.
\<close>

definition bytes_of :: "string \<Rightarrow> byte list" where
  "bytes_of s = map of_char s"

section \<open>Numbers\<close>

definition digits :: "nat \<Rightarrow> byte" where
  "digits d = bytes_of ''0123456789abcdef'' ! d"

definition digits_user :: "nat \<Rightarrow> byte" where
  "digits_user d = bytes_of ''0123456789ABCDEF'' ! d"

text \<open>The \<^verbatim>\<open>do\<close> loop that stores the digits, least significant first; the callers use bases 10 and 16.\<close>

function int_digits :: "nat \<Rightarrow> nat \<Rightarrow> nat list" where
  "int_digits base x = x mod base # (if base < 2 \<or> x div base = 0 then [] else int_digits base (x div base))"
  by pat_completeness auto
termination
  by (relation "measure snd") (auto simp: div_greater_zero_iff intro!: div_less_dividend)

declare int_digits.simps [simp del]

text \<open>The array \<^verbatim>\<open>buf\<close> when it is full, and what is printed: the array from its end.\<close>

definition printint_buf :: "(nat \<Rightarrow> byte) \<Rightarrow> u64 \<Rightarrow> nat \<Rightarrow> bool \<Rightarrow> byte list" where
  "printint_buf dg xx base sign =
     (let neg = sign \<and> sint xx < 0;
          x = (if neg then - xx else xx)
      in map dg (int_digits base (unat x)) @ (if neg then bytes_of ''-'' else []))"

definition printint :: "(nat \<Rightarrow> byte) \<Rightarrow> u64 \<Rightarrow> nat \<Rightarrow> bool \<Rightarrow> byte list" where
  "printint dg xx base sign = rev (printint_buf dg xx base sign)"

fun printptr_loop :: "(nat \<Rightarrow> byte) \<Rightarrow> nat \<Rightarrow> u64 \<Rightarrow> byte list" where
  "printptr_loop dg 0 x = []"
| "printptr_loop dg (Suc k) x = dg (unat (drop_bit (8 * 8 - 4) x)) # printptr_loop dg k (push_bit 4 x)"

definition printptr :: "(nat \<Rightarrow> byte) \<Rightarrow> u64 \<Rightarrow> byte list" where
  "printptr dg x = bytes_of ''0x'' @ printptr_loop dg (8 * 2) x"

section \<open>Formats\<close>

text \<open>\<open>AInt\<close> is an integer argument as it lies in its register, \<open>AStr\<close> a string pointer, null or not.\<close>

datatype parg = AInt u64 | AStr "byte list option"

definition int_arg :: "u64 \<Rightarrow> u64" where
  "int_arg v = scast (ucast v :: u32)"

definition uint_arg :: "u64 \<Rightarrow> u64" where
  "uint_arg v = ucast (ucast v :: u32)"

definition str_arg :: "byte list option \<Rightarrow> byte list" where
  "str_arg p = (case p of None \<Rightarrow> bytes_of ''(null)'' | Some bs \<Rightarrow> bs)"

text \<open>The conversions: how many bytes follow the percent sign, and what the argument prints as.\<close>

definition conversion :: "(nat \<Rightarrow> byte) \<Rightarrow> (u64 \<Rightarrow> byte list) \<Rightarrow> byte list \<Rightarrow> (nat \<times> (u64 \<Rightarrow> byte list)) option" where
  "conversion dg pc cs =
     (let c0 = (if cs = [] then 0 else cs ! 0);
          c1 = (if length cs < 2 then 0 else cs ! 1);
          c2 = (if length cs < 3 then 0 else cs ! 2);
          d = of_char (CHR ''d''); l = of_char (CHR ''l''); u = of_char (CHR ''u''); x = of_char (CHR ''x'')
      in if c0 = d then Some (1, \<lambda>v. printint dg (int_arg v) 10 True)
         else if c0 = l \<and> c1 = d then Some (2, \<lambda>v. printint dg v 10 True)
         else if c0 = l \<and> c1 = l \<and> c2 = d then Some (3, \<lambda>v. printint dg v 10 True)
         else if c0 = u then Some (1, \<lambda>v. printint dg (uint_arg v) 10 False)
         else if c0 = l \<and> c1 = u then Some (2, \<lambda>v. printint dg v 10 False)
         else if c0 = l \<and> c1 = l \<and> c2 = u then Some (3, \<lambda>v. printint dg v 10 False)
         else if c0 = x then Some (1, \<lambda>v. printint dg (uint_arg v) 16 False)
         else if c0 = l \<and> c1 = x then Some (2, \<lambda>v. printint dg v 16 False)
         else if c0 = l \<and> c1 = l \<and> c2 = x then Some (3, \<lambda>v. printint dg v 16 False)
         else if c0 = of_char (CHR ''p'') then Some (1, printptr dg)
         else if c0 = of_char (CHR ''c'') then Some (1, pc)
         else None)"

definition emit :: "byte list \<Rightarrow> byte list option \<Rightarrow> byte list option" where
  "emit bs r = map_option (\<lambda>rs. bs @ rs) r"

lemma conversion_pos: "conversion dg pc cs = Some (k, f) \<Longrightarrow> 0 < k \<and> cs \<noteq> []"
  by (auto simp: conversion_def Let_def split: if_splits)

function printf :: "(nat \<Rightarrow> byte) \<Rightarrow> (u64 \<Rightarrow> byte list) \<Rightarrow> byte list \<Rightarrow> parg list \<Rightarrow> byte list option" where
  "printf dg pc fmt args =
     (case fmt of
        [] \<Rightarrow> Some []
      | cx # cs \<Rightarrow>
          if cx \<noteq> of_char (CHR ''%'') then emit [cx] (printf dg pc cs args)
          else
            (case conversion dg pc cs of
               Some (k, f) \<Rightarrow>
                 (case args of AInt v # args \<Rightarrow> emit (f v) (printf dg pc (drop k cs) args) | _ \<Rightarrow> None)
             | None \<Rightarrow>
                 (case cs of
                    [] \<Rightarrow> Some []
                  | c0 # cs' \<Rightarrow>
                      if c0 = of_char (CHR ''s'') then
                        (case args of AStr p # args \<Rightarrow> emit (str_arg p) (printf dg pc cs' args) | _ \<Rightarrow> None)
                      else if c0 = of_char (CHR ''%'') then emit [c0] (printf dg pc cs' args)
                      else emit [of_char (CHR ''%''), c0] (printf dg pc cs' args))))"
  by pat_completeness auto
termination
  by (relation "measure (\<lambda>(dg, pc, fmt, args). length fmt)") (auto dest: conversion_pos)

declare printf.simps [simp del]

section \<open>The two front ends\<close>

text \<open>\<^verbatim>\<open>consputc\<close>: the code 0x100 erases the last character on the screen.\<close>

abbreviation (input) BACKSPACE :: u64 where "BACKSPACE \<equiv> 0x100"

definition consputc_bytes :: "u64 \<Rightarrow> byte list" where
  "consputc_bytes c = (if c = BACKSPACE then [8, 32, 8] else [ucast c])"

definition printf_kernel :: "string \<Rightarrow> parg list \<Rightarrow> byte list option" where
  "printf_kernel fmt args = printf digits (\<lambda>v. consputc_bytes (uint_arg v)) (bytes_of fmt) args"

text \<open>\<^verbatim>\<open>vprintf\<close> of the user library goes through the format one character at a time; \<open>pct\<close> says that the
  last one was a percent sign.\<close>

function vprintf ::
  "(nat \<Rightarrow> byte) \<Rightarrow> (u64 \<Rightarrow> byte list) \<Rightarrow> bool \<Rightarrow> byte list \<Rightarrow> parg list \<Rightarrow> byte list option" where
  "vprintf dg pc pct fmt args =
     (case fmt of
        [] \<Rightarrow> Some []
      | c0 # cs \<Rightarrow>
          if \<not> pct then
            if c0 = of_char (CHR ''%'') then vprintf dg pc True cs args
            else emit [c0] (vprintf dg pc False cs args)
          else
            (case conversion dg pc (c0 # cs) of
               Some (k, f) \<Rightarrow>
                 (case args of AInt v # args \<Rightarrow> emit (f v) (vprintf dg pc False (drop (k - 1) cs) args) | _ \<Rightarrow> None)
             | None \<Rightarrow>
                 if c0 = of_char (CHR ''s'') then
                   (case args of AStr p # args \<Rightarrow> emit (str_arg p) (vprintf dg pc False cs args) | _ \<Rightarrow> None)
                 else if c0 = of_char (CHR ''%'') then emit [c0] (vprintf dg pc False cs args)
                 else emit [of_char (CHR ''%''), c0] (vprintf dg pc False cs args)))"
  by pat_completeness auto
termination
  by (relation "measure (\<lambda>(dg, pc, pct, fmt, args). length fmt)") auto

declare vprintf.simps [simp del]

definition printf_user :: "string \<Rightarrow> parg list \<Rightarrow> byte list option" where
  "printf_user fmt args = vprintf digits_user (\<lambda>v. [ucast v]) False (bytes_of fmt) args"

section \<open>Equivalence\<close>

lemma conversion_drop: "conversion dg pc (c # cs) = Some (k, f) \<Longrightarrow> drop k (c # cs) = drop (k - 1) cs"
  using conversion_pos[of dg pc "c # cs" k f] by (cases k) auto

lemma conversion_Nil: "conversion dg pc [] = None"
  by (simp add: conversion_def Let_def)

lemma vprintf_pct:
  "vprintf dg pc True (c0 # cs) args =
     (case conversion dg pc (c0 # cs) of
        Some (k, f) \<Rightarrow> (case args of AInt v # args \<Rightarrow> emit (f v) (vprintf dg pc False (drop (k - 1) cs) args) | _ \<Rightarrow> None)
      | None \<Rightarrow>
          if c0 = of_char (CHR ''s'') then
            (case args of AStr p # args \<Rightarrow> emit (str_arg p) (vprintf dg pc False cs args) | _ \<Rightarrow> None)
          else if c0 = of_char (CHR ''%'') then emit [c0] (vprintf dg pc False cs args)
          else emit [of_char (CHR ''%''), c0] (vprintf dg pc False cs args))"
  by (subst vprintf.simps) simp

lemma printf_pct:
  "printf dg pc (of_char (CHR ''%'') # c0 # cs) args =
     (case conversion dg pc (c0 # cs) of
        Some (k, f) \<Rightarrow> (case args of AInt v # args \<Rightarrow> emit (f v) (printf dg pc (drop k (c0 # cs)) args) | _ \<Rightarrow> None)
      | None \<Rightarrow>
          if c0 = of_char (CHR ''s'') then
            (case args of AStr p # args \<Rightarrow> emit (str_arg p) (printf dg pc cs args) | _ \<Rightarrow> None)
          else if c0 = of_char (CHR ''%'') then emit [c0] (printf dg pc cs args)
          else emit [of_char (CHR ''%''), c0] (printf dg pc cs args))"
  by (subst printf.simps, cases "conversion dg pc (c0 # cs)") simp_all



section \<open>Numbers fit the buffer and read back\<close>

lemma int_digits_length: "2 \<le> b \<Longrightarrow> x < b ^ k \<Longrightarrow> 0 < k \<Longrightarrow> length (int_digits b x) \<le> k"
proof (induction b x arbitrary: k rule: int_digits.induct)
  case (1 b x)
  show ?case
  proof (cases "x div b = 0")
    case True
    then show ?thesis using 1 by (simp add: int_digits.simps[of b x])
  next
    case False
    then obtain j where k: "k = Suc j" "j \<noteq> 0" using 1 by (cases k; cases "k - 1") (auto simp: div_eq_0_iff)
    have "x div b < b ^ j" using 1 k by (simp add: less_mult_imp_div_less mult.commute)
    then have "length (int_digits b (x div b)) \<le> j" using 1 False k by auto
    then show ?thesis using False 1 k by (simp add: int_digits.simps[of b x])
  qed
qed

lemma int_digits_less: "2 \<le> b \<Longrightarrow> d \<in> set (int_digits b x) \<Longrightarrow> d < b"
proof (induction b x rule: int_digits.induct)
  case (1 b x)
  then show ?case by (auto simp: int_digits.simps[of b x] split: if_splits)
qed

lemma int_digits_value: "2 \<le> b \<Longrightarrow> foldl (\<lambda>a d. b * a + d) 0 (rev (int_digits b x)) = x"
proof (induction b x rule: int_digits.induct)
  case (1 b x)
  then show ?case by (cases "x div b = 0") (auto simp: int_digits.simps[of b x] div_eq_0_iff)
qed

lemma unat_wi: "0 \<le> k \<Longrightarrow> k < 2 ^ 64 \<Longrightarrow> unat (word_of_int k :: u64) = nat k"
  by (simp add: unat_eq_nat_uint uint_word_of_int)

text \<open>
  The local array of \<open>printint\<close> (20 bytes) is never overrun: whatever 64-bit value is printed, in
  base 10 or 16, signed or not, at most 20 bytes are stored.
\<close>

lemma printint_fits_buffer: "length (printint_buf dg xx 10 sign) \<le> 20 \<and> length (printint_buf dg xx 16 sign) \<le> 20"
proof -
  let ?neg = "sign \<and> sint xx < 0"
  let ?x = "if ?neg then - xx else xx"
  have neg: "?neg \<Longrightarrow> unat ?x \<le> 2 ^ 63"
  proof -
    assume n: ?neg
    have r: "- (2 ^ 63) \<le> sint xx" using sint_greater_eq[of xx] by simp
    have e: "- xx = word_of_int (- sint xx)" by simp
    have "unat (- xx) = nat (- sint xx)" unfolding e using r n by (intro unat_wi) auto
    then show ?thesis using n r by (simp add: nat_le_iff)
  qed
  have lt: "unat ?x < 2 ^ 64" using unsigned_less[of ?x] by simp
  have "length (int_digits b (unat ?x)) \<le> (if ?neg then 19 else 20)" if "b = 10 \<or> b = 16" for b
  proof (rule int_digits_length)
    show "unat ?x < b ^ (if ?neg then 19 else 20)"
      using lt neg that by (auto split: if_splits)
  qed (use that in auto)
  from this[of 10] this[of 16] show ?thesis
    by (auto simp: printint_buf_def Let_def bytes_of_def split: if_splits)
qed

lemma i32_hom: "i32 (i32 a * k + b) = i32 (a * k + b)"
proof -
  obtain q where q: "i32 a = a + 2 ^ 32 * q"
  proof -
    have "i32 a = a + 2 ^ 32 * (- ((a + 2 ^ 31) div 2 ^ 32))"
      unfolding i32_def using div_mult_mod_eq[of "a + 2 ^ 31" "2 ^ 32"] by (simp add: algebra_simps)
    then show ?thesis using that by blast
  qed
  have "i32 (x + 2 ^ 32 * y) = i32 x" for x y :: int
  proof -
    have "x + 2 ^ 32 * y + 2 ^ 31 = (x + 2 ^ 31) + 2 ^ 32 * y" by simp
    then show ?thesis unfolding i32_def by (simp only: mod_mult_self2)
  qed
  from this[of "a * k + b" "q * k"] show ?thesis by (simp add: q algebra_simps)
qed

lemma atoi_step: "i32 (i32 (i32 (i32 a * 10) + c) - 48) = i32 (10 * a + (c - 48))"
  using i32_hom[of a 10 0] i32_hom[of "a * 10" 1 c] i32_hom[of "a * 10 + c" 1 "- 48"] by (simp add: algebra_simps)

lemma atoi_digits:
  assumes "\<And>d. d \<in> set ds \<Longrightarrow> d < 10" and "\<And>j. j < length ds \<Longrightarrow> s (i + j) = 48 + of_nat (ds ! j)" and "s (i + length ds) = 0"
  shows "atoi_from s i (i32 a) = Some (i32 (foldl (\<lambda>a d. 10 * a + int d) a ds))"
  using assms
proof (induction ds arbitrary: i a)
  case Nil
  then show ?case by (simp add: atoi_from.simps)
next
  case (Cons d ds)
  have d: "d < 10" "s i = 48 + of_nat d" using Cons.prems(1)[of d] Cons.prems(2)[of 0] by auto
  then have u: "unat (s i) = 48 + d" by (simp add: unat_word_ariths unat_of_nat)
  then have c: "48 \<le> s i \<and> s i \<le> 57" "uc (s i) = 48 + int d"
    using d by (simp_all add: word_le_nat_alt uc_def uint_nat)
  have "atoi_from s (Suc i) (i32 (10 * a + int d)) = Some (i32 (foldl (\<lambda>a d. 10 * a + int d) (10 * a + int d) ds))"
    by (rule Cons.IH) (use Cons.prems(1,3) Cons.prems(2)[of "Suc _"] in auto)
  then show ?case using c by (subst atoi_from.simps) (simp add: atoi_step)
qed

lemma digits_dec: "d < 10 \<Longrightarrow> digits d = 48 + of_nat d"
proof -
  assume "d < 10"
  then have "d \<in> {0,1,2,3,4,5,6,7,8,9}" by auto
  then show ?thesis by (auto simp: digits_def bytes_of_def)
qed

lemma foldl_int: "foldl (\<lambda>a d. 10 * a + int d) (int a) ds = int (foldl (\<lambda>a d. 10 * a + d) a ds)"
proof (induction ds arbitrary: a)
  case (Cons d ds)
  then show ?case using Cons[of "10 * a + d"] by simp
qed simp

text \<open>
  Numbers read back: \<open>atoi\<close> of the user library, applied to the text that the kernel prints for a
  non-negative \<open>int\<close> with \<open>%d\<close>, returns that number, up to the largest one.
\<close>

lemma atoi_printint:
  assumes "0 \<le> n" and "n < 2 ^ 31" and "holds_str s (printint digits (word_of_int n) 10 True)"
  shows "atoi s = Some n"
proof -
  let ?ds = "rev (int_digits 10 (nat n))"
  have si: "sint (word_of_int n :: u64) = n"
    using assms(1,2) unfolding int_word_sint by simp
  have un: "unat (word_of_int n :: u64) = nat n"
    using assms(1,2) by (intro unat_wi) simp_all
  have "printint digits (word_of_int n) 10 True = map digits ?ds"
    using si un assms(1) by (simp add: printint_def printint_buf_def rev_map)
  moreover have lt: "d < 10" if "d \<in> set ?ds" for d using int_digits_less[of 10 d "nat n"] that by simp
  ultimately have "s (0 + j) = 48 + of_nat (?ds ! j)" if "j < length ?ds" for j
    using assms(3) that digits_dec[OF lt[OF nth_mem[OF that]]] by (simp add: holds_str_def)
  moreover have "s (0 + length ?ds) = 0"
    using assms(3) \<open>printint digits (word_of_int n) 10 True = map digits ?ds\<close> by (simp add: holds_str_def)
  ultimately have "atoi_from s 0 (i32 0) = Some (i32 (foldl (\<lambda>a d. 10 * a + int d) (int 0) ?ds))"
    using atoi_digits[of ?ds s 0 0] lt by simp
  then show ?thesis
    using assms(1,2) int_digits_value[of 10 "nat n"] unfolding foldl_int by (simp add: atoi_def)
qed

end
