(* ===== verification/Ring.thy ===== *)
theory Ring
  imports Prelude
begin

text \<open>
  Circular buffers indexed by free-running 32-bit counters, as the console and the pipes use them: the slot of
  counter \<open>i\<close> in a buffer of \<open>N\<close> bytes is \<open>i mod N\<close>, and counters wrap. The size must divide the range of the
  counters, otherwise consecutive counters would not be consecutive slots where they wrap.
\<close>

definition ring_at :: "nat \<Rightarrow> u32 \<Rightarrow> nat" where
  "ring_at N i = unat (i mod of_nat N)"

text \<open>The \<open>n\<close> bytes of the buffer from counter \<open>a\<close>.\<close>

definition ring_slice :: "nat \<Rightarrow> (nat \<Rightarrow> byte) \<Rightarrow> u32 \<Rightarrow> nat \<Rightarrow> byte list" where
  "ring_slice N buf a n = map (\<lambda>i. buf (ring_at N (a + of_nat i))) [0..<n]"

lemma ring_slice_length [simp]: "length (ring_slice N buf a n) = n"
  by (simp add: ring_slice_def)

lemma ring_slice_Nil [simp]: "ring_slice N buf a n = [] \<longleftrightarrow> n = 0"
  by (simp add: ring_slice_def)

lemma ring_slice_append: "ring_slice N buf a (m + n) = ring_slice N buf a m @ ring_slice N buf (a + of_nat m) n"
  by (rule nth_equalityI) (auto simp: ring_slice_def nth_append add.assoc simp flip: of_nat_add)

lemma ring_slice_Suc: "ring_slice N buf a (Suc n) = ring_slice N buf a n @ [buf (ring_at N (a + of_nat n))]"
  by (simp add: ring_slice_def)

lemma ring_slice_Cons: "ring_slice N buf a (Suc n) = buf (ring_at N a) # ring_slice N buf (a + 1) n"
  using ring_slice_append[of N buf a 1 n] by (simp add: ring_slice_def)

lemma ring_slice_0 [simp]: "ring_slice N buf a 0 = []"
  by simp

lemma unat_pred: "(x :: u32) \<noteq> 0 \<Longrightarrow> unat (x - 1) = unat x - 1"
  by (simp add: unat_minus_one)

lemma counter_step:
  fixes a b :: u32
  assumes "a \<noteq> b"
  shows "unat (b - a) = Suc (unat (b - (a + 1)))"
proof -
  have d: "b - (a + 1) = (b - a) - 1" by simp
  have "unat (b - a) \<noteq> 0" using assms by (simp add: unat_eq_0)
  then show ?thesis unfolding d using assms by (simp add: unat_pred)
qed

text \<open>Counter distances up to the size of a buffer do not wrap.\<close>

lemma counter_sum:
  fixes a b c :: u32
  assumes "unat (b - a) + unat (c - b) < 2 ^ 32"
  shows "unat (c - a) = unat (b - a) + unat (c - b)"
proof -
  have "c - a = of_nat (unat (b - a) + unat (c - b))" by simp
  then show ?thesis using assms by (simp only: unat_of_nat) simp
qed

locale ring_buffer =
  fixes N :: nat
  assumes N_pos: "0 < N" and N_dvd: "N dvd 2 ^ 32" and N_less: "N < 2 ^ 32"
begin

lemma at_add: "ring_at N (a + of_nat i) = (unat a + i) mod N"
proof -
  have u: "unat (a + of_nat i) = (unat a + i) mod 2 ^ 32" by (simp add: unat_word_ariths unat_of_nat mod_simps)
  have n: "unat (of_nat N :: u32) = N" unfolding unat_of_nat using N_less by simp
  show ?thesis unfolding ring_at_def unat_mod_distrib u n using N_dvd by (rule mod_mod_cancel)
qed

lemma at_inj:
  assumes e: "ring_at N (a + of_nat i) = ring_at N (a + of_nat j)" and "i \<le> j" and "j < i + N"
  shows "i = j"
proof -
  obtain d where d: "j = i + d" "d < N" using assms(2,3) by (metis add_less_cancel_left le_Suc_ex)
  have "(unat a + i + d) mod N = (unat a + i) mod N" using e unfolding at_add d(1) by (simp add: add.assoc)
  then have "N dvd d" by (metis add_diff_cancel_left' mod_eq_dvd_iff_nat le_add1)
  then show ?thesis using d by (auto dest: dvd_imp_le)
qed

text \<open>Storing at counter \<open>a + m\<close> leaves the slots of the \<open>N\<close> counters before it alone.\<close>

lemma slice_store:
  assumes "i + n \<le> m" and "m < i + N"
  shows "ring_slice N (buf(ring_at N (a + of_nat m) := c)) (a + of_nat i) n = ring_slice N buf (a + of_nat i) n"
proof (rule nth_equalityI)
  fix k assume "k < length (ring_slice N (buf(ring_at N (a + of_nat m) := c)) (a + of_nat i) n)"
  then have k: "k < n" by simp
  have "ring_at N (a + of_nat (i + k)) \<noteq> ring_at N (a + of_nat m)"
    using at_inj[of a "i + k" m] k assms by auto
  then show "ring_slice N (buf(ring_at N (a + of_nat m) := c)) (a + of_nat i) n ! k = ring_slice N buf (a + of_nat i) n ! k"
    using k by (simp add: ring_slice_def add.assoc)
qed simp

text \<open>Putting a byte in at the write counter \<open>b\<close> appends it to what lies between the counters.\<close>

lemma slice_push:
  assumes "unat (b - a) < N"
  shows "ring_slice N (buf(ring_at N b := c)) a (Suc (unat (b - a))) = ring_slice N buf a (unat (b - a)) @ [c]"
proof -
  let ?n = "unat (b - a)"
  have b: "a + of_nat ?n = b" by simp
  have "ring_slice N (buf(ring_at N (a + of_nat ?n) := c)) (a + of_nat 0) ?n = ring_slice N buf (a + of_nat 0) ?n"
    using assms by (intro slice_store) simp_all
  then show ?thesis by (simp add: ring_slice_Suc)
qed

lemma push_distance:
  fixes a b :: u32
  assumes "unat (b - a) < N"
  shows "unat (b + 1 - a) = Suc (unat (b - a))"
proof -
  have "b + 1 - a = of_nat (Suc (unat (b - a)))" by simp
  then show ?thesis using assms N_less by (simp only: unat_of_nat) simp
qed

end

end
