(* ===== verification/Console.thy ===== *)
theory Console
  imports Dir Printf Ring
begin

text \<open>
  The console (\<^verbatim>\<open>kernel/console.c\<close>) and the UART driver (\<^verbatim>\<open>kernel/uart.c\<close>). The device is represented by
  the sequence of register writes it receives, and by what its registers answer, which are arguments:
  whether the transmitter is idle and which bytes are waiting. The wait for the transmitter in
  \<^verbatim>\<open>uartputc_sync\<close> ends when the device is ready and leaves no trace. The kernel is not panicking: a panic
  is a result of the model. \<open>devsw\<close> says which entries of the device switch are set; the console's functions are the only ones
  ever put there.
\<close>

definition INPUT_BUF_SIZE :: nat where "INPUT_BUF_SIZE = 128"

abbreviation (input) CONSOLE :: nat where "CONSOLE \<equiv> 1"

record kcons = kfs +
  cons_buf :: "nat \<Rightarrow> byte"
  cons_r :: u32
  cons_w :: u32
  cons_e :: u32
  tx_busy :: bool
  uart_writes :: "(nat \<times> byte) list"
  devsw :: "nat \<Rightarrow> bool"

section \<open>The UART\<close>

abbreviation (input) THR :: nat where "THR \<equiv> 0"
abbreviation (input) IER :: nat where "IER \<equiv> 1"
abbreviation (input) FCR :: nat where "FCR \<equiv> 2"
abbreviation (input) LCR :: nat where "LCR \<equiv> 3"
abbreviation IER_RX_ENABLE :: byte where "IER_RX_ENABLE \<equiv> 1"
abbreviation IER_TX_ENABLE :: byte where "IER_TX_ENABLE \<equiv> 2"
abbreviation FCR_FIFO_ENABLE :: byte where "FCR_FIFO_ENABLE \<equiv> 1"
abbreviation FCR_FIFO_CLEAR :: byte where "FCR_FIFO_CLEAR \<equiv> 6"
abbreviation LCR_EIGHT_BITS :: byte where "LCR_EIGHT_BITS \<equiv> 3"
abbreviation LCR_BAUD_LATCH :: byte where "LCR_BAUD_LATCH \<equiv> 0x80"

definition WriteReg :: "nat \<Rightarrow> byte \<Rightarrow> 'a kcons_scheme \<Rightarrow> 'a kcons_scheme" where
  "WriteReg reg v s = s\<lparr>uart_writes := uart_writes s @ [(reg, v)]\<rparr>"

definition uartinit :: "'a kcons_scheme \<Rightarrow> 'a kcons_scheme" where
  "uartinit s =
     (let s = WriteReg IER 0 s;
          s = WriteReg LCR LCR_BAUD_LATCH s;
          s = WriteReg 0 3 s;
          s = WriteReg 1 0 s;
          s = WriteReg LCR LCR_EIGHT_BITS s;
          s = WriteReg FCR (FCR_FIFO_ENABLE OR FCR_FIFO_CLEAR) s;
          s = WriteReg IER (IER_TX_ENABLE OR IER_RX_ENABLE) s
      in initlock LkTx ''uart'' s)"

text \<open>\<^verbatim>\<open>uartwrite\<close> sends one byte and then waits for the device: with more than one byte it blocks until
  the transmit interrupt clears \<^verbatim>\<open>tx_busy\<close>.\<close>

fun uartwrite :: "byte list \<Rightarrow> 'a kcons_scheme \<Rightarrow> (unit, 'a kcons_scheme) res" where
  "uartwrite [] s = Ok () s"
| "uartwrite (c # cs) s =
     (if tx_busy s then Sleep ChanTx s else uartwrite cs ((WriteReg THR c s)\<lparr>tx_busy := True\<rparr>))"

text \<open>The same call followed over the waits: every transmit interrupt, of which there are \<open>k\<close>, clears \<^verbatim>\<open>tx_busy\<close>
  and wakes the sender, which goes on with the bytes it has left.\<close>

fun uartwrite_waits :: "nat \<Rightarrow> nat \<Rightarrow> byte list \<Rightarrow> 'a kcons_scheme \<Rightarrow> 'a kcons_scheme option" where
  "uartwrite_waits h k [] s = Some s"
| "uartwrite_waits h k (c # cs) s =
     (if tx_busy s then
        (case k of 0 \<Rightarrow> None
         | Suc k \<Rightarrow> uartwrite_waits h k cs ((WriteReg THR c (wakeup h ChanTx (s\<lparr>tx_busy := False\<rparr>)))\<lparr>tx_busy := True\<rparr>))
      else uartwrite_waits h k cs ((WriteReg THR c s)\<lparr>tx_busy := True\<rparr>))"

definition uartputc_sync :: "nat \<Rightarrow> byte \<Rightarrow> 'a kcons_scheme \<Rightarrow> (unit, 'a kcons_scheme) res" where
  "uartputc_sync h c s = pop_off h (WriteReg THR c (push_off h s))"

section \<open>Output\<close>

definition consputc :: "nat \<Rightarrow> u64 \<Rightarrow> 'a kcons_scheme \<Rightarrow> (unit, 'a kcons_scheme) res" where
  "consputc h c s =
     (if c = BACKSPACE then
        bnd (uartputc_sync h 8 s) (\<lambda>_ s. bnd (uartputc_sync h 32 s) (\<lambda>_ s. uartputc_sync h 8 s))
      else uartputc_sync h (ucast c) s)"

text \<open>What a call of the kernel's \<^verbatim>\<open>printf\<close> sends.\<close>

definition kprintf :: "nat \<Rightarrow> string \<Rightarrow> parg list \<Rightarrow> 'a kcons_scheme \<Rightarrow> (unit, 'a kcons_scheme) res" where
  "kprintf h fmt args s =
     (case printf_kernel fmt args of
        None \<Rightarrow> Panic ''printf: missing argument''
      | Some bs \<Rightarrow> mfor (uartputc_sync h) bs s)"

abbreviation (input) state_name :: "procstate \<Rightarrow> string" where
  "state_name st \<equiv> (case st of UNUSED \<Rightarrow> ''unused'' | USED \<Rightarrow> ''used'' | SLEEPING \<Rightarrow> ''sleep '' | RUNNABLE \<Rightarrow> ''runble''
     | RUNNING \<Rightarrow> ''run   '' | ZOMBIE \<Rightarrow> ''zombie'')"

definition procdump_one :: "nat \<Rightarrow> proc \<Rightarrow> 'a kcons_scheme \<Rightarrow> (unit, 'a kcons_scheme) res" where
  "procdump_one h p s =
     (if p_state p = UNUSED then Ok () s
      else
        bnd (kprintf h ''%d %s %s'' [AInt (word_of_int (p_pid p)), AStr (Some (bytes_of (state_name (p_state p)))),
               AStr (Some (takeWhile (\<lambda>c. c \<noteq> 0) (p_name p)))] s) (\<lambda>_ s.
          kprintf h [CHR 10] [] s))"

definition procdump :: "nat \<Rightarrow> 'a kcons_scheme \<Rightarrow> (unit, 'a kcons_scheme) res" where
  "procdump h s = bnd (kprintf h [CHR 10] [] s) (\<lambda>_ s. mfor (procdump_one h) (proc s) s)"

function consolewrite_loop :: "nat \<Rightarrow> kaddr \<Rightarrow> nat \<Rightarrow> nat \<Rightarrow> 'a kcons_scheme \<Rightarrow> (int, 'a kcons_scheme) res" where
  "consolewrite_loop h src n i s =
     (if i < n then
        let nn = min 32 (n - i) in
        bnd (either_copyin h (advance src i) nn s) (\<lambda>(r, bs) s.
          if r = -1 then Ok (int i) s
          else bnd (uartwrite (take nn bs) s) (\<lambda>_ s. consolewrite_loop h src n (i + nn) s))
      else Ok (int i) s)"
  by pat_completeness auto
termination
  by (relation "measure (\<lambda>(h, src, n, i, s). n - i)") auto

declare consolewrite_loop.simps [simp del]

definition consolewrite :: "nat \<Rightarrow> kaddr \<Rightarrow> int \<Rightarrow> 'a kcons_scheme \<Rightarrow> (int, 'a kcons_scheme) res" where
  "consolewrite h src n s = consolewrite_loop h src (nat n) 0 s"

section \<open>Input\<close>

abbreviation ring :: "u32 \<Rightarrow> nat" where
  "ring i \<equiv> ring_at INPUT_BUF_SIZE i"

text \<open>The loop of \<^verbatim>\<open>consoleread\<close> with \<open>n\<close> bytes to go out of \<open>target\<close>; it blocks while there is no whole
  line.\<close>

fun consoleread_loop :: "nat \<Rightarrow> kaddr \<Rightarrow> nat \<Rightarrow> nat \<Rightarrow> 'a kcons_scheme \<Rightarrow> (int, 'a kcons_scheme) res" where
  "consoleread_loop h dst 0 target s = Ok (int target) s"
| "consoleread_loop h dst (Suc n) target s =
     (if cons_r s = cons_w s then
        (case myproc h s of
           None \<Rightarrow> Panic ''kerneltrap''
         | Some i \<Rightarrow> if killed i s \<noteq> 0 then Ok (-1) s else Sleep ChanCons s)
      else
        let c = cons_buf s (ring (cons_r s));
            s = s\<lparr>cons_r := cons_r s + 1\<rparr>
        in
        if c = 4 then
          Ok (int target - int (Suc n)) (if Suc n < target then s\<lparr>cons_r := cons_r s - 1\<rparr> else s)
        else
          bnd (either_copyout h dst (\<lambda>_. c) 1 s) (\<lambda>r s.
            if r = -1 then Ok (int target - int (Suc n)) s
            else if c = 10 then Ok (int target - int n) s
            else consoleread_loop h (advance dst 1) n target s))"

definition consoleread :: "nat \<Rightarrow> kaddr \<Rightarrow> int \<Rightarrow> 'a kcons_scheme \<Rightarrow> (int, 'a kcons_scheme) res" where
  "consoleread h dst n s = (if n \<le> 0 then Ok 0 s else consoleread_loop h dst (nat n) (nat n) s)"

text \<open>The loop of control-U; its number of rounds is bounded by the distance of the two indices.\<close>

fun kill_line :: "nat \<Rightarrow> nat \<Rightarrow> 'a kcons_scheme \<Rightarrow> (unit, 'a kcons_scheme) res" where
  "kill_line h 0 s = Ok () s"
| "kill_line h (Suc k) s =
     (if cons_e s \<noteq> cons_w s \<and> cons_buf s (ring (cons_e s - 1)) \<noteq> 10 then
        bnd (consputc h BACKSPACE (s\<lparr>cons_e := cons_e s - 1\<rparr>)) (\<lambda>_ s. kill_line h k s)
      else Ok () s)"

definition consoleintr :: "nat \<Rightarrow> byte \<Rightarrow> 'a kcons_scheme \<Rightarrow> (unit, 'a kcons_scheme) res" where
  "consoleintr h c s =
     (if c = 16 then procdump h s
      else if c = 21 then kill_line h (unat (cons_e s - cons_w s)) s
      else if c = 8 \<or> c = 0x7f then
        if cons_e s \<noteq> cons_w s then consputc h BACKSPACE (s\<lparr>cons_e := cons_e s - 1\<rparr>) else Ok () s
      else if c \<noteq> 0 \<and> cons_e s - cons_r s < of_nat INPUT_BUF_SIZE then
        let c = (if c = 13 then 10 else c) in
        bnd (consputc h (ucast c) s) (\<lambda>_ s.
          let s = s\<lparr>cons_buf := (cons_buf s)(ring (cons_e s) := c), cons_e := cons_e s + 1\<rparr> in
          if c = 10 \<or> c = 4 \<or> cons_e s - cons_r s = of_nat INPUT_BUF_SIZE
          then Ok () (wakeup h ChanCons (s\<lparr>cons_w := cons_e s\<rparr>))
          else Ok () s)
      else Ok () s)"

definition uartintr :: "nat \<Rightarrow> bool \<Rightarrow> byte list \<Rightarrow> 'a kcons_scheme \<Rightarrow> (unit, 'a kcons_scheme) res" where
  "uartintr h tx_idle waiting s =
     (let s = if tx_idle then wakeup h ChanTx (s\<lparr>tx_busy := False\<rparr>) else s in
      mfor (consoleintr h) waiting s)"

definition consoleinit :: "'a kcons_scheme \<Rightarrow> 'a kcons_scheme" where
  "consoleinit s =
     (let s = uartinit (initlock LkCons ''cons'' s) in s\<lparr>devsw := (devsw s)(CONSOLE := True)\<rparr>)"


section \<open>The line discipline\<close>

text \<open>The bytes of the ring from index \<open>a\<close>; what \<^verbatim>\<open>consoleread\<close> may take, and the line under edit.\<close>

definition slice :: "'a kcons_scheme \<Rightarrow> u32 \<Rightarrow> nat \<Rightarrow> byte list" where
  "slice s a n = ring_slice INPUT_BUF_SIZE (cons_buf s) a n"

definition pending :: "'a kcons_scheme \<Rightarrow> byte list" where
  "pending s = slice s (cons_r s) (unat (cons_w s - cons_r s))"

definition edit_line :: "'a kcons_scheme \<Rightarrow> byte list" where
  "edit_line s = slice s (cons_w s) (unat (cons_e s - cons_w s))"

definition cons_inv :: "nat \<Rightarrow> 'a kcons_scheme \<Rightarrow> bool" where
  "cons_inv h s \<longleftrightarrow> unat (cons_w s - cons_r s) + unat (cons_e s - cons_w s) \<le> INPUT_BUF_SIZE \<and>
     10 \<notin> set (edit_line s) \<and> 0 \<le> c_noff (cpus s h)"

text \<open>What a key does to the input handed over so far and to the line under edit.\<close>

fun key :: "byte \<Rightarrow> byte list \<times> byte list \<Rightarrow> byte list \<times> byte list" where
  "key c (q, l) =
     (if c = 0 \<or> c = 16 then (q, l)
      else if c = 21 then (q, [])
      else if c = 8 \<or> c = 0x7f then (q, butlast l)
      else if length q + length l < INPUT_BUF_SIZE then
        let c = (if c = 13 then 10 else c); l = l @ [c] in
        if c = 10 \<or> c = 4 \<or> length q + length l = INPUT_BUF_SIZE then (q @ l, []) else (q, l)
      else (q, l))"

interpretation cons_ring: ring_buffer INPUT_BUF_SIZE
  by unfold_locales (simp_all add: INPUT_BUF_SIZE_def)

lemma slice_length [simp]: "length (slice s a n) = n"
  by (simp add: slice_def)

lemma slice_Suc: "slice s a (Suc n) = slice s a n @ [cons_buf s (ring (a + of_nat n))]"
  by (simp add: slice_def ring_slice_Suc)

lemma slice_cong: "cons_buf t = cons_buf s \<Longrightarrow> slice t a n = slice s a n"
  by (simp add: slice_def)

section \<open>Echo\<close>

text \<open>Output leaves the input ring and the processes alone.\<close>

definition echoes :: "nat \<Rightarrow> 'a kcons_scheme \<Rightarrow> 'a kcons_scheme \<Rightarrow> bool" where
  "echoes h s t \<longleftrightarrow> cons_buf t = cons_buf s \<and> cons_r t = cons_r s \<and> cons_w t = cons_w s \<and> cons_e t = cons_e s \<and>
     proc t = proc s \<and> c_noff (cpus t h) = c_noff (cpus s h)"

lemma echoes_refl [simp]: "echoes h s s"
  by (simp add: echoes_def)

lemma echoes_trans: "echoes h s t \<Longrightarrow> echoes h t u \<Longrightarrow> echoes h s u"
  by (simp add: echoes_def)

lemma uartputc_sync_ok:
  assumes "0 \<le> c_noff (cpus s h)"
  shows "\<exists>t. uartputc_sync h c s = Ok () t \<and> echoes h s t"
  using assms
  by (auto simp: uartputc_sync_def echoes_def WriteReg_def push_off_def pop_off_def intr_get_def intr_off_def
      intr_on_def Let_def)

lemma mfor_uartputc_ok:
  "0 \<le> c_noff (cpus s h) \<Longrightarrow> \<exists>t. mfor (uartputc_sync h) bs s = Ok () t \<and> echoes h s t"
proof (induction bs arbitrary: s)
  case (Cons b bs)
  obtain u where u: "uartputc_sync h b s = Ok () u" "echoes h s u" using uartputc_sync_ok[OF Cons.prems] by blast
  then have "0 \<le> c_noff (cpus u h)" using Cons.prems by (simp add: echoes_def)
  then obtain t where "mfor (uartputc_sync h) bs u = Ok () t" "echoes h u t" using Cons.IH by blast
  then show ?case using u by (auto intro: echoes_trans)
qed simp

lemma consputc_ok:
  assumes "0 \<le> c_noff (cpus s h)"
  shows "\<exists>t. consputc h c s = Ok () t \<and> echoes h s t"
proof -
  have "consputc h c s = mfor (uartputc_sync h) (consputc_bytes c) s"
  proof -
    have e: "bnd m Ok = m" for m :: "(unit, 'a kcons_scheme) res" by (cases m) auto
    have f: "mfor (uartputc_sync h) [] = Ok ()"
        "\<And>b bs. mfor (uartputc_sync h) (b # bs) = (\<lambda>s. bnd (uartputc_sync h b s) (\<lambda>_. mfor (uartputc_sync h) bs))"
      by (simp_all add: fun_eq_iff)
    show ?thesis by (simp add: consputc_def consputc_bytes_def e f del: mfor.simps)
  qed
  then show ?thesis using mfor_uartputc_ok[OF assms] by simp
qed

lemma kprintf_ok:
  "printf_kernel fmt args \<noteq> None \<Longrightarrow> 0 \<le> c_noff (cpus s h) \<Longrightarrow> \<exists>t. kprintf h fmt args s = Ok () t \<and> echoes h s t"
  using mfor_uartputc_ok by (auto simp: kprintf_def)

lemma procdump_formats:
  "printf_kernel [CHR 10] [] \<noteq> None" "printf_kernel ''%d %s %s'' [AInt v, AStr a, AStr b] \<noteq> None"
  by (simp_all add: printf_kernel_def bytes_of_def printf.simps conversion_def emit_def Let_def)

lemma procdump_ok:
  assumes "0 \<le> c_noff (cpus s h)"
  shows "\<exists>t. procdump h s = Ok () t \<and> echoes h s t"
proof -
  have one: "\<exists>t. procdump_one h p s = Ok () t \<and> echoes h s t" if n: "0 \<le> c_noff (cpus s h)" for p and s :: "'a kcons_scheme"
  proof (cases "p_state p = UNUSED")
    case False
    obtain u where u: "kprintf h ''%d %s %s'' [AInt (word_of_int (p_pid p)), AStr (Some (bytes_of (state_name (p_state p)))),
        AStr (Some (takeWhile (\<lambda>c. c \<noteq> 0) (p_name p)))] s = Ok () u" "echoes h s u"
      using kprintf_ok[OF procdump_formats(2) n] by blast
    then have "0 \<le> c_noff (cpus u h)" using n by (simp add: echoes_def)
    then obtain t where "kprintf h [CHR 10] [] u = Ok () t" "echoes h u t" using kprintf_ok[OF procdump_formats(1)] by blast
    then show ?thesis using u False by (auto simp: procdump_one_def intro: echoes_trans)
  qed (simp add: procdump_one_def)
  have all: "\<exists>t. mfor (procdump_one h) ps s = Ok () t \<and> echoes h s t" if "0 \<le> c_noff (cpus s h)" for ps and s :: "'a kcons_scheme"
    using that
  proof (induction ps arbitrary: s)
    case (Cons p ps)
    obtain u where u: "procdump_one h p s = Ok () u" "echoes h s u" using one[OF Cons.prems] by blast
    then have "0 \<le> c_noff (cpus u h)" using Cons.prems by (simp add: echoes_def)
    then obtain t where "mfor (procdump_one h) ps u = Ok () t" "echoes h u t" using Cons.IH by blast
    then show ?case using u by (auto intro: echoes_trans)
  qed simp
  obtain u where u: "kprintf h [CHR 10] [] s = Ok () u" "echoes h s u" using kprintf_ok[OF procdump_formats(1) assms] by blast
  then have "0 \<le> c_noff (cpus u h)" using assms by (simp add: echoes_def)
  then obtain t where "mfor (procdump_one h) (proc u) u = Ok () t" "echoes h u t" using all by blast
  then show ?thesis using u by (auto simp: procdump_def intro: echoes_trans)
qed

section \<open>Keys\<close>

lemma echoes_view: "echoes h s t \<Longrightarrow> pending t = pending s \<and> edit_line t = edit_line s"
  by (simp add: echoes_def pending_def edit_line_def slice_def)

lemma echoes_inv: "echoes h s t \<Longrightarrow> cons_inv h s \<Longrightarrow> cons_inv h t"
  using echoes_view[of h s t] by (simp add: echoes_def cons_inv_def)

text \<open>Taking the last byte off the line.\<close>

lemma rub_out:
  assumes "cons_inv h s" and "cons_e s \<noteq> cons_w s"
  defines "t \<equiv> s\<lparr>cons_e := cons_e s - 1\<rparr>"
  shows "cons_inv h t \<and> pending t = pending s \<and> edit_line t = butlast (edit_line s) \<and> edit_line s \<noteq> [] \<and>
    last (edit_line s) = cons_buf s (ring (cons_e s - 1))"
proof -
  let ?n = "unat (cons_e s - cons_w s)"
  have n: "?n \<noteq> 0" using assms(2) by (simp add: unat_eq_0)
  then obtain k where k: "?n = Suc k" by (cases ?n) auto
  have d: "cons_e s - 1 - cons_w s = (cons_e s - cons_w s) - 1" by simp
  have u: "unat (cons_e s - 1 - cons_w s) = k" unfolding d using k assms(2) by (simp add: unat_pred)
  have "cons_w s + of_nat k = cons_e s - 1"
    unfolding u[symmetric] by simp
  then have e: "edit_line s = slice s (cons_w s) k @ [cons_buf s (ring (cons_e s - 1))]"
    using k by (simp add: edit_line_def slice_Suc)
  have et: "edit_line t = slice s (cons_w s) k" and p: "pending t = pending s"
    using u by (simp_all add: t_def edit_line_def pending_def slice_def)
  moreover have "cons_inv h t"
    using assms(1) et e u k by (simp add: cons_inv_def t_def[symmetric]) (simp add: t_def)
  ultimately show ?thesis using e by simp
qed

lemma kill_line_ok:
  "cons_inv h s \<Longrightarrow> unat (cons_e s - cons_w s) \<le> n \<Longrightarrow>
   \<exists>t. kill_line h n s = Ok () t \<and> cons_inv h t \<and> pending t = pending s \<and> edit_line t = []"
proof (induction n arbitrary: s)
  case 0
  then show ?case by (simp add: edit_line_def slice_def)
next
  case (Suc n)
  show ?case
  proof (cases "cons_e s = cons_w s")
    case True
    then show ?thesis using Suc.prems by (simp add: edit_line_def slice_def)
  next
    case False
    let ?s = "s\<lparr>cons_e := cons_e s - 1\<rparr>"
    have r: "cons_inv h ?s" "pending ?s = pending s" "edit_line s \<noteq> []"
        "last (edit_line s) = cons_buf s (ring (cons_e s - 1))"
      using rub_out[OF Suc.prems(1) False] by simp_all
    then have nl: "cons_buf s (ring (cons_e s - 1)) \<noteq> 10"
      using Suc.prems(1) last_in_set[of "edit_line s"] by (auto simp: cons_inv_def)
    have "0 \<le> c_noff (cpus ?s h)" using r(1) by (simp add: cons_inv_def)
    then obtain u where u: "consputc h BACKSPACE ?s = Ok () u" "echoes h ?s u" using consputc_ok by blast
    have d: "cons_e s - 1 - cons_w s = (cons_e s - cons_w s) - 1" by simp
    have "unat (cons_e s - 1 - cons_w s) \<le> n" unfolding d using Suc.prems(2) False by (simp add: unat_pred)
    then have "unat (cons_e u - cons_w u) \<le> n" using u(2) by (simp add: echoes_def)
    then obtain t where "kill_line h n u = Ok () t" "cons_inv h t" "pending t = pending u" "edit_line t = []"
      using Suc.IH[OF echoes_inv[OF u(2) r(1)]] by blast
    then show ?thesis using u nl False r(2) echoes_view[OF u(2)] by auto
  qed
qed

text \<open>Appending a byte to the line.\<close>

lemma type_in:
  fixes c :: byte
  assumes "cons_inv h s" and "length (pending s) + length (edit_line s) < INPUT_BUF_SIZE"
  defines "t \<equiv> s\<lparr>cons_buf := (cons_buf s)(ring (cons_e s) := c), cons_e := cons_e s + 1\<rparr>"
  shows "pending t = pending s \<and> edit_line t = edit_line s @ [c] \<and>
    unat (cons_e t - cons_w t) = Suc (length (edit_line s)) \<and>
    unat (cons_w t - cons_r t) = length (pending s) \<and>
    unat (cons_e t - cons_r t) = Suc (length (pending s) + length (edit_line s))"
proof -
  let ?m = "unat (cons_w s - cons_r s)" and ?n = "unat (cons_e s - cons_w s)"
  have lt: "?m + ?n < INPUT_BUF_SIZE" using assms(2) by (simp add: pending_def edit_line_def)
  have ER: "unat (cons_e s - cons_r s) = ?m + ?n" using lt by (intro counter_sum) (simp add: INPUT_BUF_SIZE_def)
  have u: "unat (cons_e t - cons_w t) = Suc ?n" "unat (cons_e t - cons_r t) = Suc (?m + ?n)"
    using cons_ring.push_distance[of "cons_e s" "cons_w s"] cons_ring.push_distance[of "cons_e s" "cons_r s"] lt ER
    by (simp_all add: t_def)
  have b: "cons_buf t = (cons_buf s)(ring (cons_r s + of_nat (?m + ?n)) := c)" by (simp add: t_def)
  have "slice t (cons_r s + of_nat 0) ?m = slice s (cons_r s + of_nat 0) ?m"
    unfolding slice_def b using lt by (intro cons_ring.slice_store) simp_all
  then have p: "pending t = pending s" by (simp add: pending_def t_def)
  have "ring_slice INPUT_BUF_SIZE ((cons_buf s)(ring (cons_e s) := c)) (cons_w s) (Suc ?n) = edit_line s @ [c]"
    using cons_ring.slice_push[of "cons_e s" "cons_w s"] lt by (simp add: edit_line_def slice_def)
  then have "edit_line t = edit_line s @ [c]" using u(1) by (simp add: edit_line_def slice_def t_def)
  then show ?thesis using p u by (simp add: pending_def edit_line_def) (simp add: t_def)
qed

lemma hand_over:
  assumes "cons_inv h t \<or> 0 \<le> c_noff (cpus t h)"
    and "unat (cons_w t - cons_r t) + unat (cons_e t - cons_w t) \<le> INPUT_BUF_SIZE"
  defines "u \<equiv> wakeup h ChanCons (t\<lparr>cons_w := cons_e t\<rparr>)"
  shows "cons_inv h u \<and> pending u = pending t @ edit_line t \<and> edit_line u = []"
proof -
  let ?m = "unat (cons_w t - cons_r t)" and ?n = "unat (cons_e t - cons_w t)"
  have f: "cons_buf u = cons_buf t" "cons_r u = cons_r t" "cons_w u = cons_e t" "cons_e u = cons_e t" "cpus u = cpus t"
    by (simp_all add: u_def wakeup_def)
  have e: "unat (cons_e t - cons_r t) = ?m + ?n" using assms(2) by (intro counter_sum) (simp add: INPUT_BUF_SIZE_def)
  have "cons_r t + of_nat ?m = cons_w t" by simp
  then have "pending u = pending t @ edit_line t"
    using e f by (simp add: pending_def edit_line_def slice_def ring_slice_append)
  then show ?thesis using f e assms(1,2) by (auto simp: cons_inv_def edit_line_def slice_def)
qed

abbreviation input :: "'a kcons_scheme \<Rightarrow> byte list \<times> byte list" where
  "input s \<equiv> (pending s, edit_line s)"

lemma consoleintr_char:
  assumes inv: "cons_inv h s" and c: "c \<notin> {16, 21, 8, 0x7f}"
  shows "\<exists>t. consoleintr h c s = Ok () t \<and> cons_inv h t \<and> input t = key c (input s)"
proof -
  let ?m = "unat (cons_w s - cons_r s)" and ?n = "unat (cons_e s - cons_w s)"
  have len: "length (pending s) = ?m" "length (edit_line s) = ?n" by (simp_all add: pending_def edit_line_def)
  have e: "unat (cons_e s - cons_r s) = ?m + ?n"
    using inv by (intro counter_sum) (simp add: cons_inv_def INPUT_BUF_SIZE_def)
  then have room: "cons_e s - cons_r s < of_nat INPUT_BUF_SIZE \<longleftrightarrow> ?m + ?n < INPUT_BUF_SIZE"
    by (simp add: word_less_nat_alt INPUT_BUF_SIZE_def)
  show ?thesis
  proof (cases "c \<noteq> 0 \<and> ?m + ?n < INPUT_BUF_SIZE")
    case False
    then show ?thesis using inv c room len by (auto simp: consoleintr_def)
  next
    case True
    let ?c = "if c = 13 then 10 else c"
    obtain u where u: "consputc h (ucast ?c) s = Ok () u" "echoes h s u"
      using consputc_ok inv unfolding cons_inv_def by blast
    let ?t = "u\<lparr>cons_buf := (cons_buf u)(ring (cons_e u) := ?c), cons_e := cons_e u + 1\<rparr>"
    have ui: "cons_inv h u" and uv: "pending u = pending s" "edit_line u = edit_line s"
      using echoes_inv[OF u(2) inv] echoes_view[OF u(2)] by simp_all
    have ty: "pending ?t = pending s" "edit_line ?t = edit_line s @ [?c]"
        "unat (cons_e ?t - cons_w ?t) = Suc ?n" "unat (cons_w ?t - cons_r ?t) = ?m"
        "unat (cons_e ?t - cons_r ?t) = Suc (?m + ?n)"
      using type_in[OF ui, of ?c] True uv len by simp_all
    have full: "cons_e ?t - cons_r ?t = of_nat INPUT_BUF_SIZE \<longleftrightarrow> Suc (?m + ?n) = INPUT_BUF_SIZE"
      using ty(5) by (simp add: word_unat_eq_iff INPUT_BUF_SIZE_def)
    have noff: "0 \<le> c_noff (cpus ?t h)" using ui by (simp add: cons_inv_def)
    have le: "unat (cons_w ?t - cons_r ?t) + unat (cons_e ?t - cons_w ?t) \<le> INPUT_BUF_SIZE"
      using True unfolding ty by simp
    have run: "consoleintr h c s =
        (if ?c = 10 \<or> ?c = 4 \<or> Suc (?m + ?n) = INPUT_BUF_SIZE
         then Ok () (wakeup h ChanCons (?t\<lparr>cons_w := cons_e ?t\<rparr>)) else Ok () ?t)"
      using c True room u(1) full by (simp add: consoleintr_def Let_def)
    have k: "key c (input s) = (if ?c = 10 \<or> ?c = 4 \<or> Suc (?m + ?n) = INPUT_BUF_SIZE
        then (pending s @ edit_line s @ [?c], []) else (pending s, edit_line s @ [?c]))"
      using c True len by (simp add: Let_def)
    show ?thesis
    proof (cases "?c = 10 \<or> ?c = 4 \<or> Suc (?m + ?n) = INPUT_BUF_SIZE")
      case T: True
      let ?u = "wakeup h ChanCons (?t\<lparr>cons_w := cons_e ?t\<rparr>)"
      have "cons_inv h ?u" "input ?u = key c (input s)"
        using hand_over[OF disjI2[OF noff] le] ty(1,2) unfolding k by (simp_all add: T)
      then show ?thesis using run T by (metis (no_types, lifting))
    next
      case F: False
      have "cons_inv h ?t" using le ty(2) inv noff F unfolding cons_inv_def by auto
      moreover have "input ?t = key c (input s)" unfolding k ty(1,2) using F by simp
      ultimately show ?thesis using run F by (metis (no_types, lifting))
    qed
  qed
qed

lemma consoleintr_key:
  assumes inv: "cons_inv h s"
  shows "\<exists>t. consoleintr h c s = Ok () t \<and> cons_inv h t \<and> input t = key c (input s)"
proof -
  consider "c = 16" | "c = 21" | "c = 8 \<or> c = 0x7f" | "c \<notin> {16, 21, 8, 0x7f}" by blast
  then show ?thesis
  proof cases
    case 1
    obtain t where t: "procdump h s = Ok () t" "echoes h s t" using procdump_ok[of s h] inv unfolding cons_inv_def by blast
    then show ?thesis using 1 echoes_inv[OF t(2) inv] echoes_view[OF t(2)] by (auto simp: consoleintr_def)
  next
    case 2
    then show ?thesis using kill_line_ok[OF inv order_refl] by (auto simp: consoleintr_def)
  next
    case 3
    show ?thesis
    proof (cases "cons_e s = cons_w s")
      case True
      then show ?thesis using 3 inv by (auto simp: consoleintr_def edit_line_def slice_def)
    next
      case False
      let ?s = "s\<lparr>cons_e := cons_e s - 1\<rparr>"
      have r: "cons_inv h ?s" "pending ?s = pending s" "edit_line ?s = butlast (edit_line s)"
        using rub_out[OF inv False] by simp_all
      then obtain t where "consputc h BACKSPACE ?s = Ok () t" "echoes h ?s t"
        using consputc_ok[of ?s h] unfolding cons_inv_def by blast
      then show ?thesis using 3 False r echoes_inv[of h ?s t] echoes_view[of h ?s t]
        by (auto simp: consoleintr_def)
    qed
  next
    case 4
    then show ?thesis by (rule consoleintr_char[OF inv])
  qed
qed

section \<open>From key strokes to reads\<close>

text \<open>
  What the rest of the kernel relies on: an input source takes any sequence of key strokes without
  blocking, with the effect of the specification.
\<close>

locale input_source =
  fixes stroke :: "byte \<Rightarrow> 's \<Rightarrow> (unit, 's) res"
    and inv :: "'s \<Rightarrow> bool"
    and view :: "'s \<Rightarrow> byte list \<times> byte list"
  assumes stroke_ok: "inv s \<Longrightarrow> \<exists>t. stroke c s = Ok () t \<and> inv t \<and> view t = key c (view s)"
begin

lemma strokes_ok: "inv s \<Longrightarrow> \<exists>t. mfor stroke cs s = Ok () t \<and> inv t \<and> view t = fold key cs (view s)"
proof (induction cs arbitrary: s)
  case (Cons c cs)
  obtain u where u: "stroke c s = Ok () u" "inv u" "view u = key c (view s)" using stroke_ok[OF Cons.prems] by blast
  then show ?case using Cons.IH[OF u(2)] by auto
qed simp

end

interpretation keyboard: input_source "consoleintr h" "cons_inv h" "\<lambda>s. (pending s, edit_line s)" for h
  by unfold_locales (rule consoleintr_key)

lemma fold_key_line:
  "0 \<notin> set cs \<Longrightarrow> set cs \<inter> {4, 8, 10, 13, 16, 21, 0x7f} = {} \<Longrightarrow> length q + length l + length cs < INPUT_BUF_SIZE \<Longrightarrow>
   fold key cs (q, l) = (q, l @ cs)"
  by (induction cs arbitrary: l) (auto simp: Let_def)

lemma pending_step:
  assumes "cons_r s \<noteq> cons_w s"
  shows "pending s = cons_buf s (ring (cons_r s)) # pending (s\<lparr>cons_r := cons_r s + 1\<rparr>)"
  unfolding pending_def counter_step[OF assms] by (simp add: slice_def ring_slice_Cons)

lemma pending_empty: "cons_r s = cons_w s \<longleftrightarrow> pending s = []"
proof -
  have "pending s = [] \<longleftrightarrow> unat (cons_w s - cons_r s) = 0" by (simp add: pending_def slice_def)
  then show ?thesis by (auto simp: unat_eq_0)
qed

text \<open>Reading a line that has been handed over, into kernel memory.\<close>

lemma consoleread_line:
  assumes "myproc h s = Some i"
  shows "pending s = l @ 10 # rest \<Longrightarrow> 4 \<notin> set l \<Longrightarrow> 10 \<notin> set l \<Longrightarrow> length l < n \<Longrightarrow> n \<le> target \<Longrightarrow>
     unat a + length l < 2 ^ 64 \<Longrightarrow>
     \<exists>t. consoleread_loop h (PhysA a) n target s = Ok (int target - int n + int (length l) + 1) t \<and>
       pending t = rest \<and> edit_line t = edit_line s \<and>
       phys t = store_bytes (phys s) (unat a) (\<lambda>j. (l @ [10]) ! j) (length l + 1)"
  using assms
proof (induction l arbitrary: s a n)
  case Nil
  then obtain m where m: "n = Suc m" by (cases n) auto
  have ne: "cons_r s \<noteq> cons_w s" using Nil.prems(1) by (simp add: pending_empty)
  show ?case using Nil.prems pending_step[OF ne] ne m
    by (auto simp: either_copyout_def myproc_def edit_line_def slice_def Let_def pending_def store_bytes_def)
next
  case (Cons c l)
  then obtain m where m: "n = Suc m" by (cases n) auto
  have ne: "cons_r s \<noteq> cons_w s" using Cons.prems(1) by (simp add: pending_empty)
  let ?u = "s\<lparr>cons_r := cons_r s + 1, phys := store_bytes (phys s) (unat a) (\<lambda>_. c) 1\<rparr>"
  have c: "cons_buf s (ring (cons_r s)) = c" "pending (s\<lparr>cons_r := cons_r s + 1\<rparr>) = l @ 10 # rest"
    using pending_step[OF ne] Cons.prems(1) by simp_all
  have pu: "pending ?u = l @ 10 # rest" using c(2) by (simp add: pending_def slice_def)
  have ua: "unat (a + 1) = unat a + 1"
    using Cons.prems(6) by (simp add: unat_word_ariths)
  have mp: "myproc h ?u = Some i" using Cons.prems(7) by (simp add: myproc_def)
  have step: "consoleread_loop h (PhysA a) n target s = consoleread_loop h (PhysA (a + 1)) m target ?u"
    using m ne c(1) Cons.prems(2,3,7) by (simp add: either_copyout_def myproc_def Let_def)
  obtain t where t: "consoleread_loop h (PhysA (a + 1)) m target ?u = Ok (int target - int m + int (length l) + 1) t"
      "pending t = rest" "edit_line t = edit_line ?u"
      "phys t = store_bytes (phys ?u) (unat (a + 1)) (\<lambda>j. (l @ [10]) ! j) (length l + 1)"
    using Cons.IH[OF pu _ _ _ _ _ mp, of m "a + 1"] Cons.prems(2-6) m ua by auto
  have "phys t = store_bytes (phys s) (unat a) (\<lambda>j. ((c # l) @ [10]) ! j) (length (c # l) + 1)"
  proof (rule ext)
    fix b
    show "phys t b = store_bytes (phys s) (unat a) (\<lambda>j. ((c # l) @ [10]) ! j) (length (c # l) + 1) b"
      unfolding t(4) ua by (cases "b - unat a") (auto simp: store_bytes_def le_Suc_eq diff_Suc)
  qed
  then show ?case using t step m by (auto simp: edit_line_def slice_def)
qed

text \<open>Input does not change which process a CPU runs.\<close>

definition running :: "'a kcons_scheme \<Rightarrow> nat \<Rightarrow> nat option" where
  "running s g = c_proc (cpus s g)"

lemma running_uartputc: "uartputc_sync h c s = Ok () t \<Longrightarrow> running t = running s"
  by (auto simp: uartputc_sync_def running_def fun_eq_iff WriteReg_def push_off_def pop_off_def intr_get_def
      intr_off_def intr_on_def Let_def split: if_splits)

lemma running_consputc: "consputc h c s = Ok () t \<Longrightarrow> running t = running s"
  by (auto simp: consputc_def bnd_Ok_iff dest!: running_uartputc split: if_splits)

lemma running_kprintf: "kprintf h fmt args s = Ok () t \<Longrightarrow> running t = running s"
  by (auto simp: kprintf_def intro: mfor_keeps[where f = "uartputc_sync h"] running_uartputc split: option.splits)

lemma running_procdump_one: "procdump_one h p s = Ok () t \<Longrightarrow> running t = running s"
  by (auto simp: procdump_one_def bnd_Ok_iff dest!: running_kprintf split: if_splits)

lemma running_procdump: "procdump h s = Ok () t \<Longrightarrow> running t = running s"
proof -
  assume "procdump h s = Ok () t"
  then obtain u where "kprintf h [CHR 10] [] s = Ok () u" "mfor (procdump_one h) (proc u) u = Ok () t"
    by (auto simp: procdump_def bnd_Ok_iff)
  then show ?thesis using running_kprintf mfor_keeps[where F = running] running_procdump_one by metis
qed

lemma running_kill_line: "kill_line h n s = Ok () t \<Longrightarrow> running t = running s"
proof (induction n arbitrary: s)
  case (Suc n)
  then show ?case
    by (auto simp: bnd_Ok_iff split: if_splits dest!: running_consputc Suc.IH) (simp_all add: running_def fun_eq_iff)
qed simp

lemma running_consoleintr: "consoleintr h c s = Ok () t \<Longrightarrow> running t = running s"
  by (auto simp: consoleintr_def bnd_Ok_iff Let_def split: if_splits dest!: running_consputc running_procdump running_kill_line)
    (simp_all add: running_def fun_eq_iff wakeup_def)

lemma running_uartintr: "uartintr h b cs s = Ok () t \<Longrightarrow> running t = running s"
proof -
  assume "uartintr h b cs s = Ok () t"
  then have "running t = running (if b then wakeup h ChanTx (s\<lparr>tx_busy := False\<rparr>) else s)"
    by (auto simp: uartintr_def intro: mfor_keeps[where F = running] running_consoleintr)
  then show ?thesis by (simp add: running_def fun_eq_iff wakeup_def)
qed

lemma uartintr_keys:
  assumes "cons_inv h s"
  shows "\<exists>t. uartintr h b cs s = Ok () t \<and> cons_inv h t \<and> (pending t, edit_line t) = fold key cs (pending s, edit_line s)"
proof -
  let ?s = "if b then wakeup h ChanTx (s\<lparr>tx_busy := False\<rparr>) else s"
  have "cons_inv h ?s \<and> pending ?s = pending s \<and> edit_line ?s = edit_line s"
    using assms by (simp add: cons_inv_def pending_def edit_line_def slice_def wakeup_def)
  then show ?thesis using keyboard.strokes_ok[of h ?s cs] by (auto simp: uartintr_def)
qed

text \<open>A console that has just been set up, on the machine of the buffer cache's witness.\<close>

definition cons_boot :: kcons where
  "cons_boot = kfs.extend (klog.extend (kbio.extend bio_boot (klog.fields 2 0 False 1 0 (\<lambda>_. 0)))
     (kfs.fields (get_superblock (\<lambda>_. 0)) (\<lambda>_. \<lparr>i_dev = 0, i_inum = 0, i_ref = 0, i_valid = False, i_type = 0, i_major = 0,
       i_minor = 0, i_nlink = 0, i_size = 0, i_addrs = []\<rparr>))) (kcons.fields (\<lambda>_. 0) 0 0 0 False [] (\<lambda>_. False))"

lemma cons_boot_facts:
  "cons_inv 0 cons_boot" "pending cons_boot = []" "edit_line cons_boot = []" "myproc 0 cons_boot = Some 0"
  by (simp_all add: cons_boot_def kfs.defs klog.defs kbio.defs kcons.defs cons_inv_def pending_def edit_line_def slice_def
      myproc_def bio_boot_def boot_mem_def boot_world_def boot_cpu_def)

text \<open>
  C8. The console is a line editor: whatever bytes arrive in an interrupt, \<open>uartintr\<close> returns, the ring keeps its
  invariant, and the input handed to readers together with the line under edit change as the editor \<open>key\<close> says:
  erase takes one byte and kill the whole line, never a byte already handed over, a carriage return becomes
  a newline, a line is handed over when it ends or the 128 bytes are used up, and bytes for which there is no room are
  dropped.
\<close>

theorem console_refines_line_editor:
  assumes "cons_inv h s"
  shows "\<exists>t. uartintr h idle cs s = Ok () t \<and> cons_inv h t \<and>
    (pending t, edit_line t) = fold key cs (pending s, edit_line s)"
  by (rule uartintr_keys[OF assms])

theorem console_refines_line_editor_witness:
  "\<exists>t. uartintr 0 True [104, 105, 0x7f, 111, 13, 97] cons_boot = Ok () t \<and> pending t = [104, 111, 10] \<and> edit_line t = [97]"
  using console_refines_line_editor[OF cons_boot_facts(1), of True "[104, 105, 0x7f, 111, 13, 97]"] cons_boot_facts(2,3)
  by (auto simp: Let_def INPUT_BUF_SIZE_def)



section \<open>Output to the device\<close>

lemma uartwrite_waits_sends:
  "length cs \<le> k \<Longrightarrow> \<exists>t. uartwrite_waits h k cs s = Some t \<and> uart_writes t = uart_writes s @ map (Pair THR) cs"
proof (induction cs arbitrary: k s)
  case (Cons c cs)
  then obtain j where j: "k = Suc j" "length cs \<le> j" by (cases k) auto
  let ?b = "(WriteReg THR c (wakeup h ChanTx (s\<lparr>tx_busy := False\<rparr>)))\<lparr>tx_busy := True\<rparr>"
  let ?i = "(WriteReg THR c s)\<lparr>tx_busy := True\<rparr>"
  have w: "uart_writes ?b = uart_writes s @ [(THR, c)]" "uart_writes ?i = uart_writes s @ [(THR, c)]"
    by (simp_all add: WriteReg_def wakeup_def)
  show ?case
  proof (cases "tx_busy s")
    case True
    then show ?thesis using Cons.IH[OF j(2), of ?b] w(1) j(1) by auto
  next
    case False
    then show ?thesis using Cons.IH[of k ?i] w(2) Cons.prems by auto
  qed
qed simp

lemma uartwrite_none_waits:
  "uartwrite_waits h 0 cs s = (case uartwrite cs s of Ok _ t \<Rightarrow> Some t | _ \<Rightarrow> None)"
  by (induction cs arbitrary: s) simp_all


end
