(* ===== verification/File.thy ===== *)
theory File
  imports Console
begin

text \<open>
  Open files and pipes: \<^verbatim>\<open>kernel/file.c\<close> and \<^verbatim>\<open>kernel/pipe.c\<close>. A file is its index in the file table. A pipe lies in a
  page of its own and is named by the page's address, as a trapframe is; the page's bytes are not kept a second time in
  the physical memory. Each critical section of a spin lock is one step.
\<close>

datatype fdtype = FD_NONE | FD_PIPE | FD_INODE | FD_DEVICE

record file_t =
  f_type :: fdtype
  f_ref :: int
  f_readable :: bool
  f_writable :: bool
  f_pipe :: u64
  f_ip :: nat
  f_off :: u32
  f_major :: int

definition PIPESIZE :: nat where "PIPESIZE = 512"

record pipe =
  pi_data :: "nat \<Rightarrow> byte"
  nread :: u32
  nwrite :: u32
  readopen :: bool
  writeopen :: bool

record kfile = kcons +
  ftable :: "nat \<Rightarrow> file_t"
  pipes :: "u64 \<Rightarrow> pipe"

definition upd_file :: "nat \<Rightarrow> (file_t \<Rightarrow> file_t) \<Rightarrow> 'a kfile_scheme \<Rightarrow> 'a kfile_scheme" where
  "upd_file f g s = s\<lparr>ftable := (ftable s)(f := g (ftable s f))\<rparr>"

definition upd_pipe :: "u64 \<Rightarrow> (pipe \<Rightarrow> pipe) \<Rightarrow> 'a kfile_scheme \<Rightarrow> 'a kfile_scheme" where
  "upd_pipe pi g s = s\<lparr>pipes := (pipes s)(pi := g (pipes s pi))\<rparr>"

section \<open>The file table\<close>

definition fileinit :: "'a kfile_scheme \<Rightarrow> 'a kfile_scheme" where
  "fileinit s = initlock LkFtable ''ftable'' s"

definition filealloc :: "'a kfile_scheme \<Rightarrow> nat option \<times> 'a kfile_scheme" where
  "filealloc s =
     (case scan_index (\<lambda>f. f_ref (ftable s f) = 0) [0..<NFILE] of
        None \<Rightarrow> (None, s)
      | Some f \<Rightarrow> (Some f, upd_file f (\<lambda>x. x\<lparr>f_ref := 1\<rparr>) s))"

definition filedup :: "nat \<Rightarrow> 'a kfile_scheme \<Rightarrow> (unit, 'a kfile_scheme) res" where
  "filedup f s =
     (if f_ref (ftable s f) < 1 then Panic ''filedup''
      else Ok () (upd_file f (\<lambda>x. x\<lparr>f_ref := i32 (f_ref x + 1)\<rparr>) s))"

section \<open>Pipes\<close>

definition pipeclose :: "nat \<Rightarrow> u64 \<Rightarrow> bool \<Rightarrow> 'a kfile_scheme \<Rightarrow> (unit, 'a kfile_scheme) res" where
  "pipeclose h pi writable s =
     (let s = (if writable then wakeup h (ChanPipeRead (unat pi)) (upd_pipe pi (\<lambda>p. p\<lparr>writeopen := False\<rparr>) s)
               else wakeup h (ChanPipeWrite (unat pi)) (upd_pipe pi (\<lambda>p. p\<lparr>readopen := False\<rparr>) s))
      in if \<not> readopen (pipes s pi) \<and> \<not> writeopen (pipes s pi) then kfree pi s else Ok () s)"

definition fileclose :: "nat \<Rightarrow> nat \<Rightarrow> 'a kfile_scheme \<Rightarrow> (unit, 'a kfile_scheme) res" where
  "fileclose h f s =
     (if f_ref (ftable s f) < 1 then Panic ''fileclose''
      else
        let s = upd_file f (\<lambda>x. x\<lparr>f_ref := f_ref x - 1\<rparr>) s in
        if f_ref (ftable s f) > 0 then Ok () s
        else
          let ff = ftable s f;
              s = upd_file f (\<lambda>x. x\<lparr>f_ref := 0, f_type := FD_NONE\<rparr>) s
          in case f_type ff of
               FD_PIPE \<Rightarrow> pipeclose h (f_pipe ff) (f_writable ff) s
             | FD_NONE \<Rightarrow> Ok () s
             | _ \<Rightarrow> bnd (begin_op s) (\<lambda>_ s. bnd (iput h (f_ip ff) s) (\<lambda>_ s. end_op h s)))"

text \<open>The exit at the label \<^verbatim>\<open>bad\<close>: no page is ever held there.\<close>

abbreviation (input) pipealloc_bad :: "nat \<Rightarrow> nat option \<Rightarrow> nat option \<Rightarrow> 'a kfile_scheme \<Rightarrow> ((nat \<times> nat) option, 'a kfile_scheme) res" where
  "pipealloc_bad h f0 f1 s \<equiv>
     bnd (case f0 of None \<Rightarrow> Ok () s | Some f \<Rightarrow> fileclose h f s) (\<lambda>_ s.
     bnd (case f1 of None \<Rightarrow> Ok () s | Some f \<Rightarrow> fileclose h f s) (\<lambda>_ s. Ok None s))"

definition pipealloc :: "nat \<Rightarrow> 'a kfile_scheme \<Rightarrow> ((nat \<times> nat) option, 'a kfile_scheme) res" where
  "pipealloc h s =
     (case filealloc s of
        (None, s) \<Rightarrow> pipealloc_bad h None None s
      | (Some f0, s) \<Rightarrow>
          (case filealloc s of
             (None, s) \<Rightarrow> pipealloc_bad h (Some f0) None s
           | (Some f1, s) \<Rightarrow>
               bnd (kalloc s) (\<lambda>pi s.
                 if pi = 0 then pipealloc_bad h (Some f0) (Some f1) s
                 else
                   let s = upd_pipe pi (\<lambda>p. p\<lparr>readopen := True, writeopen := True, nwrite := 0, nread := 0\<rparr>) s;
                       s = initlock (LkPipe (unat pi)) ''pipe'' s;
                       s = upd_file f0 (\<lambda>x. x\<lparr>f_type := FD_PIPE, f_readable := True, f_writable := False, f_pipe := pi\<rparr>) s;
                       s = upd_file f1 (\<lambda>x. x\<lparr>f_type := FD_PIPE, f_readable := False, f_writable := True, f_pipe := pi\<rparr>) s
                   in Ok (Some (f0, f1)) s)))"

text \<open>The loop of \<^verbatim>\<open>pipewrite\<close> with \<open>k\<close> bytes to go, \<open>i\<close> done.\<close>

fun pipewrite_loop :: "nat \<Rightarrow> nat \<Rightarrow> u64 \<Rightarrow> u64 \<Rightarrow> nat \<Rightarrow> nat \<Rightarrow> 'a kfile_scheme \<Rightarrow> (int, 'a kfile_scheme) res" where
  "pipewrite_loop h pr pi addr 0 i s = Ok (int i) (wakeup h (ChanPipeRead (unat pi)) s)"
| "pipewrite_loop h pr pi addr (Suc k) i s =
     (if \<not> readopen (pipes s pi) \<or> killed pr s \<noteq> 0 then Ok (-1) s
      else if nwrite (pipes s pi) = nread (pipes s pi) + of_nat PIPESIZE then
        Sleep (ChanPipeWrite (unat pi)) (wakeup h (ChanPipeRead (unat pi)) s)
      else
        bnd (copyin h (p_pagetable (proc s ! pr)) (addr + of_nat i) 1 s) (\<lambda>(r, bs) s.
          if r = -1 then Ok (int i) (wakeup h (ChanPipeRead (unat pi)) s)
          else
            pipewrite_loop h pr pi addr k (Suc i)
              (upd_pipe pi (\<lambda>p. p\<lparr>pi_data := (pi_data p)(ring_at PIPESIZE (nwrite p) := bs ! 0), nwrite := nwrite p + 1\<rparr>) s)))"

definition pipewrite :: "nat \<Rightarrow> u64 \<Rightarrow> u64 \<Rightarrow> int \<Rightarrow> 'a kfile_scheme \<Rightarrow> (int, 'a kfile_scheme) res" where
  "pipewrite h pi addr n s =
     (case myproc h s of
        None \<Rightarrow> Panic ''kerneltrap''
      | Some pr \<Rightarrow> pipewrite_loop h pr pi addr (nat n) 0 s)"

fun piperead_loop :: "nat \<Rightarrow> nat \<Rightarrow> u64 \<Rightarrow> u64 \<Rightarrow> nat \<Rightarrow> nat \<Rightarrow> 'a kfile_scheme \<Rightarrow> (int, 'a kfile_scheme) res" where
  "piperead_loop h pr pi addr 0 i s = Ok (int i) s"
| "piperead_loop h pr pi addr (Suc k) i s =
     (if nread (pipes s pi) = nwrite (pipes s pi) then Ok (int i) s
      else
        let ch = pi_data (pipes s pi) (ring_at PIPESIZE (nread (pipes s pi))) in
        bnd (copyout h (p_pagetable (proc s ! pr)) (addr + of_nat i) (\<lambda>_. ch) 1 s) (\<lambda>r s.
          if r = -1 then Ok (if i = 0 then -1 else int i) s
          else piperead_loop h pr pi addr k (Suc i) (upd_pipe pi (\<lambda>p. p\<lparr>nread := nread p + 1\<rparr>) s)))"

definition piperead :: "nat \<Rightarrow> u64 \<Rightarrow> u64 \<Rightarrow> int \<Rightarrow> 'a kfile_scheme \<Rightarrow> (int, 'a kfile_scheme) res" where
  "piperead h pi addr n s =
     (case myproc h s of
        None \<Rightarrow> Panic ''kerneltrap''
      | Some pr \<Rightarrow>
          if nread (pipes s pi) = nwrite (pipes s pi) \<and> writeopen (pipes s pi) then
            if killed pr s \<noteq> 0 then Ok (-1) s else Sleep (ChanPipeRead (unat pi)) s
          else
            bnd (piperead_loop h pr pi addr (nat n) 0 s) (\<lambda>i s. Ok i (wakeup h (ChanPipeWrite (unat pi)) s)))"

section \<open>Operations on open files\<close>

text \<open>\<^verbatim>\<open>struct stat\<close> as it lies in memory: 24 bytes, with four bytes of padding before the size.\<close>

definition stat_bytes :: "(nat \<Rightarrow> byte) \<Rightarrow> stat \<Rightarrow> nat \<Rightarrow> byte" where
  "stat_bytes junk st =
     st64 (st16 (st16 (st32 (st32 junk 0 (st_dev st)) 4 (st_ino st)) 8 (st_type st)) 10 (st_nlink st)) 16 (st_size st)"

definition filestat :: "nat \<Rightarrow> (nat \<Rightarrow> byte) \<Rightarrow> nat \<Rightarrow> u64 \<Rightarrow> 'a kfile_scheme \<Rightarrow> (int, 'a kfile_scheme) res" where
  "filestat h junk f addr s =
     (case myproc h s of
        None \<Rightarrow> Panic ''kerneltrap''
      | Some p \<Rightarrow>
          let ip = f_ip (ftable s f) in
          if f_type (ftable s f) = FD_INODE \<or> f_type (ftable s f) = FD_DEVICE then
            bnd (ilock h ip s) (\<lambda>_ s.
              let st = stati (itable s ip) in
              bnd (iunlock h ip s) (\<lambda>_ s.
              bnd (copyout h (p_pagetable (proc s ! p)) addr (stat_bytes junk st) 24 s) (\<lambda>r s.
                Ok (if r < 0 then -1 else 0) s)))
          else Ok (-1) s)"

abbreviation (input) dev_ok :: "int \<Rightarrow> 'a kfile_scheme \<Rightarrow> bool" where
  "dev_ok major s \<equiv> 0 \<le> major \<and> major < int NDEV \<and> devsw s (nat major)"

definition fileread :: "nat \<Rightarrow> nat \<Rightarrow> u64 \<Rightarrow> int \<Rightarrow> 'a kfile_scheme \<Rightarrow> (int, 'a kfile_scheme) res" where
  "fileread h f addr n s =
     (let ff = ftable s f in
      if \<not> f_readable ff then Ok (-1) s
      else case f_type ff of
             FD_PIPE \<Rightarrow> piperead h (f_pipe ff) addr n s
           | FD_DEVICE \<Rightarrow> if dev_ok (f_major ff) s then consoleread h (UserA addr) n s else Ok (-1) s
           | FD_INODE \<Rightarrow>
               bnd (ilock h (f_ip ff) s) (\<lambda>_ s.
               bnd (readi h (f_ip ff) (UserA addr) (f_off (ftable s f)) (word_of_int n) s) (\<lambda>(r, _) s.
                 let s = if r > 0 then upd_file f (\<lambda>x. x\<lparr>f_off := f_off x + word_of_int r\<rparr>) s else s in
                 bnd (iunlock h (f_ip ff) s) (\<lambda>_ s. Ok r s)))
           | FD_NONE \<Rightarrow> Panic ''fileread'')"

text \<open>The most that one transaction writes.\<close>

definition write_max :: nat where
  "write_max = (MAXOPBLOCKS - 1 - 1 - 2) div 2 * BSIZE"

lemma write_max_pos: "0 < write_max"
  by (simp add: write_max_def param_defs BSIZE_def)

function filewrite_loop :: "nat \<Rightarrow> nat \<Rightarrow> u64 \<Rightarrow> nat \<Rightarrow> nat \<Rightarrow> 'a kfile_scheme \<Rightarrow> (int, 'a kfile_scheme) res" where
  "filewrite_loop h f addr n i s =
     (if i < n then
        let n1 = min write_max (n - i); ip = f_ip (ftable s f) in
        bnd (begin_op s) (\<lambda>_ s.
        bnd (ilock h ip s) (\<lambda>_ s.
        bnd (writei h ip (UserA (addr + of_nat i)) (f_off (ftable s f)) (of_nat n1) s) (\<lambda>r s.
          let s = if r > 0 then upd_file f (\<lambda>x. x\<lparr>f_off := f_off x + word_of_int r\<rparr>) s else s in
          bnd (iunlock h ip s) (\<lambda>_ s.
          bnd (end_op h s) (\<lambda>_ s.
            if r \<noteq> int n1 then Ok (-1) s else filewrite_loop h f addr n (i + n1) s)))))
      else Ok (int n) s)"
  by pat_completeness auto
termination
  by (relation "measure (\<lambda>(h, f, addr, n, i, s). n - i)") (use write_max_pos in auto)

declare filewrite_loop.simps [simp del]

definition filewrite :: "nat \<Rightarrow> nat \<Rightarrow> u64 \<Rightarrow> int \<Rightarrow> 'a kfile_scheme \<Rightarrow> (int, 'a kfile_scheme) res" where
  "filewrite h f addr n s =
     (let ff = ftable s f in
      if \<not> f_writable ff then Ok (-1) s
      else case f_type ff of
             FD_PIPE \<Rightarrow> pipewrite h (f_pipe ff) addr n s
           | FD_DEVICE \<Rightarrow> if dev_ok (f_major ff) s then consolewrite h (UserA addr) n s else Ok (-1) s
           | FD_INODE \<Rightarrow> if n < 0 then Ok (-1) s else filewrite_loop h f addr (nat n) 0 s
           | FD_NONE \<Rightarrow> Panic ''filewrite'')"


section \<open>A pipe is a queue of bytes\<close>

interpretation pipe_ring: ring_buffer PIPESIZE
  by unfold_locales (simp_all add: PIPESIZE_def)

definition pipe_contents :: "pipe \<Rightarrow> byte list" where
  "pipe_contents p = ring_slice PIPESIZE (pi_data p) (nread p) (unat (nwrite p - nread p))"

definition pipe_ok :: "pipe \<Rightarrow> bool" where
  "pipe_ok p \<longleftrightarrow> unat (nwrite p - nread p) \<le> PIPESIZE"

lemma pipe_contents_length: "length (pipe_contents p) = unat (nwrite p - nread p)"
  by (simp add: pipe_contents_def)

lemma pipe_full: "nwrite p = nread p + of_nat PIPESIZE \<longleftrightarrow> length (pipe_contents p) = PIPESIZE"
proof -
  have "nwrite p = nread p + of_nat PIPESIZE \<longleftrightarrow> nwrite p - nread p = of_nat PIPESIZE" by (auto simp: algebra_simps)
  also have "\<dots> \<longleftrightarrow> unat (nwrite p - nread p) = PIPESIZE" by (simp add: word_unat_eq_iff PIPESIZE_def)
  finally show ?thesis by (simp add: pipe_contents_length)
qed

lemma pipe_empty: "nread p = nwrite p \<longleftrightarrow> pipe_contents p = []"
  by (auto simp: pipe_contents_def unat_eq_0)

lemma pipe_put:
  fixes c :: byte
  assumes "length (pipe_contents p) < PIPESIZE"
  defines "q \<equiv> p\<lparr>pi_data := (pi_data p)(ring_at PIPESIZE (nwrite p) := c), nwrite := nwrite p + 1\<rparr>"
  shows "pipe_contents q = pipe_contents p @ [c]"
proof -
  have l: "unat (nwrite p - nread p) < PIPESIZE" using assms(1) by (simp add: pipe_contents_length)
  show ?thesis
    using pipe_ring.slice_push[OF l, of "pi_data p" c] pipe_ring.push_distance[OF l] by (simp add: pipe_contents_def q_def)
qed

lemma pipe_get:
  assumes "nread p \<noteq> nwrite p"
  shows "pipe_contents p = pi_data p (ring_at PIPESIZE (nread p)) # pipe_contents (p\<lparr>nread := nread p + 1\<rparr>)"
  unfolding pipe_contents_def counter_step[OF assms] by (simp add: ring_slice_Cons)

lemma pipe_ok_contents: "pipe_ok p \<longleftrightarrow> length (pipe_contents p) \<le> PIPESIZE"
  by (simp add: pipe_ok_def pipe_contents_length)

lemma pt_ok_pipes: "pt_ok s pt S xs \<Longrightarrow> pt_ok (s\<lparr>pipes := P\<rparr>) pt S xs"
  by (simp add: pt_inv_def free_pages_def page_ok_def)

lemma ubyte_pipes [simp]: "ubyte (s\<lparr>pipes := P\<rparr>) pt = ubyte s pt" "umapped (s\<lparr>pipes := P\<rparr>) pt = umapped s pt"
  by (simp_all add: ubyte_def umapped_def user_pa_def pte_of_def fun_eq_iff)

lemma pipewrite_loop_ok:
  assumes "pt_ok s pt S xs" and "p_pagetable (proc s ! pr) = pt" and "killed pr s = 0"
    and "readopen (pipes s pi)" and "length (pipe_contents (pipes s pi)) + k \<le> PIPESIZE"
    and "a + i + k < 2 ^ 38" and "\<forall>b\<in>{a + i..<a + i + k}. umapped s pt b"
  shows "\<exists>q. pipewrite_loop h pr pi (of_nat a) k i s =
       Ok (int (i + k)) (wakeup h (ChanPipeRead (unat pi)) (s\<lparr>pipes := (pipes s)(pi := q)\<rparr>)) \<and>
     pipe_contents q = pipe_contents (pipes s pi) @ map (ubyte s pt) [a + i..<a + i + k] \<and>
     readopen q = readopen (pipes s pi) \<and> writeopen q = writeopen (pipes s pi)"
  using assms
proof (induction k arbitrary: i s)
  case 0
  show ?case by (rule exI[of _ "pipes s pi"]) simp
next
  case (Suc k)
  let ?p = "pipes s pi" and ?c = "ubyte s pt (a + i)"
  let ?q = "?p\<lparr>pi_data := (pi_data ?p)(ring_at PIPESIZE (nwrite ?p) := ?c), nwrite := nwrite ?p + 1\<rparr>"
  let ?s = "s\<lparr>pipes := (pipes s)(pi := ?q)\<rparr>"
  have ci: "copyin h pt (word_of_nat (a + i)) (word_of_nat 1) s = Ok (0, map (ubyte s pt) [a + i..<a + i + 1]) s"
    using Suc.prems(6,7) by (intro copyin_bytes[OF Suc.prems(1)]) auto
  have nf: "nwrite ?p \<noteq> nread ?p + of_nat PIPESIZE" using Suc.prems(5) unfolding pipe_full by simp
  have step: "pipewrite_loop h pr pi (of_nat a) (Suc k) i s = pipewrite_loop h pr pi (of_nat a) k (Suc i) ?s"
    using Suc.prems(2-4) nf ci by (simp add: upd_pipe_def)
  have pc: "pipe_contents ?q = pipe_contents ?p @ [?c]" using Suc.prems(5) by (intro pipe_put) simp
  have "\<exists>q. pipewrite_loop h pr pi (of_nat a) k (Suc i) ?s =
       Ok (int (Suc i + k)) (wakeup h (ChanPipeRead (unat pi)) (?s\<lparr>pipes := (pipes ?s)(pi := q)\<rparr>)) \<and>
     pipe_contents q = pipe_contents (pipes ?s pi) @ map (ubyte ?s pt) [a + Suc i..<a + Suc i + k] \<and>
     readopen q = readopen (pipes ?s pi) \<and> writeopen q = writeopen (pipes ?s pi)"
    using Suc.prems pc by (intro Suc.IH pt_ok_pipes) (simp_all add: killed_def)
  then obtain q where q: "pipewrite_loop h pr pi (of_nat a) k (Suc i) ?s =
       Ok (int (Suc i + k)) (wakeup h (ChanPipeRead (unat pi)) (?s\<lparr>pipes := (pipes ?s)(pi := q)\<rparr>))"
     "pipe_contents q = pipe_contents (pipes ?s pi) @ map (ubyte ?s pt) [a + Suc i..<a + Suc i + k]"
     "readopen q = readopen (pipes ?s pi)" "writeopen q = writeopen (pipes ?s pi)" by blast
  have "[a + i..<a + i + Suc k] = (a + i) # [a + Suc i..<a + Suc i + k]" by (simp add: upt_rec[of "a + i"])
  then have c: "pipe_contents q = pipe_contents ?p @ map (ubyte s pt) [a + i..<a + i + Suc k]"
    using q(2) pc by simp
  have st: "?s\<lparr>pipes := (pipes ?s)(pi := q)\<rparr> = s\<lparr>pipes := (pipes s)(pi := q)\<rparr>" by simp
  have "pipewrite_loop h pr pi (of_nat a) (Suc k) i s =
      Ok (int (i + Suc k)) (wakeup h (ChanPipeRead (unat pi)) (s\<lparr>pipes := (pipes s)(pi := q)\<rparr>))"
    unfolding step q(1) st by simp
  moreover have "readopen q = readopen ?p" "writeopen q = writeopen ?p" using q(3,4) by simp_all
  ultimately show ?case using c by blast
qed

text \<open>A copy to user memory keeps the address space.\<close>

lemma same_ptes:
  assumes "\<And>va. pte_of t pt va = pte_of s pt va"
  shows "user_pa t pt = user_pa s pt" "umapped t pt = umapped s pt" "uwritable t pt = uwritable s pt"
  using assms by (simp_all add: user_pa_def umapped_def uwritable_def fun_eq_iff)

lemma user_sep_cong: "user_pa t pt = user_pa s pt \<Longrightarrow> user_sep t pt S xs = user_sep s pt S xs"
  by (simp add: user_sep_def)

lemma piperead_loop_ok:
  fixes pi :: u64
  assumes "pt_ok s pt S xs" and "user_sep s pt S xs" and "p_pagetable (proc s ! pr) = pt"
    and "a + i + k < 2 ^ 38" and "\<forall>b\<in>{a + i..<a + i + k}. uwritable s pt b"
  defines "m \<equiv> min k (length (pipe_contents (pipes s pi)))"
  shows "\<exists>t. piperead_loop h pr pi (of_nat a) k i s = Ok (int (i + m)) t \<and>
     pipe_contents (pipes t pi) = drop m (pipe_contents (pipes s pi)) \<and>
     (\<forall>b. umapped s pt b \<longrightarrow> ubyte t pt b =
       (if a + i \<le> b \<and> b < a + i + m then pipe_contents (pipes s pi) ! (b - (a + i)) else ubyte s pt b))"
  using assms(1-5) unfolding m_def
proof (induction k arbitrary: i s)
  case 0
  then show ?case by auto
next
  case (Suc k)
  let ?p = "pipes s pi"
  show ?case
  proof (cases "nread ?p = nwrite ?p")
    case True
    then show ?thesis using iffD1[OF pipe_empty True] by auto
  next
    case False
    let ?c = "pi_data ?p (ring_at PIPESIZE (nread ?p))" and ?q = "?p\<lparr>nread := nread ?p + 1\<rparr>"
    have pc: "pipe_contents ?p = ?c # pipe_contents ?q" by (rule pipe_get[OF False])
    obtain u where u: "copyout h pt (word_of_nat (a + i)) (\<lambda>_. ?c) (word_of_nat 1) s = Ok 0 u" "pt_ok u pt S xs" "mem_only s u"
        "\<And>va. pte_of u pt va = pte_of s pt va"
        "\<And>b. umapped s pt b \<Longrightarrow> ubyte u pt b = (if a + i \<le> b \<and> b < a + i + 1 then ?c else ubyte s pt b)"
      using copyout_bytes[OF Suc.prems(1,2), of "a + i" 1 h "\<lambda>_. ?c"] Suc.prems(4,5) by auto
    have f: "pipes u = pipes s" "proc u = proc s" using u(3) by (auto simp: mem_only_def)
    let ?u = "u\<lparr>pipes := (pipes u)(pi := ?q)\<rparr>"
    have pt: "pte_of ?u pt va = pte_of s pt va" for va using u(4) by (simp add: pte_of_def)
    have step: "piperead_loop h pr pi (of_nat a) (Suc k) i s = piperead_loop h pr pi (of_nat a) k (Suc i) ?u"
      using Suc.prems(3) False u(1) f by (simp add: upd_pipe_def Let_def)
    have "user_sep ?u pt S xs" using user_sep_cong[OF same_ptes(1)[OF pt]] Suc.prems(2) by blast
    moreover have "\<forall>b\<in>{a + Suc i..<a + Suc i + k}. uwritable ?u pt b"
      using Suc.prems(5) unfolding same_ptes(3)[OF pt] by auto
    ultimately obtain t where t: "piperead_loop h pr pi (of_nat a) k (Suc i) ?u =
          Ok (int (Suc i + min k (length (pipe_contents ?q)))) t"
        "pipe_contents (pipes t pi) = drop (min k (length (pipe_contents ?q))) (pipe_contents ?q)"
        "\<And>b. umapped s pt b \<Longrightarrow> ubyte t pt b = (if a + Suc i \<le> b \<and> b < a + Suc i + min k (length (pipe_contents ?q))
           then pipe_contents ?q ! (b - (a + Suc i)) else ubyte u pt b)"
      using Suc.IH[of ?u "Suc i", OF pt_ok_pipes[OF u(2)]] Suc.prems(3,4) same_ptes(2)[OF pt] f by (auto simp: fun_eq_iff)
    have "ubyte t pt b = (if a + i \<le> b \<and> b < a + i + Suc (min k (length (pipe_contents ?q)))
        then (?c # pipe_contents ?q) ! (b - (a + i)) else ubyte s pt b)" if "umapped s pt b" for b
      using t(3)[OF that] u(5)[OF that] by (cases "b - (a + i)") (auto simp: le_Suc_eq diff_Suc)
    then show ?thesis unfolding step pc using t(1,2) by (intro exI[of _ t]) simp
  qed
qed

text \<open>
  C12. A pipe carries bytes in order: when the writing process writes \<open>n\<close> bytes of its memory into an empty pipe that has
  room for them, \<open>pipewrite\<close> returns \<open>n\<close> without waiting, and a following \<open>piperead\<close> of up to \<open>m\<close> bytes by the reading
  process, in its own address space, returns the smaller of the two counts with the first of these bytes in the
  reader's memory, and leaves the others in the pipe.
\<close>

theorem pipe_transfers_in_order:
  assumes "myproc h s = Some w" and "p_pagetable (proc s ! w) = pw" and "pt_ok s pw Sw xs" and "killed w s = 0"
    and "a + n < 2 ^ 38" and "\<forall>c\<in>{a..<a + n}. umapped s pw c"
    and "myproc g s = Some r" and "r < length (proc s)" and "p_pagetable (proc s ! r) = pr" and "pt_ok s pr Sr xs"
    and "user_sep s pr Sr xs" and "b + m < 2 ^ 38" and "\<forall>c\<in>{b..<b + m}. uwritable s pr c"
    and "pipe_contents (pipes s pi) = []" and "readopen (pipes s pi)" and "0 < n" and "n \<le> PIPESIZE"
  shows "\<exists>t u. pipewrite h pi (of_nat a) (int n) s = Ok (int n) t \<and> piperead g pi (of_nat b) (int m) t = Ok (int (min m n)) u \<and>
    map (ubyte u pr) [b..<b + min m n] = map (ubyte s pw) [a..<a + min m n] \<and>
    pipe_contents (pipes u pi) = map (ubyte s pw) [a + min m n..<a + n]"
proof -
  obtain q where q: "pipewrite_loop h w pi (of_nat a) n 0 s =
      Ok (int n) (wakeup h (ChanPipeRead (unat pi)) (s\<lparr>pipes := (pipes s)(pi := q)\<rparr>))"
      "pipe_contents q = map (ubyte s pw) [a..<a + n]"
    using pipewrite_loop_ok[OF assms(3,2,4,15), of n a 0 h] assms(5,6,14,17) by auto
  let ?t = "wakeup h (ChanPipeRead (unat pi)) (s\<lparr>pipes := (pipes s)(pi := q)\<rparr>)"
  have t: "pipes ?t pi = q" "phys ?t = phys s" "myproc g ?t = Some r" "pt_ok ?t pr Sr xs" "p_pagetable (proc ?t ! r) = pr"
      "\<And>va. pte_of ?t pr va = pte_of s pr va"
    using assms(7-10) by (simp_all add: wakeup_def myproc_def pt_inv_def free_pages_def page_ok_def pte_of_def nth_enumerate_eq)
  have len: "length (pipe_contents q) = n" using q(2) by simp
  have sep: "user_sep ?t pr Sr xs" using user_sep_cong[OF same_ptes(1)[OF t(6)]] assms(11) by blast
  have "\<forall>c\<in>{b..<b + m}. uwritable ?t pr c" using assms(13) unfolding same_ptes(3)[OF t(6)] .
  then obtain u where u: "piperead_loop g r pi (of_nat b) m 0 ?t = Ok (int (min m n)) u"
      "pipe_contents (pipes u pi) = drop (min m n) (pipe_contents q)"
      "\<And>c. umapped s pr c \<Longrightarrow> ubyte u pr c = (if b \<le> c \<and> c < b + min m n then pipe_contents q ! (c - b) else ubyte ?t pr c)"
    using piperead_loop_ok[OF t(4) sep t(5), of b 0 m g pi] assms(12) len t(1) same_ptes(2)[OF t(6)] by auto
  have "map (ubyte u pr) [b..<b + min m n] = take (min m n) (pipe_contents q)"
    using u(3) assms(13) len by (intro nth_equalityI) (auto simp: uwritable_def)
  moreover have "nread q \<noteq> nwrite q" unfolding pipe_empty using len assms(16) by auto
  then have "piperead g pi (of_nat b) (int m) ?t = Ok (int (min m n)) (wakeup g (ChanPipeWrite (unat pi)) u)"
    using t(1,3) u(1) by (simp add: piperead_def)
  moreover have "ubyte (wakeup g (ChanPipeWrite (unat pi)) u) pr = ubyte u pr" "pipes (wakeup g (ChanPipeWrite (unat pi)) u) = pipes u"
    by (simp_all add: wakeup_def ubyte_def user_pa_def pte_of_def fun_eq_iff)
  moreover have "pipewrite h pi (of_nat a) (int n) s = Ok (int n) ?t" using assms(1) q(1) by (simp add: pipewrite_def)
  ultimately show ?thesis using u(2) q(2)
    by (intro exI[of _ ?t] exI[of _ "wakeup g (ChanPipeWrite (unat pi)) u"] conjI) (auto simp: take_map drop_map)
qed

text \<open>The console's machine with the address space of the user-memory witness given to process 0, and an empty pipe.\<close>

definition file_boot :: kfile where
  "file_boot = kcons.extend (cons_boot\<lparr>phys := phys user_state, kmem_freelist := kmem_freelist user_state, k_end := k_end user_state,
     proc := (proc cons_boot)[0 := blank_proc\<lparr>p_pagetable := 0x87FFC000, p_state := RUNNING\<rparr>]\<rparr>)
     (kfile.fields (\<lambda>_. \<lparr>f_type = FD_NONE, f_ref = 0, f_readable = False, f_writable = False, f_pipe = 0, f_ip = 0, f_off = 0,
        f_major = 0\<rparr>)
      (\<lambda>_. \<lparr>pi_data = (\<lambda>_. 0), nread = 0xFFFFFFFE, nwrite = 0xFFFFFFFE, readopen = True, writeopen = True\<rparr>))"

lemma file_boot_mem:
  "phys file_boot = phys user_state" "kmem_freelist file_boot = kmem_freelist user_state" "k_end file_boot = k_end user_state"
  "myproc 0 file_boot = Some 0" "proc file_boot ! 0 = blank_proc\<lparr>p_pagetable := 0x87FFC000, p_state := RUNNING\<rparr>"
  "length (proc file_boot) = NPROC" "pipes file_boot pi = \<lparr>pi_data = (\<lambda>_. 0), nread = 0xFFFFFFFE, nwrite = 0xFFFFFFFE, readopen = True, writeopen = True\<rparr>"
  by (simp_all add: file_boot_def cons_boot_def kfs.defs klog.defs kbio.defs kcons.defs kfile.defs bio_boot_def boot_mem_def
      boot_world_def myproc_def NPROC_def)

lemma file_boot_user:
  "pte_of file_boot pt va = pte_of user_state pt va" "umapped file_boot pt = umapped user_state pt"
  "uwritable file_boot pt = uwritable user_state pt" "ubyte file_boot pt = ubyte user_state pt"
  by (simp_all add: pte_of_def umapped_def uwritable_def ubyte_def user_pa_def file_boot_mem fun_eq_iff)

lemma file_boot_space:
  "pt_ok file_boot 0x87FFC000 {0x87FFC000, 0x87FFF000, 0x87FFE000} []"
  "user_sep file_boot 0x87FFC000 {0x87FFC000, 0x87FFF000, 0x87FFE000} []"
proof -
  show "pt_ok file_boot 0x87FFC000 {0x87FFC000, 0x87FFF000, 0x87FFE000} []"
    using user_state_ok unfolding pt_inv_def free_pages_def page_ok_def file_boot_mem .
  show "user_sep file_boot 0x87FFC000 {0x87FFC000, 0x87FFF000, 0x87FFE000} []"
    using user_state_sep user_sep_cong[OF same_ptes(1)[OF file_boot_user(1)]] by blast
qed

theorem pipe_transfers_in_order_witness:
  "\<exists>t u. pipewrite 0 0x87FFB000 (of_nat 0) (int 5) file_boot = Ok (int 5) t \<and>
    piperead 0 0x87FFB000 (of_nat 100) (int 3) t = Ok (int (min 3 5)) u \<and>
    map (ubyte u 0x87FFC000) [100..<100 + min 3 5] = map (ubyte file_boot 0x87FFC000) [0..<0 + min 3 5]"
proof -
  have "\<forall>c\<in>{0..<0 + 5}. umapped file_boot 0x87FFC000 c" "\<forall>c\<in>{100..<100 + 3}. uwritable file_boot 0x87FFC000 c"
    using user_state_writable by (simp_all add: file_boot_user)
  then obtain t u where "pipewrite 0 0x87FFB000 (of_nat 0) (int 5) file_boot = Ok (int 5) t"
      "piperead 0 0x87FFB000 (of_nat 100) (int 3) t = Ok (int (min 3 5)) u"
      "map (ubyte u 0x87FFC000) [100..<100 + min 3 5] = map (ubyte file_boot 0x87FFC000) [0..<0 + min 3 5]"
    using pipe_transfers_in_order[of 0 file_boot 0 "0x87FFC000" "{0x87FFC000, 0x87FFF000, 0x87FFE000}" "[]" 0 5 0 0 "0x87FFC000"
        "{0x87FFC000, 0x87FFF000, 0x87FFE000}" 100 3 "0x87FFB000", OF _ _ file_boot_space(1) _ _ _ _ _ _ file_boot_space]
    by (auto simp: file_boot_mem killed_def blank_proc_def NPROC_def pipe_contents_def PIPESIZE_def)
  then show ?thesis by blast
qed

end
