(* ===== verification/Lifecycle.thy ===== *)
theory Lifecycle
  imports File Energy
begin

text \<open>
  The life cycle of a process (\<^verbatim>\<open>kernel/proc.c\<close>): allocation, fork, memory growth, exit and wait, with the system calls of
  \<^verbatim>\<open>kernel/sysproc.c\<close> that wrap them. The sections under \<^verbatim>\<open>p->lock\<close> and \<^verbatim>\<open>wait_lock\<close> are single steps, except in \<^verbatim>\<open>kexit\<close>,
  whose locks the check of \<^verbatim>\<open>sched\<close> depends on. \<open>k_forkret\<close> is the address of \<^verbatim>\<open>forkret\<close>, \<open>k_uservec\<close>, \<open>k_userret\<close> and
  \<open>k_kernelvec\<close> are those of the assembly entry points, \<open>k_usertrap\<close> that of \<^verbatim>\<open>usertrap\<close>; \<open>first\<close> is the static flag of
  \<^verbatim>\<open>forkret\<close>.
\<close>

record klife = kfile +
  k_forkret :: u64
  k_uservec :: u64
  k_userret :: u64
  k_kernelvec :: u64
  k_usertrap :: u64
  first :: bool

section \<open>Page tables of processes\<close>

definition proc_pagetable :: "nat \<Rightarrow> 'a kvm_scheme \<Rightarrow> (u64, 'a kvm_scheme) res" where
  "proc_pagetable i s =
     bnd (uvmcreate s) (\<lambda>pagetable s.
       if pagetable = 0 then Ok 0 s
       else
         bnd (mappages pagetable TRAMPOLINE PGSIZE (k_trampoline s) (PTE_R OR PTE_X) s) (\<lambda>r s.
           if r < 0 then bnd (uvmfree pagetable 0 s) (\<lambda>_ s. Ok 0 s)
           else
             bnd (mappages pagetable TRAPFRAME PGSIZE (p_trapframe (proc s ! i)) (PTE_R OR PTE_W) s) (\<lambda>r s.
               if r < 0 then
                 bnd (uvmunmap pagetable TRAMPOLINE 1 False s) (\<lambda>_ s. bnd (uvmfree pagetable 0 s) (\<lambda>_ s. Ok 0 s))
               else Ok pagetable s)))"

definition proc_freepagetable :: "u64 \<Rightarrow> u64 \<Rightarrow> 'a kvm_scheme \<Rightarrow> (unit, 'a kvm_scheme) res" where
  "proc_freepagetable pagetable sz s =
     bnd (uvmunmap pagetable TRAMPOLINE 1 False s) (\<lambda>_ s.
     bnd (uvmunmap pagetable TRAPFRAME 1 False s) (\<lambda>_ s. uvmfree pagetable sz s))"

section \<open>Allocation\<close>

definition freeproc :: "nat \<Rightarrow> 'a kvm_scheme \<Rightarrow> (unit, 'a kvm_scheme) res" where
  "freeproc i s =
     bnd (if p_trapframe (proc s ! i) \<noteq> 0 then kfree (p_trapframe (proc s ! i)) s else Ok () s) (\<lambda>_ s.
       let s = upd_proc i (\<lambda>p. p\<lparr>p_trapframe := 0\<rparr>) s; p = proc s ! i in
       bnd (if p_pagetable p \<noteq> 0 then proc_freepagetable (p_pagetable p) (p_sz p) s else Ok () s) (\<lambda>_ s.
         Ok () (upd_proc i (\<lambda>p. p\<lparr>p_pagetable := 0, p_sz := 0, p_pid := 0, p_parent := None, p_name := (p_name p)[0 := 0],
           p_chan := ChanNull, p_killed := 0, p_xstate := 0, p_state := UNUSED\<rparr>) s)))"

abbreviation (input) zero_context :: kcontext where
  "zero_context \<equiv> \<lparr>ctx_ra = 0, ctx_sp = 0, ctx_s0 = 0, ctx_s1 = 0, ctx_s2 = 0, ctx_s3 = 0, ctx_s4 = 0, ctx_s5 = 0, ctx_s6 = 0,
     ctx_s7 = 0, ctx_s8 = 0, ctx_s9 = 0, ctx_s10 = 0, ctx_s11 = 0\<rparr>"

definition allocproc :: "'a klife_scheme \<Rightarrow> (nat option, 'a klife_scheme) res" where
  "allocproc s =
     (case scan_index (\<lambda>p. p_state p = UNUSED) (proc s) of
        None \<Rightarrow> Ok None s
      | Some i \<Rightarrow>
          let (pid, s) = allocpid s;
              s = upd_proc i (\<lambda>p. p\<lparr>p_pid := pid, p_state := USED\<rparr>) s
          in bnd (kalloc s) (\<lambda>tf s.
               let s = upd_proc i (\<lambda>p. p\<lparr>p_trapframe := tf\<rparr>) s in
               if tf = 0 then bnd (freeproc i s) (\<lambda>_ s. Ok None s)
               else
                 bnd (proc_pagetable i s) (\<lambda>pt s.
                   let s = upd_proc i (\<lambda>p. p\<lparr>p_pagetable := pt\<rparr>) s in
                   if pt = 0 then bnd (freeproc i s) (\<lambda>_ s. Ok None s)
                   else
                     Ok (Some i) (upd_proc i (\<lambda>p. p\<lparr>p_context := zero_context\<lparr>ctx_ra := k_forkret s, ctx_sp := p_kstack p + PGSIZE\<rparr>,
                       cpu_ticks := 0, sleep_count := 0, wake_count := 0, energy_score := 0, energy_priority := 0,
                       power_mode := 1, energy_budget := 0, energy_used := 0\<rparr>) s))))"

definition userinit :: "nat \<Rightarrow> 'a klife_scheme \<Rightarrow> (unit, 'a klife_scheme) res" where
  "userinit h s =
     bnd (allocproc s) (\<lambda>p s.
       case p of
         None \<Rightarrow> Panic ''kerneltrap''
       | Some i \<Rightarrow>
           bnd (namei h [47] (s\<lparr>initproc := Some i\<rparr>)) (\<lambda>ip s.
             Ok () (upd_proc i (\<lambda>p. p\<lparr>p_cwd := ip, p_state := RUNNABLE\<rparr>) s)))"

section \<open>Memory\<close>

definition growproc :: "nat \<Rightarrow> int \<Rightarrow> 'a kvm_scheme \<Rightarrow> (int, 'a kvm_scheme) res" where
  "growproc h n s =
     (case myproc h s of
        None \<Rightarrow> Panic ''kerneltrap''
      | Some i \<Rightarrow>
          let p = proc s ! i; sz = p_sz p in
          if n > 0 then
            if sz + word_of_int n > TRAPFRAME then Ok (-1) s
            else
              bnd (uvmalloc (p_pagetable p) sz (sz + word_of_int n) PTE_W s) (\<lambda>sz s.
                if sz = 0 then Ok (-1) s else Ok 0 (upd_proc i (\<lambda>p. p\<lparr>p_sz := sz\<rparr>) s))
          else if n < 0 then
            bnd (uvmdealloc (p_pagetable p) sz (sz + word_of_int n) s) (\<lambda>sz s. Ok 0 (upd_proc i (\<lambda>p. p\<lparr>p_sz := sz\<rparr>) s))
          else Ok 0 s)"

section \<open>Fork\<close>

abbreviation (input) fork_file :: "nat \<Rightarrow> nat \<Rightarrow> nat \<Rightarrow> 'a klife_scheme \<Rightarrow> (unit, 'a klife_scheme) res" where
  "fork_file i np fd s \<equiv>
     (case p_ofile (proc s ! i) ! fd of
        None \<Rightarrow> Ok () s
      | Some f \<Rightarrow> bnd (filedup f s) (\<lambda>_ s. Ok () (upd_proc np (\<lambda>p. p\<lparr>p_ofile := (p_ofile p)[fd := Some f]\<rparr>) s)))"

definition kfork :: "nat \<Rightarrow> 'a klife_scheme \<Rightarrow> (int, 'a klife_scheme) res" where
  "kfork h s =
     (case myproc h s of
        None \<Rightarrow> Panic ''kerneltrap''
      | Some i \<Rightarrow>
          bnd (allocproc s) (\<lambda>np s.
            case np of
              None \<Rightarrow> Ok (-1) s
            | Some np \<Rightarrow>
                bnd (uvmcopy (p_pagetable (proc s ! i)) (p_pagetable (proc s ! np)) (p_sz (proc s ! i)) s) (\<lambda>r s.
                  if r < 0 then bnd (freeproc np s) (\<lambda>_ s. Ok (-1) s)
                  else
                    let p = proc s ! i;
                        s = upd_proc np (\<lambda>q. q\<lparr>p_sz := p_sz p\<rparr>) s;
                        s = s\<lparr>tframe := (tframe s)(p_trapframe (proc s ! np) := (tframe s (p_trapframe p))\<lparr>tf_a0 := 0\<rparr>)\<rparr>
                    in bnd (mfor (fork_file i np) [0..<NOFILE] s) (\<lambda>_ s.
                         case p_cwd (proc s ! i) of
                           None \<Rightarrow> Panic ''kerneltrap''
                         | Some ip \<Rightarrow>
                             let s = upd_proc np (\<lambda>q. q\<lparr>p_cwd := Some ip\<rparr>) (idup ip s);
                                 s = upd_proc np (\<lambda>q. q\<lparr>p_name := map (safestrcpy (nth (p_name q)) (nth (p_name (proc s ! i))) 16) [0..<16]\<rparr>) s;
                                 s = upd_proc np (\<lambda>q. q\<lparr>p_parent := Some i\<rparr>) s;
                                 s = upd_proc np (\<lambda>q. q\<lparr>p_state := RUNNABLE\<rparr>) s
                             in Ok (p_pid (proc s ! np)) s))))"

section \<open>Exit and wait\<close>

definition reparent :: "nat \<Rightarrow> nat \<Rightarrow> 'a kproc_scheme \<Rightarrow> 'a kproc_scheme" where
  "reparent h p s =
     fold (\<lambda>pp s. if p_parent (proc s ! pp) = Some p then
                    wakeup h (case initproc s of None \<Rightarrow> ChanNull | Some i \<Rightarrow> ChanProc i)
                      (upd_proc pp (\<lambda>q. q\<lparr>p_parent := initproc s\<rparr>) s)
                  else s) [0..<length (proc s)] s"

abbreviation (input) exit_file :: "nat \<Rightarrow> nat \<Rightarrow> nat \<Rightarrow> 'a kfile_scheme \<Rightarrow> (unit, 'a kfile_scheme) res" where
  "exit_file h i fd s \<equiv>
     (case p_ofile (proc s ! i) ! fd of
        None \<Rightarrow> Ok () s
      | Some f \<Rightarrow> bnd (fileclose h f s) (\<lambda>_ s. Ok () (upd_proc i (\<lambda>p. p\<lparr>p_ofile := (p_ofile p)[fd := None]\<rparr>) s)))"

text \<open>The value is what \<^verbatim>\<open>sched\<close> gives when it has switched to the scheduler; a zombie is never switched back to.\<close>

definition kexit :: "nat \<Rightarrow> int \<Rightarrow> 'a kfile_scheme \<Rightarrow> (bool, 'a kfile_scheme) res" where
  "kexit h status s =
     (case myproc h s of
        None \<Rightarrow> Panic ''kerneltrap''
      | Some i \<Rightarrow>
          if initproc s = Some i then Panic ''init exiting''
          else
            bnd (mfor (exit_file h i) [0..<NOFILE] s) (\<lambda>_ s.
            bnd (begin_op s) (\<lambda>_ s.
              case p_cwd (proc s ! i) of
                None \<Rightarrow> Panic ''kerneltrap''
              | Some ip \<Rightarrow>
                  bnd (iput h ip s) (\<lambda>_ s.
                  bnd (end_op h s) (\<lambda>_ s.
                  bnd (acquire h LkWait (upd_proc i (\<lambda>p. p\<lparr>p_cwd := None\<rparr>) s)) (\<lambda>_ s.
                    let s = reparent h i s;
                        s = wakeup h (case p_parent (proc s ! i) of None \<Rightarrow> ChanNull | Some q \<Rightarrow> ChanProc q) s
                    in bnd (acquire h (LkProc i) s) (\<lambda>_ s.
                       bnd (release h LkWait (upd_proc i (\<lambda>p. p\<lparr>p_xstate := status, p_state := ZOMBIE\<rparr>) s)) (\<lambda>_ s.
                         sched h s))))))))"

definition kwait :: "nat \<Rightarrow> u64 \<Rightarrow> 'a kvm_scheme \<Rightarrow> (int, 'a kvm_scheme) res" where
  "kwait h addr s =
     (case myproc h s of
        None \<Rightarrow> Panic ''kerneltrap''
      | Some i \<Rightarrow>
          (case scan_index (\<lambda>q. p_parent q = Some i \<and> p_state q = ZOMBIE) (proc s) of
             Some pp \<Rightarrow>
               let pid = p_pid (proc s ! pp) in
               bnd (if addr \<noteq> 0 then
                      copyout h (p_pagetable (proc s ! i)) addr (st32 (\<lambda>_. 0) 0 (word_of_int (p_xstate (proc s ! pp)))) 4 s
                    else Ok 0 s) (\<lambda>r s.
                 if r < 0 then Ok (-1) s else bnd (freeproc pp s) (\<lambda>_ s. Ok pid s))
           | None \<Rightarrow>
               if (\<forall>q\<in>set (proc s). p_parent q \<noteq> Some i) \<or> killed i s \<noteq> 0 then Ok (-1) s
               else Sleep (ChanProc i) s))"

section \<open>System calls\<close>

abbreviation (input) SBRK_EAGER :: int where "SBRK_EAGER \<equiv> 1"

definition sys_exit :: "nat \<Rightarrow> 'a kfile_scheme \<Rightarrow> (bool, 'a kfile_scheme) res" where
  "sys_exit h s = bnd (argint h 0 s) (\<lambda>n s. kexit h n s)"

definition sys_fork :: "nat \<Rightarrow> 'a klife_scheme \<Rightarrow> (int, 'a klife_scheme) res" where
  "sys_fork h s = kfork h s"

definition sys_wait :: "nat \<Rightarrow> 'a kvm_scheme \<Rightarrow> (int, 'a kvm_scheme) res" where
  "sys_wait h s = bnd (argaddr h 0 s) (\<lambda>p s. kwait h p s)"

definition sys_sbrk :: "nat \<Rightarrow> 'a kvm_scheme \<Rightarrow> (u64, 'a kvm_scheme) res" where
  "sys_sbrk h s =
     bnd (argint h 0 s) (\<lambda>n s.
     bnd (argint h 1 s) (\<lambda>t s.
       case myproc h s of
         None \<Rightarrow> Panic ''kerneltrap''
       | Some i \<Rightarrow>
           let addr = p_sz (proc s ! i) in
           if t = SBRK_EAGER \<or> n < 0 then bnd (growproc h n s) (\<lambda>r s. Ok (if r < 0 then -1 else addr) s)
           else if addr + word_of_int n < addr then Ok (-1) s
           else if addr + word_of_int n > TRAPFRAME then Ok (-1) s
           else Ok addr (upd_proc i (\<lambda>p. p\<lparr>p_sz := p_sz p + word_of_int n\<rparr>) s)))"

abbreviation (input) energy_data :: "proc \<Rightarrow> nat \<Rightarrow> byte" where
  "energy_data p \<equiv> st32s (\<lambda>_. 0) 0 (map word_of_int [cpu_ticks p, sleep_count p, wake_count p, energy_score p])"

definition sys_get_energy_info :: "nat \<Rightarrow> 'a kvm_scheme \<Rightarrow> (int, 'a kvm_scheme) res" where
  "sys_get_energy_info h s =
     bnd (argint h 0 s) (\<lambda>pid s.
     bnd (argaddr h 1 s) (\<lambda>info_addr s.
       case scan_index (\<lambda>p. p_pid p = pid) (proc s) of
         None \<Rightarrow> Ok (-1) s
       | Some j \<Rightarrow>
           let s = upd_proc j update_energy_score s in
           (case myproc h s of
              None \<Rightarrow> Panic ''kerneltrap''
            | Some i \<Rightarrow>
                bnd (copyout h (p_pagetable (proc s ! i)) info_addr (energy_data (proc s ! j)) 16 s) (\<lambda>r s.
                  Ok (if r < 0 then -1 else 0) s))))"

end
