(* ===== verification/Sysfile.thy ===== *)
theory Sysfile
  imports Lifecycle
begin

text \<open>
  The file-system calls (\<^verbatim>\<open>kernel/sysfile.c\<close>, all but \<^verbatim>\<open>sys_exec\<close>) and the fetching of their arguments
  (\<^verbatim>\<open>kernel/syscall.c\<close>). A call returns its \<^verbatim>\<open>int\<close> result; the exits at a label \<^verbatim>\<open>bad\<close> or \<^verbatim>\<open>fail\<close> are definitions of their
  own where more than one path leads there.
\<close>

abbreviation (input) O_RDONLY :: u32 where "O_RDONLY \<equiv> 0"
abbreviation (input) O_WRONLY :: u32 where "O_WRONLY \<equiv> 1"
abbreviation (input) O_RDWR :: u32 where "O_RDWR \<equiv> 2"
abbreviation (input) O_CREATE :: u32 where "O_CREATE \<equiv> 0x200"
abbreviation (input) O_TRUNC :: u32 where "O_TRUNC \<equiv> 0x400"

section \<open>Arguments\<close>

definition fetchaddr :: "nat \<Rightarrow> u64 \<Rightarrow> 'a kvm_scheme \<Rightarrow> (u64 option, 'a kvm_scheme) res" where
  "fetchaddr h addr s =
     (case myproc h s of
        None \<Rightarrow> Panic ''kerneltrap''
      | Some i \<Rightarrow>
          let p = proc s ! i in
          if addr \<ge> p_sz p \<or> addr + 8 > p_sz p then Ok None s
          else bnd (copyin h (p_pagetable p) addr 8 s) (\<lambda>(r, bs) s.
                 if r \<noteq> 0 then Ok None s else Ok (Some (ld64 (nth bs) 0)) s))"

text \<open>The string without its NUL; its length is the value returned.\<close>

definition fetchstr :: "nat \<Rightarrow> u64 \<Rightarrow> nat \<Rightarrow> 'a kvm_scheme \<Rightarrow> (byte list option, 'a kvm_scheme) res" where
  "fetchstr h addr maxn s =
     (case myproc h s of
        None \<Rightarrow> Panic ''kerneltrap''
      | Some i \<Rightarrow>
          bnd (copyinstr (p_pagetable (proc s ! i)) addr (of_nat maxn) s) (\<lambda>(r, bs) s.
            if r < 0 then Ok None s else Ok (Some (takeWhile (\<lambda>c. c \<noteq> 0) bs)) s))"

definition argstr :: "nat \<Rightarrow> nat \<Rightarrow> nat \<Rightarrow> 'a kvm_scheme \<Rightarrow> (byte list option, 'a kvm_scheme) res" where
  "argstr h n maxn s = bnd (argaddr h n s) (\<lambda>addr s. fetchstr h addr maxn s)"

definition argfd :: "nat \<Rightarrow> nat \<Rightarrow> 'a kproc_scheme \<Rightarrow> ((nat \<times> nat) option, 'a kproc_scheme) res" where
  "argfd h n s =
     bnd (argint h n s) (\<lambda>fd s.
       if fd < 0 \<or> fd \<ge> int NOFILE then Ok None s
       else
         (case myproc h s of
            None \<Rightarrow> Panic ''kerneltrap''
          | Some i \<Rightarrow> Ok (map_option (Pair (nat fd)) (p_ofile (proc s ! i) ! nat fd)) s))"

definition fdalloc :: "nat \<Rightarrow> nat \<Rightarrow> 'a kproc_scheme \<Rightarrow> (nat option, 'a kproc_scheme) res" where
  "fdalloc h f s =
     (case myproc h s of
        None \<Rightarrow> Panic ''kerneltrap''
      | Some i \<Rightarrow>
          (case scan_index (\<lambda>fd. p_ofile (proc s ! i) ! fd = None) [0..<NOFILE] of
             None \<Rightarrow> Ok None s
           | Some fd \<Rightarrow> Ok (Some fd) (upd_proc i (\<lambda>p. p\<lparr>p_ofile := (p_ofile p)[fd := Some f]\<rparr>) s)))"

definition fdclear :: "nat \<Rightarrow> nat \<Rightarrow> 'a kproc_scheme \<Rightarrow> (unit, 'a kproc_scheme) res" where
  "fdclear h fd s =
     (case myproc h s of
        None \<Rightarrow> Panic ''kerneltrap''
      | Some i \<Rightarrow> Ok () (upd_proc i (\<lambda>p. p\<lparr>p_ofile := (p_ofile p)[fd := None]\<rparr>) s))"

section \<open>Calls on descriptors\<close>

definition sys_dup :: "nat \<Rightarrow> 'a kfile_scheme \<Rightarrow> (int, 'a kfile_scheme) res" where
  "sys_dup h s =
     bnd (argfd h 0 s) (\<lambda>a s.
       case a of
         None \<Rightarrow> Ok (-1) s
       | Some (_, f) \<Rightarrow>
           bnd (fdalloc h f s) (\<lambda>fd s.
             case fd of None \<Rightarrow> Ok (-1) s | Some fd \<Rightarrow> bnd (filedup f s) (\<lambda>_ s. Ok (int fd) s)))"

definition sys_read :: "nat \<Rightarrow> 'a kfile_scheme \<Rightarrow> (int, 'a kfile_scheme) res" where
  "sys_read h s =
     bnd (argaddr h 1 s) (\<lambda>p s. bnd (argint h 2 s) (\<lambda>n s. bnd (argfd h 0 s) (\<lambda>a s.
       case a of None \<Rightarrow> Ok (-1) s | Some (_, f) \<Rightarrow> fileread h f p n s)))"

definition sys_write :: "nat \<Rightarrow> 'a kfile_scheme \<Rightarrow> (int, 'a kfile_scheme) res" where
  "sys_write h s =
     bnd (argaddr h 1 s) (\<lambda>p s. bnd (argint h 2 s) (\<lambda>n s. bnd (argfd h 0 s) (\<lambda>a s.
       case a of None \<Rightarrow> Ok (-1) s | Some (_, f) \<Rightarrow> filewrite h f p n s)))"

definition sys_close :: "nat \<Rightarrow> 'a kfile_scheme \<Rightarrow> (int, 'a kfile_scheme) res" where
  "sys_close h s =
     bnd (argfd h 0 s) (\<lambda>a s.
       case a of
         None \<Rightarrow> Ok (-1) s
       | Some (fd, f) \<Rightarrow> bnd (fdclear h fd s) (\<lambda>_ s. bnd (fileclose h f s) (\<lambda>_ s. Ok 0 s)))"

definition sys_fstat :: "nat \<Rightarrow> (nat \<Rightarrow> byte) \<Rightarrow> 'a kfile_scheme \<Rightarrow> (int, 'a kfile_scheme) res" where
  "sys_fstat h junk s =
     bnd (argaddr h 1 s) (\<lambda>st s. bnd (argfd h 0 s) (\<lambda>a s.
       case a of None \<Rightarrow> Ok (-1) s | Some (_, f) \<Rightarrow> filestat h junk f st s))"

section \<open>Links\<close>

definition fail_op :: "nat \<Rightarrow> 'a klog_scheme \<Rightarrow> (int, 'a klog_scheme) res" where
  "fail_op h s = bnd (end_op h s) (\<lambda>_ s. Ok (-1) s)"

abbreviation (input) link_bad :: "nat \<Rightarrow> nat \<Rightarrow> 'a kfs_scheme \<Rightarrow> (int, 'a kfs_scheme) res" where
  "link_bad h ip s \<equiv>
     bnd (ilock h ip s) (\<lambda>_ s.
     bnd (iupdate h ip (upd_inode ip (\<lambda>x. x\<lparr>i_nlink := i_nlink x - 1\<rparr>) s)) (\<lambda>_ s.
     bnd (iunlockput h ip s) (\<lambda>_ s. fail_op h s)))"

definition link_entry :: "nat \<Rightarrow> nat \<Rightarrow> byte list \<Rightarrow> 'a kfs_scheme \<Rightarrow> (int, 'a kfs_scheme) res" where
  "link_entry h ip new s =
     bnd (nameiparent h new s) (\<lambda>(dp, name) s.
       case dp of
         None \<Rightarrow> link_bad h ip s
       | Some dp \<Rightarrow>
           bnd (ilock h dp s) (\<lambda>_ s.
           bnd (if i_dev (itable s dp) \<noteq> i_dev (itable s ip) then Ok (-1) s
                else dirlink h dp name (i_inum (itable s ip)) s) (\<lambda>r s.
           bnd (iunlockput h dp s) (\<lambda>_ s.
             if r < 0 then link_bad h ip s
             else bnd (iput h ip s) (\<lambda>_ s. bnd (end_op h s) (\<lambda>_ s. Ok 0 s))))))"

definition sys_link :: "nat \<Rightarrow> 'a kfs_scheme \<Rightarrow> (int, 'a kfs_scheme) res" where
  "sys_link h s =
     bnd (argstr h 0 MAXPATH s) (\<lambda>old s.
       case old of
         None \<Rightarrow> Ok (-1) s
       | Some old \<Rightarrow>
           bnd (argstr h 1 MAXPATH s) (\<lambda>new s.
             case new of
               None \<Rightarrow> Ok (-1) s
             | Some new \<Rightarrow>
                 bnd (begin_op s) (\<lambda>_ s.
                 bnd (namei h old s) (\<lambda>ip s.
                   case ip of
                     None \<Rightarrow> fail_op h s
                   | Some ip \<Rightarrow>
                       bnd (ilock h ip s) (\<lambda>_ s.
                         if i_type (itable s ip) = T_DIR then bnd (iunlockput h ip s) (\<lambda>_ s. fail_op h s)
                         else
                           bnd (iupdate h ip (upd_inode ip (\<lambda>x. x\<lparr>i_nlink := i_nlink x + 1\<rparr>) s)) (\<lambda>_ s.
                           bnd (iunlock h ip s) (\<lambda>_ s. link_entry h ip new s)))))))"

text \<open>The size is read again on every round; the directory is locked, so it does not change.\<close>

function isdirempty_loop :: "nat \<Rightarrow> nat \<Rightarrow> nat \<Rightarrow> nat \<Rightarrow> 'a kfs_scheme \<Rightarrow> (bool, 'a kfs_scheme) res" where
  "isdirempty_loop h dp off sz s =
     (if off < sz then
        bnd (readi h dp (Local []) (of_nat off) (of_nat sizeof_dirent) s) (\<lambda>(r, bs) s.
          if r \<noteq> int sizeof_dirent then Panic ''isdirempty: readi''
          else if de_inum (get_dirent bs) \<noteq> 0 then Ok False s
          else isdirempty_loop h dp (off + sizeof_dirent) sz s)
      else Ok True s)"
  by pat_completeness auto
termination
  by (relation "measure (\<lambda>(h, dp, off, sz, s). sz - off)") (auto simp: fs_consts)

declare isdirempty_loop.simps [simp del]

definition isdirempty :: "nat \<Rightarrow> nat \<Rightarrow> 'a kfs_scheme \<Rightarrow> (bool, 'a kfs_scheme) res" where
  "isdirempty h dp s = isdirempty_loop h dp (2 * sizeof_dirent) (unat (i_size (itable s dp))) s"

abbreviation (input) unlink_bad :: "nat \<Rightarrow> nat \<Rightarrow> 'a kfs_scheme \<Rightarrow> (int, 'a kfs_scheme) res" where
  "unlink_bad h dp s \<equiv> bnd (iunlockput h dp s) (\<lambda>_ s. fail_op h s)"

definition unlink_entry :: "nat \<Rightarrow> nat \<Rightarrow> nat \<Rightarrow> nat \<Rightarrow> 'a kfs_scheme \<Rightarrow> (int, 'a kfs_scheme) res" where
  "unlink_entry h dp ip off s =
     bnd (writei h dp (Local (replicate sizeof_dirent 0)) (of_nat off) (of_nat sizeof_dirent) s) (\<lambda>r s.
       if r \<noteq> int sizeof_dirent then Panic ''unlink: writei''
       else
         bnd (if i_type (itable s ip) = T_DIR then iupdate h dp (upd_inode dp (\<lambda>x. x\<lparr>i_nlink := i_nlink x - 1\<rparr>) s)
              else Ok () s) (\<lambda>_ s.
         bnd (iunlockput h dp s) (\<lambda>_ s.
         bnd (iupdate h ip (upd_inode ip (\<lambda>x. x\<lparr>i_nlink := i_nlink x - 1\<rparr>) s)) (\<lambda>_ s.
         bnd (iunlockput h ip s) (\<lambda>_ s.
         bnd (end_op h s) (\<lambda>_ s. Ok 0 s))))))"

definition sys_unlink :: "nat \<Rightarrow> 'a kfs_scheme \<Rightarrow> (int, 'a kfs_scheme) res" where
  "sys_unlink h s =
     bnd (argstr h 0 MAXPATH s) (\<lambda>path s.
       case path of
         None \<Rightarrow> Ok (-1) s
       | Some path \<Rightarrow>
           bnd (begin_op s) (\<lambda>_ s.
           bnd (nameiparent h path s) (\<lambda>(dp, name) s.
             case dp of
               None \<Rightarrow> fail_op h s
             | Some dp \<Rightarrow>
                 bnd (ilock h dp s) (\<lambda>_ s.
                   if namecmp (cstr_of name) (cstr_of [46]) = 0 \<or> namecmp (cstr_of name) (cstr_of [46, 46]) = 0
                   then unlink_bad h dp s
                   else
                     bnd (dirlookup h dp name s) (\<lambda>found s.
                       case found of
                         None \<Rightarrow> unlink_bad h dp s
                       | Some (ip, off) \<Rightarrow>
                           bnd (ilock h ip s) (\<lambda>_ s.
                             if sint (i_nlink (itable s ip)) < 1 then Panic ''unlink: nlink < 1''
                             else
                               bnd (if i_type (itable s ip) = T_DIR then isdirempty h ip s else Ok True s) (\<lambda>empty s.
                                 if \<not> empty then bnd (iunlockput h ip s) (\<lambda>_ s. unlink_bad h dp s)
                                 else unlink_entry h dp ip off s)))))))"


section \<open>Creating and opening\<close>

abbreviation (input) create_fail :: "nat \<Rightarrow> nat \<Rightarrow> nat \<Rightarrow> 'a kfs_scheme \<Rightarrow> (nat option, 'a kfs_scheme) res" where
  "create_fail h ip dp s \<equiv>
     bnd (iupdate h ip (upd_inode ip (\<lambda>x. x\<lparr>i_nlink := 0\<rparr>) s)) (\<lambda>_ s.
     bnd (iunlockput h ip s) (\<lambda>_ s.
     bnd (iunlockput h dp s) (\<lambda>_ s. Ok None s)))"

text \<open>The two entries of a new directory.\<close>

abbreviation (input) create_dots :: "nat \<Rightarrow> nat \<Rightarrow> nat \<Rightarrow> 'a kfs_scheme \<Rightarrow> (bool, 'a kfs_scheme) res" where
  "create_dots h ip dp s \<equiv>
     bnd (dirlink h ip [46] (i_inum (itable s ip)) s) (\<lambda>r s.
       if r < 0 then Ok False s
       else bnd (dirlink h ip [46, 46] (i_inum (itable s dp)) s) (\<lambda>r s. Ok (\<not> r < 0) s))"

definition create :: "nat \<Rightarrow> byte list \<Rightarrow> u16 \<Rightarrow> u16 \<Rightarrow> u16 \<Rightarrow> 'a kfs_scheme \<Rightarrow> (nat option, 'a kfs_scheme) res" where
  "create h path ty major minor s =
     bnd (nameiparent h path s) (\<lambda>(dp, name) s.
       case dp of
         None \<Rightarrow> Ok None s
       | Some dp \<Rightarrow>
           bnd (ilock h dp s) (\<lambda>_ s.
           bnd (dirlookup h dp name s) (\<lambda>found s.
             case found of
               Some (ip, _) \<Rightarrow>
                 bnd (iunlockput h dp s) (\<lambda>_ s.
                 bnd (ilock h ip s) (\<lambda>_ s.
                   if ty = T_FILE \<and> (i_type (itable s ip) = T_FILE \<or> i_type (itable s ip) = T_DEVICE) then Ok (Some ip) s
                   else bnd (iunlockput h ip s) (\<lambda>_ s. Ok None s)))
             | None \<Rightarrow>
                 bnd (ialloc h (i_dev (itable s dp)) ty s) (\<lambda>ip s.
                   case ip of
                     None \<Rightarrow> bnd (iunlockput h dp s) (\<lambda>_ s. Ok None s)
                   | Some ip \<Rightarrow>
                       bnd (ilock h ip s) (\<lambda>_ s.
                       bnd (iupdate h ip (upd_inode ip (\<lambda>x. x\<lparr>i_major := major, i_minor := minor, i_nlink := 1\<rparr>) s)) (\<lambda>_ s.
                       bnd (if ty = T_DIR then create_dots h ip dp s else Ok True s) (\<lambda>ok s.
                         if \<not> ok then create_fail h ip dp s
                         else
                           bnd (dirlink h dp name (i_inum (itable s ip)) s) (\<lambda>r s.
                             if r < 0 then create_fail h ip dp s
                             else
                               bnd (if ty = T_DIR then iupdate h dp (upd_inode dp (\<lambda>x. x\<lparr>i_nlink := i_nlink x + 1\<rparr>) s)
                                    else Ok () s) (\<lambda>_ s.
                               bnd (iunlockput h dp s) (\<lambda>_ s. Ok (Some ip) s))))))))))"

text \<open>The failure exits of \<^verbatim>\<open>sys_open\<close> after the inode is locked.\<close>

abbreviation (input) open_bad :: "nat \<Rightarrow> nat \<Rightarrow> 'a kfs_scheme \<Rightarrow> (int, 'a kfs_scheme) res" where
  "open_bad h ip s \<equiv> bnd (iunlockput h ip s) (\<lambda>_ s. fail_op h s)"

definition open_inode :: "nat \<Rightarrow> byte list \<Rightarrow> u32 \<Rightarrow> 'a kfs_scheme \<Rightarrow> (nat option, 'a kfs_scheme) res" where
  "open_inode h path omode s =
     (if omode AND O_CREATE \<noteq> 0 then create h path T_FILE 0 0 s
      else
        bnd (namei h path s) (\<lambda>ip s.
          case ip of
            None \<Rightarrow> Ok None s
          | Some ip \<Rightarrow>
              bnd (ilock h ip s) (\<lambda>_ s.
                if i_type (itable s ip) = T_DIR \<and> omode \<noteq> O_RDONLY then bnd (iunlockput h ip s) (\<lambda>_ s. Ok None s)
                else Ok (Some ip) s)))"

definition open_file :: "nat \<Rightarrow> nat \<Rightarrow> u32 \<Rightarrow> nat \<Rightarrow> nat \<Rightarrow> 'a kfile_scheme \<Rightarrow> (int, 'a kfile_scheme) res" where
  "open_file h ip omode f fd s =
     (let x = itable s ip;
          s = (if i_type x = T_DEVICE then upd_file f (\<lambda>y. y\<lparr>f_type := FD_DEVICE, f_major := sint (i_major x)\<rparr>) s
               else upd_file f (\<lambda>y. y\<lparr>f_type := FD_INODE, f_off := 0\<rparr>) s);
          s = upd_file f (\<lambda>y. y\<lparr>f_ip := ip, f_readable := (omode AND O_WRONLY = 0),
                f_writable := (omode AND O_WRONLY \<noteq> 0 \<or> omode AND O_RDWR \<noteq> 0)\<rparr>) s
      in bnd (if omode AND O_TRUNC \<noteq> 0 \<and> i_type x = T_FILE then itrunc h ip s else Ok () s) (\<lambda>_ s.
         bnd (iunlock h ip s) (\<lambda>_ s.
         bnd (end_op h s) (\<lambda>_ s. Ok (int fd) s))))"

definition sys_open :: "nat \<Rightarrow> 'a kfile_scheme \<Rightarrow> (int, 'a kfile_scheme) res" where
  "sys_open h s =
     bnd (argint h 1 s) (\<lambda>om s.
     bnd (argstr h 0 MAXPATH s) (\<lambda>path s.
       case path of
         None \<Rightarrow> Ok (-1) s
       | Some path \<Rightarrow>
           bnd (begin_op s) (\<lambda>_ s.
           bnd (open_inode h path (word_of_int om) s) (\<lambda>ip s.
             case ip of
               None \<Rightarrow> fail_op h s
             | Some ip \<Rightarrow>
                 if i_type (itable s ip) = T_DEVICE \<and> (sint (i_major (itable s ip)) < 0 \<or> sint (i_major (itable s ip)) \<ge> int NDEV)
                 then open_bad h ip s
                 else
                   (case filealloc s of
                      (None, s) \<Rightarrow> open_bad h ip s
                    | (Some f, s) \<Rightarrow>
                        bnd (fdalloc h f s) (\<lambda>fd s.
                          case fd of
                            None \<Rightarrow> bnd (fileclose h f s) (\<lambda>_ s. open_bad h ip s)
                          | Some fd \<Rightarrow> open_file h ip (word_of_int om) f fd s))))))"

section \<open>Directories and pipes\<close>

text \<open>The common part of \<^verbatim>\<open>sys_mkdir\<close> and \<^verbatim>\<open>sys_mknod\<close>.\<close>

abbreviation (input) make_node :: "nat \<Rightarrow> u16 \<Rightarrow> u16 \<Rightarrow> u16 \<Rightarrow> 'a kfs_scheme \<Rightarrow> (int, 'a kfs_scheme) res" where
  "make_node h ty major minor s \<equiv>
     bnd (argstr h 0 MAXPATH s) (\<lambda>path s.
       case path of
         None \<Rightarrow> fail_op h s
       | Some path \<Rightarrow>
           bnd (create h path ty major minor s) (\<lambda>ip s.
             case ip of
               None \<Rightarrow> fail_op h s
             | Some ip \<Rightarrow> bnd (iunlockput h ip s) (\<lambda>_ s. bnd (end_op h s) (\<lambda>_ s. Ok 0 s))))"

definition sys_mkdir :: "nat \<Rightarrow> 'a kfs_scheme \<Rightarrow> (int, 'a kfs_scheme) res" where
  "sys_mkdir h s = bnd (begin_op s) (\<lambda>_ s. make_node h T_DIR 0 0 s)"

definition sys_mknod :: "nat \<Rightarrow> 'a kfs_scheme \<Rightarrow> (int, 'a kfs_scheme) res" where
  "sys_mknod h s =
     bnd (begin_op s) (\<lambda>_ s.
     bnd (argint h 1 s) (\<lambda>major s.
     bnd (argint h 2 s) (\<lambda>minor s. make_node h T_DEVICE (word_of_int major) (word_of_int minor) s)))"

definition sys_chdir :: "nat \<Rightarrow> 'a kfs_scheme \<Rightarrow> (int, 'a kfs_scheme) res" where
  "sys_chdir h s =
     (case myproc h s of
        None \<Rightarrow> Panic ''kerneltrap''
      | Some i \<Rightarrow>
          bnd (begin_op s) (\<lambda>_ s.
          bnd (argstr h 0 MAXPATH s) (\<lambda>path s.
            case path of
              None \<Rightarrow> fail_op h s
            | Some path \<Rightarrow>
                bnd (namei h path s) (\<lambda>ip s.
                  case ip of
                    None \<Rightarrow> fail_op h s
                  | Some ip \<Rightarrow>
                      bnd (ilock h ip s) (\<lambda>_ s.
                        if i_type (itable s ip) \<noteq> T_DIR then bnd (iunlockput h ip s) (\<lambda>_ s. fail_op h s)
                        else
                          bnd (iunlock h ip s) (\<lambda>_ s.
                            case p_cwd (proc s ! i) of
                              None \<Rightarrow> Panic ''kerneltrap''
                            | Some cwd \<Rightarrow>
                                bnd (iput h cwd s) (\<lambda>_ s.
                                bnd (end_op h s) (\<lambda>_ s. Ok 0 (upd_proc i (\<lambda>p. p\<lparr>p_cwd := Some ip\<rparr>) s)))))))))"

abbreviation (input) pipe_bad :: "nat \<Rightarrow> nat list \<Rightarrow> nat \<Rightarrow> nat \<Rightarrow> 'a kfile_scheme \<Rightarrow> (int, 'a kfile_scheme) res" where
  "pipe_bad h fds rend wend s \<equiv>
     bnd (mfor (fdclear h) fds s) (\<lambda>_ s.
     bnd (fileclose h rend s) (\<lambda>_ s.
     bnd (fileclose h wend s) (\<lambda>_ s. Ok (-1) s)))"

definition sys_pipe :: "nat \<Rightarrow> 'a kfile_scheme \<Rightarrow> (int, 'a kfile_scheme) res" where
  "sys_pipe h s =
     (case myproc h s of
        None \<Rightarrow> Panic ''kerneltrap''
      | Some i \<Rightarrow>
          bnd (argaddr h 0 s) (\<lambda>fdarray s.
          bnd (pipealloc h s) (\<lambda>ends s.
            case ends of
              None \<Rightarrow> Ok (-1) s
            | Some (rend, wend) \<Rightarrow>
                bnd (fdalloc h rend s) (\<lambda>fd0 s.
                  case fd0 of
                    None \<Rightarrow> pipe_bad h [] rend wend s
                  | Some fd0 \<Rightarrow>
                      bnd (fdalloc h wend s) (\<lambda>fd1 s.
                        case fd1 of
                          None \<Rightarrow> pipe_bad h [fd0] rend wend s
                        | Some fd1 \<Rightarrow>
                            bnd (copyout h (p_pagetable (proc s ! i)) fdarray (st32 (\<lambda>_. 0) 0 (of_nat fd0)) 4 s) (\<lambda>r s.
                              if r < 0 then pipe_bad h [fd0, fd1] rend wend s
                              else
                                bnd (copyout h (p_pagetable (proc s ! i)) (fdarray + 4) (st32 (\<lambda>_. 0) 0 (of_nat fd1)) 4 s) (\<lambda>r s.
                                  if r < 0 then pipe_bad h [fd0, fd1] rend wend s else Ok 0 s)))))))"

end
