(* ===== verification/Exec.thy ===== *)
theory Exec
  imports Sysfile
begin

text \<open>
  Program loading: \<^verbatim>\<open>kernel/exec.c\<close>, the ELF structures of \<^verbatim>\<open>kernel/elf.h\<close>, and the system call that collects the
  arguments. Argument strings are byte lists without their NUL.
\<close>

section \<open>ELF files\<close>

abbreviation (input) ELF_MAGIC :: u32 where "ELF_MAGIC \<equiv> 0x464C457F"
abbreviation (input) ELF_PROG_LOAD :: u32 where "ELF_PROG_LOAD \<equiv> 1"

record elfhdr =
  e_magic :: u32
  e_elf :: "byte list"
  e_type :: u16
  e_machine :: u16
  e_version :: u32
  e_entry :: u64
  e_phoff :: u64
  e_shoff :: u64
  e_flags :: u32
  e_ehsize :: u16
  e_phentsize :: u16
  e_phnum :: u16
  e_shentsize :: u16
  e_shnum :: u16
  e_shstrndx :: u16

record proghdr =
  ph_type :: u32
  ph_flags :: u32
  ph_off :: u64
  ph_vaddr :: u64
  ph_paddr :: u64
  ph_filesz :: u64
  ph_memsz :: u64
  ph_align :: u64

definition sizeof_elfhdr :: nat where "sizeof_elfhdr = 64"
definition sizeof_proghdr :: nat where "sizeof_proghdr = 56"

definition get_elfhdr :: "byte list \<Rightarrow> elfhdr" where
  "get_elfhdr bs =
     (let m = nth bs in
      \<lparr>e_magic = ld32 m 0, e_elf = take 12 (drop 4 bs), e_type = ld16 m 16, e_machine = ld16 m 18, e_version = ld32 m 20,
       e_entry = ld64 m 24, e_phoff = ld64 m 32, e_shoff = ld64 m 40, e_flags = ld32 m 48, e_ehsize = ld16 m 52,
       e_phentsize = ld16 m 54, e_phnum = ld16 m 56, e_shentsize = ld16 m 58, e_shnum = ld16 m 60, e_shstrndx = ld16 m 62\<rparr>)"

definition get_proghdr :: "byte list \<Rightarrow> proghdr" where
  "get_proghdr bs =
     (let m = nth bs in
      \<lparr>ph_type = ld32 m 0, ph_flags = ld32 m 4, ph_off = ld64 m 8, ph_vaddr = ld64 m 16, ph_paddr = ld64 m 24,
       ph_filesz = ld64 m 32, ph_memsz = ld64 m 40, ph_align = ld64 m 48\<rparr>)"

section \<open>Loading\<close>

definition flags2perm :: "u32 \<Rightarrow> u64" where
  "flags2perm flags =
     (let perm = (if flags AND 1 \<noteq> 0 then PTE_X else 0)
      in if flags AND 2 \<noteq> 0 then perm OR PTE_W else perm)"

text \<open>The counter of \<^verbatim>\<open>loadseg\<close> is a \<^verbatim>\<open>uint\<close>, here a number: it could wrap only past four gigabytes of file contents, and
  \<open>readi\<close> returns less than asked for long before.\<close>

function loadseg :: "nat \<Rightarrow> u64 \<Rightarrow> u64 \<Rightarrow> nat \<Rightarrow> u32 \<Rightarrow> nat \<Rightarrow> nat \<Rightarrow> 'a kfs_scheme \<Rightarrow> (int, 'a kfs_scheme) res" where
  "loadseg h pagetable va ip offset sz i s =
     (if i < sz then
        bnd (walkaddr pagetable (va + of_nat i) s) (\<lambda>pa s.
          if pa = 0 then Panic ''loadseg: address should exist''
          else
            let n = min (sz - i) 4096 in
            bnd (readi h ip (PhysA pa) (offset + of_nat i) (of_nat n) s) (\<lambda>(r, _) s.
              if r \<noteq> int n then Ok (-1) s else loadseg h pagetable va ip offset sz (i + 4096) s))
      else Ok 0 s)"
  by pat_completeness auto
termination
  by (relation "measure (\<lambda>(h, pt, va, ip, off, sz, i, s). sz - i)") auto

declare loadseg.simps [simp del]

text \<open>The loop over the program headers, \<open>k\<close> of them left; it gives the size reached and whether all went well.\<close>

fun exec_load :: "nat \<Rightarrow> nat \<Rightarrow> u64 \<Rightarrow> nat \<Rightarrow> int \<Rightarrow> u64 \<Rightarrow> 'a kfs_scheme \<Rightarrow> (bool \<times> u64, 'a kfs_scheme) res" where
  "exec_load h ip pagetable 0 off sz s = Ok (True, sz) s"
| "exec_load h ip pagetable (Suc k) off sz s =
     bnd (readi h ip (Local []) (word_of_int off) (of_nat sizeof_proghdr) s) (\<lambda>(r, bs) s.
       let ph = get_proghdr bs; off' = i32 (off + int sizeof_proghdr) in
       if r \<noteq> int sizeof_proghdr then Ok (False, sz) s
       else if ph_type ph \<noteq> ELF_PROG_LOAD then exec_load h ip pagetable k off' sz s
       else if ph_memsz ph < ph_filesz ph then Ok (False, sz) s
       else if ph_vaddr ph + ph_memsz ph < ph_vaddr ph then Ok (False, sz) s
       else if ph_vaddr ph mod PGSIZE \<noteq> 0 then Ok (False, sz) s
       else
         bnd (uvmalloc pagetable sz (ph_vaddr ph + ph_memsz ph) (flags2perm (ph_flags ph)) s) (\<lambda>sz1 s.
           if sz1 = 0 then Ok (False, sz) s
           else
             bnd (loadseg h pagetable (ph_vaddr ph) ip (ucast (ph_off ph)) (unat (ucast (ph_filesz ph) :: u32)) 0 s) (\<lambda>r s.
               if r < 0 then Ok (False, sz1) s else exec_load h ip pagetable k off' sz1 s)))"

section \<open>The arguments\<close>

text \<open>The loop that pushes the strings: the stack pointer and the addresses, or \<open>None\<close> for the exit at \<^verbatim>\<open>bad\<close>.\<close>

fun exec_args ::
  "nat \<Rightarrow> u64 \<Rightarrow> u64 \<Rightarrow> byte list list \<Rightarrow> u64 \<Rightarrow> u64 list \<Rightarrow> 'a kvm_scheme \<Rightarrow> ((u64 \<times> u64 list) option, 'a kvm_scheme) res" where
  "exec_args h pagetable stackbase [] sp ustack s = Ok (Some (sp, ustack)) s"
| "exec_args h pagetable stackbase (arg # argv) sp ustack s =
     (if length ustack \<ge> MAXARG then Ok None s
      else
        let sp = sp - of_nat (length arg + 1); sp = sp - sp mod 16 in
        if sp < stackbase then Ok None s
        else
          bnd (copyout h pagetable sp (nth (arg @ [0])) (of_nat (length arg + 1)) s) (\<lambda>r s.
            if r < 0 then Ok None s else exec_args h pagetable stackbase argv sp (ustack @ [sp]) s))"

text \<open>An array of doublewords in memory.\<close>

fun st64s :: "mem \<Rightarrow> nat \<Rightarrow> u64 list \<Rightarrow> mem" where
  "st64s m a [] = m"
| "st64s m a (v # vs) = st64s (st64 m a v) (a + 8) vs"

text \<open>From the setting up of the stack to the copy of the pointers: stack pointer, argument count and size.\<close>

definition exec_stack ::
  "nat \<Rightarrow> u64 \<Rightarrow> byte list list \<Rightarrow> u64 \<Rightarrow> 'a kvm_scheme \<Rightarrow> ((u64 \<times> nat) option \<times> u64, 'a kvm_scheme) res" where
  "exec_stack h pagetable argv sz s =
     (let sz = PGROUNDUP sz; frame = of_nat (USERSTACK + 1) * PGSIZE in
      bnd (uvmalloc pagetable sz (sz + frame) PTE_W s) (\<lambda>sz1 s.
        if sz1 = 0 then Ok (None, sz) s
        else
          bnd (uvmclear pagetable (sz1 - frame) s) (\<lambda>_ s.
            let stackbase = sz1 - of_nat USERSTACK * PGSIZE in
            bnd (exec_args h pagetable stackbase argv sz1 [] s) (\<lambda>a s.
              case a of
                None \<Rightarrow> Ok (None, sz1) s
              | Some (sp, ustack) \<Rightarrow>
                  let argc = length ustack;
                      sp = sp - of_nat ((argc + 1) * 8);
                      sp = sp - sp mod 16
                  in if sp < stackbase then Ok (None, sz1) s
                     else
                       bnd (copyout h pagetable sp (st64s (\<lambda>_. 0) 0 (ustack @ [0])) (of_nat ((argc + 1) * 8)) s) (\<lambda>r s.
                         if r < 0 then Ok (None, sz1) s else Ok (Some (sp, argc), sz1) s)))))"

section \<open>exec\<close>

abbreviation (input) exec_bad :: "nat \<Rightarrow> u64 \<Rightarrow> u64 \<Rightarrow> nat option \<Rightarrow> 'a kfs_scheme \<Rightarrow> (int, 'a kfs_scheme) res" where
  "exec_bad h pagetable sz ip s \<equiv>
     bnd (if pagetable \<noteq> 0 then proc_freepagetable pagetable sz s else Ok () s) (\<lambda>_ s.
       case ip of
         None \<Rightarrow> Ok (-1) s
       | Some ip \<Rightarrow> bnd (iunlockput h ip s) (\<lambda>_ s. bnd (end_op h s) (\<lambda>_ s. Ok (-1) s)))"

text \<open>The part of a path after its last slash.\<close>

abbreviation (input) last_elem :: "byte list \<Rightarrow> byte list" where
  "last_elem path \<equiv> rev (takeWhile (\<lambda>c. c \<noteq> slash) (rev path))"

definition exec_commit :: "nat \<Rightarrow> byte list \<Rightarrow> u64 \<Rightarrow> u64 \<Rightarrow> u64 \<Rightarrow> u64 \<Rightarrow> 'a kvm_scheme \<Rightarrow> (unit, 'a kvm_scheme) res" where
  "exec_commit i path pagetable sz pc sp s =
     (let p = proc s ! i; tf = p_trapframe p; oldpagetable = p_pagetable p; oldsz = p_sz p;
          s = s\<lparr>tframe := (tframe s)(tf := (tframe s tf)\<lparr>tf_a1 := sp, tf_epc := pc, tf_sp := sp\<rparr>)\<rparr>;
          s = upd_proc i (\<lambda>p. p\<lparr>p_name := map (safestrcpy (nth (p_name p)) (cstr_of (last_elem path)) 16) [0..<16],
                p_pagetable := pagetable, p_sz := sz\<rparr>) s
      in proc_freepagetable oldpagetable oldsz s)"

definition kexec :: "nat \<Rightarrow> byte list \<Rightarrow> byte list list \<Rightarrow> 'a kfs_scheme \<Rightarrow> (int, 'a kfs_scheme) res" where
  "kexec h path argv s =
     (case myproc h s of
        None \<Rightarrow> Panic ''kerneltrap''
      | Some i \<Rightarrow>
          bnd (begin_op s) (\<lambda>_ s.
          bnd (namei h path s) (\<lambda>ip s.
            case ip of
              None \<Rightarrow> bnd (end_op h s) (\<lambda>_ s. Ok (-1) s)
            | Some ip \<Rightarrow>
                bnd (ilock h ip s) (\<lambda>_ s.
                bnd (readi h ip (Local []) 0 (of_nat sizeof_elfhdr) s) (\<lambda>(r, bs) s.
                  let elf = get_elfhdr bs in
                  if r \<noteq> int sizeof_elfhdr \<or> e_magic elf \<noteq> ELF_MAGIC then exec_bad h 0 0 (Some ip) s
                  else
                    bnd (proc_pagetable i s) (\<lambda>pagetable s.
                      if pagetable = 0 then exec_bad h 0 0 (Some ip) s
                      else
                        bnd (exec_load h ip pagetable (unat (e_phnum elf)) (i32 (uint (e_phoff elf))) 0 s) (\<lambda>(ok, sz) s.
                          if \<not> ok then exec_bad h pagetable sz (Some ip) s
                          else
                            bnd (iunlockput h ip s) (\<lambda>_ s.
                            bnd (end_op h s) (\<lambda>_ s.
                            bnd (exec_stack h pagetable argv sz s) (\<lambda>(st, sz) s.
                              case st of
                                None \<Rightarrow> exec_bad h pagetable sz None s
                              | Some (sp, argc) \<Rightarrow>
                                  bnd (exec_commit i path pagetable sz (e_entry elf) sp s) (\<lambda>_ s. Ok (int argc) s)))))))))))"

section \<open>The system call\<close>

text \<open>The argument strings with the pages that hold them; \<open>False\<close> for the exit at \<^verbatim>\<open>bad\<close>. \<open>k\<close> is the number of free places
  in the array.\<close>

fun exec_fetch ::
  "nat \<Rightarrow> u64 \<Rightarrow> nat \<Rightarrow> (u64 \<times> byte list) list \<Rightarrow> 'a kvm_scheme \<Rightarrow> (bool \<times> (u64 \<times> byte list) list, 'a kvm_scheme) res" where
  "exec_fetch h uargv 0 acc s = Ok (False, acc) s"
| "exec_fetch h uargv (Suc k) acc s =
     bnd (fetchaddr h (uargv + of_nat (8 * length acc)) s) (\<lambda>uarg s.
       case uarg of
         None \<Rightarrow> Ok (False, acc) s
       | Some uarg \<Rightarrow>
           if uarg = 0 then Ok (True, acc) s
           else
             bnd (kalloc s) (\<lambda>pa s.
               if pa = 0 then Ok (False, acc) s
               else
                 bnd (fetchstr h uarg 4096 s) (\<lambda>str s.
                   case str of
                     None \<Rightarrow> Ok (False, acc @ [(pa, [])]) s
                   | Some bs \<Rightarrow>
                       exec_fetch h uargv k (acc @ [(pa, bs)])
                         (s\<lparr>phys := store_bytes (phys s) (unat pa) (nth (bs @ [0])) (length bs + 1)\<rparr>))))"

definition sys_exec :: "nat \<Rightarrow> 'a kfs_scheme \<Rightarrow> (int, 'a kfs_scheme) res" where
  "sys_exec h s =
     bnd (argaddr h 1 s) (\<lambda>uargv s.
     bnd (argstr h 0 MAXPATH s) (\<lambda>path s.
       case path of
         None \<Rightarrow> Ok (-1) s
       | Some path \<Rightarrow>
           bnd (exec_fetch h uargv MAXARG [] s) (\<lambda>(ok, argv) s.
           bnd (if ok then kexec h path (map snd argv) s else Ok (-1) s) (\<lambda>ret s.
           bnd (mfor (\<lambda>(pa, _). kfree pa) argv s) (\<lambda>_ s. Ok ret s)))))"

end
