(* ===== verification/Virtio.thy ===== *)
theory Virtio
  imports Exec
begin

text \<open>
  The disk driver (\<^verbatim>\<open>kernel/virtio_disk.c\<close>) with the queue structures of \<^verbatim>\<open>kernel/virtio.h\<close>. The three queue pages are kept as
  structures, and an address handed to the device is a constructor that names what it points to. Register writes are a
  trace; what registers answer is an argument. A transfer is two steps: the request is queued, and the caller goes on when
  the interrupt handler has cleared \<^verbatim>\<open>b->disk\<close>.
\<close>

section \<open>Registers and queue structures\<close>

datatype virtio_reg =
    VIRTIO_MMIO_MAGIC_VALUE | VIRTIO_MMIO_VERSION | VIRTIO_MMIO_DEVICE_ID
  | VIRTIO_MMIO_VENDOR_ID | VIRTIO_MMIO_DEVICE_FEATURES | VIRTIO_MMIO_DRIVER_FEATURES
  | VIRTIO_MMIO_QUEUE_SEL | VIRTIO_MMIO_QUEUE_NUM_MAX | VIRTIO_MMIO_QUEUE_NUM
  | VIRTIO_MMIO_QUEUE_READY | VIRTIO_MMIO_QUEUE_NOTIFY | VIRTIO_MMIO_INTERRUPT_STATUS
  | VIRTIO_MMIO_INTERRUPT_ACK | VIRTIO_MMIO_STATUS | VIRTIO_MMIO_QUEUE_DESC_LOW
  | VIRTIO_MMIO_QUEUE_DESC_HIGH | VIRTIO_MMIO_DRIVER_DESC_LOW | VIRTIO_MMIO_DRIVER_DESC_HIGH
  | VIRTIO_MMIO_DEVICE_DESC_LOW | VIRTIO_MMIO_DEVICE_DESC_HIGH

fun virtio_offset :: "virtio_reg \<Rightarrow> nat" where
  "virtio_offset VIRTIO_MMIO_MAGIC_VALUE = 0x000"
| "virtio_offset VIRTIO_MMIO_VERSION = 0x004"
| "virtio_offset VIRTIO_MMIO_DEVICE_ID = 0x008"
| "virtio_offset VIRTIO_MMIO_VENDOR_ID = 0x00c"
| "virtio_offset VIRTIO_MMIO_DEVICE_FEATURES = 0x010"
| "virtio_offset VIRTIO_MMIO_DRIVER_FEATURES = 0x020"
| "virtio_offset VIRTIO_MMIO_QUEUE_SEL = 0x030"
| "virtio_offset VIRTIO_MMIO_QUEUE_NUM_MAX = 0x034"
| "virtio_offset VIRTIO_MMIO_QUEUE_NUM = 0x038"
| "virtio_offset VIRTIO_MMIO_QUEUE_READY = 0x044"
| "virtio_offset VIRTIO_MMIO_QUEUE_NOTIFY = 0x050"
| "virtio_offset VIRTIO_MMIO_INTERRUPT_STATUS = 0x060"
| "virtio_offset VIRTIO_MMIO_INTERRUPT_ACK = 0x064"
| "virtio_offset VIRTIO_MMIO_STATUS = 0x070"
| "virtio_offset VIRTIO_MMIO_QUEUE_DESC_LOW = 0x080"
| "virtio_offset VIRTIO_MMIO_QUEUE_DESC_HIGH = 0x084"
| "virtio_offset VIRTIO_MMIO_DRIVER_DESC_LOW = 0x090"
| "virtio_offset VIRTIO_MMIO_DRIVER_DESC_HIGH = 0x094"
| "virtio_offset VIRTIO_MMIO_DEVICE_DESC_LOW = 0x0a0"
| "virtio_offset VIRTIO_MMIO_DEVICE_DESC_HIGH = 0x0a4"

abbreviation VIRTIO_CONFIG_S_ACKNOWLEDGE :: u32 where "VIRTIO_CONFIG_S_ACKNOWLEDGE \<equiv> 1"
abbreviation VIRTIO_CONFIG_S_DRIVER :: u32 where "VIRTIO_CONFIG_S_DRIVER \<equiv> 2"
abbreviation VIRTIO_CONFIG_S_DRIVER_OK :: u32 where "VIRTIO_CONFIG_S_DRIVER_OK \<equiv> 4"
abbreviation VIRTIO_CONFIG_S_FEATURES_OK :: u32 where "VIRTIO_CONFIG_S_FEATURES_OK \<equiv> 8"

abbreviation VIRTIO_BLK_F_RO :: nat where "VIRTIO_BLK_F_RO \<equiv> 5"
abbreviation VIRTIO_BLK_F_SCSI :: nat where "VIRTIO_BLK_F_SCSI \<equiv> 7"
abbreviation VIRTIO_BLK_F_CONFIG_WCE :: nat where "VIRTIO_BLK_F_CONFIG_WCE \<equiv> 11"
abbreviation VIRTIO_BLK_F_MQ :: nat where "VIRTIO_BLK_F_MQ \<equiv> 12"
abbreviation VIRTIO_F_ANY_LAYOUT :: nat where "VIRTIO_F_ANY_LAYOUT \<equiv> 27"
abbreviation VIRTIO_RING_F_INDIRECT_DESC :: nat where "VIRTIO_RING_F_INDIRECT_DESC \<equiv> 28"
abbreviation VIRTIO_RING_F_EVENT_IDX :: nat where "VIRTIO_RING_F_EVENT_IDX \<equiv> 29"

definition NUM :: nat where "NUM = 8"

text \<open>What a descriptor may point to: nothing, the header \<open>ops[i]\<close>, the data of buffer \<open>b\<close>, or the status byte of
  \<open>info[i]\<close>.\<close>

datatype dma = DmaNull | DmaOps nat | DmaData nat | DmaStatus nat

record virtq_desc =
  vd_addr :: dma
  vd_len :: u32
  vd_flags :: u16
  vd_next :: u16

abbreviation (input) VRING_DESC_F_NEXT :: u16 where "VRING_DESC_F_NEXT \<equiv> 1"
abbreviation (input) VRING_DESC_F_WRITE :: u16 where "VRING_DESC_F_WRITE \<equiv> 2"

record virtq_avail =
  va_flags :: u16
  va_idx :: u16
  va_ring :: "nat \<Rightarrow> u16"

record virtq_used_elem =
  vu_id :: u32
  vu_len :: u32

record virtq_used =
  vu_flags :: u16
  vu_idx :: u16
  vu_ring :: "nat \<Rightarrow> virtq_used_elem"

abbreviation (input) VIRTIO_BLK_T_IN :: u32 where "VIRTIO_BLK_T_IN \<equiv> 0"
abbreviation (input) VIRTIO_BLK_T_OUT :: u32 where "VIRTIO_BLK_T_OUT \<equiv> 1"

record virtio_blk_req =
  r_type :: u32
  r_reserved :: u32
  r_sector :: u64

record vinfo =
  vi_b :: "nat option"
  vi_status :: byte

record kvirtio = klife +
  vdesc :: "nat \<Rightarrow> virtq_desc"
  vavail :: virtq_avail
  vused :: virtq_used
  vfree :: "nat \<Rightarrow> bool"
  used_idx :: u16
  vinfo :: "nat \<Rightarrow> vinfo"
  vops :: "nat \<Rightarrow> virtio_blk_req"
  vpages :: "u64 \<times> u64 \<times> u64"
  vio_writes :: "(nat \<times> u32) list"

definition vio_write :: "virtio_reg \<Rightarrow> u32 \<Rightarrow> 'a kvirtio_scheme \<Rightarrow> 'a kvirtio_scheme" where
  "vio_write r v s = s\<lparr>vio_writes := vio_writes s @ [(virtio_offset r, v)]\<rparr>"

section \<open>Setting up\<close>

definition blank_desc :: virtq_desc where
  "blank_desc = \<lparr>vd_addr = DmaNull, vd_len = 0, vd_flags = 0, vd_next = 0\<rparr>"

text \<open>The feature bits the driver turns down. In C the masks are \<^verbatim>\<open>int\<close>s and the word is 64 bits wide.\<close>

abbreviation (input) driver_features :: "u32 \<Rightarrow> u32" where
  "driver_features f \<equiv>
     fold (\<lambda>b f. f AND NOT (push_bit b 1))
       [VIRTIO_BLK_F_RO, VIRTIO_BLK_F_SCSI, VIRTIO_BLK_F_CONFIG_WCE, VIRTIO_BLK_F_MQ, VIRTIO_F_ANY_LAYOUT,
        VIRTIO_RING_F_EVENT_IDX, VIRTIO_RING_F_INDIRECT_DESC] f"

text \<open>The negotiation, up to the last check of the device.\<close>

definition virtio_negotiate :: "(virtio_reg \<Rightarrow> u32) \<Rightarrow> 'a kvirtio_scheme \<Rightarrow> (u32, 'a kvirtio_scheme) res" where
  "virtio_negotiate reg s =
     (let s = initlock LkVdisk ''virtio_disk'' s in
      if reg VIRTIO_MMIO_MAGIC_VALUE \<noteq> 0x74726976 \<or> reg VIRTIO_MMIO_VERSION \<noteq> 2 \<or> reg VIRTIO_MMIO_DEVICE_ID \<noteq> 2 \<or>
         reg VIRTIO_MMIO_VENDOR_ID \<noteq> 0x554d4551
      then Panic ''could not find virtio disk''
      else
        let status = 0;
            s = vio_write VIRTIO_MMIO_STATUS status s;
            status = status OR VIRTIO_CONFIG_S_ACKNOWLEDGE;
            s = vio_write VIRTIO_MMIO_STATUS status s;
            status = status OR VIRTIO_CONFIG_S_DRIVER;
            s = vio_write VIRTIO_MMIO_STATUS status s;
            s = vio_write VIRTIO_MMIO_DRIVER_FEATURES (driver_features (reg VIRTIO_MMIO_DEVICE_FEATURES)) s;
            status = status OR VIRTIO_CONFIG_S_FEATURES_OK;
            s = vio_write VIRTIO_MMIO_STATUS status s;
            status = reg VIRTIO_MMIO_STATUS
        in if status AND VIRTIO_CONFIG_S_FEATURES_OK = 0 then Panic ''virtio disk FEATURES_OK unset''
           else
             let s = vio_write VIRTIO_MMIO_QUEUE_SEL 0 s in
             if reg VIRTIO_MMIO_QUEUE_READY \<noteq> 0 then Panic ''virtio disk should not be ready''
             else if reg VIRTIO_MMIO_QUEUE_NUM_MAX = 0 then Panic ''virtio disk has no queue 0''
             else if reg VIRTIO_MMIO_QUEUE_NUM_MAX < of_nat NUM then Panic ''virtio disk max queue too short''
             else Ok status s)"

definition virtio_disk_init :: "(virtio_reg \<Rightarrow> u32) \<Rightarrow> 'a kvirtio_scheme \<Rightarrow> (unit, 'a kvirtio_scheme) res" where
  "virtio_disk_init reg s =
     bnd (virtio_negotiate reg s) (\<lambda>status s.
     bnd (kalloc s) (\<lambda>d s. bnd (kalloc s) (\<lambda>a s. bnd (kalloc s) (\<lambda>u s.
       if d = 0 \<or> a = 0 \<or> u = 0 then Panic ''virtio disk kalloc''
       else
         let s = s\<lparr>vpages := (d, a, u), vdesc := (\<lambda>_. blank_desc), vavail := \<lparr>va_flags = 0, va_idx = 0, va_ring = (\<lambda>_. 0)\<rparr>,
                   vused := \<lparr>vu_flags = 0, vu_idx = 0, vu_ring = (\<lambda>_. \<lparr>vu_id = 0, vu_len = 0\<rparr>)\<rparr>\<rparr>;
             s = vio_write VIRTIO_MMIO_QUEUE_NUM (of_nat NUM) s;
             s = vio_write VIRTIO_MMIO_QUEUE_DESC_LOW (ucast d) s;
             s = vio_write VIRTIO_MMIO_QUEUE_DESC_HIGH (ucast (drop_bit 32 d)) s;
             s = vio_write VIRTIO_MMIO_DRIVER_DESC_LOW (ucast a) s;
             s = vio_write VIRTIO_MMIO_DRIVER_DESC_HIGH (ucast (drop_bit 32 a)) s;
             s = vio_write VIRTIO_MMIO_DEVICE_DESC_LOW (ucast u) s;
             s = vio_write VIRTIO_MMIO_DEVICE_DESC_HIGH (ucast (drop_bit 32 u)) s;
             s = vio_write VIRTIO_MMIO_QUEUE_READY 1 s;
             s = s\<lparr>vfree := (\<lambda>i. if i < NUM then True else vfree s i)\<rparr>
         in Ok () (vio_write VIRTIO_MMIO_STATUS (status OR VIRTIO_CONFIG_S_DRIVER_OK) s)))))"

section \<open>Descriptors\<close>

definition alloc_desc :: "'a kvirtio_scheme \<Rightarrow> nat option \<times> 'a kvirtio_scheme" where
  "alloc_desc s =
     (case scan_index (vfree s) [0..<NUM] of
        None \<Rightarrow> (None, s)
      | Some i \<Rightarrow> (Some i, s\<lparr>vfree := (vfree s)(i := False)\<rparr>))"

definition free_desc :: "nat \<Rightarrow> nat \<Rightarrow> 'a kvirtio_scheme \<Rightarrow> (unit, 'a kvirtio_scheme) res" where
  "free_desc h i s =
     (if i \<ge> NUM then Panic ''free_desc 1''
      else if vfree s i then Panic ''free_desc 2''
      else Ok () (wakeup h ChanDiskFree (s\<lparr>vdesc := (vdesc s)(i := blank_desc), vfree := (vfree s)(i := True)\<rparr>)))"

text \<open>\<^verbatim>\<open>free_chain\<close> frees every descriptor at most once (\<open>free_desc\<close> panics the second time), so that \<open>NUM + 1\<close> rounds
  are all it can make.\<close>

fun free_chain_from :: "nat \<Rightarrow> nat \<Rightarrow> nat \<Rightarrow> 'a kvirtio_scheme \<Rightarrow> (unit, 'a kvirtio_scheme) res" where
  "free_chain_from 0 h i s = Spin"
| "free_chain_from (Suc k) h i s =
     (let flag = vd_flags (vdesc s i); nxt = unat (vd_next (vdesc s i)) in
      bnd (free_desc h i s) (\<lambda>_ s. if flag AND VRING_DESC_F_NEXT \<noteq> 0 then free_chain_from k h nxt s else Ok () s))"

definition free_chain :: "nat \<Rightarrow> nat \<Rightarrow> 'a kvirtio_scheme \<Rightarrow> (unit, 'a kvirtio_scheme) res" where
  "free_chain h i s = free_chain_from (NUM + 1) h i s"

definition alloc3_desc :: "nat \<Rightarrow> 'a kvirtio_scheme \<Rightarrow> ((nat \<times> nat \<times> nat) option, 'a kvirtio_scheme) res" where
  "alloc3_desc h s =
     (case alloc_desc s of
        (None, s) \<Rightarrow> Ok None s
      | (Some i0, s) \<Rightarrow>
          (case alloc_desc s of
             (None, s) \<Rightarrow> bnd (free_desc h i0 s) (\<lambda>_ s. Ok None s)
           | (Some i1, s) \<Rightarrow>
               (case alloc_desc s of
                  (None, s) \<Rightarrow> bnd (free_desc h i0 s) (\<lambda>_ s. bnd (free_desc h i1 s) (\<lambda>_ s. Ok None s))
                | (Some i2, s) \<Rightarrow> Ok (Some (i0, i1, i2)) s)))"

section \<open>Requests\<close>

text \<open>The three descriptors of a request and the entry in the available ring.\<close>

definition format_request :: "nat \<Rightarrow> bool \<Rightarrow> nat \<Rightarrow> nat \<Rightarrow> nat \<Rightarrow> 'a kvirtio_scheme \<Rightarrow> 'a kvirtio_scheme" where
  "format_request b write i0 i1 i2 s =
     (let sector = ucast (b_blockno (bufs s b) * of_nat (BSIZE div 512));
          req = \<lparr>r_type = (if write then VIRTIO_BLK_T_OUT else VIRTIO_BLK_T_IN), r_reserved = 0, r_sector = sector\<rparr>;
          s = s\<lparr>vops := (vops s)(i0 := req)\<rparr>;
          s = s\<lparr>vdesc := (vdesc s)(i0 := \<lparr>vd_addr = DmaOps i0, vd_len = 16, vd_flags = VRING_DESC_F_NEXT, vd_next = of_nat i1\<rparr>)\<rparr>;
          s = s\<lparr>vdesc := (vdesc s)(i1 := \<lparr>vd_addr = DmaData b, vd_len = of_nat BSIZE,
                  vd_flags = (if write then 0 else VRING_DESC_F_WRITE) OR VRING_DESC_F_NEXT, vd_next = of_nat i2\<rparr>)\<rparr>;
          s = s\<lparr>vinfo := (vinfo s)(i0 := (vinfo s i0)\<lparr>vi_status := 0xff\<rparr>)\<rparr>;
          s = s\<lparr>vdesc := (vdesc s)(i2 := \<lparr>vd_addr = DmaStatus i0, vd_len = 1, vd_flags = VRING_DESC_F_WRITE, vd_next = 0\<rparr>)\<rparr>;
          s = upd_buf b (\<lambda>x. x\<lparr>b_disk := True\<rparr>) s;
          s = s\<lparr>vinfo := (vinfo s)(i0 := (vinfo s i0)\<lparr>vi_b := Some b\<rparr>)\<rparr>;
          av = vavail s
      in s\<lparr>vavail := av\<lparr>va_ring := (va_ring av)(unat (va_idx av mod of_nat NUM) := of_nat i0), va_idx := va_idx av + 1\<rparr>\<rparr>)"

definition virtio_disk_submit :: "nat \<Rightarrow> nat \<Rightarrow> bool \<Rightarrow> 'a kvirtio_scheme \<Rightarrow> (nat, 'a kvirtio_scheme) res" where
  "virtio_disk_submit h b write s =
     bnd (alloc3_desc h s) (\<lambda>idx s.
       case idx of
         None \<Rightarrow> Sleep ChanDiskFree s
       | Some (i0, i1, i2) \<Rightarrow> Ok i0 (vio_write VIRTIO_MMIO_QUEUE_NOTIFY 0 (format_request b write i0 i1 i2 s)))"

text \<open>The rest of \<^verbatim>\<open>virtio_disk_rw\<close>, from the wait on \<^verbatim>\<open>b->disk\<close>.\<close>

definition virtio_disk_finish :: "nat \<Rightarrow> nat \<Rightarrow> nat \<Rightarrow> 'a kvirtio_scheme \<Rightarrow> (unit, 'a kvirtio_scheme) res" where
  "virtio_disk_finish h b i0 s =
     (if b_disk (bufs s b) then Sleep (ChanBuf b) s
      else free_chain h i0 (s\<lparr>vinfo := (vinfo s)(i0 := (vinfo s i0)\<lparr>vi_b := None\<rparr>)\<rparr>))"

definition virtio_disk_rw :: "nat \<Rightarrow> nat \<Rightarrow> bool \<Rightarrow> 'a kvirtio_scheme \<Rightarrow> (unit, 'a kvirtio_scheme) res" where
  "virtio_disk_rw h b write s = bnd (virtio_disk_submit h b write s) (\<lambda>i0 s. virtio_disk_finish h b i0 s)"

text \<open>The loop of the interrupt handler makes \<open>k\<close> rounds, the distance of the two indices.\<close>

fun virtio_intr_loop :: "nat \<Rightarrow> nat \<Rightarrow> 'a kvirtio_scheme \<Rightarrow> (unit, 'a kvirtio_scheme) res" where
  "virtio_intr_loop h 0 s = Ok () s"
| "virtio_intr_loop h (Suc k) s =
     (let id = unat (vu_id (vu_ring (vused s) (unat (used_idx s mod of_nat NUM)))) in
      if vi_status (vinfo s id) \<noteq> 0 then Panic ''virtio_disk_intr status''
      else
        (case vi_b (vinfo s id) of
           None \<Rightarrow> Panic ''kerneltrap''
         | Some b \<Rightarrow>
             virtio_intr_loop h k ((wakeup h (ChanBuf b) (upd_buf b (\<lambda>x. x\<lparr>b_disk := False\<rparr>) s))\<lparr>used_idx := used_idx s + 1\<rparr>)))"

definition virtio_disk_intr :: "nat \<Rightarrow> (virtio_reg \<Rightarrow> u32) \<Rightarrow> 'a kvirtio_scheme \<Rightarrow> (unit, 'a kvirtio_scheme) res" where
  "virtio_disk_intr h reg s =
     (let s = vio_write VIRTIO_MMIO_INTERRUPT_ACK (reg VIRTIO_MMIO_INTERRUPT_STATUS AND 3) s in
      virtio_intr_loop h (unat (vu_idx (vused s) - used_idx s)) s)"


section \<open>Freeing a chain ends\<close>

definition busy :: "'a kvirtio_scheme \<Rightarrow> nat set" where
  "busy s = {i. i < NUM \<and> \<not> vfree s i}"

lemma busy_finite [simp]: "finite (busy s)"
  by (simp add: busy_def)

lemma free_desc_busy: "free_desc h i s = Ok () t \<Longrightarrow> i \<in> busy s \<and> busy t = busy s - {i}"
  by (auto simp: free_desc_def busy_def wakeup_def split: if_splits)

lemma free_chain_from_ends: "card (busy s) < k \<Longrightarrow> free_chain_from k h i s \<noteq> Spin \<and> (\<forall>c t. free_chain_from k h i s \<noteq> Sleep c t)"
proof (induction k arbitrary: i s)
  case (Suc k)
  show ?case
  proof (cases "free_desc h i s")
    case (Ok x t)
    then have "i \<in> busy s" "busy t = busy s - {i}" using free_desc_busy[of h i s t] by simp_all
    moreover have "card (busy s) > 0" using calculation(1) by (auto simp: card_gt_0_iff)
    ultimately have "card (busy t) < k" using Suc.prems by simp
    then show ?thesis using Suc.IH Ok by (simp add: Let_def)
  qed (auto simp: free_desc_def split: if_splits)
qed simp

text \<open>
  C34. \<open>free_chain\<close> ends, whatever the descriptors contain, even a cycle of links: it returns or panics, since \<open>free_desc\<close>
  refuses a descriptor that is already free and there are \<open>NUM\<close> of them.
\<close>

theorem free_chain_ends: "(\<exists>t. free_chain h i s = Ok () t) \<or> (\<exists>m. free_chain h i s = Panic m)"
proof -
  have "card (busy s) \<le> NUM" using card_mono[of "{..<NUM}" "busy s"] by (auto simp: busy_def)
  then show ?thesis using free_chain_from_ends[of s "NUM + 1" h i] by (cases "free_chain h i s") (auto simp: free_chain_def)
qed

section \<open>A transfer through the device\<close>

text \<open>What the device does to memory and disk for a request, by the virtio specification: it moves the block between the
  disk and the data descriptor, stores status 0 and puts the head of the chain on the used ring.\<close>

definition transfer :: "nat \<Rightarrow> virtio_blk_req \<Rightarrow> 'a kvirtio_scheme \<Rightarrow> 'a kvirtio_scheme" where
  "transfer b req s =
     (let n = ucast (r_sector req div of_nat (BSIZE div 512)) in
      if r_type req = VIRTIO_BLK_T_OUT then s\<lparr>disk := (disk s)(n := b_data (bufs s b)), dtrace := dtrace s @ [(n, b_data (bufs s b))]\<rparr>
      else upd_buf b (\<lambda>x. x\<lparr>b_data := disk s n\<rparr>) s)"

definition post_used :: "nat \<Rightarrow> nat \<Rightarrow> 'a kvirtio_scheme \<Rightarrow> 'a kvirtio_scheme" where
  "post_used i0 j s =
     s\<lparr>vinfo := (vinfo s)(j := (vinfo s j)\<lparr>vi_status := 0\<rparr>),
       vused := (vused s)\<lparr>vu_ring := (vu_ring (vused s))(unat (vu_idx (vused s) mod of_nat NUM) := \<lparr>vu_id = of_nat i0, vu_len = 0\<rparr>),
         vu_idx := vu_idx (vused s) + 1\<rparr>\<rparr>"

text \<open>The newest entry of the available ring, and a well-formed block request that starts at a descriptor: header, data and
  status, with the directions the specification asks for.\<close>

definition avail_head :: "'a kvirtio_scheme \<Rightarrow> nat" where
  "avail_head s = unat (va_ring (vavail s) (unat ((va_idx (vavail s) - 1) mod of_nat NUM)))"

definition block_request :: "'a kvirtio_scheme \<Rightarrow> nat \<Rightarrow> nat \<Rightarrow> nat \<Rightarrow> nat \<Rightarrow> bool" where
  "block_request s i0 k b j \<longleftrightarrow>
     (let d0 = vdesc s i0; d1 = vdesc s (unat (vd_next d0)); d2 = vdesc s (unat (vd_next d1)) in
      vd_addr d0 = DmaOps k \<and> vd_len d0 = 16 \<and> vd_flags d0 = VRING_DESC_F_NEXT \<and>
      vd_addr d1 = DmaData b \<and> vd_len d1 = of_nat BSIZE \<and>
      vd_flags d1 = (if r_type (vops s k) = VIRTIO_BLK_T_OUT then VRING_DESC_F_NEXT else VRING_DESC_F_WRITE OR VRING_DESC_F_NEXT) \<and>
      vd_addr d2 = DmaStatus j \<and> vd_len d2 = 1 \<and> vd_flags d2 = VRING_DESC_F_WRITE)"

definition serves_requests :: "('a kvirtio_scheme \<Rightarrow> 'a kvirtio_scheme) \<Rightarrow> bool" where
  "serves_requests dev \<longleftrightarrow>
     (\<forall>s k b j. block_request s (avail_head s) k b j \<longrightarrow> dev s = post_used (avail_head s) j (transfer b (vops s k) s))"

definition idle :: "'a kvirtio_scheme \<Rightarrow> nat set" where
  "idle s = {i. i < NUM \<and> vfree s i}"

lemma alloc_desc_idle:
  assumes "idle s \<noteq> {}"
  shows "\<exists>i. i \<in> idle s \<and> alloc_desc s = (Some i, s\<lparr>vfree := (vfree s)(i := False)\<rparr>)"
proof (cases "scan_index (vfree s) [0..<NUM]")
  case None
  then show ?thesis using assms by (auto simp: scan_index_None idle_def)
next
  case (Some i)
  then show ?thesis using scan_index_less[OF Some] scan_index_holds[OF Some] by (simp add: idle_def alloc_desc_def)
qed

lemma idle_take: "idle (s\<lparr>vfree := (vfree s)(i := False)\<rparr>) = idle s - {i}"
  by (auto simp: idle_def)

lemma alloc3_desc_ok:
  assumes "3 \<le> card (idle s)"
  shows "\<exists>i0 i1 i2. alloc3_desc h s = Ok (Some (i0, i1, i2)) (s\<lparr>vfree := (vfree s)(i0 := False, i1 := False, i2 := False)\<rparr>) \<and>
    i0 \<in> idle s \<and> i1 \<in> idle s \<and> i2 \<in> idle s \<and> i0 \<noteq> i1 \<and> i0 \<noteq> i2 \<and> i1 \<noteq> i2"
proof -
  have fin: "finite (idle u)" for u :: "'a kvirtio_scheme" by (simp add: idle_def)
  obtain i0 where i0: "i0 \<in> idle s" "alloc_desc s = (Some i0, s\<lparr>vfree := (vfree s)(i0 := False)\<rparr>)"
    using alloc_desc_idle[of s] assms by fastforce
  let ?s = "s\<lparr>vfree := (vfree s)(i0 := False)\<rparr>"
  have c1: "card (idle ?s) = card (idle s) - 1" using i0(1) fin[of s] by (simp add: idle_take)
  have "idle ?s \<noteq> {}" using c1 assms by fastforce
  then obtain i1 where i1: "i1 \<in> idle ?s" "alloc_desc ?s = (Some i1, ?s\<lparr>vfree := (vfree ?s)(i1 := False)\<rparr>)"
    using alloc_desc_idle[of ?s] by blast
  let ?t = "?s\<lparr>vfree := (vfree ?s)(i1 := False)\<rparr>"
  have "card (idle ?t) = card (idle ?s) - 1" unfolding idle_take[of ?s] using i1(1) fin[of ?s] by simp
  then have "idle ?t \<noteq> {}" using c1 assms by fastforce
  then obtain i2 where i2: "i2 \<in> idle ?t" "alloc_desc ?t = (Some i2, ?t\<lparr>vfree := (vfree ?t)(i2 := False)\<rparr>)"
    using alloc_desc_idle[of ?t] by blast
  have "i1 \<in> idle s" "i1 \<noteq> i0" "i2 \<in> idle s" "i2 \<noteq> i0" "i2 \<noteq> i1"
    using i1(1) i2(1) unfolding idle_take[of ?s] idle_take[of s] by auto
  moreover have "alloc3_desc h s = Ok (Some (i0, i1, i2)) (s\<lparr>vfree := (vfree s)(i0 := False, i1 := False, i2 := False)\<rparr>)"
    using i0(2) i1(2) i2(2) by (simp add: alloc3_desc_def)
  ultimately show ?thesis using i0(1) by blast
qed

lemma wakeup_virtio [simp]:
  "vfree (wakeup h c s) = vfree s" "vdesc (wakeup h c s) = vdesc s" "vinfo (wakeup h c s) = vinfo s"
  "vused (wakeup h c s) = vused s" "used_idx (wakeup h c s) = used_idx s" "bufs (wakeup h c s) = bufs s"
  "disk (wakeup h c s) = disk s" "dtrace (wakeup h c s) = dtrace s"
  by (simp_all add: wakeup_def)

text \<open>Freeing the chain of a request.\<close>

lemma free_chain_three:
  assumes "i0 < NUM" "i1 < NUM" "i2 < NUM" and "i0 \<noteq> i1" "i0 \<noteq> i2" "i1 \<noteq> i2"
    and "\<not> vfree s i0" "\<not> vfree s i1" "\<not> vfree s i2"
    and "vd_flags (vdesc s i0) AND VRING_DESC_F_NEXT \<noteq> 0" "unat (vd_next (vdesc s i0)) = i1"
    and "vd_flags (vdesc s i1) AND VRING_DESC_F_NEXT \<noteq> 0" "unat (vd_next (vdesc s i1)) = i2"
    and "vd_flags (vdesc s i2) AND VRING_DESC_F_NEXT = 0"
  shows "\<exists>t. free_chain h i0 s = Ok () t \<and> vfree t = (vfree s)(i0 := True, i1 := True, i2 := True) \<and> bufs t = bufs s \<and>
    disk t = disk s \<and> dtrace t = dtrace s \<and> used_idx t = used_idx s \<and> vused t = vused s"
proof -
  obtain k where n: "NUM + 1 = Suc (Suc (Suc k))" using that[of 6] by (simp add: NUM_def)
  show ?thesis
    using assms unfolding free_chain_def n by (simp add: free_desc_def Let_def)
qed

lemma unat_small: "i < NUM \<Longrightarrow> unat (of_nat i :: u16) = i" "i < NUM \<Longrightarrow> unat (of_nat i :: u32) = i"
  unfolding unat_of_nat by (simp_all add: NUM_def)

lemma sector_block:
  assumes "unat n < 2 ^ 31"
  shows "(ucast ((ucast (n * of_nat (BSIZE div 512) :: u32) :: u64) div of_nat (BSIZE div 512)) :: u32) = n"
proof -
  have u: "unat (n * 2) = unat n * 2" using assms by (simp add: unat_word_ariths)
  have "unat (ucast (n * 2) :: u64) = unat n * 2"
    unfolding unsigned_ucast_eq u using assms by (simp add: take_bit_nat_eq_self)
  then have "unat ((ucast (n * 2) :: u64) div 2) = unat n" by (simp add: unat_div_distrib)
  then have "unat (ucast ((ucast (n * 2) :: u64) div 2) :: u32) = unat n mod 2 ^ 32" by (simp add: unsigned_ucast_eq take_bit_eq_mod)
  moreover have "unat n mod 2 ^ 32 = unat n" using assms by simp
  ultimately show ?thesis by (simp add: BSIZE_def word_unat_eq_iff)
qed

text \<open>
  C7. The driver transfers blocks: with a device that serves block requests as the virtio specification says, an idle queue
  and three free descriptors, queueing a request returns at once, the interrupt handler accepts the completion and the
  caller goes on; together they have the effect of the one-step transfer \<open>disk_rw\<close> that the buffer cache is verified with, and
  every descriptor is free as before.
\<close>

theorem virtio_refines_disk_rw:
  assumes "serves_requests dev" and "3 \<le> card (idle s)" and "used_idx s = vu_idx (vused s)"
    and "unat (b_blockno (bufs s b)) < 2 ^ 31"
  shows "\<exists>i0 s1 s2 t. virtio_disk_submit h b write s = Ok i0 s1 \<and> virtio_disk_finish h b i0 s1 = Sleep (ChanBuf b) s1 \<and>
    virtio_disk_intr g reg (dev s1) = Ok () s2 \<and> virtio_disk_finish h b i0 s2 = Ok () t \<and>
    disk t = disk (disk_rw b write s) \<and> dtrace t = dtrace (disk_rw b write s) \<and>
    bufs t = (bufs (disk_rw b write s))(b := (bufs (disk_rw b write s) b)\<lparr>b_disk := False\<rparr>) \<and>
    vfree t = vfree s \<and> used_idx t = vu_idx (vused t)"
proof -
  obtain i0 i1 i2 where a: "alloc3_desc h s = Ok (Some (i0, i1, i2)) (s\<lparr>vfree := (vfree s)(i0 := False, i1 := False, i2 := False)\<rparr>)"
    and m: "i0 \<in> idle s" "i1 \<in> idle s" "i2 \<in> idle s" and d: "i0 \<noteq> i1" "i0 \<noteq> i2" "i1 \<noteq> i2"
    using alloc3_desc_ok[OF assms(2)] by blast
  have i: "i0 < NUM" "i1 < NUM" "i2 < NUM" and fr: "vfree s i0" "vfree s i1" "vfree s i2" using m by (auto simp: idle_def)
  let ?f = "s\<lparr>vfree := (vfree s)(i0 := False, i1 := False, i2 := False)\<rparr>"
  define s1 where "s1 = vio_write VIRTIO_MMIO_QUEUE_NOTIFY 0 (format_request b write i0 i1 i2 ?f)"
  have sub: "virtio_disk_submit h b write s = Ok i0 s1" using a by (simp add: virtio_disk_submit_def s1_def)
  note fd = s1_def vio_write_def format_request_def Let_def upd_buf_def
  have hd: "avail_head s1 = i0" using unat_small(1)[OF i(1)] by (simp add: fd avail_head_def)
  have req: "block_request s1 i0 i0 b i0"
    using d unat_small(1)[OF i(2)] unat_small(1)[OF i(3)]
    by (simp add: fd block_request_def)
  have dv: "dev s1 = post_used i0 i0 (transfer b (vops s1 i0) s1)"
    using assms(1) req unfolding serves_requests_def hd[symmetric] by blast
  let ?u = "post_used i0 i0 (transfer b (vops s1 i0) s1)"
  have u: "used_idx ?u = used_idx s" "vu_idx (vused ?u) = used_idx s + 1" "vfree ?u = vfree ?f" "vdesc ?u = vdesc s1"
      "vu_id (vu_ring (vused ?u) (unat (used_idx s mod of_nat NUM))) = of_nat i0"
      "vi_b (vinfo ?u i0) = Some b" "vi_status (vinfo ?u i0) = 0"
    using assms(3) by (simp_all add: fd post_used_def transfer_def)
  let ?v = "vio_write VIRTIO_MMIO_INTERRUPT_ACK (reg VIRTIO_MMIO_INTERRUPT_STATUS AND 3) ?u"
  define s2 where "s2 = (wakeup g (ChanBuf b) (upd_buf b (\<lambda>x. x\<lparr>b_disk := False\<rparr>) ?v))\<lparr>used_idx := used_idx s + 1\<rparr>"
  have "virtio_disk_intr g reg (dev s1) = virtio_intr_loop g (Suc 0) ?v"
    unfolding virtio_disk_intr_def dv using u(1,2) by (simp add: vio_write_def Let_def)
  also have "\<dots> = Ok () s2"
    using u unat_small(2)[OF i(1)] by (simp add: s2_def vio_write_def Let_def)
  finally have intr: "virtio_disk_intr g reg (dev s1) = Ok () s2" .
  have f2: "vfree s2 = vfree ?f" "vdesc s2 = vdesc s1" "used_idx s2 = vu_idx (vused s2)" "\<not> b_disk (bufs s2 b)"
    using u by (simp_all add: s2_def vio_write_def upd_buf_def)
  let ?e = "s2\<lparr>vinfo := (vinfo s2)(i0 := (vinfo s2 i0)\<lparr>vi_b := None\<rparr>)\<rparr>"
  have "\<exists>t. free_chain h i0 ?e = Ok () t \<and> vfree t = (vfree ?e)(i0 := True, i1 := True, i2 := True) \<and> bufs t = bufs ?e \<and>
      disk t = disk ?e \<and> dtrace t = dtrace ?e \<and> used_idx t = used_idx ?e \<and> vused t = vused ?e"
    using i d f2(1,2) unat_small(1)[OF i(2)] unat_small(1)[OF i(3)]
    by (intro free_chain_three) (simp_all add: fd)
  then obtain t where t: "free_chain h i0 ?e = Ok () t" "vfree t = (vfree s2)(i0 := True, i1 := True, i2 := True)" "bufs t = bufs s2"
      "disk t = disk s2" "dtrace t = dtrace s2" "used_idx t = used_idx s2" "vused t = vused s2" by auto
  have fin: "virtio_disk_finish h b i0 s2 = Ok () t" "virtio_disk_finish h b i0 s1 = Sleep (ChanBuf b) s1"
    using f2(4) t(1) by (simp_all add: virtio_disk_finish_def fd)
  have "vfree t = vfree s" using t(2) f2(1) fr by (auto simp: fun_eq_iff)
  moreover have "disk t = disk (disk_rw b write s)" "dtrace t = dtrace (disk_rw b write s)"
      "bufs t = (bufs (disk_rw b write s))(b := (bufs (disk_rw b write s) b)\<lparr>b_disk := False\<rparr>)"
    using sector_block[OF assms(4)] unfolding t s2_def
    by (auto simp: fd post_used_def transfer_def disk_rw_def fun_eq_iff)
  ultimately show ?thesis using sub fin intr t(6,7) f2(3) by (intro exI conjI) (assumption | simp)+
qed

text \<open>A device that follows the specification, and a queue that has just been set up.\<close>

definition serve :: "'a kvirtio_scheme \<Rightarrow> 'a kvirtio_scheme" where
  "serve s =
     (let i0 = avail_head s; d0 = vdesc s i0; d1 = vdesc s (unat (vd_next d0)); d2 = vdesc s (unat (vd_next d1)) in
      case (vd_addr d0, vd_addr d1, vd_addr d2) of
        (DmaOps k, DmaData b, DmaStatus j) \<Rightarrow> post_used i0 j (transfer b (vops s k) s)
      | _ \<Rightarrow> s)"

lemma serve_serves: "serves_requests serve"
  by (simp add: serves_requests_def serve_def block_request_def Let_def)

definition virtio_boot :: kvirtio where
  "virtio_boot = klife.extend (kfile.extend file_boot (klife.fields 0x80001000 0x80007000 0x800070A0 0x80005000 0x80002000 True))
     (kvirtio.fields (\<lambda>_. blank_desc) \<lparr>va_flags = 0, va_idx = 0, va_ring = (\<lambda>_. 0)\<rparr>
        \<lparr>vu_flags = 0, vu_idx = 0, vu_ring = (\<lambda>_. \<lparr>vu_id = 0, vu_len = 0\<rparr>)\<rparr> (\<lambda>i. i < NUM) 0
        (\<lambda>_. \<lparr>vi_b = None, vi_status = 0\<rparr>) (\<lambda>_. \<lparr>r_type = 0, r_reserved = 0, r_sector = 0\<rparr>) (0, 0, 0) [])"

lemma virtio_boot_facts:
  "3 \<le> card (idle virtio_boot)" "used_idx virtio_boot = vu_idx (vused virtio_boot)" "b_blockno (bufs virtio_boot b) = 0"
proof -
  have "idle virtio_boot = {..<NUM}" by (auto simp: idle_def virtio_boot_def klife.defs kvirtio.defs)
  then show "3 \<le> card (idle virtio_boot)" by (simp add: NUM_def)
  show "used_idx virtio_boot = vu_idx (vused virtio_boot)" by (simp add: virtio_boot_def klife.defs kvirtio.defs)
  show "b_blockno (bufs virtio_boot b) = 0"
    by (simp add: virtio_boot_def klife.defs kvirtio.defs file_boot_def cons_boot_def kfs.defs klog.defs kbio.defs kcons.defs
        kfile.defs bio_boot_def)
qed

theorem virtio_refines_disk_rw_witness:
  "\<exists>i0 s1 s2 t. virtio_disk_submit 0 4 True virtio_boot = Ok i0 s1 \<and> virtio_disk_intr 1 (\<lambda>_. 1) (serve s1) = Ok () s2 \<and>
    virtio_disk_finish 0 4 i0 s2 = Ok () t \<and> disk t 0 = b_data (bufs virtio_boot 4) \<and> vfree t = vfree virtio_boot"
proof -
  have "disk (disk_rw 4 True virtio_boot) 0 = b_data (bufs virtio_boot 4)"
    by (simp add: disk_rw_def virtio_boot_facts(3) Let_def)
  moreover have "unat (b_blockno (bufs virtio_boot 4)) < 2 ^ 31" by (simp add: virtio_boot_facts(3))
  ultimately show ?thesis
    using virtio_refines_disk_rw[OF serve_serves virtio_boot_facts(1,2), of 4 0 True 1 "\<lambda>_. 1"] by metis
qed

end
