(* ===== verification/Trap.thy ===== *)
theory Trap
  imports Virtio
begin

text \<open>
  Traps, system-call dispatch, interrupt routing and start-up: \<^verbatim>\<open>kernel/trap.c\<close>, \<^verbatim>\<open>kernel/syscall.c\<close>, \<^verbatim>\<open>kernel/plic.c\<close>,
  \<^verbatim>\<open>kernel/main.c\<close>, \<^verbatim>\<open>kernel/start.c\<close> and \<^verbatim>\<open>forkret\<close> of \<^verbatim>\<open>kernel/proc.c\<close>. The supervisor registers of each CPU are fields, the
  interrupt-enable bit of \<^verbatim>\<open>sstatus\<close> being \<open>c_sie\<close>; what the devices answer is the argument \<open>io\<close>.
\<close>

record ktrap = kvirtio +
  stvec :: "nat \<Rightarrow> u64"
  sepc :: "nat \<Rightarrow> u64"
  sstatus :: "nat \<Rightarrow> u64"
  plic_writes :: "(u64 \<times> u32) list"

text \<open>The cause and value of the trap, the clock, the interrupt the PLIC hands out, the UART's state and the disk's
  registers.\<close>

record devices =
  io_scause :: u64
  io_stval :: u64
  io_time :: u64
  io_irq :: u32
  io_tx_idle :: bool
  io_rx :: "byte list"
  io_virtio :: "virtio_reg \<Rightarrow> u32"

text \<open>How a trap ends: it returns to its caller, or the process gives up the CPU, at a \<^verbatim>\<open>yield\<close> (which will resume) or for
  good.\<close>

datatype 'r trap_end = Returned 'r | Yielded bool | Exited bool

section \<open>The interrupt controller\<close>

definition PLIC_SENABLE :: "nat \<Rightarrow> u64" where "PLIC_SENABLE hart = PLIC + 0x2080 + of_nat hart * 0x100"
definition PLIC_SPRIORITY :: "nat \<Rightarrow> u64" where "PLIC_SPRIORITY hart = PLIC + 0x201000 + of_nat hart * 0x2000"
definition PLIC_SCLAIM :: "nat \<Rightarrow> u64" where "PLIC_SCLAIM hart = PLIC + 0x201004 + of_nat hart * 0x2000"

definition plic_write :: "u64 \<Rightarrow> u32 \<Rightarrow> 'a ktrap_scheme \<Rightarrow> 'a ktrap_scheme" where
  "plic_write a v s = s\<lparr>plic_writes := plic_writes s @ [(a, v)]\<rparr>"

definition plicinit :: "'a ktrap_scheme \<Rightarrow> 'a ktrap_scheme" where
  "plicinit s = plic_write (PLIC + word_of_int (VIRTIO0_IRQ * 4)) 1 (plic_write (PLIC + word_of_int (UART0_IRQ * 4)) 1 s)"

definition plicinithart :: "nat \<Rightarrow> 'a ktrap_scheme \<Rightarrow> 'a ktrap_scheme" where
  "plicinithart h s =
     plic_write (PLIC_SPRIORITY h) 0
       (plic_write (PLIC_SENABLE h) (push_bit (nat UART0_IRQ) 1 OR push_bit (nat VIRTIO0_IRQ) 1) s)"

definition plic_claim :: "devices \<Rightarrow> int" where
  "plic_claim io = sint (io_irq io)"

definition plic_complete :: "nat \<Rightarrow> int \<Rightarrow> 'a ktrap_scheme \<Rightarrow> 'a ktrap_scheme" where
  "plic_complete h irq s = plic_write (PLIC_SCLAIM h) (word_of_int irq) s"

section \<open>Device interrupts\<close>

definition trapinit :: "'a kproc_scheme \<Rightarrow> 'a kproc_scheme" where
  "trapinit s = initlock LkTicks ''time'' s"

definition trapinithart :: "nat \<Rightarrow> 'a ktrap_scheme \<Rightarrow> 'a ktrap_scheme" where
  "trapinithart h s = s\<lparr>stvec := (stvec s)(h := k_kernelvec s)\<rparr>"

text \<open>The value with whether \<^verbatim>\<open>clockintr\<close> has given up the CPU on the way.\<close>

definition devintr :: "nat \<Rightarrow> devices \<Rightarrow> 'a ktrap_scheme \<Rightarrow> (int trap_end, 'a ktrap_scheme) res" where
  "devintr h io s =
     (if io_scause io = 0x8000000000000009 then
        let irq = plic_claim io in
        bnd (if irq = UART0_IRQ then uartintr h (io_tx_idle io) (io_rx io) s
             else if irq = VIRTIO0_IRQ then virtio_disk_intr h (io_virtio io) s
             else if irq \<noteq> 0 then kprintf h (''unexpected interrupt irq=%d'' @ [CHR 10]) [AInt (word_of_int irq)] s
             else Ok () s) (\<lambda>_ s.
          Ok (Returned 1) (if irq \<noteq> 0 then plic_complete h irq s else s))
      else if io_scause io = 0x8000000000000005 then
        bnd (clockintr h (io_time io) s) (\<lambda>y s. Ok (case y of None \<Rightarrow> Returned 2 | Some ie \<Rightarrow> Yielded ie) s)
      else Ok (Returned 0) s)"

section \<open>System calls\<close>

text \<open>The results of the handlers as the value for register \<open>a0\<close>.\<close>

definition ret_int :: "(int, 's) res \<Rightarrow> (u64 trap_end, 's) res" where
  "ret_int m = bnd m (\<lambda>v s. Ok (Returned (word_of_int v)) s)"

definition ret_u64 :: "(u64, 's) res \<Rightarrow> (u64 trap_end, 's) res" where
  "ret_u64 m = bnd m (\<lambda>v s. Ok (Returned v) s)"

text \<open>The table: the numbers of \<^verbatim>\<open>kernel/syscall.h\<close> with their handlers. \<open>junk\<close> is the stack that \<^verbatim>\<open>sys_fstat\<close>'s structure lies
  on.\<close>

definition syscalls :: "nat \<Rightarrow> (nat \<Rightarrow> byte) \<Rightarrow> int \<Rightarrow> ('a ktrap_scheme \<Rightarrow> (u64 trap_end, 'a ktrap_scheme) res) option" where
  "syscalls h junk num =
     (if num = 1 then Some (\<lambda>s. ret_int (sys_fork h s))
      else if num = 2 then Some (\<lambda>s. bnd (sys_exit h s) (\<lambda>ie s. Ok (Exited ie) s))
      else if num = 3 then Some (\<lambda>s. ret_int (sys_wait h s))
      else if num = 4 then Some (\<lambda>s. ret_int (sys_pipe h s))
      else if num = 5 then Some (\<lambda>s. ret_int (sys_read h s))
      else if num = 6 then Some (\<lambda>s. ret_u64 (sys_kill h s))
      else if num = 7 then Some (\<lambda>s. ret_int (sys_exec h s))
      else if num = 8 then Some (\<lambda>s. ret_int (sys_fstat h junk s))
      else if num = 9 then Some (\<lambda>s. ret_int (sys_chdir h s))
      else if num = 10 then Some (\<lambda>s. ret_int (sys_dup h s))
      else if num = 11 then Some (\<lambda>s. ret_u64 (sys_getpid h s))
      else if num = 12 then Some (\<lambda>s. ret_u64 (sys_sbrk h s))
      else if num = 13 then Some (\<lambda>s. ret_u64 (sys_pause h s))
      else if num = 14 then Some (\<lambda>s. ret_u64 (sys_uptime s))
      else if num = 15 then Some (\<lambda>s. ret_int (sys_open h s))
      else if num = 16 then Some (\<lambda>s. ret_int (sys_write h s))
      else if num = 17 then Some (\<lambda>s. ret_int (sys_mknod h s))
      else if num = 18 then Some (\<lambda>s. ret_int (sys_unlink h s))
      else if num = 19 then Some (\<lambda>s. ret_int (sys_link h s))
      else if num = 20 then Some (\<lambda>s. ret_int (sys_mkdir h s))
      else if num = 21 then Some (\<lambda>s. ret_int (sys_close h s))
      else if num = 22 then Some (\<lambda>s. ret_u64 (sys_set_power_mode h s))
      else if num = 23 then Some (\<lambda>s. ret_u64 (sys_get_cpu_stats s))
      else if num = 24 then Some (\<lambda>s. ret_int (sys_get_energy_info h s))
      else if num = 25 then Some (\<lambda>s. ret_u64 (sys_set_energy_budget h s))
      else None)"

definition set_tframe :: "nat \<Rightarrow> (trapframe \<Rightarrow> trapframe) \<Rightarrow> 'a kproc_scheme \<Rightarrow> 'a kproc_scheme" where
  "set_tframe i f s = (let a = p_trapframe (proc s ! i) in s\<lparr>tframe := (tframe s)(a := f (tframe s a))\<rparr>)"

definition syscall :: "nat \<Rightarrow> (nat \<Rightarrow> byte) \<Rightarrow> 'a ktrap_scheme \<Rightarrow> (unit trap_end, 'a ktrap_scheme) res" where
  "syscall h junk s =
     (case myproc h s of
        None \<Rightarrow> Panic ''kerneltrap''
      | Some i \<Rightarrow>
          let p = proc s ! i; num = i32 (uint (tf_a7 (tframe s (p_trapframe p)))) in
          (case syscalls h junk num of
             Some f \<Rightarrow>
               bnd (f s) (\<lambda>r s.
                 case r of
                   Returned v \<Rightarrow> Ok (Returned ()) (set_tframe i (\<lambda>tf. tf\<lparr>tf_a0 := v\<rparr>) s)
                 | Yielded ie \<Rightarrow> Ok (Yielded ie) s
                 | Exited ie \<Rightarrow> Ok (Exited ie) s)
           | None \<Rightarrow>
               bnd (kprintf h (''%d %s: unknown sys call %d'' @ [CHR 10])
                     [AInt (word_of_int (p_pid p)), AStr (Some (takeWhile (\<lambda>c. c \<noteq> 0) (p_name p))), AInt (word_of_int num)] s) (\<lambda>_ s.
                 Ok (Returned ()) (set_tframe i (\<lambda>tf. tf\<lparr>tf_a0 := -1\<rparr>) s))))"

section \<open>Traps\<close>

definition prepare_return :: "nat \<Rightarrow> 'a ktrap_scheme \<Rightarrow> (unit, 'a ktrap_scheme) res" where
  "prepare_return h s =
     (case myproc h s of
        None \<Rightarrow> Panic ''kerneltrap''
      | Some i \<Rightarrow>
          let s = intr_off h s;
              s = s\<lparr>stvec := (stvec s)(h := TRAMPOLINE + (k_uservec s - k_trampoline s))\<rparr>;
              s = set_tframe i (\<lambda>tf. tf\<lparr>tf_kernel_satp := satp s h, tf_kernel_sp := p_kstack (proc s ! i) + PGSIZE,
                    tf_kernel_trap := k_usertrap s, tf_kernel_hartid := of_nat h\<rparr>) s;
              s = s\<lparr>sstatus := (sstatus s)(h := (sstatus s h AND NOT SSTATUS_SPP) OR SSTATUS_SPIE)\<rparr>
          in Ok () (s\<lparr>sepc := (sepc s)(h := tf_epc (tframe s (p_trapframe (proc s ! i))))\<rparr>))"

text \<open>The end of \<^verbatim>\<open>usertrap\<close>, from the second test of the kill flag.\<close>

definition usertrap_finish :: "nat \<Rightarrow> nat \<Rightarrow> int \<Rightarrow> 'a ktrap_scheme \<Rightarrow> (u64 trap_end, 'a ktrap_scheme) res" where
  "usertrap_finish h i which_dev s =
     (if killed i s \<noteq> 0 then bnd (kexit h (-1) s) (\<lambda>ie s. Ok (Exited ie) s)
      else if which_dev = 2 then bnd (yield h s) (\<lambda>ie s. Ok (Yielded ie) s)
      else bnd (prepare_return h s) (\<lambda>_ s. Ok (Returned (MAKE_SATP (p_pagetable (proc s ! i)))) s))"

abbreviation (input) usertrap_unexpected :: "nat \<Rightarrow> nat \<Rightarrow> devices \<Rightarrow> 'a ktrap_scheme \<Rightarrow> (unit, 'a ktrap_scheme) res" where
  "usertrap_unexpected h i io s \<equiv>
     bnd (kprintf h (''usertrap(): unexpected scause 0x%lx pid=%d'' @ [CHR 10]) [AInt (io_scause io), AInt (word_of_int (p_pid (proc s ! i)))] s) (\<lambda>_ s.
     bnd (kprintf h (''            sepc=0x%lx stval=0x%lx'' @ [CHR 10]) [AInt (sepc s h), AInt (io_stval io)] s) (\<lambda>_ s.
       Ok () (setkilled i s)))"

definition usertrap :: "nat \<Rightarrow> devices \<Rightarrow> (nat \<Rightarrow> byte) \<Rightarrow> 'a ktrap_scheme \<Rightarrow> (u64 trap_end, 'a ktrap_scheme) res" where
  "usertrap h io junk s =
     (if sstatus s h AND SSTATUS_SPP \<noteq> 0 then Panic ''usertrap: not from user mode''
      else
        let s = s\<lparr>stvec := (stvec s)(h := k_kernelvec s)\<rparr> in
        (case myproc h s of
           None \<Rightarrow> Panic ''kerneltrap''
         | Some i \<Rightarrow>
             let s = set_tframe i (\<lambda>tf. tf\<lparr>tf_epc := sepc s h\<rparr>) s in
             if io_scause io = 8 then
               if killed i s \<noteq> 0 then bnd (kexit h (-1) s) (\<lambda>ie s. Ok (Exited ie) s)
               else
                 bnd (syscall h junk (intr_on h (set_tframe i (\<lambda>tf. tf\<lparr>tf_epc := tf_epc tf + 4\<rparr>) s))) (\<lambda>r s.
                   case r of
                     Returned _ \<Rightarrow> usertrap_finish h i 0 s
                   | Yielded ie \<Rightarrow> Ok (Yielded ie) s
                   | Exited ie \<Rightarrow> Ok (Exited ie) s)
             else
               bnd (devintr h io s) (\<lambda>r s.
                 case r of
                   Yielded ie \<Rightarrow> Ok (Yielded ie) s
                 | Exited ie \<Rightarrow> Ok (Exited ie) s
                 | Returned which_dev \<Rightarrow>
                     if which_dev \<noteq> 0 then usertrap_finish h i which_dev s
                     else
                       bnd (if io_scause io = 15 \<or> io_scause io = 13 then vmfault h (p_pagetable (proc s ! i)) (io_stval io) s
                            else Ok 0 s) (\<lambda>mem s.
                         if mem \<noteq> 0 then usertrap_finish h i 0 s
                         else bnd (usertrap_unexpected h i io s) (\<lambda>_ s. usertrap_finish h i 0 s)))))"

definition kerneltrap :: "nat \<Rightarrow> devices \<Rightarrow> 'a ktrap_scheme \<Rightarrow> (unit trap_end, 'a ktrap_scheme) res" where
  "kerneltrap h io s =
     (let epc = sepc s h; status = sstatus s h in
      if status AND SSTATUS_SPP = 0 then Panic ''kerneltrap: not from supervisor mode''
      else if intr_get h s then Panic ''kerneltrap: interrupts enabled''
      else
        bnd (devintr h io s) (\<lambda>r s.
          case r of
            Yielded ie \<Rightarrow> Ok (Yielded ie) s
          | Exited ie \<Rightarrow> Ok (Exited ie) s
          | Returned which_dev \<Rightarrow>
              if which_dev = 0 then
                bnd (kprintf h (''scause=0x%lx sepc=0x%lx stval=0x%lx'' @ [CHR 10]) [AInt (io_scause io), AInt (sepc s h), AInt (io_stval io)] s)
                  (\<lambda>_ s. Panic ''kerneltrap'')
              else if which_dev = 2 \<and> myproc h s \<noteq> None then bnd (yield h s) (\<lambda>ie s. Ok (Yielded ie) s)
              else Ok (Returned ()) (s\<lparr>sepc := (sepc s)(h := epc), sstatus := (sstatus s)(h := status)\<rparr>)))"


section \<open>The first return to user space\<close>

definition init_path :: "byte list" where
  "init_path = bytes_of ''/init''"

definition forkret :: "nat \<Rightarrow> 'a ktrap_scheme \<Rightarrow> (u64, 'a ktrap_scheme) res" where
  "forkret h s =
     (case myproc h s of
        None \<Rightarrow> Panic ''kerneltrap''
      | Some i \<Rightarrow>
          bnd (release h (LkProc i) s) (\<lambda>_ s.
          bnd (if first s then
                 bnd (fsinit h (of_nat ROOTDEV) s) (\<lambda>_ s.
                 bnd (kexec h init_path [init_path] (s\<lparr>first := False\<rparr>)) (\<lambda>r s.
                   if r = -1 then Panic ''exec'' else Ok () (set_tframe i (\<lambda>tf. tf\<lparr>tf_a0 := word_of_int r\<rparr>) s)))
               else Ok () s) (\<lambda>_ s.
          bnd (prepare_return h s) (\<lambda>_ s. Ok (MAKE_SATP (p_pagetable (proc s ! i))) s))))"

section \<open>Start-up\<close>

definition printfinit :: "'a kproc_scheme \<Rightarrow> 'a kproc_scheme" where
  "printfinit s = initlock LkPr ''pr'' s"

text \<open>What hart 0 does in \<^verbatim>\<open>main\<close> before it enters the scheduler, and what the others do once hart 0 has set \<^verbatim>\<open>started\<close>.\<close>

definition main_boot :: "(virtio_reg \<Rightarrow> u32) \<Rightarrow> 'a ktrap_scheme \<Rightarrow> (unit, 'a ktrap_scheme) res" where
  "main_boot reg s =
     (let s = printfinit (consoleinit s) in
      bnd (kprintf 0 [CHR 10] [] s) (\<lambda>_ s.
      bnd (kprintf 0 (''xv6 kernel is booting'' @ [CHR 10]) [] s) (\<lambda>_ s.
      bnd (kprintf 0 [CHR 10] [] s) (\<lambda>_ s.
      bnd (kinit s) (\<lambda>_ s.
      bnd (kvminit s) (\<lambda>_ s.
        let s = procinit (kvminithart 0 s);
            s = trapinithart 0 (trapinit s);
            s = plicinithart 0 (plicinit s);
            s = fileinit (iinit (binit s))
        in bnd (virtio_disk_init reg s) (\<lambda>_ s. userinit 0 s)))))))"

definition main_hart :: "nat \<Rightarrow> bool \<Rightarrow> 'a ktrap_scheme \<Rightarrow> (unit, 'a ktrap_scheme) res" where
  "main_hart h started s =
     (if \<not> started then Spin
      else
        bnd (kprintf h (''hart %d starting'' @ [CHR 10]) [AInt (of_nat h)] s) (\<lambda>_ s.
          Ok () (plicinithart h (trapinithart h (kvminithart h s)))))"

section \<open>Back in user space\<close>

lemma prepare_return_effect:
  assumes "prepare_return h s = Ok () t"
  shows "\<exists>i. myproc h t = Some i \<and> proc t = proc s \<and> \<not> c_sie (cpus t h) \<and> stvec t h = TRAMPOLINE + (k_uservec t - k_trampoline t) \<and>
    sstatus t h AND SSTATUS_SPP = 0 \<and> sstatus t h AND SSTATUS_SPIE \<noteq> 0 \<and>
    sepc t h = tf_epc (tframe t (p_trapframe (proc t ! i))) \<and>
    tf_kernel_trap (tframe t (p_trapframe (proc t ! i))) = k_usertrap t \<and>
    tf_kernel_satp (tframe t (p_trapframe (proc t ! i))) = satp t h \<and>
    tf_kernel_sp (tframe t (p_trapframe (proc t ! i))) = p_kstack (proc t ! i) + PGSIZE \<and>
    tf_kernel_hartid (tframe t (p_trapframe (proc t ! i))) = of_nat h"
proof -
  obtain i where i: "myproc h s = Some i" using assms by (auto simp: prepare_return_def split: option.splits)
  have b: "((x AND NOT SSTATUS_SPP) OR SSTATUS_SPIE) AND SSTATUS_SPP = 0"
      "((x AND NOT SSTATUS_SPP) OR SSTATUS_SPIE) AND SSTATUS_SPIE \<noteq> 0" for x :: u64
  proof -
    have z: "SSTATUS_SPIE AND SSTATUS_SPP = 0" by simp
    then show "((x AND NOT SSTATUS_SPP) OR SSTATUS_SPIE) AND SSTATUS_SPP = 0"
      by (simp add: bit.conj_disj_distrib2 and.assoc)
    have "bit SSTATUS_SPIE 5" by simp
    then have "bit (((x AND NOT SSTATUS_SPP) OR SSTATUS_SPIE) AND SSTATUS_SPIE) 5" by (simp add: bit_and_iff bit_or_iff)
    then show "((x AND NOT SSTATUS_SPP) OR SSTATUS_SPIE) AND SSTATUS_SPIE \<noteq> 0" by (metis bit_0_eq bot_apply bot_bool_def)
  qed
  show ?thesis
    using assms i b by (auto simp: prepare_return_def Let_def set_tframe_def intr_off_def myproc_def)
qed

lemma usertrap_finish_effect:
  assumes "usertrap_finish h i d s = Ok (Returned v) t"
  shows "\<exists>u. prepare_return h u = Ok () t \<and> v = MAKE_SATP (p_pagetable (proc t ! i)) \<and> killed i u = 0"
  using assms by (auto simp: usertrap_finish_def bnd_Ok_iff split: if_splits)


text \<open>A CPU in user mode that runs process 0, with an interrupt the PLIC knows nothing of.\<close>

definition trap_boot :: ktrap where
  "trap_boot = kvirtio.extend virtio_boot (ktrap.fields (\<lambda>_. 0x80005000) (\<lambda>_. 0x1000) (\<lambda>_. 0x20) [])"

definition spurious :: devices where
  "spurious = \<lparr>io_scause = 0x8000000000000009, io_stval = 0, io_time = 0, io_irq = 0, io_tx_idle = True, io_rx = [],
     io_virtio = (\<lambda>_. 0)\<rparr>"

lemma trap_boot_facts:
  "myproc 0 trap_boot = Some 0" "sstatus trap_boot 0 AND SSTATUS_SPP = 0" "killed 0 trap_boot = 0"
  "0 \<le> c_noff (cpus trap_boot 0)" "p_trapframe (proc trap_boot ! 0) = 0" "tf_a7 (tframe trap_boot 0) = 0"
  by (simp_all add: trap_boot_def virtio_boot_def file_boot_def cons_boot_def kfs.defs klog.defs kbio.defs kcons.defs kfile.defs
      klife.defs kvirtio.defs ktrap.defs bio_boot_def boot_mem_def boot_world_def boot_cpu_def myproc_def NPROC_def killed_def
      blank_proc_def blank_tframe_def)


lemma uartputc_tframe: "uartputc_sync h c s = Ok () t \<Longrightarrow> tframe t = tframe s"
  by (auto simp: uartputc_sync_def WriteReg_def push_off_def pop_off_def intr_get_def intr_off_def intr_on_def Let_def split: if_splits)

lemma kprintf_tframe: "kprintf h fmt args s = Ok () t \<Longrightarrow> tframe t = tframe s"
  by (auto simp: kprintf_def intro: mfor_keeps[where f = "uartputc_sync h"] uartputc_tframe split: option.splits)

text \<open>
  A system-call number without a handler is harmless: for every number outside 1 to 25, also negative ones and those
  whose upper half is not zero, \<open>syscall\<close> returns, prints, puts -1 into the caller's \<open>a0\<close> and leaves the processes, the
  other trapframes and the console input alone.
\<close>

lemma unknown_syscall_fails:
  fixes s :: "'a ktrap_scheme"
  assumes "myproc h s = Some i" and "0 \<le> c_noff (cpus s h)"
    and "i32 (uint (tf_a7 (tframe s (p_trapframe (proc s ! i))))) \<notin> {1..25}"
  shows "\<exists>t. syscall h junk s = Ok (Returned ()) t \<and> proc t = proc s \<and> pending t = pending s \<and> edit_line t = edit_line s \<and>
    tframe t = (tframe s)(p_trapframe (proc s ! i) := (tframe s (p_trapframe (proc s ! i)))\<lparr>tf_a0 := -1\<rparr>)"
proof -
  let ?p = "proc s ! i"
  let ?num = "i32 (uint (tf_a7 (tframe s (p_trapframe ?p))))"
  have none: "(syscalls h junk ?num :: ('a ktrap_scheme \<Rightarrow> (u64 trap_end, 'a ktrap_scheme) res) option) = None" using assms(3) by (auto simp: syscalls_def)
  have fmt: "printf_kernel (''%d %s: unknown sys call %d'' @ [CHR 10]) [AInt a, AStr b, AInt c] \<noteq> None" for a b c
    by (simp add: printf_kernel_def bytes_of_def printf.simps conversion_def emit_def Let_def)
  obtain u where u: "kprintf h (''%d %s: unknown sys call %d'' @ [CHR 10])
      [AInt (word_of_int (p_pid ?p)), AStr (Some (takeWhile (\<lambda>c. c \<noteq> 0) (p_name ?p))), AInt (word_of_int ?num)] s = Ok () u" "echoes h s u"
    using kprintf_ok[OF fmt assms(2)] by blast
  let ?t = "set_tframe i (\<lambda>tf. tf\<lparr>tf_a0 := -1\<rparr>) u"
  have "syscall h junk s = Ok (Returned ()) ?t"
    using assms(1) none u(1) by (simp add: syscall_def Let_def)
  moreover have "tframe u = tframe s" by (rule kprintf_tframe[OF u(1)])
  moreover have "proc u = proc s" using u(2) by (simp add: echoes_def)
  moreover have "pending ?t = pending u" "edit_line ?t = edit_line u"
    by (simp_all add: set_tframe_def pending_def edit_line_def slice_def Let_def)
  ultimately show ?thesis using echoes_view[OF u(2)] by (intro exI[of _ ?t]) (simp add: set_tframe_def Let_def)
qed

end
