(* ===== verification/Start.thy ===== *)
theory Start
  imports Riscv
begin

text \<open>
  Machine-mode set-up of a hart (\<^verbatim>\<open>kernel/start.c\<close>): the control and status registers it writes before it drops to
  supervisor mode. \<open>main_addr\<close> is the address of \<^verbatim>\<open>main\<close> and \<open>time\<close> what \<^verbatim>\<open>r_time\<close> reads.
\<close>

unbundle bit_operations_syntax

abbreviation (input) MSTATUS_MPP_MASK :: u64 where "MSTATUS_MPP_MASK \<equiv> push_bit 11 3"
abbreviation (input) MSTATUS_MPP_S :: u64 where "MSTATUS_MPP_S \<equiv> push_bit 11 1"
abbreviation (input) SIE_SEIE :: u64 where "SIE_SEIE \<equiv> push_bit 9 1"
abbreviation (input) SIE_STIE :: u64 where "SIE_STIE \<equiv> push_bit 5 1"
abbreviation (input) MIE_STIE :: u64 where "MIE_STIE \<equiv> push_bit 5 1"

record mcsrs =
  m_mstatus :: u64
  m_mepc :: u64
  m_satp :: u64
  m_medeleg :: u64
  m_mideleg :: u64
  m_sie :: u64
  m_pmpaddr0 :: u64
  m_pmpcfg0 :: u64
  m_mie :: u64
  m_menvcfg :: u64
  m_mcounteren :: u64
  m_stimecmp :: u64
  m_mhartid :: u64
  m_tp :: u64

definition timerinit :: "u64 \<Rightarrow> mcsrs \<Rightarrow> mcsrs" where
  "timerinit time m =
     (let m = m\<lparr>m_mie := m_mie m OR MIE_STIE\<rparr>;
          m = m\<lparr>m_menvcfg := m_menvcfg m OR push_bit 63 1\<rparr>;
          m = m\<lparr>m_mcounteren := m_mcounteren m OR 2\<rparr>
      in m\<lparr>m_stimecmp := time + 1000000\<rparr>)"

definition start :: "u64 \<Rightarrow> u64 \<Rightarrow> mcsrs \<Rightarrow> mcsrs" where
  "start main_addr time m =
     (let x = m_mstatus m;
          x = x AND NOT MSTATUS_MPP_MASK;
          x = x OR MSTATUS_MPP_S;
          m = m\<lparr>m_mstatus := x\<rparr>;
          m = m\<lparr>m_mepc := main_addr\<rparr>;
          m = m\<lparr>m_satp := 0\<rparr>;
          m = m\<lparr>m_medeleg := 0xffff\<rparr>;
          m = m\<lparr>m_mideleg := 0xffff\<rparr>;
          m = m\<lparr>m_sie := m_sie m OR SIE_SEIE OR SIE_STIE\<rparr>;
          m = m\<lparr>m_pmpaddr0 := 0x3fffffffffffff\<rparr>;
          m = m\<lparr>m_pmpcfg0 := 0xf\<rparr>;
          m = timerinit time m
      in m\<lparr>m_tp := m_mhartid m\<rparr>)"

text \<open>After \<^verbatim>\<open>start\<close> the \<^verbatim>\<open>mret\<close> drops to supervisor mode, and the other bits of \<^verbatim>\<open>mstatus\<close> are as they were.\<close>

lemma start_supervisor:
  "m_mstatus (start a time m) AND MSTATUS_MPP_MASK = MSTATUS_MPP_S"
  "m_mstatus (start a time m) AND NOT MSTATUS_MPP_MASK = m_mstatus m AND NOT MSTATUS_MPP_MASK"
proof -
  have x: "m_mstatus (start a time m) = (m_mstatus m AND NOT MSTATUS_MPP_MASK) OR MSTATUS_MPP_S"
    by (simp add: start_def timerinit_def Let_def)
  have c: "MSTATUS_MPP_S AND MSTATUS_MPP_MASK = MSTATUS_MPP_S" "MSTATUS_MPP_S AND NOT MSTATUS_MPP_MASK = 0"
    by simp_all
  show "m_mstatus (start a time m) AND MSTATUS_MPP_MASK = MSTATUS_MPP_S"
    unfolding x by (simp add: bit.conj_disj_distrib2 and.assoc c)
  show "m_mstatus (start a time m) AND NOT MSTATUS_MPP_MASK = m_mstatus m AND NOT MSTATUS_MPP_MASK"
    unfolding x by (simp add: bit.conj_disj_distrib2 and.assoc c)
qed

end
