(* ===== verification/UserSys.thy ===== *)
theory UserSys
  imports Printf Sysfile
begin

text \<open>
  User programs. A program sees the kernel only through its system calls, so it is a function of the answers it gets: a
  \<open>uworld\<close> holds the answers still to come and the calls made so far. The stubs that enter the kernel are generated at
  build time (\<^verbatim>\<open>user/usys.pl\<close>), and what the kernel answers is an argument of every program. Each call whose result is
  used takes one answer; a program with no answer left is blocked in that call. A call whose result the source drops
  and that does not wait is only recorded. The rest of \<^verbatim>\<open>user/ulib.c\<close>, that makes system calls, is here too.
\<close>

named_theorems user_simps \<open>evaluation of user programs\<close>

section \<open>Calls and answers\<close>

type_synonym bytes = "byte list"

datatype sysreq =
    Fork | Wait | Pipe | Read int nat | Write int bytes | Close int | Kill int | Execve bytes "bytes list"
  | Open bytes u32 | Mknod bytes int int | Unlink bytes | Fstat int | Link bytes bytes | Mkdir bytes | Chdir bytes
  | Dup int | Getpid | Sbrk int int | Pause int | SetPowerMode int | GetCpuStats | GetEnergyInfo int
  | SetEnergyBudget int | Raw string "int list" | Load int | Store int int

text \<open>
  \<open>Raw\<close> is a call whose pointer arguments the program makes up, given by its name and the words in the argument registers. \<open>Load\<close> and \<open>Store\<close>
  are accesses to memory that the process may not have.
\<close>

text \<open>\<^verbatim>\<open>struct energy_info\<close> as a program reads it.\<close>

record uenergy =
  u_cpu_ticks :: int
  u_sleep_count :: int
  u_wake_count :: int
  u_energy_score :: int

text \<open>
  The answers: a number; bytes that were read; the two ends of a pipe; a child that was reaped, with its status; what
  \<^verbatim>\<open>fstat\<close> or \<^verbatim>\<open>get_energy_info\<close> filled in. A call that hands out data fails when it gets anything else.
\<close>

datatype answer = Num int | Data bytes | Fds int int | Reaped int int | StatIs stat | EnergyIs uenergy

record uworld =
  answers :: "answer list"
  trace :: "sysreq list"

text \<open>A program part returns, ends the program by \<^verbatim>\<open>exit\<close> or \<^verbatim>\<open>exec\<close>, or waits for an answer.\<close>

datatype ('a, 'w) ures = Ret 'a 'w | Exited int 'w | Execed bytes "bytes list" 'w | Blocked 'w

fun ubnd :: "('a, 'w) ures \<Rightarrow> ('a \<Rightarrow> 'w \<Rightarrow> ('b, 'w) ures) \<Rightarrow> ('b, 'w) ures" where
  "ubnd (Ret x w) f = f x w"
| "ubnd (Exited n w) f = Exited n w"
| "ubnd (Execed p as w) f = Execed p as w"
| "ubnd (Blocked w) f = Blocked w"

lemma ubnd_cong [fundef_cong]:
  "m = m' \<Longrightarrow> (\<And>x w. m' = Ret x w \<Longrightarrow> f x w = f' x w) \<Longrightarrow> ubnd m f = ubnd m' f'"
  by (cases m') auto

lemma ubnd_Ret_iff: "ubnd m f = Ret y u \<longleftrightarrow> (\<exists>x w. m = Ret x w \<and> f x w = Ret y u)"
  by (cases m) auto

lemma ubnd_assoc: "ubnd (ubnd m f) g = ubnd m (\<lambda>x w. ubnd (f x w) g)"
  by (cases m) auto

definition tell :: "sysreq \<Rightarrow> 'z uworld_scheme \<Rightarrow> 'z uworld_scheme" where
  "tell r w = w\<lparr>trace := trace w @ [r]\<rparr>"

definition ask :: "sysreq \<Rightarrow> 'z uworld_scheme \<Rightarrow> (answer, 'z uworld_scheme) ures" where
  "ask r w =
     (case answers w of [] \<Rightarrow> Blocked (tell r w) | a # as \<Rightarrow> Ret a ((tell r w)\<lparr>answers := as\<rparr>))"

definition num_of :: "answer \<Rightarrow> int" where
  "num_of a = (case a of Num n \<Rightarrow> n | _ \<Rightarrow> - 1)"

text \<open>A call that returns a number.\<close>

definition call :: "sysreq \<Rightarrow> 'z uworld_scheme \<Rightarrow> (int, 'z uworld_scheme) ures" where
  "call r w = ubnd (ask r w) (\<lambda>a w. Ret (num_of a) w)"

text \<open>\<^verbatim>\<open>read\<close>: the count it returns and the bytes it left in the buffer.\<close>

definition read :: "int \<Rightarrow> nat \<Rightarrow> 'z uworld_scheme \<Rightarrow> (int \<times> bytes, 'z uworld_scheme) ures" where
  "read fd n w = ubnd (ask (Read fd n) w) (\<lambda>a w. Ret
     (case a of Data bs \<Rightarrow> (int (length (take n bs)), take n bs) | _ \<Rightarrow> (- 1, [])) w)"

definition upipe :: "'z uworld_scheme \<Rightarrow> (int \<times> int \<times> int, 'z uworld_scheme) ures" where
  "upipe w = ubnd (ask Pipe w) (\<lambda>a w. Ret (case a of Fds r q \<Rightarrow> (0, r, q) | _ \<Rightarrow> (- 1, 0, 0)) w)"

text \<open>\<^verbatim>\<open>wait(&st)\<close>: the process reaped and its status, which keeps its old value if the call fails.\<close>

definition wait :: "int \<Rightarrow> 'z uworld_scheme \<Rightarrow> (int \<times> int, 'z uworld_scheme) ures" where
  "wait st w = ubnd (ask Wait w) (\<lambda>a w. Ret (case a of Reaped p x \<Rightarrow> (p, x) | _ \<Rightarrow> (- 1, st)) w)"

definition fstat :: "int \<Rightarrow> stat \<Rightarrow> 'z uworld_scheme \<Rightarrow> (int \<times> stat, 'z uworld_scheme) ures" where
  "fstat fd st w = ubnd (ask (Fstat fd) w) (\<lambda>a w. Ret (case a of StatIs x \<Rightarrow> (0, x) | _ \<Rightarrow> (- 1, st)) w)"

definition get_energy_info :: "int \<Rightarrow> uenergy \<Rightarrow> 'z uworld_scheme \<Rightarrow> (int \<times> uenergy, 'z uworld_scheme) ures" where
  "get_energy_info p e w =
     ubnd (ask (GetEnergyInfo p) w) (\<lambda>a w. Ret (case a of EnergyIs x \<Rightarrow> (0, x) | _ \<Rightarrow> (- 1, e)) w)"

text \<open>\<^verbatim>\<open>exec\<close> returns only if it fails.\<close>

definition exec :: "bytes \<Rightarrow> bytes list \<Rightarrow> 'z uworld_scheme \<Rightarrow> (int, 'z uworld_scheme) ures" where
  "exec p as w = ubnd (call (Execve p as) w) (\<lambda>n w. if n < 0 then Ret n w else Execed p as w)"

definition exit :: "int \<Rightarrow> 'z uworld_scheme \<Rightarrow> ('a, 'z uworld_scheme) ures" where
  "exit n w = Exited n w"

lemmas sys_defs [user_simps] = call_def read_def upipe_def wait_def fstat_def get_energy_info_def exec_def exit_def num_of_def

lemma ask_Cons [user_simps]: "answers w = a # as \<Longrightarrow> ask r w = Ret a ((tell r w)\<lparr>answers := as\<rparr>)"
  by (simp add: ask_def)

lemma ask_Nil [user_simps]: "answers w = [] \<Longrightarrow> ask r w = Blocked (tell r w)"
  by (simp add: ask_def)

text \<open>A call uses up an answer, so a loop that waits for the kernel in every round ends on every list of answers.\<close>

lemma ask_shrinks: "ask r w = Ret a w' \<Longrightarrow> length (answers w') < length (answers w)"
  by (auto simp: ask_def split: list.splits)

lemma call_shrinks:
  "call r w = Ret n w' \<Longrightarrow> length (answers w') < length (answers w)"
  "read fd k w = Ret x w' \<Longrightarrow> length (answers w') < length (answers w)"
  "upipe w = Ret y w' \<Longrightarrow> length (answers w') < length (answers w)"
  "wait st w = Ret z w' \<Longrightarrow> length (answers w') < length (answers w)"
  "fstat fd s w = Ret u w' \<Longrightarrow> length (answers w') < length (answers w)"
  "exec p as w = Ret v w' \<Longrightarrow> length (answers w') < length (answers w)"
  by (auto simp: sys_defs ubnd_Ret_iff split: if_splits dest!: ask_shrinks)

lemma tell_answers [simp]: "answers (tell r w) = answers w"
  by (simp add: tell_def)

lemma tell_trace [simp]: "trace (tell r w) = trace w @ [r]"
  by (simp add: tell_def)

section \<open>The library\<close>

text \<open>\<^verbatim>\<open>putc\<close> writes one byte at a time and drops the result.\<close>

definition putc :: "int \<Rightarrow> byte \<Rightarrow> 'z uworld_scheme \<Rightarrow> 'z uworld_scheme" where
  "putc fd c w = tell (Write fd [c]) w"

definition fprintf :: "int \<Rightarrow> string \<Rightarrow> parg list \<Rightarrow> 'z uworld_scheme \<Rightarrow> 'z uworld_scheme" where
  "fprintf fd fmt args w = fold (putc fd) (case printf_user fmt args of Some bs \<Rightarrow> bs | None \<Rightarrow> []) w"

abbreviation uprintf :: "string \<Rightarrow> parg list \<Rightarrow> 'z uworld_scheme \<Rightarrow> 'z uworld_scheme" where
  "uprintf \<equiv> fprintf 1"

text \<open>A line of output, a string in memory, and the arguments of \<^verbatim>\<open>printf\<close>.\<close>

definition line :: "string \<Rightarrow> string" where "line s = s @ [CHR 0x0A]"
definition str :: "bytes \<Rightarrow> parg" where "str bs = AStr (Some bs)"
definition num :: "int \<Rightarrow> parg" where "num n = AInt (word_of_int n)"

abbreviation (input) say :: "string \<Rightarrow> 'z uworld_scheme \<Rightarrow> 'z uworld_scheme" where
  "say s \<equiv> uprintf (line s) []"

abbreviation (input) say2 :: "string \<Rightarrow> 'z uworld_scheme \<Rightarrow> 'z uworld_scheme" where
  "say2 s \<equiv> fprintf 2 (line s) []"

lemma fold_putc_answers [simp]: "answers (fold (putc fd) bs w) = answers w"
  by (induction bs arbitrary: w) (simp_all add: putc_def)

lemma fold_putc_trace [simp]: "trace (fold (putc fd) bs w) = trace w @ map (\<lambda>c. Write fd [c]) bs"
  by (induction bs arbitrary: w) (simp_all add: putc_def)

lemma fprintf_answers [simp]: "answers (fprintf fd fmt args w) = answers w"
  by (simp add: fprintf_def)

text \<open>What a program has written to a descriptor, and its calls with the bytes it wrote left out.\<close>

fun written :: "int \<Rightarrow> sysreq list \<Rightarrow> bytes" where
  "written fd [] = []"
| "written fd (Write d bs # rs) = (if d = fd then bs @ written fd rs else written fd rs)"
| "written fd (r # rs) = written fd rs"

lemma written_append [simp]: "written fd (rs @ ss) = written fd rs @ written fd ss"
  by (induction rs rule: written.induct) simp_all

lemma written_puts [simp]: "written fd (map (\<lambda>c. Write d [c]) bs) = (if d = fd then bs else [])"
  by (induction bs) auto

text \<open>\<^verbatim>\<open>gets\<close>: the bytes it stores before the NUL, at most \<open>k\<close> of them.\<close>

fun gets_loop :: "nat \<Rightarrow> 'z uworld_scheme \<Rightarrow> (bytes, 'z uworld_scheme) ures" where
  "gets_loop 0 w = Ret [] w"
| "gets_loop (Suc k) w =
     ubnd (read 0 1 w) (\<lambda>(cc, bs) w.
     if cc < 1 then Ret [] w
     else
       let c = hd bs in
       if c = 10 \<or> c = 13 then Ret [c] w
       else ubnd (gets_loop k w) (\<lambda>cs w. Ret (c # cs) w))"

definition gets :: "int \<Rightarrow> 'z uworld_scheme \<Rightarrow> (bytes, 'z uworld_scheme) ures" where
  "gets mx w = gets_loop (nat (mx - 1)) w"

definition ustat :: "bytes \<Rightarrow> stat \<Rightarrow> 'z uworld_scheme \<Rightarrow> (int \<times> stat, 'z uworld_scheme) ures" where
  "ustat n st w =
     ubnd (call (Open n O_RDONLY) w) (\<lambda>fd w.
     if fd < 0 then Ret (- 1, st) w
     else ubnd (fstat fd st w) (\<lambda>(r, st) w. Ret (r, st) (tell (Close fd) w)))"

abbreviation (input) SBRK_LAZY :: int where "SBRK_LAZY \<equiv> 2"

definition sbrk :: "int \<Rightarrow> 'z uworld_scheme \<Rightarrow> (int, 'z uworld_scheme) ures" where
  "sbrk n w = call (Sbrk n SBRK_EAGER) w"

definition sbrklazy :: "int \<Rightarrow> 'z uworld_scheme \<Rightarrow> (int, 'z uworld_scheme) ures" where
  "sbrklazy n w = call (Sbrk n SBRK_LAZY) w"

text \<open>An access that faults ends the process with status -1.\<close>

definition load :: "int \<Rightarrow> 'z uworld_scheme \<Rightarrow> (int, 'z uworld_scheme) ures" where
  "load a w = ubnd (ask (Load a) w) (\<lambda>r w. case r of Num n \<Rightarrow> Ret n w | _ \<Rightarrow> exit (- 1) w)"

definition store :: "int \<Rightarrow> int \<Rightarrow> 'z uworld_scheme \<Rightarrow> (unit, 'z uworld_scheme) ures" where
  "store a v w = ubnd (ask (Store a v) w) (\<lambda>r w. case r of Num n \<Rightarrow> Ret () w | _ \<Rightarrow> exit (- 1) w)"

text \<open>\<^verbatim>\<open>start\<close> calls \<^verbatim>\<open>main\<close> and exits with what it returns.\<close>

definition ustart :: "('z uworld_scheme \<Rightarrow> (int, 'z uworld_scheme) ures) \<Rightarrow> 'z uworld_scheme \<Rightarrow> (unit, 'z uworld_scheme) ures" where
  "ustart main w = ubnd (main w) (\<lambda>r w. exit r w)"

end
