(* ===== verification/Coreutils.thy ===== *)
theory Coreutils
  imports UserSys
begin

text \<open>
  The small programs: \<^verbatim>\<open>user/cat.c\<close>, \<^verbatim>\<open>echo.c\<close>, \<^verbatim>\<open>kill.c\<close>, \<^verbatim>\<open>ln.c\<close>, \<^verbatim>\<open>mkdir.c\<close>, \<^verbatim>\<open>rm.c\<close>, \<^verbatim>\<open>wc.c\<close>, \<^verbatim>\<open>ls.c\<close>, \<^verbatim>\<open>zombie.c\<close>,
  \<^verbatim>\<open>forphan.c\<close>, \<^verbatim>\<open>dorphan.c\<close> and \<^verbatim>\<open>init.c\<close>. Arguments are the strings after the name of the program, except where the
  name itself is used.
\<close>

section \<open>cat\<close>

function cat :: "int \<Rightarrow> 'z uworld_scheme \<Rightarrow> (unit, 'z uworld_scheme) ures" where
  "cat fd w =
     ubnd (read fd 512 w) (\<lambda>x w. case x of (n, buf) \<Rightarrow>
     if n > 0 then
       ubnd (call (Write 1 buf) w) (\<lambda>m w.
       if m \<noteq> n then exit 1 (fprintf 2 (line ''cat: write error'') [] w)
       else cat fd w)
     else if n < 0 then exit 1 (fprintf 2 (line ''cat: read error'') [] w)
     else Ret () w)"
  by pat_completeness auto
termination
  by (relation "measure (\<lambda>(fd, w). length (answers w))") (auto dest!: call_shrinks split: prod.splits)

declare cat.simps [simp del]

fun cat_files :: "bytes list \<Rightarrow> 'z uworld_scheme \<Rightarrow> (unit, 'z uworld_scheme) ures" where
  "cat_files [] w = exit 0 w"
| "cat_files (a # as) w =
     ubnd (call (Open a O_RDONLY) w) (\<lambda>fd w.
     if fd < 0 then exit 1 (fprintf 2 (line ''cat: cannot open %s'') [str a] w)
     else ubnd (cat fd w) (\<lambda>_ w. cat_files as (tell (Close fd) w)))"

definition cat_main :: "bytes list \<Rightarrow> 'z uworld_scheme \<Rightarrow> (unit, 'z uworld_scheme) ures" where
  "cat_main args w = (if args = [] then ubnd (cat 0 w) (\<lambda>_ w. exit 0 w) else cat_files args w)"

section \<open>echo, kill, ln, mkdir, rm\<close>

fun echo_args :: "bytes list \<Rightarrow> 'z uworld_scheme \<Rightarrow> 'z uworld_scheme" where
  "echo_args [] w = w"
| "echo_args (a # as) w =
     (let w = tell (Write 1 a) w in
      if as \<noteq> [] then echo_args as (tell (Write 1 [32]) w) else tell (Write 1 [10]) w)"

definition echo_main :: "bytes list \<Rightarrow> 'z uworld_scheme \<Rightarrow> (unit, 'z uworld_scheme) ures" where
  "echo_main args w = exit 0 (echo_args args w)"

definition kill_main :: "bytes list \<Rightarrow> 'z uworld_scheme \<Rightarrow> (unit, 'z uworld_scheme) ures" where
  "kill_main args w =
     (if args = [] then exit 1 (fprintf 2 (line ''usage: kill pid...'') [] w)
      else exit 0 (fold (\<lambda>a w. case atoi (cstr_of a) of Some p \<Rightarrow> tell (Kill p) w | None \<Rightarrow> w) args w))"

definition ln_main :: "bytes list \<Rightarrow> 'z uworld_scheme \<Rightarrow> (unit, 'z uworld_scheme) ures" where
  "ln_main args w =
     (if length args \<noteq> 2 then exit 1 (fprintf 2 (line ''Usage: ln old new'') [] w)
      else
        let old = args ! 0; new = args ! 1 in
        ubnd (call (Link old new) w) (\<lambda>r w.
        exit 0 (if r < 0 then fprintf 2 (line ''link %s %s: failed'') [str old, str new] w else w)))"

fun mkdir_args :: "bytes list \<Rightarrow> 'z uworld_scheme \<Rightarrow> (unit, 'z uworld_scheme) ures" where
  "mkdir_args [] w = Ret () w"
| "mkdir_args (a # as) w =
     ubnd (call (Mkdir a) w) (\<lambda>r w.
     if r < 0 then Ret () (fprintf 2 (line ''mkdir: %s failed to create'') [str a] w) else mkdir_args as w)"

definition mkdir_main :: "bytes list \<Rightarrow> 'z uworld_scheme \<Rightarrow> (unit, 'z uworld_scheme) ures" where
  "mkdir_main args w =
     (if args = [] then exit 1 (fprintf 2 (line ''Usage: mkdir files...'') [] w)
      else ubnd (mkdir_args args w) (\<lambda>_ w. exit 0 w))"

fun rm_args :: "bytes list \<Rightarrow> 'z uworld_scheme \<Rightarrow> (unit, 'z uworld_scheme) ures" where
  "rm_args [] w = Ret () w"
| "rm_args (a # as) w =
     ubnd (call (Unlink a) w) (\<lambda>r w.
     if r < 0 then Ret () (fprintf 2 (line ''rm: %s failed to delete'') [str a] w) else rm_args as w)"

definition rm_main :: "bytes list \<Rightarrow> 'z uworld_scheme \<Rightarrow> (unit, 'z uworld_scheme) ures" where
  "rm_main args w =
     (if args = [] then exit 1 (fprintf 2 (line ''Usage: rm files...'') [] w)
      else ubnd (rm_args args w) (\<lambda>_ w. exit 0 w))"

section \<open>wc\<close>

text \<open>\<^verbatim>\<open>strchr\<close> finds no NUL, so a NUL byte is part of a word.\<close>

definition wc_blank :: "byte \<Rightarrow> bool" where
  "wc_blank b \<longleftrightarrow> b \<in> {32, 13, 9, 10, 11}"

fun wc_bytes :: "bytes \<Rightarrow> int \<times> int \<times> int \<times> bool \<Rightarrow> int \<times> int \<times> int \<times> bool" where
  "wc_bytes [] (l, w, c, inword) = (l, w, c, inword)"
| "wc_bytes (b # bs) (l, w, c, inword) =
     (let c = i32 (c + 1);
          l = (if b = 10 then i32 (l + 1) else l);
          (w, inword) = (if wc_blank b then (w, False) else if \<not> inword then (i32 (w + 1), True) else (w, inword))
      in wc_bytes bs (l, w, c, inword))"

function wc_loop :: "int \<Rightarrow> int \<times> int \<times> int \<times> bool \<Rightarrow> 'z uworld_scheme \<Rightarrow> (int \<times> int \<times> int \<times> int, 'z uworld_scheme) ures" where
  "wc_loop fd st u =
     ubnd (read fd 512 u) (\<lambda>x u. case x of (n, buf) \<Rightarrow>
     if n > 0 then wc_loop fd (wc_bytes buf st) u
     else case st of (l, w, c, inword) \<Rightarrow> Ret (n, l, w, c) u)"
  by pat_completeness auto
termination
  by (relation "measure (\<lambda>(fd, st, u). length (answers u))") (auto dest!: call_shrinks split: prod.splits)

declare wc_loop.simps [simp del]

definition wc :: "int \<Rightarrow> bytes \<Rightarrow> 'z uworld_scheme \<Rightarrow> (unit, 'z uworld_scheme) ures" where
  "wc fd name u =
     ubnd (wc_loop fd (0, 0, 0, False) u) (\<lambda>(n, l, w, c) u.
     if n < 0 then exit 1 (uprintf (line ''wc: read error'') [] u)
     else Ret () (uprintf (line ''%d %d %d %s'') [num l, num w, num c, str name] u))"

fun wc_files :: "bytes list \<Rightarrow> 'z uworld_scheme \<Rightarrow> (unit, 'z uworld_scheme) ures" where
  "wc_files [] w = exit 0 w"
| "wc_files (a # as) w =
     ubnd (call (Open a O_RDONLY) w) (\<lambda>fd w.
     if fd < 0 then exit 1 (uprintf (line ''wc: cannot open %s'') [str a] w)
     else ubnd (wc fd a w) (\<lambda>_ w. wc_files as (tell (Close fd) w)))"

definition wc_main :: "bytes list \<Rightarrow> 'z uworld_scheme \<Rightarrow> (unit, 'z uworld_scheme) ures" where
  "wc_main args w = (if args = [] then ubnd (wc 0 [] w) (\<lambda>_ w. exit 0 w) else wc_files args w)"

section \<open>ls\<close>

text \<open>The file name after the last slash, padded with blanks; \<^verbatim>\<open>buf\<close> has room for \<^verbatim>\<open>DIRSIZ\<close> bytes and a NUL.\<close>

abbreviation (input) after_slash :: "bytes \<Rightarrow> bytes" where
  "after_slash path \<equiv> rev (takeWhile (\<lambda>c. c \<noteq> 47) (rev path))"

definition fmtname :: "bytes \<Rightarrow> bytes" where
  "fmtname path =
     (let p = after_slash path in
      if length p \<ge> DIRSIZ then p else p @ replicate (DIRSIZ - length p) 32)"

definition ls_entry :: "bytes \<Rightarrow> stat \<Rightarrow> 'z uworld_scheme \<Rightarrow> 'z uworld_scheme" where
  "ls_entry path st w =
     uprintf (line ''%s %d %d %d'')
       [str (fmtname path), num (sint (st_type st)), num (uint (st_ino st)), num (sint (ucast (st_size st) :: u32))] w"

text \<open>The loop over the entries of a directory; \<open>buf\<close> holds the path and a slash. The structure \<open>st\<close> keeps what it held.\<close>

function ls_dir :: "int \<Rightarrow> bytes \<Rightarrow> stat \<Rightarrow> 'z uworld_scheme \<Rightarrow> (unit, 'z uworld_scheme) ures" where
  "ls_dir fd buf st w =
     ubnd (read fd sizeof_dirent w) (\<lambda>x w. case x of (n, bs) \<Rightarrow>
     if n \<noteq> int sizeof_dirent then Ret () w
     else
       let de = get_dirent bs in
       if de_inum de = 0 then ls_dir fd buf st w
       else
         let path = buf @ takeWhile (\<lambda>c. c \<noteq> 0) (de_name de) in
         ubnd (ustat path st w) (\<lambda>y w. case y of (r, st) \<Rightarrow>
         if r < 0 then ls_dir fd buf st (uprintf (line ''ls: cannot stat %s'') [str path] w)
         else ls_dir fd buf st (ls_entry path st w)))"
  by pat_completeness auto
termination
  by (relation "measure (\<lambda>(fd, buf, st, w). length (answers w))")
    (auto dest!: call_shrinks simp: ustat_def ubnd_Ret_iff ls_entry_def split: prod.splits if_splits)

declare ls_dir.simps [simp del]

text \<open>What \<open>ls\<close> does with an open file, and the whole of it; \<open>st0\<close> is the structure before it is filled in.\<close>

abbreviation (input) ls_open :: "bytes \<Rightarrow> int \<Rightarrow> stat \<Rightarrow> 'z uworld_scheme \<Rightarrow> (unit, 'z uworld_scheme) ures" where
  "ls_open path fd st w \<equiv>
     (if st_type st = T_DEVICE \<or> st_type st = T_FILE then Ret () (ls_entry path st w)
      else if st_type st = T_DIR then
        if length path + 1 + DIRSIZ + 1 > 512 then Ret () (uprintf (line ''ls: path too long'') [] w)
        else ls_dir fd (path @ [47]) st w
      else Ret () w)"

definition ls :: "stat \<Rightarrow> bytes \<Rightarrow> 'z uworld_scheme \<Rightarrow> (unit, 'z uworld_scheme) ures" where
  "ls st0 path w =
     ubnd (call (Open path O_RDONLY) w) (\<lambda>fd w.
     if fd < 0 then Ret () (fprintf 2 (line ''ls: cannot open %s'') [str path] w)
     else
       ubnd (fstat fd st0 w) (\<lambda>x w. case x of (r, st) \<Rightarrow>
       if r < 0 then Ret () (tell (Close fd) (fprintf 2 (line ''ls: cannot stat %s'') [str path] w))
       else ubnd (ls_open path fd st w) (\<lambda>_ w. Ret () (tell (Close fd) w))))"

fun ls_args :: "stat \<Rightarrow> bytes list \<Rightarrow> 'z uworld_scheme \<Rightarrow> (unit, 'z uworld_scheme) ures" where
  "ls_args st0 [] w = Ret () w"
| "ls_args st0 (a # as) w = ubnd (ls st0 a w) (\<lambda>_ w. ls_args st0 as w)"

definition ls_main :: "stat \<Rightarrow> bytes list \<Rightarrow> 'z uworld_scheme \<Rightarrow> (unit, 'z uworld_scheme) ures" where
  "ls_main st0 args w =
     ubnd (if args = [] then ls st0 (bytes_of ''.'') w else ls_args st0 args w) (\<lambda>_ w. exit 0 w)"

section \<open>init\<close>

text \<open>The inner loop reaps children until the shell is among them. The outer loop never ends.\<close>

function init_reap :: "int \<Rightarrow> 'z uworld_scheme \<Rightarrow> (unit, 'z uworld_scheme) ures" where
  "init_reap pid w =
     ubnd (wait 0 w) (\<lambda>x w. case x of (wpid, st) \<Rightarrow>
     if wpid = pid then Ret () w
     else if wpid < 0 then exit 1 (uprintf (line ''init: wait returned an error'') [] w)
     else init_reap pid w)"
  by pat_completeness auto
termination
  by (relation "measure (\<lambda>(pid, w). length (answers w))") (auto dest!: call_shrinks split: prod.splits)

declare init_reap.simps [simp del]

lemma init_reap_shrinks: "init_reap pid w = Ret x w' \<Longrightarrow> length (answers w') < length (answers w)"
proof (induction pid w rule: init_reap.induct)
  case (1 pid w)
  from "1.prems" obtain p st u where u: "wait 0 w = Ret (p, st) u"
    by (auto simp: init_reap.simps[of pid w] ubnd_Ret_iff)
  then have "length (answers u) < length (answers w)" by (rule call_shrinks(4))
  moreover have "p = pid \<and> u = w' \<or> init_reap pid u = Ret x w' \<and> p \<noteq> pid \<and> \<not> p < 0"
    using "1.prems" u by (auto simp: init_reap.simps[of pid w] exit_def split: if_splits)
  ultimately show ?case using "1.IH"[OF u refl] by auto
qed

function init_loop :: "'z uworld_scheme \<Rightarrow> (unit, 'z uworld_scheme) ures" where
  "init_loop w =
     (let w = uprintf (line ''init: starting sh'') [] w in
      ubnd (call Fork w) (\<lambda>pid w.
      if pid < 0 then exit 1 (uprintf (line ''init: fork failed'') [] w)
      else if pid = 0 then
        ubnd (exec (bytes_of ''sh'') [bytes_of ''sh''] w) (\<lambda>_ w.
        exit 1 (uprintf (line ''init: exec sh failed'') [] w))
      else ubnd (init_reap pid w) (\<lambda>_ w. init_loop w)))"
  by pat_completeness auto
termination
  by (relation "measure (\<lambda>w. length (answers w))")
    (auto dest!: call_shrinks init_reap_shrinks)

declare init_loop.simps [simp del]

definition init_main :: "'z uworld_scheme \<Rightarrow> (unit, 'z uworld_scheme) ures" where
  "init_main w =
     (let console = bytes_of ''console'' in
      ubnd (ubnd (call (Open console O_RDWR) w) (\<lambda>fd w.
        if fd < 0 then Ret () (tell (Open console O_RDWR) (tell (Mknod console (int CONSOLE) 0) w)) else Ret () w)) (\<lambda>_ w.
      init_loop (tell (Dup 0) (tell (Dup 0) w))))"

section \<open>zombie, forphan, dorphan\<close>

definition zombie_main :: "'z uworld_scheme \<Rightarrow> (unit, 'z uworld_scheme) ures" where
  "zombie_main w =
     ubnd (call Fork w) (\<lambda>pid w.
     ubnd (if pid > 0 then call (Pause 5) w else Ret 0 w) (\<lambda>_ w. exit 0 w))"

text \<open>\<^verbatim>\<open>for(;;) pause(1000);\<close>\<close>

function pause_forever :: "'z uworld_scheme \<Rightarrow> (unit, 'z uworld_scheme) ures" where
  "pause_forever w = ubnd (call (Pause 1000) w) (\<lambda>_ w. pause_forever w)"
  by pat_completeness auto
termination
  by (relation "measure (\<lambda>w. length (answers w))") (auto dest!: call_shrinks)

declare pause_forever.simps [simp del]

definition forphan_main :: "bytes \<Rightarrow> stat \<Rightarrow> 'z uworld_scheme \<Rightarrow> (unit, 'z uworld_scheme) ures" where
  "forphan_main s st0 w =
     (let ff = bytes_of ''file0'' in
      ubnd (call (Open ff (O_CREATE OR O_WRONLY)) w) (\<lambda>fd w.
      if fd < 0 then exit 1 (uprintf (line ''%s: open failed'') [str s] w)
      else
        ubnd (fstat fd st0 w) (\<lambda>x w. case x of (r, st) \<Rightarrow>
        if r < 0 then exit 1 (fprintf 2 (line ''%s: cannot stat %s'') [str s, str (bytes_of ''ff'')] w)
        else
          ubnd (call (Unlink ff) w) (\<lambda>r w.
          if r < 0 then exit 1 (uprintf (line ''%s: unlink failed'') [str s] w)
          else
            ubnd (call (Open ff O_RDONLY) w) (\<lambda>r w.
            if r \<noteq> - 1 then exit 1 (uprintf (line ''%s: open successed'') [str s] w)
            else pause_forever (uprintf (line ''wait for kill and reclaim %d'') [num (uint (st_ino st))] w))))))"

definition dorphan_main :: "bytes \<Rightarrow> 'z uworld_scheme \<Rightarrow> (unit, 'z uworld_scheme) ures" where
  "dorphan_main s w =
     (let dd = bytes_of ''dd'' in
      ubnd (call (Mkdir dd) w) (\<lambda>r w.
      if r \<noteq> 0 then exit 1 (uprintf (line ''%s: mkdir dd failed'') [str s] w)
      else
        ubnd (call (Chdir dd) w) (\<lambda>r w.
        if r \<noteq> 0 then exit 1 (uprintf (line ''%s: chdir dd failed'') [str s] w)
        else
          ubnd (call (Unlink (bytes_of ''../dd'')) w) (\<lambda>r w.
          if r < 0 then exit 1 (uprintf (line ''%s: unlink failed'') [str s] w)
          else pause_forever (uprintf (line ''wait for kill and reclaim'') [] w)))))"

section \<open>Copying and counting\<close>

text \<open>What the kernel answers while a file is read in pieces, each of which is written in full, and then ends.\<close>

fun copy_answers :: "bytes list \<Rightarrow> answer list" where
  "copy_answers [] = [Data []]"
| "copy_answers (d # ds) = Data d # Num (int (length d)) # copy_answers ds"

lemma cat_copies:
  assumes "\<forall>d\<in>set ds. d \<noteq> [] \<and> length d \<le> 512" and "answers w = copy_answers ds @ rest"
  shows "\<exists>u. cat fd w = Ret () u \<and> written 1 (trace u) = written 1 (trace w) @ concat ds \<and> answers u = rest"
  using assms
proof (induction ds arbitrary: w)
  case Nil
  then show ?case by (simp add: cat.simps[of fd w] read_def ask_Cons)
next
  case (Cons d ds)
  let ?v = "(tell (Write 1 d) ((tell (Read fd 512) w)\<lparr>answers := Num (int (length d)) # copy_answers ds @ rest\<rparr>))
    \<lparr>answers := copy_answers ds @ rest\<rparr>"
  obtain u where "cat fd ?v = Ret () u" "written 1 (trace u) = written 1 (trace ?v) @ concat ds" "answers u = rest"
    using Cons.IH[of ?v] Cons.prems(1) by auto
  moreover have "cat fd w = cat fd ?v"
    using Cons.prems by (simp add: cat.simps[of fd w] read_def call_def num_of_def ask_Cons)
  ultimately show ?case by simp
qed

text \<open>
  \<open>cat\<close> without arguments copies its input: however the kernel cuts the input into pieces of at most 512 bytes, when every
  piece is written in full the bytes that reach the output are the input, and the program exits with status 0.
\<close>

lemma cat_copies_input:
  assumes "\<forall>d\<in>set ds. d \<noteq> [] \<and> length d \<le> 512" and "answers w = copy_answers ds"
  shows "\<exists>u. cat_main [] w = Exited 0 u \<and> written 1 (trace u) = written 1 (trace w) @ concat ds"
proof -
  obtain u where "cat 0 w = Ret () u" "written 1 (trace u) = written 1 (trace w) @ concat ds"
    using cat_copies[OF assms(1), of w "[]" 0] assms(2) by auto
  then show ?thesis by (simp add: cat_main_def exit_def)
qed

text \<open>The words of a text: the maximal runs of bytes that are not blank.\<close>

function wc_words :: "bytes \<Rightarrow> bytes list" where
  "wc_words bs =
     (let bs' = dropWhile wc_blank bs in
      if bs' = [] then [] else takeWhile (\<lambda>b. \<not> wc_blank b) bs' # wc_words (dropWhile (\<lambda>b. \<not> wc_blank b) bs'))"
  by pat_completeness auto
termination
proof (relation "measure length", simp, goal_cases)
  case (1 bs bs')
  then have "bs' \<noteq> []" "\<not> wc_blank (hd bs')" using hd_dropWhile[of wc_blank bs] by auto
  then have "length (dropWhile (\<lambda>b. \<not> wc_blank b) bs') < length bs'"
    by (cases bs') (auto simp: le_imp_less_Suc length_dropWhile_le)
  also have "\<dots> \<le> length bs" using 1 by (simp add: length_dropWhile_le)
  finally show ?case by simp
qed

declare wc_words.simps [simp del]

lemma wc_words_blank: "wc_blank b \<Longrightarrow> wc_words (b # bs) = wc_words bs"
  by (simp add: wc_words.simps[of "b # bs"] wc_words.simps[of bs])

text \<open>The number of words that begin in a text, if the byte before it is part of one or not.\<close>

definition word_starts :: "bool \<Rightarrow> bytes \<Rightarrow> nat" where
  "word_starts inword bs = length (wc_words (if inword then dropWhile (\<lambda>b. \<not> wc_blank b) bs else bs))"

lemma word_starts_Nil [simp]: "word_starts i [] = 0"
  by (simp add: word_starts_def wc_words.simps)

lemma word_starts_Cons:
  "word_starts i (b # bs) = (if wc_blank b then word_starts False bs else (if i then 0 else 1) + word_starts True bs)"
proof (cases "wc_blank b")
  case True
  then show ?thesis by (simp add: word_starts_def wc_words_blank)
next
  case False
  then show ?thesis by (simp add: word_starts_def wc_words.simps[of "b # bs"])
qed

lemma i32_i32_add: "i32 (i32 a + b) = i32 (a + b)"
proof -
  have "(i32 a + b + 2 ^ 31) mod 2 ^ 32 = ((a + 2 ^ 31) mod 2 ^ 32 + b) mod 2 ^ 32" by (simp add: i32_def algebra_simps)
  also have "\<dots> = (a + b + 2 ^ 31) mod 2 ^ 32" by (simp add: mod_simps algebra_simps)
  finally show ?thesis by (simp add: i32_def)
qed

lemmas i32_add = i32_i32_add i32_i32_add[unfolded add.commute[of "i32 _"]]

definition ends_in_word :: "bool \<Rightarrow> bytes \<Rightarrow> bool" where
  "ends_in_word i bs = (if bs = [] then i else \<not> wc_blank (last bs))"

lemma wc_bytes_counts:
  "wc_bytes bs (i32 l, i32 w, i32 c, i) =
     (i32 (l + int (count_list bs 10)), i32 (w + int (word_starts i bs)), i32 (c + int (length bs)), ends_in_word i bs)"
proof (induction bs arbitrary: l w c i)
  case (Cons b bs)
  then show ?case
    by (cases "wc_blank b"; cases "b = 10"; cases i) (simp_all add: i32_add word_starts_Cons ends_in_word_def ac_simps)
qed (simp add: ends_in_word_def)

lemma wc_bytes_append: "wc_bytes (as @ bs) st = wc_bytes bs (wc_bytes as st)"
proof (induction as arbitrary: st)
  case Nil
  then show ?case by (cases st) simp
next
  case (Cons a as)
  then show ?case by (cases st) (simp add: Let_def split: prod.splits)
qed

lemma wc_loop_counts:
  assumes "\<forall>d\<in>set ds. d \<noteq> [] \<and> length d \<le> 512" and "answers u = map Data ds @ Data [] # rest"
  shows "\<exists>v l w c i. wc_loop fd st u = Ret (0, l, w, c) v \<and> wc_bytes (concat ds) st = (l, w, c, i) \<and> answers v = rest \<and>
    written 1 (trace v) = written 1 (trace u)"
  using assms
proof (induction ds arbitrary: st u)
  case Nil
  then show ?case by (auto simp: wc_loop.simps[of fd st u] read_def ask_Cons split: prod.splits)
next
  case (Cons d ds)
  let ?u = "(tell (Read fd 512) u)\<lparr>answers := map Data ds @ Data [] # rest\<rparr>"
  have "wc_loop fd st u = wc_loop fd (wc_bytes d st) ?u"
    using Cons.prems by (simp add: wc_loop.simps[of fd st u] read_def ask_Cons)
  then show ?case using Cons.IH[of ?u "wc_bytes d st"] Cons.prems by (simp add: wc_bytes_append)
qed

lemma wc_line: "\<exists>out. printf_user (line ''%d %d %d %s'') [num l, num w, num c, str name] = Some out"
  unfolding printf_user_def line_def bytes_of_def num_def str_def
  by (simp add: vprintf.simps conversion_def emit_def)

text \<open>
  \<open>wc\<close> counts lines, words and bytes: for every text, however it is cut into pieces, it prints the number of newline bytes,
  the number of maximal runs of non-blank bytes, also of those that cross a piece boundary, and the length, each as a
  32-bit \<^verbatim>\<open>int\<close>.
\<close>

lemma wc_prints_counts:
  assumes "\<forall>d\<in>set ds. d \<noteq> [] \<and> length d \<le> 512" and "answers u = map Data ds @ [Data []]"
  shows "\<exists>v out. wc_main [] u = Exited 0 v \<and> written 1 (trace v) = written 1 (trace u) @ out \<and>
    printf_user (line ''%d %d %d %s'')
      [num (i32 (int (count_list (concat ds) 10))), num (i32 (int (length (wc_words (concat ds))))),
       num (i32 (int (length (concat ds)))), str []] = Some out"
proof -
  have z: "(0 :: int) = i32 0" by simp
  obtain v l w c i where v: "wc_loop 0 (0, 0, 0, False) u = Ret (0, l, w, c) v"
      "wc_bytes (concat ds) (0, 0, 0, False) = (l, w, c, i)" "written 1 (trace v) = written 1 (trace u)"
    using wc_loop_counts[of ds u "[]" 0 "(0, 0, 0, False)"] assms by auto
  have c: "l = i32 (int (count_list (concat ds) 10))" "w = i32 (int (length (wc_words (concat ds))))"
      "c = i32 (int (length (concat ds)))"
    using v(2) wc_bytes_counts[of "concat ds" 0 0 0 False] by (simp_all add: word_starts_def)
  obtain out where "printf_user (line ''%d %d %d %s'') [num l, num w, num c, str []] = Some out"
    using wc_line by blast
  then show ?thesis using v by (simp add: wc_main_def wc_def exit_def fprintf_def c)
qed

section \<open>The first process\<close>

text \<open>
  One life of the shell as \<open>init\<close> sees it: its process id, the orphans reaped meanwhile, and its exit status; and the answers
  the kernel gives to \<^verbatim>\<open>fork\<close> and \<^verbatim>\<open>wait\<close>.
\<close>

type_synonym shell_life = "int \<times> (int \<times> int) list \<times> int"

definition life_answers :: "shell_life \<Rightarrow> answer list" where
  "life_answers life = (case life of (pid, orphans, st) \<Rightarrow> Num pid # map (\<lambda>(p, x). Reaped p x) orphans @ [Reaped pid st])"

definition life_ok :: "shell_life \<Rightarrow> bool" where
  "life_ok life = (case life of (pid, orphans, st) \<Rightarrow> 0 < pid \<and> (\<forall>(p, x)\<in>set orphans. 0 < p \<and> p \<noteq> pid))"

definition forks :: "sysreq list \<Rightarrow> nat" where
  "forks rs = length (filter (\<lambda>r. r = Fork) rs)"

definition waits :: "sysreq list \<Rightarrow> nat" where
  "waits rs = length (filter (\<lambda>r. r = Wait) rs)"

lemma forks_waits_simps [simp]:
  "forks (rs @ ss) = forks rs + forks ss" "forks (r # rs) = (if r = Fork then 1 else 0) + forks rs" "forks [] = 0"
  "waits (rs @ ss) = waits rs + waits ss" "waits (r # rs) = (if r = Wait then 1 else 0) + waits rs" "waits [] = 0"
  by (simp_all add: forks_def waits_def)

lemma forks_waits_puts [simp]: "forks (map (\<lambda>c. Write fd [c]) bs) = 0" "waits (map (\<lambda>c. Write fd [c]) bs) = 0"
  by (induction bs) simp_all

lemma forks_waits_fprintf [simp]:
  "forks (trace (fprintf fd fmt args w)) = forks (trace w)" "waits (trace (fprintf fd fmt args w)) = waits (trace w)"
  by (simp_all add: fprintf_def)

lemma init_reap_orphans:
  assumes "\<forall>(p, x)\<in>set orphans. 0 < p \<and> p \<noteq> pid" and "answers w = map (\<lambda>(p, x). Reaped p x) orphans @ Reaped pid st # rest"
  shows "\<exists>u. init_reap pid w = Ret () u \<and> answers u = rest \<and> forks (trace u) = forks (trace w) \<and>
    waits (trace u) = waits (trace w) + Suc (length orphans)"
  using assms
proof (induction orphans arbitrary: w)
  case Nil
  then show ?case by (auto simp: init_reap.simps[of pid w] wait_def ask_Cons)
next
  case (Cons q orphans)
  obtain p x where q: "q = (p, x)" by (cases q)
  let ?w = "(tell Wait w)\<lparr>answers := map (\<lambda>(p, x). Reaped p x) orphans @ Reaped pid st # rest\<rparr>"
  have "init_reap pid w = init_reap pid ?w"
    using Cons.prems q by (auto simp: init_reap.simps[of pid w] wait_def ask_Cons)
  then show ?case using Cons.IH[of ?w] Cons.prems(1) by auto
qed

lemma init_loop_lives:
  assumes "\<forall>life\<in>set lives. life_ok life" and "answers w = concat (map life_answers lives)"
  shows "\<exists>u. init_loop w = Blocked u \<and> forks (trace u) = forks (trace w) + Suc (length lives) \<and>
    waits (trace u) = waits (trace w) + (\<Sum>(pid, orphans, st)\<leftarrow>lives. Suc (length orphans))"
  using assms
proof (induction lives arbitrary: w)
  case Nil
  then show ?case by (simp add: init_loop.simps[of w] call_def ask_Nil)
next
  case (Cons life lives)
  obtain pid orphans st where l: "life = (pid, orphans, st)" by (cases life)
  let ?w = "(tell Fork (uprintf (line ''init: starting sh'') [] w))\<lparr>answers := map (\<lambda>(p, x). Reaped p x) orphans @ Reaped pid st #
    concat (map life_answers lives)\<rparr>"
  obtain u where u: "init_reap pid ?w = Ret () u" "answers u = concat (map life_answers lives)"
      "forks (trace u) = Suc (forks (trace w))" "waits (trace u) = waits (trace w) + Suc (length orphans)"
    using init_reap_orphans[of orphans pid ?w st "concat (map life_answers lives)"] Cons.prems(1) l by (auto simp: life_ok_def)
  have "answers w = Num pid # map (\<lambda>(p, x). Reaped p x) orphans @ Reaped pid st # concat (map life_answers lives)" and "0 < pid"
    using Cons.prems l by (simp_all add: life_answers_def[of "(pid, orphans, st)"] life_ok_def[of "(pid, orphans, st)"])
  then have "init_loop w = init_loop u"
    using u(1) by (simp add: init_loop.simps[of w] call_def num_of_def ask_Cons)
  then show ?case using Cons.IH[of u] Cons.prems(1) u l by auto
qed

text \<open>
  C27. \<open>init\<close> keeps a shell running: with the console open, over any number of shell lives, with any orphans handed to it in between,
  it reaps every orphan and every shell with one \<^verbatim>\<open>wait\<close> each, forks a new shell after each that ended, and then waits for the
  kernel again; it does not exit, which would panic the kernel.
\<close>

theorem init_restarts_shell:
  assumes "0 \<le> fd" and "\<forall>life\<in>set lives. life_ok life"
    and "answers w = Num fd # concat (map life_answers lives)" and "trace w = []"
  shows "\<exists>u. init_main w = Blocked u \<and> forks (trace u) = Suc (length lives) \<and>
    waits (trace u) = (\<Sum>(pid, orphans, st)\<leftarrow>lives. Suc (length orphans))"
proof -
  let ?w = "(tell (Open (bytes_of ''console'') O_RDWR) w)\<lparr>answers := concat (map life_answers lives)\<rparr>"
  have "init_main w = init_loop (tell (Dup 0) (tell (Dup 0) ?w))"
    using assms by (simp add: init_main_def call_def num_of_def ask_Cons)
  then show ?thesis using init_loop_lives[OF assms(2), of "tell (Dup 0) (tell (Dup 0) ?w)"] assms(4) by auto
qed

theorem init_restarts_shell_witness:
  "\<exists>u. init_main \<lparr>answers = [Num 0, Num 2, Reaped 7 0, Reaped 2 0, Num 9, Reaped 9 1], trace = []\<rparr> = Blocked u \<and>
     forks (trace u) = 3 \<and> waits (trace u) = 3"
  using init_restarts_shell[of 0 "[(2, [(7, 0)], 0), (9, [], 1)]"
    "\<lparr>answers = [Num 0, Num 2, Reaped 7 0, Reaped 2 0, Num 9, Reaped 9 1], trace = []\<rparr>"]
  by (simp add: life_ok_def life_answers_def numeral_3_eq_3)

end
