(* ===== verification/Grep.thy ===== *)
theory Grep
  imports Coreutils
begin

text \<open>
  The pattern matcher and line filter of \<^verbatim>\<open>user/grep.c\<close>. Strings are byte lists without the NUL that ends them.
\<close>

abbreviation (input) caret :: byte where "caret \<equiv> 94"
abbreviation (input) dollar :: byte where "dollar \<equiv> 36"
abbreviation (input) star :: byte where "star \<equiv> 42"
abbreviation (input) dot :: byte where "dot \<equiv> 46"
abbreviation (input) newline :: byte where "newline \<equiv> 10"

section \<open>The matcher\<close>

function matchhere :: "byte list \<Rightarrow> byte list \<Rightarrow> bool"
  and matchstar :: "byte \<Rightarrow> byte list \<Rightarrow> byte list \<Rightarrow> bool" where
  "matchhere re tx =
     (case re of
        [] \<Rightarrow> True
      | c # re' \<Rightarrow>
          if re' \<noteq> [] \<and> hd re' = star then matchstar c (tl re') tx
          else if c = dollar \<and> re' = [] then tx = []
          else (case tx of [] \<Rightarrow> False | t # ts \<Rightarrow> if c = dot \<or> c = t then matchhere re' ts else False))"
| "matchstar c re tx =
     (if matchhere re tx then True
      else (case tx of [] \<Rightarrow> False | t # ts \<Rightarrow> if t = c \<or> c = dot then matchstar c re ts else False))"
  by pat_completeness auto
termination
  by (relation "inv_image (less_than <*lex*> less_than <*lex*> less_than)
      (\<lambda>x. case x of Inl (re, tx) \<Rightarrow> (length re, length tx, 0 :: nat) | Inr (c, re, tx) \<Rightarrow> (length re, length tx, 1))")
    auto

declare matchhere.simps [simp del] matchstar.simps [simp del]

fun match_from :: "byte list \<Rightarrow> byte list \<Rightarrow> bool" where
  "match_from re [] = matchhere re []"
| "match_from re (t # ts) = (if matchhere re (t # ts) then True else match_from re ts)"

definition match :: "byte list \<Rightarrow> byte list \<Rightarrow> bool" where
  "match re tx = (if re \<noteq> [] \<and> hd re = caret then matchhere (tl re) tx else match_from re tx)"

section \<open>Reading and filtering\<close>

text \<open>
  The loop over the complete lines of the buffer, up to the first NUL, where \<^verbatim>\<open>strchr\<close> stops: it writes the lines that match and leaves
  the rest.
\<close>

function grep_lines :: "bytes \<Rightarrow> bytes \<Rightarrow> 'z uworld_scheme \<Rightarrow> bytes \<times> 'z uworld_scheme" where
  "grep_lines pattern p w =
     (if newline \<in> set (takeWhile (\<lambda>c. c \<noteq> 0) p) then
        let ln = takeWhile (\<lambda>c. c \<noteq> newline) p in
        grep_lines pattern (drop (Suc (length ln)) p) (if match pattern ln then tell (Write 1 (ln @ [newline])) w else w)
      else (p, w))"
  by pat_completeness auto
termination
  by (relation "measure (\<lambda>(pattern, p, w). length p)")
    (auto dest!: set_takeWhileD simp: length_pos_if_in_set intro!: diff_less)

declare grep_lines.simps [simp del]

text \<open>\<open>m\<close> is what the last round left at the start of the buffer of 1024 bytes.\<close>

lemma grep_lines_answers [simp]: "answers (snd (grep_lines pattern p w)) = answers w"
  by (induction pattern p w rule: grep_lines.induct) (subst grep_lines.simps, simp add: Let_def)

function grep_loop :: "bytes \<Rightarrow> int \<Rightarrow> bytes \<Rightarrow> 'z uworld_scheme \<Rightarrow> (unit, 'z uworld_scheme) ures" where
  "grep_loop pattern fd m w =
     ubnd (read fd (1024 - length m - 1) w) (\<lambda>x w. case x of (n, bs) \<Rightarrow>
     if n > 0 then
       (case grep_lines pattern (m @ bs) w of (m, w) \<Rightarrow> grep_loop pattern fd m w)
     else Ret () w)"
  by pat_completeness auto
termination
proof (relation "measure (\<lambda>(pattern, fd, m, w). length (answers w))", simp, goal_cases)
  case (1 pattern fd m w x u n bs m' v)
  then have "length (answers u) < length (answers w)" by (auto dest: call_shrinks)
  moreover have "answers v = answers u" using grep_lines_answers[of pattern "m @ bs" u] unfolding 1(4)[symmetric] snd_conv .
  ultimately show ?case by simp
qed

declare grep_loop.simps [simp del]

definition grep :: "bytes \<Rightarrow> int \<Rightarrow> 'z uworld_scheme \<Rightarrow> (unit, 'z uworld_scheme) ures" where
  "grep pattern fd w = grep_loop pattern fd [] w"

fun grep_files :: "bytes \<Rightarrow> bytes list \<Rightarrow> 'z uworld_scheme \<Rightarrow> (unit, 'z uworld_scheme) ures" where
  "grep_files pattern [] w = exit 0 w"
| "grep_files pattern (a # as) w =
     ubnd (call (Open a O_RDONLY) w) (\<lambda>fd w.
     if fd < 0 then exit 1 (uprintf (line ''grep: cannot open %s'') [str a] w)
     else ubnd (grep pattern fd w) (\<lambda>_ w. grep_files pattern as (tell (Close fd) w)))"

definition grep_main :: "bytes list \<Rightarrow> 'z uworld_scheme \<Rightarrow> (unit, 'z uworld_scheme) ures" where
  "grep_main args w =
     (case args of
        [] \<Rightarrow> exit 1 (fprintf 2 (line ''usage: grep pattern [file ...]'') [] w)
      | [pattern] \<Rightarrow> ubnd (grep pattern 0 w) (\<lambda>_ w. exit 0 w)
      | pattern # files \<Rightarrow> grep_files pattern files w)"

section \<open>Regular expressions\<close>

text \<open>What a pattern means: a list of items, and whether the match must reach the end of the text.\<close>

datatype item = One byte | Many byte

fun items :: "byte list \<Rightarrow> item list" where
  "items [] = []"
| "items [c] = (if c = dollar then [] else [One c])"
| "items (c # d # re) = (if d = star then Many c # items re else One c # items (d # re))"

fun at_end :: "byte list \<Rightarrow> bool" where
  "at_end [] = False"
| "at_end [c] = (c = dollar)"
| "at_end (c # d # re) = (if d = star then at_end re else at_end (d # re))"

definition fits :: "byte \<Rightarrow> byte \<Rightarrow> bool" where
  "fits c t \<longleftrightarrow> c = dot \<or> c = t"

fun lang :: "item list \<Rightarrow> byte list set" where
  "lang [] = {[]}"
| "lang (One c # is) = {t # w | t w. fits c t \<and> w \<in> lang is}"
| "lang (Many c # is) = {u @ w | u w. (\<forall>t\<in>set u. fits c t) \<and> w \<in> lang is}"

text \<open>A word of the pattern begins the text, and ends it if it must.\<close>

definition begins :: "byte list \<Rightarrow> byte list \<Rightarrow> bool" where
  "begins re tx \<longleftrightarrow> (\<exists>w rest. tx = w @ rest \<and> w \<in> lang (items re) \<and> (at_end re \<longrightarrow> rest = []))"

lemma matchstar_iff:
  assumes "\<And>tx. matchhere re tx \<longleftrightarrow> begins re tx"
  shows "matchstar c re tx \<longleftrightarrow> (\<exists>u v. tx = u @ v \<and> (\<forall>t\<in>set u. fits c t) \<and> begins re v)"
proof (induction tx)
  case Nil
  then show ?case using assms by (simp add: matchstar.simps)
next
  case (Cons t ts)
  have "(\<exists>u v. t # ts = u @ v \<and> (\<forall>x\<in>set u. fits c x) \<and> begins re v) \<longleftrightarrow>
      begins re (t # ts) \<or> fits c t \<and> (\<exists>u v. ts = u @ v \<and> (\<forall>x\<in>set u. fits c x) \<and> begins re v)" (is "?l \<longleftrightarrow> ?r")
  proof
    assume ?l
    then obtain u v where u: "t # ts = u @ v" "\<forall>x\<in>set u. fits c x" "begins re v" by blast
    then show ?r by (cases u) auto
  next
    assume ?r
    then show ?l
    proof
      assume "begins re (t # ts)"
      then have "t # ts = [] @ (t # ts) \<and> (\<forall>x\<in>set []. fits c x) \<and> begins re (t # ts)" by simp
      then show ?l by blast
    next
      assume "fits c t \<and> (\<exists>u v. ts = u @ v \<and> (\<forall>x\<in>set u. fits c x) \<and> begins re v)"
      then obtain u v where "fits c t" "ts = u @ v" "\<forall>x\<in>set u. fits c x" "begins re v" by blast
      then show ?l by (intro exI[of _ "t # u"] exI[of _ v]) simp
    qed
  qed
  then show ?case using Cons assms by (auto simp: matchstar.simps[of c re "t # ts"] fits_def)
qed

lemma begins_star: "begins (c # star # re) tx \<longleftrightarrow> (\<exists>u v. tx = u @ v \<and> (\<forall>t\<in>set u. fits c t) \<and> begins re v)"
proof
  assume "begins (c # star # re) tx"
  then obtain x rest where x: "tx = x @ rest" "x \<in> lang (Many c # items re)" "at_end re \<longrightarrow> rest = []"
    by (auto simp: begins_def)
  from x(2) obtain u w where "x = u @ w" "\<forall>t\<in>set u. fits c t" "w \<in> lang (items re)" by auto
  with x show "\<exists>u v. tx = u @ v \<and> (\<forall>t\<in>set u. fits c t) \<and> begins re v"
    by (intro exI[of _ u] exI[of _ "w @ rest"]) (auto simp: begins_def)
next
  assume "\<exists>u v. tx = u @ v \<and> (\<forall>t\<in>set u. fits c t) \<and> begins re v"
  then obtain u v where u: "tx = u @ v" "\<forall>t\<in>set u. fits c t" "begins re v" by blast
  then obtain w rest where "v = w @ rest" "w \<in> lang (items re)" "at_end re \<longrightarrow> rest = []" by (auto simp: begins_def)
  with u show "begins (c # star # re) tx"
    unfolding begins_def by (intro exI[of _ "u @ w"] exI[of _ rest]) auto
qed

lemma begins_one:
  assumes "re = [] \<or> hd re \<noteq> star" and "\<not> (c = dollar \<and> re = [])"
  shows "begins (c # re) tx \<longleftrightarrow> (\<exists>t ts. tx = t # ts \<and> fits c t \<and> begins re ts)"
proof -
  have "items (c # re) = One c # items re" "at_end (c # re) = at_end re"
    using assms by (cases re; auto)+
  note d = this
  show ?thesis
  proof
    assume "begins (c # re) tx"
    then obtain w rest where w: "tx = w @ rest" "w \<in> lang (One c # items re)" "at_end re \<longrightarrow> rest = []"
      unfolding begins_def d by blast
    then obtain t v where "w = t # v" "fits c t" "v \<in> lang (items re)" by auto
    then show "\<exists>t ts. tx = t # ts \<and> fits c t \<and> begins re ts" using w(1,3) by (auto simp: begins_def)
  next
    assume "\<exists>t ts. tx = t # ts \<and> fits c t \<and> begins re ts"
    then obtain t ts where t: "tx = t # ts" "fits c t" "begins re ts" by blast
    then obtain v rest where v: "ts = v @ rest" "v \<in> lang (items re)" "at_end re \<longrightarrow> rest = []"
      unfolding begins_def by blast
    have "t # v \<in> lang (One c # items re)" using t(2) v(2) by simp
    moreover have "tx = (t # v) @ rest" using t(1) v(1) by simp
    ultimately show "begins (c # re) tx" unfolding begins_def d using v(3) by blast
  qed
qed

lemma matchhere_iff: "matchhere re tx \<longleftrightarrow> begins re tx"
proof (induction "length re" arbitrary: re tx rule: less_induct)
  case less
  show ?case
  proof (cases re)
    case Nil
    then show ?thesis by (auto simp: matchhere.simps begins_def)
  next
    case (Cons c re')
    show ?thesis
    proof (cases "re' \<noteq> [] \<and> hd re' = star")
      case True
      then obtain re'' where r: "re' = star # re''" by (cases re') auto
      then show ?thesis
        using Cons matchstar_iff[of re'' c tx] less[of re''] by (simp add: matchhere.simps[of "c # star # re''"] begins_star)
    next
      case False
      show ?thesis
      proof (cases "c = dollar \<and> re' = []")
        case True
        then show ?thesis using Cons by (auto simp: matchhere.simps[of "[36]"] begins_def)
      next
        case F: False
        have "matchhere (c # re') tx \<longleftrightarrow> (\<exists>t ts. tx = t # ts \<and> fits c t \<and> matchhere re' ts)"
          using False F by (cases tx) (auto simp: matchhere.simps[of "c # re'"] fits_def)
        then show ?thesis using Cons begins_one[of re' c tx] False F less[of re'] by simp
      qed
    qed
  qed
qed

text \<open>
  C22. The matcher decides the pattern language: \<open>match\<close> holds exactly when a word of the pattern begins the text (after
  \<open>^\<close>) or some suffix of it, up to its end if the pattern ends in \<open>$\<close>, where \<open>c*\<close> stands for any number of bytes that fit \<open>c\<close>
  and \<open>.\<close> fits every byte.
\<close>

theorem match_decides_pattern:
  "match re tx \<longleftrightarrow>
     (if re \<noteq> [] \<and> hd re = caret then begins (tl re) tx else (\<exists>pre suf. tx = pre @ suf \<and> begins re suf))"
proof -
  have "match_from r tx \<longleftrightarrow> (\<exists>pre suf. tx = pre @ suf \<and> begins r suf)" for r
  proof (induction tx)
    case Nil
    then show ?case by (simp add: matchhere_iff)
  next
    case (Cons t ts)
    have "(\<exists>pre suf. t # ts = pre @ suf \<and> begins r suf) \<longleftrightarrow> begins r (t # ts) \<or> (\<exists>pre suf. ts = pre @ suf \<and> begins r suf)"
      by (auto simp: Cons_eq_append_conv)
    then show ?case using Cons by (simp add: matchhere_iff)
  qed
  then show ?thesis by (simp add: match_def matchhere_iff)
qed

section \<open>Filtering\<close>

text \<open>The complete lines of a text, without their newlines, and the bytes after the last newline; \<open>acc\<close> is the start of the first line.\<close>

fun cut_lines :: "bytes \<Rightarrow> bytes \<Rightarrow> bytes list \<times> bytes" where
  "cut_lines acc [] = ([], acc)"
| "cut_lines acc (b # bs) =
     (if b = newline then (acc # fst (cut_lines [] bs), snd (cut_lines [] bs)) else cut_lines (acc @ [b]) bs)"

lemma cut_lines_append:
  "cut_lines acc (p @ q) =
     (fst (cut_lines acc p) @ fst (cut_lines (snd (cut_lines acc p)) q), snd (cut_lines (snd (cut_lines acc p)) q))"
  by (induction acc p rule: cut_lines.induct) simp_all

lemma cut_lines_no_newline: "newline \<notin> set m \<Longrightarrow> cut_lines acc (m @ bs) = cut_lines (acc @ m) bs"
  by (induction m arbitrary: acc) auto

lemma cut_lines_rest: "newline \<notin> set acc \<Longrightarrow> newline \<notin> set (snd (cut_lines acc bs))"
  by (induction acc bs rule: cut_lines.induct) auto

lemma set_cut_lines_rest: "set (snd (cut_lines acc bs)) \<subseteq> set acc \<union> set bs"
  by (induction acc bs rule: cut_lines.induct) auto

definition grepped :: "bytes \<Rightarrow> bytes list \<Rightarrow> bytes" where
  "grepped pattern xs = concat (map (\<lambda>l. l @ [newline]) (filter (match pattern) xs))"

lemma grepped_simps [simp]:
  "grepped pattern [] = []" "grepped pattern (xs @ ys) = grepped pattern xs @ grepped pattern ys"
  "grepped pattern (l # xs) = (if match pattern l then l @ [newline] else []) @ grepped pattern xs"
  by (simp_all add: grepped_def)

lemma grep_lines_cut:
  assumes "0 \<notin> set p"
  shows "fst (grep_lines pattern p w) = snd (cut_lines [] p) \<and>
    written 1 (trace (snd (grep_lines pattern p w))) = written 1 (trace w) @ grepped pattern (fst (cut_lines [] p))"
  using assms
proof (induction "length p" arbitrary: p w rule: less_induct)
  case less
  have t: "takeWhile (\<lambda>c. c \<noteq> 0) p = p" using less.prems by (simp add: takeWhile_eq_all_conv) metis
  show ?case
  proof (cases "newline \<in> set p")
    case False
    then show ?thesis using cut_lines_no_newline[of p "[]" "[]"] by (simp add: grep_lines.simps[of pattern p] t)
  next
    case True
    then obtain a b where p: "p = a @ newline # b" "newline \<notin> set a" by (auto dest: split_list_first)
    then have tk: "takeWhile (\<lambda>c. c \<noteq> newline) p = a" by (simp add: takeWhile_append takeWhile_eq_all_conv)
    let ?w = "if match pattern a then tell (Write 1 (a @ [newline])) w else w"
    have "grep_lines pattern p w = grep_lines pattern b ?w"
      using True by (subst grep_lines.simps) (simp add: t tk, simp add: p(1))
    moreover have "cut_lines [] p = (a # fst (cut_lines [] b), snd (cut_lines [] b))"
      using cut_lines_no_newline[of a "[]" "newline # b"] p by simp
    ultimately show ?thesis using less.hyps[of b ?w] less.prems p(1) by simp
  qed
qed

text \<open>The kernel hands out no more than was asked for: each piece fits behind the unfinished line in the buffer.\<close>

fun pieces_fit :: "bytes \<Rightarrow> bytes list \<Rightarrow> bool" where
  "pieces_fit m [] = True"
| "pieces_fit m (d # ds) = (d \<noteq> [] \<and> length d \<le> 1024 - length m - 1 \<and> pieces_fit (snd (cut_lines m d)) ds)"

lemma grep_loop_filters:
  assumes "pieces_fit m ds" and "0 \<notin> set m" and "newline \<notin> set m" and "0 \<notin> set (concat ds)" and "answers w = map Data ds @ Data [] # rest"
  shows "\<exists>u. grep_loop pattern fd m w = Ret () u \<and> answers u = rest \<and>
    written 1 (trace u) = written 1 (trace w) @ grepped pattern (fst (cut_lines m (concat ds)))"
  using assms
proof (induction ds arbitrary: m w)
  case Nil
  then show ?case by (simp add: grep_loop.simps[of pattern fd m w] read_def ask_Cons)
next
  case (Cons d ds)
  let ?w = "(tell (Read fd (1023 - length m)) w)\<lparr>answers := map Data ds @ Data [] # rest\<rparr>"
  obtain m' v where v: "grep_lines pattern (m @ d) ?w = (m', v)" by (cases "grep_lines pattern (m @ d) ?w")
  have c: "cut_lines [] (m @ d) = cut_lines m d" using cut_lines_no_newline[of m "[]" d] Cons.prems(3) by simp
  have m': "m' = snd (cut_lines m d)" and wr: "written 1 (trace v) = written 1 (trace w) @ grepped pattern (fst (cut_lines m d))"
    using grep_lines_cut[of "m @ d" pattern ?w] Cons.prems(2,4) by (simp_all add: v c)
  have a: "answers v = map Data ds @ Data [] # rest" using grep_lines_answers[of pattern "m @ d" ?w] by (simp add: v)
  have "grep_loop pattern fd m w = grep_loop pattern fd m' v"
    using Cons.prems v by (simp add: grep_loop.simps[of pattern fd m w] read_def ask_Cons)
  moreover have "0 \<notin> set m'" "newline \<notin> set m'"
    using set_cut_lines_rest[of m d] cut_lines_rest[of m d] Cons.prems(2-4) m' by auto
  ultimately show ?case using Cons.IH[of m' v] Cons.prems(1,4) a m' wr by (simp add: cut_lines_append)
qed



end
