(* ===== verification/Shell.thy ===== *)
theory Shell
  imports Coreutils
begin

text \<open>
  The shell (\<^verbatim>\<open>user/sh.c\<close>): the parser, \<^verbatim>\<open>runcmd\<close> and the command loop. The parser works on the line as a byte list without its NUL; pointers into it
  are positions, and a position at the end reads as NUL. A command is a tree whose strings are pairs of positions until
  \<^verbatim>\<open>nulterminate\<close> has cut them out. The memory for the tree is taken to be there: the source does not test what \<^verbatim>\<open>malloc\<close> returns.
\<close>

section \<open>Commands\<close>

datatype 'a cmd =
    EXEC "'a list"
  | REDIR "'a cmd" 'a u32 int
  | PIPE "'a cmd" "'a cmd"
  | LIST "'a cmd" "'a cmd"
  | BACK "'a cmd"

type_synonym tspan = "nat \<times> nat"

abbreviation (input) MAXARGS :: nat where "MAXARGS \<equiv> 10"

definition execcmd :: "'a cmd" where "execcmd = EXEC []"

definition redircmd :: "'a cmd \<Rightarrow> 'a \<Rightarrow> u32 \<Rightarrow> int \<Rightarrow> 'a cmd" where
  "redircmd subcmd f mode fd = REDIR subcmd f mode fd"

definition pipecmd :: "'a cmd \<Rightarrow> 'a cmd \<Rightarrow> 'a cmd" where "pipecmd left right = PIPE left right"
definition listcmd :: "'a cmd \<Rightarrow> 'a cmd \<Rightarrow> 'a cmd" where "listcmd left right = LIST left right"
definition backcmd :: "'a cmd \<Rightarrow> 'a cmd" where "backcmd subcmd = BACK subcmd"

lemmas cmd_makers = execcmd_def redircmd_def pipecmd_def listcmd_def backcmd_def

section \<open>Tokens\<close>

definition whitespace :: bytes where "whitespace = [32, 9, 13, 10, 11]"
definition symbols :: bytes where "symbols = bytes_of ''<|>&;()''"

abbreviation is_space :: "byte \<Rightarrow> bool" where "is_space c \<equiv> c \<in> set whitespace"
abbreviation is_word :: "byte \<Rightarrow> bool" where "is_word c \<equiv> \<not> is_space c \<and> c \<notin> set symbols"

definition char_at :: "bytes \<Rightarrow> nat \<Rightarrow> byte" where
  "char_at buf i = (if i < length buf then buf ! i else 0)"

definition skip_space :: "bytes \<Rightarrow> nat \<Rightarrow> nat" where
  "skip_space buf i = i + length (takeWhile is_space (drop i buf))"

text \<open>\<^verbatim>\<open>gettoken\<close>: its result, the span of the token, and where the next one starts.\<close>

definition gettoken :: "bytes \<Rightarrow> nat \<Rightarrow> byte \<times> tspan \<times> nat" where
  "gettoken buf i =
     (let q = skip_space buf i;
          c = char_at buf q;
          (ret, s) =
            (if c = 0 then (c, q)
             else if c \<in> set (bytes_of ''|();&<'') then (c, q + 1)
             else if c = of_char (CHR ''>'') then
               (if char_at buf (q + 1) = of_char (CHR ''>'') then (of_char (CHR ''+''), q + 2) else (c, q + 1))
             else (of_char (CHR ''a''), q + length (takeWhile is_word (drop q buf))))
      in (ret, (q, s), skip_space buf s))"

definition peek :: "bytes \<Rightarrow> nat \<Rightarrow> string \<Rightarrow> nat \<times> bool" where
  "peek buf i toks = (let s = skip_space buf i in (s, char_at buf s \<noteq> 0 \<and> char_at buf s \<in> set (bytes_of toks)))"

section \<open>The parser\<close>

text \<open>A parser returns a tree and a position, or ends the shell by \<^verbatim>\<open>panic\<close> with a message.\<close>

datatype 'a pres = Parsed 'a nat | Fail string | NoFuel

fun pbnd :: "'a pres \<Rightarrow> ('a \<Rightarrow> nat \<Rightarrow> 'b pres) \<Rightarrow> 'b pres" where
  "pbnd (Parsed x i) f = f x i"
| "pbnd (Fail m) f = Fail m"
| "pbnd NoFuel f = NoFuel"

lemma pbnd_cong [fundef_cong]:
  "m = m' \<Longrightarrow> (\<And>x i. m' = Parsed x i \<Longrightarrow> f x i = f' x i) \<Longrightarrow> pbnd m f = pbnd m' f'"
  by (cases m') auto

lemma pbnd_Parsed_iff: "pbnd m f = Parsed y j \<longleftrightarrow> (\<exists>x i. m = Parsed x i \<and> f x i = Parsed y j)"
  by (cases m) auto

lemma pbnd_NoFuel_iff: "pbnd m f = NoFuel \<longleftrightarrow> m = NoFuel \<or> (\<exists>x i. m = Parsed x i \<and> f x i = NoFuel)"
  by (cases m) auto

lemma skip_space_ge: "i \<le> skip_space buf i"
  by (simp add: skip_space_def)

lemma char_at_nonzero: "char_at buf i \<noteq> 0 \<Longrightarrow> i < length buf"
  by (auto simp: char_at_def split: if_splits)

lemma peek_advance: "peek buf i toks = (j, b) \<Longrightarrow> i \<le> j \<and> (b \<longrightarrow> j < length buf)"
  by (auto simp: peek_def Let_def skip_space_ge dest: char_at_nonzero)

text \<open>A token that is there is passed.\<close>

lemma gettoken_advance:
  assumes "gettoken buf i = (t, (q, e), j)"
  shows "i \<le> q \<and> q \<le> e \<and> e \<le> j \<and> (t \<noteq> 0 \<longrightarrow> q < e \<and> q < length buf)"
proof -
  have sp: "skip_space buf i = q" "skip_space buf e = j" using assms by (auto simp: gettoken_def Let_def split: prod.splits)
  have "i \<le> q" "e \<le> j" using sp skip_space_ge by metis+
  moreover have "q \<le> e" using assms sp by (auto simp: gettoken_def Let_def split: if_splits)
  moreover have "q < e \<and> q < length buf" if "t \<noteq> 0"
  proof -
    have nz: "char_at buf q \<noteq> 0" using assms that sp by (auto simp: gettoken_def Let_def split: if_splits)
    then have l: "q < length buf" by (rule char_at_nonzero)
    show ?thesis
    proof (cases "char_at buf q \<in> set symbols")
      case True
      then show ?thesis using assms sp nz l by (auto simp: gettoken_def Let_def symbols_def bytes_of_def split: if_splits)
    next
      case False
      have "\<not> is_space (char_at buf q)"
        using sp(1) l nth_length_takeWhile[of is_space "drop i buf"]
        by (auto simp: skip_space_def char_at_def)
      then have "is_word (hd (drop q buf))" using False l by (simp add: char_at_def hd_drop_conv_nth)
      then have "0 < length (takeWhile is_word (drop q buf))" using l by (cases "drop q buf") auto
      then show ?thesis using assms sp nz l False by (auto simp: gettoken_def Let_def symbols_def bytes_of_def split: if_splits)
    qed
  qed
  ultimately show ?thesis by blast
qed

lemma token_step:
  "(j, b) = peek buf i toks \<Longrightarrow> i \<le> j \<and> (b \<longrightarrow> j < length buf)"
  "(t, f, k) = gettoken buf i \<Longrightarrow> i \<le> k \<and> (t \<noteq> 0 \<longrightarrow> i < k \<and> i < length buf)"
  using peek_advance[of buf i toks j b] gettoken_advance[of buf i t "fst f" "snd f" k] by (cases f; auto)+

lemmas token_steps = token_step token_step[OF sym]

text \<open>The \<^verbatim>\<open>switch\<close> on the kind of redirection.\<close>

definition add_redir :: "byte \<Rightarrow> 'a cmd \<Rightarrow> 'a \<Rightarrow> 'a cmd" where
  "add_redir tok cmd f =
     (if tok = of_char (CHR ''<'') then redircmd cmd f O_RDONLY 0
      else if tok = of_char (CHR ''>'') then redircmd cmd f (O_WRONLY OR O_CREATE OR O_TRUNC) 1
      else if tok = of_char (CHR ''+'') then redircmd cmd f (O_WRONLY OR O_CREATE) 1
      else cmd)"

function parseredirs :: "bytes \<Rightarrow> tspan cmd \<Rightarrow> nat \<Rightarrow> tspan cmd pres" where
  "parseredirs buf cmd i =
     (case peek buf i ''<>'' of (i, b) \<Rightarrow>
      if \<not> b then Parsed cmd i
      else
        case gettoken buf i of (tok, _, i) \<Rightarrow>
        case gettoken buf i of (t, f, i) \<Rightarrow>
        if t \<noteq> of_char (CHR ''a'') then Fail ''missing file for redirection''
        else parseredirs buf (add_redir tok cmd f) i)"
  by pat_completeness auto
termination
  by (relation "measure (\<lambda>(buf, cmd, i). length buf - i)") (auto dest!: token_steps)

declare parseredirs.simps [simp del]

lemma parseredirs_Parsed:
  assumes "parseredirs buf cmd i = Parsed c j"
  shows "peek buf i ''<>'' = (j, False) \<and> c = cmd \<or>
    (\<exists>i1 tok f0 i2 f i3. peek buf i ''<>'' = (i1, True) \<and> gettoken buf i1 = (tok, f0, i2) \<and>
       gettoken buf i2 = (of_char (CHR ''a''), f, i3) \<and> parseredirs buf (add_redir tok cmd f) i3 = Parsed c j)"
  using assms by (subst (asm) parseredirs.simps) (auto split: prod.splits if_splits)

lemma parseredirs_advance: "parseredirs buf cmd i = Parsed c j \<Longrightarrow> i \<le> j"
proof (induction "length buf - i" arbitrary: cmd i rule: less_induct)
  case less
  from parseredirs_Parsed[OF less.prems] show ?case
  proof (elim disjE exE conjE)
    fix i1 tok f0 i2 f i3
    assume "peek buf i ''<>'' = (i1, True)" "gettoken buf i1 = (tok, f0, i2)" "gettoken buf i2 = (of_char (CHR ''a''), f, i3)"
      and p: "parseredirs buf (add_redir tok cmd f) i3 = Parsed c j"
    then have i: "i < i3" "i < length buf" by (auto dest!: token_steps)
    then have "length buf - i3 < length buf - i" by simp
    then show "i \<le> j" using less.hyps[OF _ p] i by simp
  qed (auto dest!: token_steps)
qed

lemma drop_skip_space: "drop (skip_space buf i) buf = dropWhile is_space (drop i buf)"
  by (simp add: skip_space_def dropWhile_eq_drop add.commute)

lemma takeWhile_dropWhile_Nil: "takeWhile P (dropWhile P xs) = []"
  by (induction xs) auto

lemma skip_space_skip [simp]: "skip_space buf (skip_space buf i) = skip_space buf i"
  using drop_skip_space[of buf i] takeWhile_dropWhile_Nil[of is_space "drop i buf"]
  by (simp only: skip_space_def[of buf "skip_space buf i"]) simp

lemma peeked_token: "peek buf i toks = (j, True) \<Longrightarrow> gettoken buf j = (t, f, k) \<Longrightarrow> j < k"
proof -
  assume p: "peek buf i toks = (j, True)" and g: "gettoken buf j = (t, f, k)"
  then have "skip_space buf j = j" "char_at buf j \<noteq> 0" by (auto simp: peek_def Let_def)
  then have "t \<noteq> 0" using g by (auto simp: gettoken_def Let_def split: if_splits)
  then show "j < k" using token_steps(4)[OF g] by simp
qed

lemma peek_then_token: "(j, b) = peek buf i toks \<Longrightarrow> b \<Longrightarrow> (t, f, k) = gettoken buf j \<Longrightarrow> length buf - k < length buf - i"
  using token_steps(1)[of j b buf i toks] peeked_token[of buf i toks j t f k] by (cases b) (auto intro: diff_less_mono2)

text \<open>The argument goes into the command at the bottom of the redirections.\<close>

fun add_arg :: "'a cmd \<Rightarrow> 'a \<Rightarrow> 'a cmd" where
  "add_arg (EXEC as) a = EXEC (as @ [a])"
| "add_arg (REDIR c f m fd) a = REDIR (add_arg c a) f m fd"
| "add_arg c a = c"

function parse_args :: "bytes \<Rightarrow> nat \<Rightarrow> tspan cmd \<Rightarrow> nat \<Rightarrow> tspan cmd pres" where
  "parse_args buf argc ret i =
     (case peek buf i ''|)&;'' of (i, b) \<Rightarrow>
      if b then Parsed ret i
      else
        case gettoken buf i of (tok, f, i) \<Rightarrow>
        if tok = 0 then Parsed ret i
        else if tok \<noteq> of_char (CHR ''a'') then Fail ''syntax''
        else
          let ret = add_arg ret f; argc = argc + 1 in
          if argc \<ge> MAXARGS then Fail ''too many args''
          else pbnd (parseredirs buf ret i) (\<lambda>ret i. parse_args buf argc ret i))"
  by pat_completeness auto
termination
  by (relation "measure (\<lambda>(buf, argc, ret, i). length buf - i)")
    (auto dest!: token_steps parseredirs_advance)

declare parse_args.simps [simp del]

function parse_back :: "bytes \<Rightarrow> tspan cmd \<Rightarrow> nat \<Rightarrow> tspan cmd \<times> nat" where
  "parse_back buf cmd i =
     (case peek buf i ''&'' of (i, b) \<Rightarrow>
      if b then case gettoken buf i of (_, _, i) \<Rightarrow> parse_back buf (backcmd cmd) i
      else (cmd, i))"
  by pat_completeness auto
termination
  by (relation "measure (\<lambda>(buf, cmd, i). length buf - i)") (auto dest: peek_then_token)

declare parse_back.simps [simp del]

fun parseline :: "nat \<Rightarrow> bytes \<Rightarrow> nat \<Rightarrow> tspan cmd pres"
  and parsepipe :: "nat \<Rightarrow> bytes \<Rightarrow> nat \<Rightarrow> tspan cmd pres"
  and parseexec :: "nat \<Rightarrow> bytes \<Rightarrow> nat \<Rightarrow> tspan cmd pres"
  and parseblock :: "nat \<Rightarrow> bytes \<Rightarrow> nat \<Rightarrow> tspan cmd pres" where
  "parseline 0 buf i = NoFuel"
| "parseline (Suc n) buf i =
     pbnd (parsepipe n buf i) (\<lambda>cmd i.
     case parse_back buf cmd i of (cmd, i) \<Rightarrow>
     case peek buf i '';'' of (i, b) \<Rightarrow>
     if b then
       case gettoken buf i of (_, _, i) \<Rightarrow>
       pbnd (parseline n buf i) (\<lambda>right i. Parsed (listcmd cmd right) i)
     else Parsed cmd i)"
| "parsepipe 0 buf i = NoFuel"
| "parsepipe (Suc n) buf i =
     pbnd (parseexec n buf i) (\<lambda>cmd i.
     case peek buf i ''|'' of (i, b) \<Rightarrow>
     if b then
       case gettoken buf i of (_, _, i) \<Rightarrow>
       pbnd (parsepipe n buf i) (\<lambda>right i. Parsed (pipecmd cmd right) i)
     else Parsed cmd i)"
| "parseexec 0 buf i = NoFuel"
| "parseexec (Suc n) buf i =
     (case peek buf i ''('' of (i, b) \<Rightarrow>
      if b then parseblock n buf i
      else pbnd (parseredirs buf execcmd i) (\<lambda>ret i. parse_args buf 0 ret i))"
| "parseblock 0 buf i = NoFuel"
| "parseblock (Suc n) buf i =
     (case peek buf i ''('' of (i, b) \<Rightarrow>
      if \<not> b then Fail ''parseblock''
      else
        case gettoken buf i of (_, _, i) \<Rightarrow>
        pbnd (parseline n buf i) (\<lambda>cmd i.
        case peek buf i '')'' of (i, b) \<Rightarrow>
        if \<not> b then Fail ''syntax - missing )''
        else case gettoken buf i of (_, _, i) \<Rightarrow> parseredirs buf cmd i))"

text \<open>\<^verbatim>\<open>nulterminate\<close> writes a NUL behind every string of the tree; the line is now a piece of memory with a NUL behind its end.\<close>

fun nulterminate :: "tspan cmd \<Rightarrow> bytes \<Rightarrow> bytes" where
  "nulterminate (EXEC as) buf = fold (\<lambda>(q, e) buf. buf[e := 0]) as buf"
| "nulterminate (REDIR c (q, e) m fd) buf = (nulterminate c buf)[e := 0]"
| "nulterminate (PIPE l r) buf = nulterminate r (nulterminate l buf)"
| "nulterminate (LIST l r) buf = nulterminate r (nulterminate l buf)"
| "nulterminate (BACK c) buf = nulterminate c buf"

text \<open>The C string that a pointer into that memory denotes, and the text of a span.\<close>

definition string_at :: "bytes \<Rightarrow> tspan \<Rightarrow> bytes" where
  "string_at buf s = takeWhile (\<lambda>c. c \<noteq> 0) (drop (fst s) buf)"

definition slice_of :: "bytes \<Rightarrow> tspan \<Rightarrow> bytes" where
  "slice_of buf s = take (snd s - fst s) (drop (fst s) buf)"

section \<open>Running commands\<close>

definition panic :: "string \<Rightarrow> 'z uworld_scheme \<Rightarrow> ('a, 'z uworld_scheme) ures" where
  "panic s w = exit 1 (fprintf 2 (line ''%s'') [str (bytes_of s)] w)"

definition fork1 :: "'z uworld_scheme \<Rightarrow> (int, 'z uworld_scheme) ures" where
  "fork1 w = ubnd (call Fork w) (\<lambda>pid w. if pid = - 1 then panic ''fork'' w else Ret pid w)"

text \<open>
  \<open>parse_fuel\<close> is enough for every line: each round of the four parsing functions passes a byte. The tree that is returned holds the
  strings its pointers denote.
\<close>

definition parse_fuel :: "bytes \<Rightarrow> nat" where
  "parse_fuel s = 4 * length s + 4"

definition parsecmd :: "bytes \<Rightarrow> 'z uworld_scheme \<Rightarrow> (bytes cmd, 'z uworld_scheme) ures" where
  "parsecmd s w =
     (case parseline (parse_fuel s) s 0 of
        Parsed cmd i \<Rightarrow>
          let i = fst (peek s i []) in
          if i \<noteq> length s then panic ''syntax'' (fprintf 2 (line ''leftovers: %s'') [str (drop i s)] w)
          else Ret (map_cmd (string_at (nulterminate cmd (s @ [0]))) cmd) w
      | Fail m \<Rightarrow> panic m w
      | NoFuel \<Rightarrow> Blocked w)"

fun runcmd :: "bytes cmd \<Rightarrow> 'z uworld_scheme \<Rightarrow> (unit, 'z uworld_scheme) ures" where
  "runcmd (EXEC argv) w =
     (if argv = [] then exit 1 w
      else
        ubnd (exec (hd argv) argv w) (\<lambda>_ w.
        exit 0 (fprintf 2 (line ''exec %s failed'') [str (hd argv)] w)))"
| "runcmd (REDIR c f mode fd) w =
     ubnd (call (Open f mode) (tell (Close fd) w)) (\<lambda>r w.
     if r < 0 then exit 1 (fprintf 2 (line ''open %s failed'') [str f] w)
     else runcmd c w)"
| "runcmd (LIST left right) w =
     ubnd (fork1 w) (\<lambda>pid w.
     if pid = 0 then runcmd left w
     else ubnd (wait 0 w) (\<lambda>_ w. runcmd right w))"
| "runcmd (PIPE left right) w =
     ubnd (upipe w) (\<lambda>x w. case x of (r, p0, p1) \<Rightarrow>
     if r < 0 then panic ''pipe'' w
     else
       ubnd (fork1 w) (\<lambda>pid w.
       if pid = 0 then
         runcmd left (tell (Close p1) (tell (Close p0) (tell (Dup p1) (tell (Close 1) w))))
       else
         ubnd (fork1 w) (\<lambda>pid w.
         if pid = 0 then
           runcmd right (tell (Close p1) (tell (Close p0) (tell (Dup p0) (tell (Close 0) w))))
         else
           ubnd (wait 0 (tell (Close p1) (tell (Close p0) w))) (\<lambda>_ w.
           ubnd (wait 0 w) (\<lambda>_ w. exit 0 w)))))"
| "runcmd (BACK c) w =
     ubnd (fork1 w) (\<lambda>pid w. if pid = 0 then runcmd c w else exit 0 w)"

section \<open>The command loop\<close>

text \<open>\<^verbatim>\<open>getcmd\<close>: the line in the buffer of 100 bytes, up to its first NUL, or nothing at the end of the input.\<close>

definition getcmd :: "'z uworld_scheme \<Rightarrow> (bytes option, 'z uworld_scheme) ures" where
  "getcmd w =
     ubnd (gets 100 (tell (Write 2 (bytes_of ''$ '')) w)) (\<lambda>bs w.
     let buf = takeWhile (\<lambda>c. c \<noteq> 0) bs in Ret (if buf = [] then None else Some buf) w)"

text \<open>Ensure that three file descriptors are open.\<close>

function open_console :: "'z uworld_scheme \<Rightarrow> (unit, 'z uworld_scheme) ures" where
  "open_console w =
     ubnd (call (Open (bytes_of ''console'') O_RDWR) w) (\<lambda>fd w.
     if fd \<ge> 0 then if fd \<ge> 3 then Ret () (tell (Close fd) w) else open_console w
     else Ret () w)"
  by pat_completeness auto
termination
  by (relation "measure (\<lambda>w. length (answers w))") (auto dest!: call_shrinks)

declare open_console.simps [simp del]

text \<open>What the shell does with one line; in a child it does not return.\<close>

definition do_line :: "bytes \<Rightarrow> 'z uworld_scheme \<Rightarrow> (unit, 'z uworld_scheme) ures" where
  "do_line buf w =
     (let cmd = dropWhile (\<lambda>c. c = 32 \<or> c = 9) buf in
      if cmd \<noteq> [] \<and> hd cmd = 10 then Ret () w
      else if take 3 cmd = bytes_of ''cd '' then
        let dir = drop 3 (butlast cmd) in
        ubnd (call (Chdir dir) w) (\<lambda>r w. Ret () (if r < 0 then fprintf 2 (line ''cannot cd %s'') [str dir] w else w))
      else
        ubnd (fork1 w) (\<lambda>pid w.
        if pid = 0 then ubnd (parsecmd cmd w) (\<lambda>c w. runcmd c w)
        else ubnd (wait 0 w) (\<lambda>_ w. Ret () w)))"

text \<open>\<^verbatim>\<open>runcmd\<close> never returns, as its declaration says.\<close>

lemma panic_noreturn [simp]: "panic m w \<noteq> Ret x u"
  by (simp add: panic_def exit_def)

lemma runcmd_noreturn: "runcmd c w \<noteq> Ret x u"
  by (induction c arbitrary: w) (auto simp: ubnd_Ret_iff exit_def split: if_splits prod.splits)

lemma gets_loop_shrinks: "gets_loop k w = Ret bs u \<Longrightarrow> length (answers u) \<le> length (answers w) \<and> (0 < k \<longrightarrow> length (answers u) < length (answers w))"
proof (induction k arbitrary: w bs)
  case (Suc k)
  then obtain n cs v where v: "read 0 1 w = Ret (n, cs) v" by (auto simp: ubnd_Ret_iff)
  then have "length (answers v) < length (answers w)" by (rule call_shrinks(2))
  moreover have "length (answers u) \<le> length (answers v)"
    using Suc.prems v Suc.IH[of v] by (auto simp: ubnd_Ret_iff Let_def split: if_splits)
  ultimately show ?case by simp
qed simp

lemma getcmd_shrinks: "getcmd w = Ret b u \<Longrightarrow> length (answers u) < length (answers w)"
  by (auto simp: getcmd_def gets_def ubnd_Ret_iff Let_def dest!: gets_loop_shrinks)

lemma do_line_shrinks: "do_line buf w = Ret x u \<Longrightarrow> length (answers u) \<le> length (answers w)"
  by (auto simp: do_line_def fork1_def Let_def ubnd_Ret_iff runcmd_noreturn dest!: call_shrinks split: if_splits)

function sh_loop :: "'z uworld_scheme \<Rightarrow> (unit, 'z uworld_scheme) ures" where
  "sh_loop w =
     ubnd (getcmd w) (\<lambda>b w.
     case b of
       None \<Rightarrow> exit 0 w
     | Some buf \<Rightarrow> ubnd (do_line buf w) (\<lambda>_ w. sh_loop w))"
  by pat_completeness auto
termination
  by (relation "measure (\<lambda>w. length (answers w))") (auto dest!: getcmd_shrinks do_line_shrinks)

declare sh_loop.simps [simp del]

definition sh_main :: "'z uworld_scheme \<Rightarrow> (unit, 'z uworld_scheme) ures" where
  "sh_main w = ubnd (open_console w) (\<lambda>_ w. sh_loop w)"

section \<open>The parser ends\<close>

lemma parseredirs_fuel: "parseredirs buf cmd i \<noteq> NoFuel"
  by (induction buf cmd i rule: parseredirs.induct) (subst parseredirs.simps, auto split: prod.splits)

lemma parse_args_fuel: "parse_args buf argc cmd i \<noteq> NoFuel"
proof (induction "length buf - i" arbitrary: argc cmd i rule: less_induct)
  case less
  have "parse_args buf (Suc argc) c k \<noteq> NoFuel"
    if "peek buf i ''|)&;'' = (i1, False)" "gettoken buf i1 = (of_char (CHR ''a''), f, j)" "parseredirs buf d j = Parsed c k" for i1 f j d c k
    using that by (intro less) (auto dest!: token_steps parseredirs_advance)
  then show ?case
    by (subst parse_args.simps) (auto simp: Let_def parseredirs_fuel pbnd_NoFuel_iff split: prod.splits)
qed

lemma parse_args_Parsed:
  assumes "parse_args buf argc cmd i = Parsed c j"
  obtains (stop) "peek buf i ''|)&;'' = (j, True)" and "c = cmd"
  | (last) i1 f where "peek buf i ''|)&;'' = (i1, False)" and "gettoken buf i1 = (0, f, j)" and "c = cmd"
  | (arg) i1 f i2 e k where "peek buf i ''|)&;'' = (i1, False)" and "gettoken buf i1 = (of_char (CHR ''a''), f, i2)"
      and "parseredirs buf (add_arg cmd f) i2 = Parsed e k" and "parse_args buf (Suc argc) e k = Parsed c j"
  using assms by (subst (asm) parse_args.simps) (auto simp: Let_def pbnd_Parsed_iff split: prod.splits if_splits)

lemma parse_args_advance: "parse_args buf argc cmd i = Parsed c j \<Longrightarrow> i \<le> j"
proof (induction "length buf - i" arbitrary: argc cmd i rule: less_induct)
  case less
  from less.prems show ?case
  proof (cases rule: parse_args_Parsed)
    case (arg i1 f i2 e k)
    then have "i < k" "i < length buf" by (auto dest!: token_steps(3,4) parseredirs_advance)
    moreover then have "length buf - k < length buf - i" by simp
    then have "k \<le> j" using less.hyps arg(4) by blast
    ultimately show ?thesis by simp
  qed (auto dest!: token_steps)
qed

lemma parse_back_advance: "parse_back buf cmd i = (c, j) \<Longrightarrow> i \<le> j"
proof (induction "length buf - i" arbitrary: cmd i rule: less_induct)
  case less
  have "l \<le> j" if "peek buf i ''&'' = (i1, True)" "gettoken buf i1 = (t, f, l)" "parse_back buf (backcmd cmd) l = (c, j)" for i1 t f l
    using less(1)[OF _ that(3)] peek_then_token[of i1 True buf i "''&''" t f l] that by simp
  then show ?case using less.prems
    by (subst (asm) parse_back.simps) (fastforce split: prod.splits if_splits dest: token_steps)
qed

lemma parseline_Parsed:
  assumes "parseline (Suc n) buf i = Parsed c j"
  obtains (one) d k l where "parsepipe n buf i = Parsed d k" and "parse_back buf d k = (c, l)" and "peek buf l '';'' = (j, False)"
  | (more) d k e l i1 t f i2 r where "parsepipe n buf i = Parsed d k" and "parse_back buf d k = (e, l)"
      and "peek buf l '';'' = (i1, True)" and "gettoken buf i1 = (t, f, i2)" and "parseline n buf i2 = Parsed r j" and "c = LIST e r"
proof -
  obtain d k where d: "parsepipe n buf i = Parsed d k" using assms by (auto simp: pbnd_Parsed_iff)
  obtain e l where e: "parse_back buf d k = (e, l)" by fastforce
  obtain i1 b where b: "peek buf l '';'' = (i1, b)" by fastforce
  obtain t f i2 where t: "gettoken buf i1 = (t, f, i2)" by (metis prod_cases3)
  show ?thesis
  proof (cases b)
    case True
    then obtain r where "parseline n buf i2 = Parsed r j" "c = LIST e r" using assms d e b t by (auto simp: pbnd_Parsed_iff cmd_makers)
    moreover have "peek buf l '';'' = (i1, True)" using b True by simp
    ultimately show ?thesis using more d e t by blast
  next
    case False
    then show ?thesis using assms d e b one by auto
  qed
qed

lemma parsepipe_Parsed:
  assumes "parsepipe (Suc n) buf i = Parsed c j"
  obtains (one) l where "parseexec n buf i = Parsed c l" and "peek buf l ''|'' = (j, False)"
  | (more) e l i1 t f i2 r where "parseexec n buf i = Parsed e l" and "peek buf l ''|'' = (i1, True)"
      and "gettoken buf i1 = (t, f, i2)" and "parsepipe n buf i2 = Parsed r j" and "c = PIPE e r"
proof -
  obtain e l where e: "parseexec n buf i = Parsed e l" using assms by (auto simp: pbnd_Parsed_iff)
  obtain i1 b where b: "peek buf l ''|'' = (i1, b)" by fastforce
  obtain t f i2 where t: "gettoken buf i1 = (t, f, i2)" by (metis prod_cases3)
  show ?thesis
  proof (cases b)
    case True
    then obtain r where "parsepipe n buf i2 = Parsed r j" "c = PIPE e r" using assms e b t by (auto simp: pbnd_Parsed_iff cmd_makers)
    moreover have "peek buf l ''|'' = (i1, True)" using b True by simp
    ultimately show ?thesis using more e t by blast
  next
    case False
    then show ?thesis using assms e b one by auto
  qed
qed

lemma parseblock_Parsed:
  assumes "parseblock (Suc n) buf i = Parsed c j"
  obtains i1 t f i2 d k i3 u g i4 where "peek buf i ''('' = (i1, True)" and "gettoken buf i1 = (t, f, i2)"
    and "parseline n buf i2 = Parsed d k" and "peek buf k '')'' = (i3, True)" and "gettoken buf i3 = (u, g, i4)"
    and "parseredirs buf d i4 = Parsed c j"
proof -
  obtain i1 b where b: "peek buf i ''('' = (i1, b)" by fastforce
  with assms have b: "peek buf i ''('' = (i1, True)" by (auto split: if_splits)
  obtain t f i2 where t: "gettoken buf i1 = (t, f, i2)" by (metis prod_cases3)
  obtain d k where d: "parseline n buf i2 = Parsed d k" using assms b t by (auto simp: pbnd_Parsed_iff)
  obtain i3 b' where b': "peek buf k '')'' = (i3, b')" by fastforce
  obtain u g i4 where u: "gettoken buf i3 = (u, g, i4)" by (metis prod_cases3)
  have "peek buf k '')'' = (i3, True)" "parseredirs buf d i4 = Parsed c j" using assms b t d b' u by (auto split: if_splits)
  then show ?thesis using that b t d u by blast
qed

text \<open>Every parsing function moves on.\<close>

lemma parse_advance:
  "(\<forall>i c j. parseline n buf i = Parsed c j \<longrightarrow> i \<le> j) \<and> (\<forall>i c j. parsepipe n buf i = Parsed c j \<longrightarrow> i \<le> j) \<and>
   (\<forall>i c j. parseexec n buf i = Parsed c j \<longrightarrow> i \<le> j) \<and> (\<forall>i c j. parseblock n buf i = Parsed c j \<longrightarrow> i \<le> j)"
proof (induction n)
  case (Suc n)
  then have IH: "\<And>i c j. parseline n buf i = Parsed c j \<Longrightarrow> i \<le> j" "\<And>i c j. parsepipe n buf i = Parsed c j \<Longrightarrow> i \<le> j"
    "\<And>i c j. parseexec n buf i = Parsed c j \<Longrightarrow> i \<le> j" "\<And>i c j. parseblock n buf i = Parsed c j \<Longrightarrow> i \<le> j" by blast+
  have "i \<le> j" if "parseline (Suc n) buf i = Parsed c j" for i c j
    using that by (cases rule: parseline_Parsed) (auto dest!: IH token_steps(3,4) parse_back_advance)
  moreover have "i \<le> j" if "parsepipe (Suc n) buf i = Parsed c j" for i c j
    using that by (cases rule: parsepipe_Parsed) (auto dest!: IH token_steps(3,4))
  moreover have "i \<le> j" if "parseexec (Suc n) buf i = Parsed c j" for i c j
    using that by (auto simp: pbnd_Parsed_iff split: prod.splits if_splits
      dest!: IH token_steps(3,4) parseredirs_advance parse_args_advance)
  moreover have "i \<le> j" if "parseblock (Suc n) buf i = Parsed c j" for i c j
    using that by (cases rule: parseblock_Parsed) (auto dest!: IH token_steps(3,4) parseredirs_advance)
  ultimately show ?case by blast
qed simp

lemmas parse_advances = parse_advance[THEN conjunct1, rule_format] parse_advance[THEN conjunct2, THEN conjunct1, rule_format]
  parse_advance[THEN conjunct2, THEN conjunct2, THEN conjunct1, rule_format]

lemma parse_fuel_enough:
  "(\<forall>i. 4 * (length buf - i) + 4 \<le> n \<longrightarrow> parseline n buf i \<noteq> NoFuel) \<and>
   (\<forall>i. 4 * (length buf - i) + 3 \<le> n \<longrightarrow> parsepipe n buf i \<noteq> NoFuel) \<and>
   (\<forall>i. 4 * (length buf - i) + 2 \<le> n \<longrightarrow> parseexec n buf i \<noteq> NoFuel) \<and>
   (\<forall>i. 4 * (length buf - i) + 1 \<le> n \<longrightarrow> parseblock n buf i \<noteq> NoFuel)"
proof (induction n)
  case (Suc n)
  then have IH: "\<And>i. 4 * (length buf - i) + 4 \<le> n \<Longrightarrow> parseline n buf i \<noteq> NoFuel"
    "\<And>i. 4 * (length buf - i) + 3 \<le> n \<Longrightarrow> parsepipe n buf i \<noteq> NoFuel"
    "\<And>i. 4 * (length buf - i) + 2 \<le> n \<Longrightarrow> parseexec n buf i \<noteq> NoFuel"
    "\<And>i. 4 * (length buf - i) + 1 \<le> n \<Longrightarrow> parseblock n buf i \<noteq> NoFuel" by blast+
  have next_line: "parseline n buf l \<noteq> NoFuel"
    if "4 * (length buf - i) + 1 \<le> Suc n" "i \<le> k" "peek buf k toks = (m, True)" "gettoken buf m = (t, f, l)" for i k toks m t f l
    using peek_then_token[of m True buf k toks t f l] that by (intro IH(1)) auto
  have next_pipe: "parsepipe n buf l \<noteq> NoFuel"
    if "4 * (length buf - i) + 1 \<le> Suc n" "i \<le> k" "peek buf k toks = (m, True)" "gettoken buf m = (t, f, l)" for i k toks m t f l
    using peek_then_token[of m True buf k toks t f l] that by (intro IH(2)) auto
  have "parseline (Suc n) buf i \<noteq> NoFuel" if f: "4 * (length buf - i) + 4 \<le> Suc n" for i
  proof -
    have "i \<le> k" if "parsepipe n buf i = Parsed c j" "parse_back buf c j = (d, k)" for c j d k
      using that by (auto dest!: parse_advances(2) parse_back_advance)
    then show ?thesis using f IH(2)[of i] next_line[of i]
      by (auto simp: pbnd_NoFuel_iff split: prod.splits if_splits) blast
  qed
  moreover have "parsepipe (Suc n) buf i \<noteq> NoFuel" if f: "4 * (length buf - i) + 3 \<le> Suc n" for i
    using f IH(3)[of i] next_pipe[of i] by (auto simp: pbnd_NoFuel_iff split: prod.splits if_splits dest: parse_advances(3))
  moreover have "parseexec (Suc n) buf i \<noteq> NoFuel" if f: "4 * (length buf - i) + 2 \<le> Suc n" for i
    using f by (auto simp: pbnd_NoFuel_iff parseredirs_fuel parse_args_fuel split: prod.splits dest!: token_steps(3) intro!: IH(4))
  moreover have "parseblock (Suc n) buf i \<noteq> NoFuel" if f: "4 * (length buf - i) + 1 \<le> Suc n" for i
    using f next_line[of i i] by (auto simp: pbnd_NoFuel_iff parseredirs_fuel split: prod.splits)
  ultimately show ?case by blast
qed simp

section \<open>Cutting out the strings\<close>

text \<open>A span that holds exactly one word: the byte behind it, if there is one, is no part of a word.\<close>

definition word_span :: "bytes \<Rightarrow> tspan \<Rightarrow> bool" where
  "word_span buf s \<longleftrightarrow> fst s < snd s \<and> snd s \<le> length buf \<and> (\<forall>k. fst s \<le> k \<and> k < snd s \<longrightarrow> is_word (buf ! k)) \<and>
     (snd s < length buf \<longrightarrow> \<not> is_word (buf ! snd s))"

lemma gettoken_word:
  assumes "gettoken buf i = (of_char (CHR ''a''), s, j)"
  shows "word_span buf s"
proof -
  obtain q e where s: "s = (q, e)" by (cases s)
  have q: "q < e" "q < length buf" using gettoken_advance[of buf i "of_char (CHR ''a'')" q e j] assms s by auto
  have e: "e = q + length (takeWhile is_word (drop q buf))"
    using assms s by (auto simp: gettoken_def Let_def bytes_of_def split: if_splits)
  have "is_word (buf ! k)" if "q \<le> k" "k < e" for k
    using that e q set_takeWhileD[OF nth_mem, of "k - q" is_word "drop q buf"]
      takeWhile_nth[of "k - q" is_word "drop q buf"] by (auto simp: less_diff_conv2)
  moreover have "\<not> is_word (buf ! e)" if "e < length buf"
    using nth_length_takeWhile[of is_word "drop q buf"] that e q by (auto simp: add.commute)
  moreover have "e \<le> length buf" using e q length_takeWhile_le[of is_word "drop q buf"] by simp
  ultimately show ?thesis using s q by (auto simp: word_span_def)
qed

definition spans_ok :: "bytes \<Rightarrow> tspan cmd \<Rightarrow> bool" where
  "spans_ok buf c \<longleftrightarrow> (\<forall>s\<in>set_cmd c. word_span buf s)"

lemma spans_ok_simps [simp]:
  "spans_ok buf (EXEC as) \<longleftrightarrow> (\<forall>s\<in>set as. word_span buf s)"
  "spans_ok buf (REDIR c f m fd) \<longleftrightarrow> spans_ok buf c \<and> word_span buf f"
  "spans_ok buf (PIPE l r) \<longleftrightarrow> spans_ok buf l \<and> spans_ok buf r"
  "spans_ok buf (LIST l r) \<longleftrightarrow> spans_ok buf l \<and> spans_ok buf r"
  "spans_ok buf (BACK c) \<longleftrightarrow> spans_ok buf c"
  by (auto simp: spans_ok_def)

lemma spans_ok_add:
  "spans_ok buf c \<Longrightarrow> word_span buf f \<Longrightarrow> spans_ok buf (add_redir tok c f)"
  "spans_ok buf c \<Longrightarrow> word_span buf f \<Longrightarrow> spans_ok buf (add_arg c f)"
  by (auto simp: add_redir_def redircmd_def) (induction c f rule: add_arg.induct, auto)

lemma parseredirs_spans: "parseredirs buf cmd i = Parsed c j \<Longrightarrow> spans_ok buf cmd \<Longrightarrow> spans_ok buf c"
proof (induction "length buf - i" arbitrary: cmd i rule: less_induct)
  case less
  from parseredirs_Parsed[OF less.prems(1)] show ?case
  proof (elim disjE exE conjE)
    fix i1 tok f0 i2 f i3
    assume g: "peek buf i ''<>'' = (i1, True)" "gettoken buf i1 = (tok, f0, i2)" "gettoken buf i2 = (of_char (CHR ''a''), f, i3)"
      and p: "parseredirs buf (add_redir tok cmd f) i3 = Parsed c j"
    then have "i < i3" "i < length buf" by (auto dest!: token_steps)
    then have "length buf - i3 < length buf - i" by simp
    then show ?thesis using less.hyps[OF _ p] spans_ok_add(1) less.prems(2) gettoken_word[OF g(3)] by blast
  qed (use less.prems in auto)
qed

lemma parse_args_spans: "parse_args buf argc cmd i = Parsed c j \<Longrightarrow> spans_ok buf cmd \<Longrightarrow> spans_ok buf c"
proof (induction "length buf - i" arbitrary: argc cmd i rule: less_induct)
  case less
  from less.prems(1) show ?case
  proof (cases rule: parse_args_Parsed)
    case (arg i1 f i2 e k)
    then have "i < k" "i < length buf" by (auto dest!: token_steps(3,4) parseredirs_advance)
    then have "length buf - k < length buf - i" by simp
    moreover have "spans_ok buf e"
      using parseredirs_spans[OF arg(3)] spans_ok_add(2) less.prems(2) gettoken_word[OF arg(2)] by blast
    ultimately show ?thesis using less.hyps arg(4) by blast
  qed (use less.prems in auto)
qed

lemma parse_back_spans: "parse_back buf cmd i = (c, j) \<Longrightarrow> spans_ok buf c = spans_ok buf cmd"
  by (induction buf cmd i rule: parse_back.induct)
    (subst (asm) (2) parse_back.simps, auto simp: backcmd_def split: prod.splits if_splits)

lemma parse_spans:
  "(\<forall>i c j. parseline n buf i = Parsed c j \<longrightarrow> spans_ok buf c) \<and> (\<forall>i c j. parsepipe n buf i = Parsed c j \<longrightarrow> spans_ok buf c) \<and>
   (\<forall>i c j. parseexec n buf i = Parsed c j \<longrightarrow> spans_ok buf c) \<and> (\<forall>i c j. parseblock n buf i = Parsed c j \<longrightarrow> spans_ok buf c)"
proof (induction n)
  case (Suc n)
  then have IH: "\<And>i c j. parseline n buf i = Parsed c j \<Longrightarrow> spans_ok buf c" "\<And>i c j. parsepipe n buf i = Parsed c j \<Longrightarrow> spans_ok buf c"
    "\<And>i c j. parseexec n buf i = Parsed c j \<Longrightarrow> spans_ok buf c" "\<And>i c j. parseblock n buf i = Parsed c j \<Longrightarrow> spans_ok buf c" by blast+
  have "spans_ok buf c" if "parseline (Suc n) buf i = Parsed c j" for i c j
    using that by (cases rule: parseline_Parsed) (auto dest!: IH parse_back_spans)
  moreover have "spans_ok buf c" if "parsepipe (Suc n) buf i = Parsed c j" for i c j
    using that by (cases rule: parsepipe_Parsed) (auto dest!: IH)
  moreover have "spans_ok buf c" if "parseexec (Suc n) buf i = Parsed c j" for i c j
    using that by (auto simp: pbnd_Parsed_iff execcmd_def split: prod.splits if_splits dest!: IH parseredirs_spans parse_args_spans)
  moreover have "spans_ok buf c" if "parseblock (Suc n) buf i = Parsed c j" for i c j
    using that by (cases rule: parseblock_Parsed) (auto dest!: IH parseredirs_spans)
  ultimately show ?case by blast
qed simp

lemma nul_args:
  "length (fold (\<lambda>(q, e) buf. buf[e := 0]) as buf) = length buf \<and>
   (\<forall>k < length buf. fold (\<lambda>(q, e) buf. buf[e := 0]) as buf ! k = (if k \<in> snd ` set as then 0 else buf ! k))"
proof (induction as arbitrary: buf)
  case (Cons a as)
  then show ?case by (cases a) (auto simp: nth_list_update)
qed simp

lemma nulterminate_nth:
  "length (nulterminate c buf) = length buf \<and>
   (\<forall>k < length buf. nulterminate c buf ! k = (if k \<in> snd ` set_cmd c then 0 else buf ! k))"
proof (induction c buf rule: nulterminate.induct)
  case (1 as buf)
  then show ?case using nul_args[of as buf] by simp
next
  case (2 c q e m fd buf)
  have "nulterminate (REDIR c (q, e) m fd) buf ! k = (if k \<in> snd ` set_cmd (REDIR c (q, e) m fd) then 0 else buf ! k)"
    if "k < length buf" for k
    using 2 that by (cases "k = e") simp_all
  then show ?case using 2 by simp
qed auto

lemma takeWhile_nonzero_slice: "n < length xs \<Longrightarrow> xs ! n = 0 \<Longrightarrow> 0 \<notin> set (take n xs) \<Longrightarrow> takeWhile (\<lambda>c. c \<noteq> 0) xs = take n xs"
  by (rule takeWhile_eq_take_P_nth) (auto simp: in_set_conv_nth)

lemma string_at_nulterminate:
  assumes "spans_ok s c" and "0 \<notin> set s" and "sp \<in> set_cmd c"
  shows "string_at (nulterminate c (s @ [0])) sp = slice_of s sp"
proof -
  obtain q e where sp: "sp = (q, e)" by (cases sp)
  then have w: "word_span s (q, e)" using assms by (auto simp: spans_ok_def)
  then have qe: "q < e" "e \<le> length s" by (auto simp: word_span_def)
  let ?b = "nulterminate c (s @ [0])"
  have b: "length ?b = Suc (length s)" "\<And>k. k \<le> length s \<Longrightarrow> ?b ! k = (if k \<in> snd ` set_cmd c then 0 else (s @ [0]) ! k)"
    using nulterminate_nth[of c "s @ [0]"] by auto
  have in_word: "?b ! k = s ! k" if "q \<le> k" "k < e" for k
  proof -
    have "is_word (s ! k)" using w that by (auto simp: word_span_def)
    moreover have "\<not> is_word (s ! e')" if "(q', e') \<in> set_cmd c" "e' < length s" for q' e'
      using assms(1) that by (fastforce simp: spans_ok_def word_span_def)
    ultimately have "k \<notin> snd ` set_cmd c" using that qe by force
    then show ?thesis using b(2)[of k] that qe by (simp add: nth_append)
  qed
  have t: "take (e - q) (drop q ?b) = take (e - q) (drop q s)"
    by (rule nth_equalityI) (use b(1) qe in_word in auto)
  have "?b ! e = 0" using b(2)[of e] qe assms(3) sp by (force simp: nth_append)
  then have "takeWhile (\<lambda>c. c \<noteq> 0) (drop q ?b) = take (e - q) (drop q ?b)"
    using qe b(1) t assms(2) by (intro takeWhile_nonzero_slice) (auto dest: in_set_takeD in_set_dropD)
  then show ?thesis using t sp by (simp add: string_at_def slice_of_def)
qed

text \<open>
  C19. The parser of the shell is total and cuts the line into its words: for every line without NUL bytes, \<open>parsecmd\<close> returns a
  command or ends the shell with an error message, it never runs out of fuel, and each string of a command that it returns
  is a maximal run of word bytes of the line, though \<open>nulterminate\<close> overwrites bytes of the line in place.
\<close>

theorem parsecmd_cuts_words:
  assumes "0 \<notin> set s"
  shows "(\<exists>u. parsecmd s w = Exited 1 u) \<or>
    (\<exists>c. parsecmd s w = Ret (map_cmd (slice_of s) c) w \<and> (\<forall>sp\<in>set_cmd c. word_span s sp))"
proof -
  have "parseline (parse_fuel s) s 0 \<noteq> NoFuel" using parse_fuel_enough[of s "parse_fuel s"] by (simp add: parse_fuel_def)
  then consider (P) c i where "parseline (parse_fuel s) s 0 = Parsed c i" | (F) m where "parseline (parse_fuel s) s 0 = Fail m"
    by (cases "parseline (parse_fuel s) s 0") auto
  then show ?thesis
  proof cases
    case (P c i)
    have ok: "spans_ok s c" using parse_spans[of "parse_fuel s" s] P by blast
    then have "map_cmd (string_at (nulterminate c (s @ [0]))) c = map_cmd (slice_of s) c"
      using assms by (intro cmd.map_cong0 string_at_nulterminate)
    then show ?thesis using ok P by (auto simp: parsecmd_def panic_def exit_def spans_ok_def Let_def)
  next
    case (F m)
    then show ?thesis by (auto simp: parsecmd_def panic_def exit_def)
  qed
qed

theorem parsecmd_cuts_words_witness:
  "(\<exists>u. parsecmd [101, 32, 97, 62, 98] \<lparr>answers = [], trace = []\<rparr> = Exited 1 u) \<or>
    (\<exists>c. parsecmd [101, 32, 97, 62, 98] \<lparr>answers = [], trace = []\<rparr> = Ret (map_cmd (slice_of [101, 32, 97, 62, 98]) c) \<lparr>answers = [], trace = []\<rparr> \<and>
      (\<forall>sp\<in>set_cmd c. word_span [101, 32, 97, 62, 98] sp))"
  using parsecmd_cuts_words[of "[101, 32, 97, 62, 98]" "\<lparr>answers = [], trace = []\<rparr>"] by simp

end
