(* ===== verification/ShellPrint.thy ===== *)
theory ShellPrint
  imports Shell
begin

text \<open>
  The grammar of the shell, given by a printer: every command tree can be written as a line, with parentheses where the tree needs
  them, and the parser of \<^verbatim>\<open>user/sh.c\<close> reads the line back as the same tree.
\<close>

section \<open>The printer\<close>

text \<open>How loosely a command binds: a simple command, a pipeline, a background command, a list.\<close>

fun level :: "'a cmd \<Rightarrow> nat" where
  "level (EXEC as) = 0"
| "level (REDIR c f m fd) = 0"
| "level (PIPE l r) = 1"
| "level (BACK c) = 2"
| "level (LIST l r) = 3"

definition wrap :: "nat \<Rightarrow> 'a cmd \<Rightarrow> bytes \<Rightarrow> bytes" where
  "wrap k c t = (if k < level c then 40 # t @ [41] else t)"

definition redir_op :: "u32 \<Rightarrow> int \<Rightarrow> bytes" where
  "redir_op mode fd = (if fd = 0 then [60] else if mode AND O_TRUNC = 0 then [62, 62] else [62])"

fun unparse :: "bytes cmd \<Rightarrow> bytes" where
  "unparse (EXEC as) = concat (map (\<lambda>w. 32 # w) as)"
| "unparse (REDIR c f m fd) = wrap 0 c (unparse c) @ redir_op m fd @ 32 # f"
| "unparse (PIPE l r) = wrap 0 l (unparse l) @ 124 # wrap 1 r (unparse r)"
| "unparse (BACK c) = wrap 2 c (unparse c) @ [38]"
| "unparse (LIST l r) = wrap 2 l (unparse l) @ 59 # unparse r"

definition good_word :: "bytes \<Rightarrow> bool" where
  "good_word w \<longleftrightarrow> w \<noteq> [] \<and> (\<forall>c\<in>set w. is_word c \<and> c \<noteq> 0)"

definition good_redir :: "u32 \<Rightarrow> int \<Rightarrow> bool" where
  "good_redir m fd \<longleftrightarrow> (m, fd) \<in> {(O_RDONLY, 0), (O_WRONLY OR O_CREATE OR O_TRUNC, 1), (O_WRONLY OR O_CREATE, 1)}"

fun good_cmd :: "bytes cmd \<Rightarrow> bool" where
  "good_cmd (EXEC as) \<longleftrightarrow> length as < MAXARGS \<and> (\<forall>w\<in>set as. good_word w)"
| "good_cmd (REDIR c f m fd) \<longleftrightarrow> good_cmd c \<and> good_word f \<and> good_redir m fd"
| "good_cmd (PIPE l r) \<longleftrightarrow> good_cmd l \<and> good_cmd r"
| "good_cmd (BACK c) \<longleftrightarrow> good_cmd c"
| "good_cmd (LIST l r) \<longleftrightarrow> good_cmd l \<and> good_cmd r"

section \<open>Tokens ahead\<close>

text \<open>The text \<open>xs\<close> lies ahead of a position, apart from leading space; its first byte, or NUL.\<close>

definition ahead :: "bytes \<Rightarrow> nat \<Rightarrow> bytes \<Rightarrow> bool" where
  "ahead buf i xs \<longleftrightarrow> i \<le> length buf \<and> dropWhile is_space (drop i buf) = dropWhile is_space xs"

definition nxt :: "bytes \<Rightarrow> byte" where
  "nxt xs = (case dropWhile is_space xs of [] \<Rightarrow> 0 | c # cs \<Rightarrow> c)"

lemma char_at_drop: "char_at buf i = (case drop i buf of [] \<Rightarrow> 0 | c # cs \<Rightarrow> c)"
  by (cases "i < length buf") (auto simp: char_at_def Cons_nth_drop_Suc[symmetric])

lemma skip_space_le: "i \<le> length buf \<Longrightarrow> skip_space buf i \<le> length buf"
  using length_takeWhile_le[of is_space "drop i buf"] by (simp add: skip_space_def)

lemma ahead_at: "i \<le> length buf \<Longrightarrow> drop i buf = xs \<Longrightarrow> ahead buf i xs"
  by (simp add: ahead_def)

lemma dropWhile_idem [simp]: "dropWhile P (dropWhile P xs) = dropWhile P xs"
  by (induction xs) auto

lemma ahead_skip [simp]: "ahead buf i xs \<Longrightarrow> ahead buf (skip_space buf i) xs"
  by (simp add: ahead_def skip_space_le drop_skip_space)

lemma ahead_drop: "ahead buf i xs \<Longrightarrow> drop (skip_space buf i) buf = dropWhile is_space xs"
  by (simp add: ahead_def drop_skip_space)

lemma char_ahead: "ahead buf i xs \<Longrightarrow> char_at buf (skip_space buf i) = nxt xs"
  by (simp add: char_at_drop ahead_drop nxt_def)

lemma peek_ahead: "ahead buf i xs \<Longrightarrow> peek buf i toks = (skip_space buf i, nxt xs \<noteq> 0 \<and> nxt xs \<in> set (bytes_of toks))"
  by (simp add: peek_def char_ahead)

lemma drop_Suc_Cons: "drop q buf = c # rest \<Longrightarrow> q < length buf \<and> drop (Suc q) buf = rest"
  by (metis drop_Suc drop_eq_Nil list.discI list.sel(3) not_le tl_drop)

lemma token_symbol:
  assumes "ahead buf i (c # rest)" and "c \<in> set (bytes_of ''|();&<'')"
  shows "\<exists>f k. gettoken buf i = (c, f, k) \<and> ahead buf k rest"
proof -
  have c: "c \<noteq> 0" "\<not> is_space c" using assms(2) by (auto simp: bytes_of_def whitespace_def)
  then have d: "drop (skip_space buf i) buf = c # rest" using ahead_drop[OF assms(1)] by simp
  then have "ahead buf (Suc (skip_space buf i)) rest" using drop_Suc_Cons[OF d] by (auto intro: ahead_at)
  then show ?thesis using c assms(2) char_at_drop[of buf "skip_space buf i"] by (auto simp: gettoken_def Let_def d)
qed

lemma token_greater:
  assumes "ahead buf i (62 # 32 # rest)"
  shows "\<exists>f k. gettoken buf i = (62, f, k) \<and> ahead buf k (32 # rest)"
proof -
  have d: "drop (skip_space buf i) buf = 62 # 32 # rest" using ahead_drop[OF assms(1)] by (simp add: whitespace_def)
  note d1 = drop_Suc_Cons[OF d]
  then have "ahead buf (Suc (skip_space buf i)) (32 # rest)" by (auto intro: ahead_at)
  then show ?thesis using char_at_drop[of buf "skip_space buf i"] char_at_drop[of buf "Suc (skip_space buf i)"] d d1
    by (auto simp: gettoken_def Let_def bytes_of_def)
qed

lemma token_append:
  assumes "ahead buf i (62 # 62 # rest)"
  shows "\<exists>f k. gettoken buf i = (43, f, k) \<and> ahead buf k rest"
proof -
  have d: "drop (skip_space buf i) buf = 62 # 62 # rest" using ahead_drop[OF assms(1)] by (simp add: whitespace_def)
  note d1 = drop_Suc_Cons[OF d]
  note d2 = drop_Suc_Cons[OF conjunct2[OF d1]]
  then have "ahead buf (Suc (Suc (skip_space buf i))) rest" by (auto intro: ahead_at)
  then show ?thesis using char_at_drop[of buf "skip_space buf i"] char_at_drop[of buf "Suc (skip_space buf i)"] d d1
    by (auto simp: gettoken_def Let_def bytes_of_def)
qed

definition no_word :: "bytes \<Rightarrow> bool" where
  "no_word rest \<longleftrightarrow> rest = [] \<or> \<not> is_word (hd rest)"

lemma good_word_Cons: "good_word w \<Longrightarrow> \<exists>c cs. w = c # cs \<and> is_word c \<and> c \<noteq> 0"
  by (cases w) (auto simp: good_word_def)

lemma nxt_word: "good_word w \<Longrightarrow> nxt (32 # w @ rest) = hd w \<and> is_word (hd w) \<and> hd w \<noteq> 0"
  using good_word_Cons[of w] by (auto simp: nxt_def) (simp_all add: whitespace_def)

lemma token_word:
  assumes "ahead buf i (32 # w @ rest)" and "good_word w" and "no_word rest"
  shows "\<exists>f k. gettoken buf i = (97, f, k) \<and> slice_of buf f = w \<and> ahead buf k rest"
proof -
  obtain c cs where w: "w = c # cs" "is_word c" "c \<noteq> 0" using good_word_Cons[OF assms(2)] by blast
  let ?q = "skip_space buf i"
  have "dropWhile is_space (32 # w @ rest) = w @ rest" using w by (simp add: whitespace_def[abs_def])
  then have d: "drop ?q buf = w @ rest" using ahead_drop[OF assms(1)] by simp
  have "takeWhile is_word (w @ rest) = w"
    using assms(2,3) by (cases rest) (auto simp: good_word_def no_word_def takeWhile_append)
  then have e: "length (takeWhile is_word (drop ?q buf)) = length w" using d by simp
  have l: "?q + length w \<le> length buf" using d by (metis length_append length_drop le_add1 le_diff_conv2 add.commute nat_le_linear diff_is_0_eq w(1) length_0_conv list.discI add_is_0)
  have "drop (?q + length w) buf = rest" using d by (metis add.commute append_eq_conv_conj drop_drop)
  then have "ahead buf (?q + length w) rest" using l by (auto intro: ahead_at)
  moreover have "slice_of buf (?q, ?q + length w) = w" using d by (simp add: slice_of_def)
  moreover have "c \<notin> set symbols" using w by simp
  ultimately show ?thesis
    using w d e char_at_drop[of buf ?q] by (auto simp: gettoken_def Let_def bytes_of_def symbols_def)
qed

section \<open>Redirections and arguments\<close>

text \<open>A text that is empty or goes on with one of some symbols.\<close>

definition goes_on :: "byte set \<Rightarrow> bytes \<Rightarrow> bool" where
  "goes_on S rest \<longleftrightarrow> rest = [] \<or> hd rest \<in> S"

lemma goes_on_nxt: "goes_on S rest \<Longrightarrow> \<forall>c\<in>S. \<not> is_space c \<Longrightarrow> nxt rest \<in> insert 0 S"
  by (cases rest) (auto simp: goes_on_def nxt_def)

lemma goes_on_no_word: "goes_on S rest \<Longrightarrow> \<forall>c\<in>S. \<not> is_word c \<Longrightarrow> no_word rest"
  by (auto simp: goes_on_def no_word_def)

lemma symbols_facts:
  "is_space 60 = False" "is_space 62 = False" "is_space 124 = False" "is_space 38 = False" "is_space 59 = False"
  "is_space 40 = False" "is_space 41 = False" "is_word 60 = False" "is_word 62 = False" "is_word 124 = False" "is_word 38 = False"
  "is_word 59 = False" "is_word 40 = False" "is_word 41 = False" "is_word 32 = False"
  "(60 \<in> set symbols) = True" "(62 \<in> set symbols) = True" "(124 \<in> set symbols) = True" "(38 \<in> set symbols) = True"
  "(59 \<in> set symbols) = True" "(40 \<in> set symbols) = True" "(41 \<in> set symbols) = True"
  by (simp_all add: whitespace_def symbols_def bytes_of_def)

lemma not_symbol: "is_word c \<Longrightarrow> c \<notin> {60, 62, 124, 38, 59, 40, 41}"
  by (auto simp: symbols_def bytes_of_def)

lemma redir_read:
  assumes "ahead buf i (redir_op m fd @ 32 # f @ rest)" and "good_redir m fd" and "good_word f" and "no_word rest"
  shows "\<exists>f' k. slice_of buf f' = f \<and> ahead buf k rest \<and>
    (\<forall>cmd. parseredirs buf cmd i = parseredirs buf (REDIR cmd f' m fd) k)"
proof -
  have "\<exists>t f0 k. gettoken buf (skip_space buf i) = (t, f0, k) \<and> ahead buf k (32 # f @ rest) \<and> (\<forall>(cmd :: tspan cmd) f'. add_redir t cmd f' = REDIR cmd f' m fd) \<and>
      nxt (redir_op m fd @ 32 # f @ rest) \<in> {60, 62}"
  proof -
    have a: "ahead buf (skip_space buf i) (redir_op m fd @ 32 # f @ rest)" using assms(1) by simp
    consider (r) "m = O_RDONLY" "fd = 0" | (t) "m = O_WRONLY OR O_CREATE OR O_TRUNC" "fd = 1" | (a) "m = O_WRONLY OR O_CREATE" "fd = 1"
      using assms(2) by (auto simp: good_redir_def)
    then show ?thesis
    proof cases
      case r
      then have o: "redir_op m fd = [60]" by (simp add: redir_op_def)
      then show ?thesis using token_symbol[of buf "skip_space buf i" 60 "32 # f @ rest"] a r
        by (fastforce simp: bytes_of_def add_redir_def redircmd_def nxt_def symbols_facts)
    next
      case t
      then have o: "redir_op m fd = [62]" by (simp add: redir_op_def)
      then show ?thesis using token_greater[of buf "skip_space buf i" "f @ rest"] a t
        by (fastforce simp: add_redir_def redircmd_def nxt_def symbols_facts)
    next
      case a'': a
      then have o: "redir_op m fd = [62, 62]" by (simp add: redir_op_def)
      then show ?thesis using token_append[of buf "skip_space buf i" "32 # f @ rest"] a a''
        by (fastforce simp: add_redir_def redircmd_def nxt_def symbols_facts)
    qed
  qed
  then obtain t f0 k where t: "gettoken buf (skip_space buf i) = (t, f0, k)" "ahead buf k (32 # f @ rest)"
      "\<And>(cmd :: tspan cmd) f'. add_redir t cmd f' = REDIR cmd f' m fd" "nxt (redir_op m fd @ 32 # f @ rest) \<in> {60, 62}" by blast
  obtain f' l where w: "gettoken buf k = (97, f', l)" "slice_of buf f' = f" "ahead buf l rest"
    using token_word[OF t(2) assms(3,4)] by blast
  have "parseredirs buf cmd i = parseredirs buf (REDIR cmd f' m fd) l" for cmd
    using t w peek_ahead[OF assms(1), of "''<>''"] by (subst parseredirs.simps) (auto simp: bytes_of_def)
  then show ?thesis using w by blast
qed

lemma redirs_stop: "ahead buf i rest \<Longrightarrow> nxt rest \<notin> {60, 62} \<Longrightarrow> parseredirs buf cmd i = Parsed cmd (skip_space buf i)"
  by (subst parseredirs.simps) (auto simp: peek_ahead bytes_of_def)

lemma args_stop:
  assumes "ahead buf i rest" and "nxt rest \<in> {0, 124, 41, 38, 59}"
  shows "\<exists>k. parse_args buf n cmd i = Parsed cmd k \<and> ahead buf k rest"
proof (cases "nxt rest = 0")
  case True
  have "gettoken buf (skip_space buf i) = (0, (skip_space buf i, skip_space buf i), skip_space buf i)"
    using char_ahead[OF assms(1)] True by (simp add: gettoken_def Let_def)
  then show ?thesis using assms True by (subst parse_args.simps) (auto simp: peek_ahead)
next
  case False
  then show ?thesis using assms by (subst parse_args.simps) (auto simp: peek_ahead bytes_of_def)
qed

lemma args_word:
  assumes "ahead buf i (32 # w @ rest)" and "good_word w" and "no_word rest" and "Suc n < MAXARGS"
  shows "\<exists>f k. slice_of buf f = w \<and> ahead buf k rest \<and>
    (\<forall>cmd. parse_args buf n cmd i = pbnd (parseredirs buf (add_arg cmd f) k) (\<lambda>ret i. parse_args buf (Suc n) ret i))"
proof -
  obtain f k where f: "gettoken buf (skip_space buf i) = (97, f, k)" "slice_of buf f = w" "ahead buf k rest"
    using token_word[of buf "skip_space buf i" w rest] assms by auto
  have "nxt (32 # w @ rest) \<notin> {124, 41, 38, 59}" using nxt_word[OF assms(2), of rest] not_symbol[of "hd w"] by auto
  then have "peek buf i ''|)&;'' = (skip_space buf i, False)" using peek_ahead[OF assms(1), of "''|)&;''"] by (auto simp: bytes_of_def)
  then have "parse_args buf n cmd i = pbnd (parseredirs buf (add_arg cmd f) k) (\<lambda>ret i. parse_args buf (Suc n) ret i)" for cmd
    using f assms(4) by (subst parse_args.simps) (auto simp: Let_def)
  then show ?thesis using f by blast
qed

lemma args_words:
  assumes "ahead buf i (concat (map (\<lambda>w. 32 # w) as) @ rest)" and "\<forall>w\<in>set as. good_word w" and "no_word rest"
    and "n + length as < MAXARGS" and "as \<noteq> []"
  shows "\<exists>as' k. map (slice_of buf) as' = as \<and> ahead buf k rest \<and>
    parse_args buf n (EXEC bs) i = pbnd (parseredirs buf (EXEC (bs @ as')) k) (\<lambda>ret i. parse_args buf (n + length as) ret i)"
  using assms
proof (induction as arbitrary: i n bs)
  case (Cons w as)
  let ?more = "concat (map (\<lambda>w. 32 # w) as) @ rest"
  have "no_word ?more" using Cons.prems(3) by (cases as) (auto simp: no_word_def symbols_facts)
  then obtain f k where f: "slice_of buf f = w" "ahead buf k ?more"
      "\<And>cmd. parse_args buf n cmd i = pbnd (parseredirs buf (add_arg cmd f) k) (\<lambda>ret i. parse_args buf (Suc n) ret i)"
    using args_word[of buf i w ?more n] Cons.prems by auto
  show ?case
  proof (cases "as = []")
    case True
    then show ?thesis using f by (intro exI[of _ "[f]"] exI[of _ k]) simp
  next
    case False
    then obtain v vs where as: "as = v # vs" by (cases as) auto
    then have "nxt ?more \<notin> {60, 62}" using nxt_word[of v "concat (map (\<lambda>w. 32 # w) vs) @ rest"] Cons.prems(2) not_symbol[of "hd v"] by auto
    then have "parse_args buf n (EXEC bs) i = parse_args buf (Suc n) (EXEC (bs @ [f])) (skip_space buf k)"
      using f redirs_stop[of buf k ?more] by simp
    moreover obtain as' l where "map (slice_of buf) as' = as" "ahead buf l rest"
        "parse_args buf (Suc n) (EXEC (bs @ [f])) (skip_space buf k) =
          pbnd (parseredirs buf (EXEC ((bs @ [f]) @ as')) l) (\<lambda>ret i. parse_args buf (Suc n + length as) ret i)"
      using Cons.IH[of "skip_space buf k" "Suc n" "bs @ [f]"] f(2) Cons.prems False by auto
    ultimately show ?thesis using f(1) by (intro exI[of _ "f # as'"] exI[of _ l]) simp
  qed
qed simp

section \<open>Reading a command back\<close>

text \<open>
  What each parsing function does on a printed command with enough fuel. A simple command is read up to its redirections, a background
  command up to its ampersands, so that more of them may follow.
\<close>

definition exec_reads :: "bytes cmd \<Rightarrow> bool" where
  "exec_reads c \<longleftrightarrow> (\<forall>buf i rest. ahead buf i (wrap 0 c (unparse c) @ rest) \<longrightarrow> goes_on {60, 62, 124, 38, 59, 41} rest \<longrightarrow>
     (\<exists>N c' j. map_cmd (slice_of buf) c' = c \<and> ahead buf j rest \<and>
       ((\<forall>F\<ge>N. parseexec F buf i = parseredirs buf c' j) \<or>
        (\<exists>n. \<forall>F\<ge>N. parseexec F buf i = pbnd (parseredirs buf c' j) (\<lambda>ret i. parse_args buf n ret i)))))"

definition pipe_reads :: "bytes cmd \<Rightarrow> bool" where
  "pipe_reads c \<longleftrightarrow> (\<forall>buf i rest. ahead buf i (wrap 1 c (unparse c) @ rest) \<longrightarrow> goes_on {38, 59, 41} rest \<longrightarrow>
     (\<exists>N c' j. map_cmd (slice_of buf) c' = c \<and> ahead buf j rest \<and> (\<forall>F\<ge>N. parsepipe F buf i = Parsed c' j)))"

definition back_reads :: "bytes cmd \<Rightarrow> bool" where
  "back_reads c \<longleftrightarrow> (\<forall>buf i rest. ahead buf i (wrap 2 c (unparse c) @ rest) \<longrightarrow> goes_on {38, 59, 41} rest \<longrightarrow>
     (\<exists>N c' j d k. map_cmd (slice_of buf) c' = c \<and> ahead buf j rest \<and> (\<forall>F\<ge>N. parsepipe F buf i = Parsed d k) \<and>
       parse_back buf d k = parse_back buf c' j))"

definition line_reads :: "bytes cmd \<Rightarrow> bool" where
  "line_reads c \<longleftrightarrow> (\<forall>buf i rest. ahead buf i (unparse c @ rest) \<longrightarrow> goes_on {41} rest \<longrightarrow>
     (\<exists>N c' j. map_cmd (slice_of buf) c' = c \<and> ahead buf j rest \<and> (\<forall>F\<ge>N. parseline F buf i = Parsed c' j)))"

lemma goes_on_mono: "goes_on S rest \<Longrightarrow> S \<subseteq> T \<Longrightarrow> goes_on T rest"
  by (auto simp: goes_on_def)

lemma goes_on_facts:
  "goes_on {38, 59, 41} rest \<Longrightarrow> nxt rest \<in> {0, 38, 59, 41}" "goes_on {41} rest \<Longrightarrow> nxt rest \<in> {0, 41}"
  "goes_on {60, 62, 124, 38, 59, 41} rest \<Longrightarrow> nxt rest \<in> {0, 60, 62, 124, 38, 59, 41} \<and> no_word rest"
  "goes_on {124, 38, 59, 41} rest \<Longrightarrow> nxt rest \<in> {0, 124, 38, 59, 41}"
  using goes_on_nxt[of "{38, 59, 41}" rest] goes_on_nxt[of "{41}" rest] goes_on_nxt[of "{124, 38, 59, 41}" rest]
    goes_on_nxt[of "{60, 62, 124, 38, 59, 41}" rest] goes_on_no_word[of "{60, 62, 124, 38, 59, 41}" rest]
  by (simp_all only: ball_simps symbols_facts simp_thms)

lemma exec_done:
  assumes "exec_reads c" and "ahead buf i (wrap 0 c (unparse c) @ rest)" and "goes_on {124, 38, 59, 41} rest"
  shows "\<exists>N c' j. map_cmd (slice_of buf) c' = c \<and> ahead buf j rest \<and> (\<forall>F\<ge>N. parseexec F buf i = Parsed c' j)"
proof -
  have n: "nxt rest \<in> {0, 124, 38, 59, 41}" using goes_on_facts(4)[OF assms(3)] .
  have "goes_on {60, 62, 124, 38, 59, 41} rest" using goes_on_mono[OF assms(3)] by auto
  then obtain N c' j where c: "map_cmd (slice_of buf) c' = c" "ahead buf j rest"
      "(\<forall>F\<ge>N. parseexec F buf i = parseredirs buf c' j) \<or>
       (\<exists>n. \<forall>F\<ge>N. parseexec F buf i = pbnd (parseredirs buf c' j) (\<lambda>ret i. parse_args buf n ret i))"
    using assms(1,2) unfolding exec_reads_def by blast
  have r: "parseredirs buf c' j = Parsed c' (skip_space buf j)" using n by (intro redirs_stop[OF c(2)]) auto
  show ?thesis
  proof (cases "\<forall>F\<ge>N. parseexec F buf i = parseredirs buf c' j")
    case True
    then show ?thesis using c(1,2) r by (intro exI[of _ N] exI[of _ c'] exI[of _ "skip_space buf j"]) simp
  next
    case False
    then obtain n where e: "\<forall>F\<ge>N. parseexec F buf i = pbnd (parseredirs buf c' j) (\<lambda>ret i. parse_args buf n ret i)" using c(3) by blast
    obtain k where "parse_args buf n c' (skip_space buf j) = Parsed c' k" "ahead buf k rest"
      using args_stop[of buf "skip_space buf j" rest n c'] c(2) n by auto
    then show ?thesis using c(1) e r by (intro exI[of _ N] exI[of _ c'] exI[of _ k]) simp
  qed
qed

lemma exec_pipe: "exec_reads c \<Longrightarrow> level c \<noteq> 1 \<Longrightarrow> pipe_reads c"
  unfolding pipe_reads_def
proof (intro allI impI)
  fix buf i rest
  assume e: "exec_reads c" "level c \<noteq> 1" and a: "ahead buf i (wrap 1 c (unparse c) @ rest)" and g: "goes_on {38, 59, 41} rest"
  have "wrap 1 c (unparse c) = wrap 0 c (unparse c)" using e(2) by (cases c) (simp_all add: wrap_def)
  then obtain N c' j where c: "map_cmd (slice_of buf) c' = c" "ahead buf j rest" "\<forall>F\<ge>N. parseexec F buf i = Parsed c' j"
    using exec_done[OF e(1), of buf i rest] a goes_on_mono[OF g] by auto
  have "parsepipe F buf i = Parsed c' (skip_space buf j)" if "Suc N \<le> F" for F
    using that c(3) goes_on_facts(1)[OF g] peek_ahead[OF c(2), of "''|''"] by (cases F) (auto simp: bytes_of_def)
  then show "\<exists>N c' j. map_cmd (slice_of buf) c' = c \<and> ahead buf j rest \<and> (\<forall>F\<ge>N. parsepipe F buf i = Parsed c' j)"
    using c(1,2) by (intro exI[of _ "Suc N"] exI[of _ c'] exI[of _ "skip_space buf j"]) simp
qed

lemma pipe_back: "pipe_reads c \<Longrightarrow> level c \<noteq> 2 \<Longrightarrow> back_reads c"
  unfolding back_reads_def
proof (intro allI impI)
  fix buf i rest
  assume e: "pipe_reads c" "level c \<noteq> 2" and a: "ahead buf i (wrap 2 c (unparse c) @ rest)" and g: "goes_on {38, 59, 41} rest"
  have "wrap 2 c (unparse c) = wrap 1 c (unparse c)" using e(2) by (cases c) (simp_all add: wrap_def)
  then obtain N c' j where "map_cmd (slice_of buf) c' = c" "ahead buf j rest" "\<forall>F\<ge>N. parsepipe F buf i = Parsed c' j"
    using e(1) a g unfolding pipe_reads_def by metis
  then show "\<exists>N c' j d k. map_cmd (slice_of buf) c' = c \<and> ahead buf j rest \<and> (\<forall>F\<ge>N. parsepipe F buf i = Parsed d k) \<and>
      parse_back buf d k = parse_back buf c' j" by blast
qed

lemma back_stop: "ahead buf j rest \<Longrightarrow> nxt rest \<noteq> 38 \<Longrightarrow> parse_back buf c j = (c, skip_space buf j)"
  by (subst parse_back.simps) (simp add: peek_ahead bytes_of_def)

lemma back_line: "back_reads c \<Longrightarrow> level c \<noteq> 3 \<Longrightarrow> line_reads c"
  unfolding line_reads_def
proof (intro allI impI)
  fix buf i rest
  assume e: "back_reads c" "level c \<noteq> 3" and a: "ahead buf i (unparse c @ rest)" and g: "goes_on {41} rest"
  have "wrap 2 c (unparse c) = unparse c" using e(2) by (cases c) (simp_all add: wrap_def)
  then obtain N c' j d k where c: "map_cmd (slice_of buf) c' = c" "ahead buf j rest" "\<forall>F\<ge>N. parsepipe F buf i = Parsed d k"
      "parse_back buf d k = parse_back buf c' j"
    using e(1) a goes_on_mono[OF g, of "{38, 59, 41}"] unfolding back_reads_def by (metis insert_subset singletonI insert_iff empty_subsetI)
  have n: "nxt rest \<in> {0, 41}" using goes_on_facts(2)[OF g] .
  have b: "parse_back buf d k = (c', skip_space buf j)" using back_stop[OF c(2)] c(4) n by auto
  have "peek buf (skip_space buf j) '';'' = (skip_space buf j, False)"
    using peek_ahead[of buf "skip_space buf j" rest "'';''"] c(2) n by (auto simp: bytes_of_def)
  then have "parseline F buf i = Parsed c' (skip_space buf j)" if "Suc N \<le> F" for F
    using that c(3) b by (cases F) auto
  then show "\<exists>N c' j. map_cmd (slice_of buf) c' = c \<and> ahead buf j rest \<and> (\<forall>F\<ge>N. parseline F buf i = Parsed c' j)"
    using c(1,2) by (intro exI[of _ "Suc N"] exI[of _ c'] exI[of _ "skip_space buf j"]) simp
qed

lemma nxt_symbol: "\<not> is_space c \<Longrightarrow> nxt (c # rest) = c"
  by (simp add: nxt_def)

lemma line_exec: "line_reads c \<Longrightarrow> 0 < level c \<Longrightarrow> exec_reads c"
  unfolding exec_reads_def
proof (intro allI impI)
  fix buf i rest
  assume e: "line_reads c" "0 < level c" and a: "ahead buf i (wrap 0 c (unparse c) @ rest)"
  have a: "ahead buf i (40 # unparse c @ 41 # rest)" using a e(2) by (simp add: wrap_def)
  let ?i = "skip_space buf i"
  have p: "peek buf i ''('' = (?i, True)" "peek buf ?i ''('' = (?i, True)"
    using peek_ahead[OF a, of "''(''"] peek_ahead[of buf ?i "40 # unparse c @ 41 # rest" "''(''"] a
    by (simp_all add: nxt_symbol symbols_facts bytes_of_def)
  obtain f k where t: "gettoken buf ?i = (40, f, k)" "ahead buf k (unparse c @ 41 # rest)"
    using token_symbol[of buf ?i 40 "unparse c @ 41 # rest"] a by (auto simp: bytes_of_def)
  obtain N c' j where c: "map_cmd (slice_of buf) c' = c" "ahead buf j (41 # rest)" "\<And>F. N \<le> F \<Longrightarrow> parseline F buf k = Parsed c' j"
    using e(1) t(2) unfolding line_reads_def by (metis goes_on_def list.sel(1) singletonI)
  have q: "peek buf j '')'' = (skip_space buf j, True)"
    using peek_ahead[OF c(2), of "'')''"] by (simp add: nxt_symbol symbols_facts bytes_of_def)
  obtain g l where u: "gettoken buf (skip_space buf j) = (41, g, l)" "ahead buf l rest"
    using token_symbol[of buf "skip_space buf j" 41 rest] c(2) by (auto simp: bytes_of_def)
  have "parseexec F buf i = parseredirs buf c' l" if F: "Suc (Suc N) \<le> F" for F
  proof -
    obtain G where "F = Suc (Suc G)" "N \<le> G" using F by (metis Suc_le_D Suc_le_mono)
    then show ?thesis using p t(1) q u(1) c(3)[of G] by simp
  qed
  then show "\<exists>N c' j. map_cmd (slice_of buf) c' = c \<and> ahead buf j rest \<and> ((\<forall>F\<ge>N. parseexec F buf i = parseredirs buf c' j) \<or>
      (\<exists>n. \<forall>F\<ge>N. parseexec F buf i = pbnd (parseredirs buf c' j) (\<lambda>ret i. parse_args buf n ret i)))"
    using c(1) u(2) by blast
qed

lemma exec_EXEC: "good_cmd (EXEC as) \<Longrightarrow> exec_reads (EXEC as)"
  unfolding exec_reads_def
proof (intro allI impI)
  fix buf i rest
  assume g: "good_cmd (EXEC as)" and a: "ahead buf i (wrap 0 (EXEC as) (unparse (EXEC as)) @ rest)"
    and r: "goes_on {60, 62, 124, 38, 59, 41} rest"
  let ?t = "concat (map (\<lambda>w. 32 # w) as) @ rest" and ?i = "skip_space buf i"
  have a: "ahead buf i ?t" using a by (simp add: wrap_def)
  have w: "is_word (nxt ?t) \<and> as \<noteq> [] \<or> as = [] \<and> ?t = rest"
    using g nxt_word[of "hd as" "concat (map (\<lambda>w. 32 # w) (tl as)) @ rest"] by (cases as) auto
  then have "nxt ?t \<noteq> 40" using not_symbol[of "nxt ?t"] goes_on_facts(3)[OF r] by auto
  then have p: "parseexec F buf i = pbnd (parseredirs buf (EXEC []) ?i) (\<lambda>ret i. parse_args buf 0 ret i)" if "1 \<le> F" for F
    using peek_ahead[OF a, of "''(''"] that by (cases F) (simp_all add: bytes_of_def execcmd_def)
  show "\<exists>N c' j. map_cmd (slice_of buf) c' = EXEC as \<and> ahead buf j rest \<and> ((\<forall>F\<ge>N. parseexec F buf i = parseredirs buf c' j) \<or>
      (\<exists>n. \<forall>F\<ge>N. parseexec F buf i = pbnd (parseredirs buf c' j) (\<lambda>ret i. parse_args buf n ret i)))"
  proof (cases "as = []")
    case True
    then show ?thesis using p a by (intro exI[of _ 1] exI[of _ "EXEC []"] exI[of _ ?i]) auto
  next
    case False
    then have "nxt ?t \<notin> {60, 62}" using w not_symbol[of "nxt ?t"] by auto
    then have "parseredirs buf (EXEC []) ?i = Parsed (EXEC []) ?i" using redirs_stop[of buf ?i ?t "EXEC []"] a by simp
    moreover obtain as' k where k: "map (slice_of buf) as' = as" "ahead buf k rest"
        "parse_args buf 0 (EXEC []) ?i = pbnd (parseredirs buf (EXEC ([] @ as')) k) (\<lambda>ret i. parse_args buf (0 + length as) ret i)"
      using args_words[of buf ?i as rest 0 "[]"] a g False goes_on_facts(3)[OF r] by auto
    ultimately have "\<forall>F\<ge>1. parseexec F buf i = pbnd (parseredirs buf (EXEC as') k) (\<lambda>ret i. parse_args buf (length as) ret i)"
      using p by simp
    then show ?thesis using k(1,2) by (intro exI[of _ 1] exI[of _ "EXEC as'"] exI[of _ k]) auto
  qed
qed

lemma exec_REDIR:
  assumes "exec_reads c" and "good_word f" and "good_redir m fd"
  shows "exec_reads (REDIR c f m fd)"
  unfolding exec_reads_def
proof (intro allI impI)
  fix buf i rest
  assume a: "ahead buf i (wrap 0 (REDIR c f m fd) (unparse (REDIR c f m fd)) @ rest)" and r: "goes_on {60, 62, 124, 38, 59, 41} rest"
  let ?t = "redir_op m fd @ 32 # f @ rest"
  have a: "ahead buf i (wrap 0 c (unparse c) @ ?t)" using a by (simp add: wrap_def)
  have "goes_on {60, 62, 124, 38, 59, 41} ?t" by (simp add: goes_on_def redir_op_def)
  then obtain N c' j where c: "map_cmd (slice_of buf) c' = c" "ahead buf j ?t"
      "(\<forall>F\<ge>N. parseexec F buf i = parseredirs buf c' j) \<or>
       (\<exists>n. \<forall>F\<ge>N. parseexec F buf i = pbnd (parseredirs buf c' j) (\<lambda>ret i. parse_args buf n ret i))"
    using assms(1) a unfolding exec_reads_def by blast
  obtain f' k where k: "slice_of buf f' = f" "ahead buf k rest" "parseredirs buf c' j = parseredirs buf (REDIR c' f' m fd) k"
    using redir_read[OF c(2) assms(3,2)] goes_on_facts(3)[OF r] by blast
  have "map_cmd (slice_of buf) (REDIR c' f' m fd) = REDIR c f m fd" using c(1) k(1) by simp
  then show "\<exists>N c' j. map_cmd (slice_of buf) c' = REDIR c f m fd \<and> ahead buf j rest \<and> ((\<forall>F\<ge>N. parseexec F buf i = parseredirs buf c' j) \<or>
      (\<exists>n. \<forall>F\<ge>N. parseexec F buf i = pbnd (parseredirs buf c' j) (\<lambda>ret i. parse_args buf n ret i)))"
    using c(3) k(2,3) by metis
qed

lemma pipe_PIPE: "exec_reads l \<Longrightarrow> pipe_reads r \<Longrightarrow> pipe_reads (PIPE l r)"
  unfolding pipe_reads_def[of "PIPE l r"]
proof (intro allI impI)
  fix buf i rest
  assume e: "exec_reads l" "pipe_reads r" and a: "ahead buf i (wrap 1 (PIPE l r) (unparse (PIPE l r)) @ rest)" and g: "goes_on {38, 59, 41} rest"
  let ?t = "wrap 1 r (unparse r) @ rest"
  have a: "ahead buf i (wrap 0 l (unparse l) @ 124 # ?t)" using a by (simp add: wrap_def[of "Suc 0" "PIPE l r"])
  obtain N l' j where l: "map_cmd (slice_of buf) l' = l" "ahead buf j (124 # ?t)" "\<forall>F\<ge>N. parseexec F buf i = Parsed l' j"
    using exec_done[OF e(1) a] by (auto simp: goes_on_def)
  have p: "peek buf j ''|'' = (skip_space buf j, True)"
    using peek_ahead[OF l(2), of "''|''"] by (simp add: nxt_symbol symbols_facts bytes_of_def)
  obtain f k where t: "gettoken buf (skip_space buf j) = (124, f, k)" "ahead buf k ?t"
    using token_symbol[of buf "skip_space buf j" 124 ?t] l(2) by (auto simp: bytes_of_def)
  obtain M r' m where r: "map_cmd (slice_of buf) r' = r" "ahead buf m rest" "\<forall>F\<ge>M. parsepipe F buf k = Parsed r' m"
    using e(2) t(2) g unfolding pipe_reads_def by blast
  have "parsepipe F buf i = Parsed (PIPE l' r') m" if "Suc (N + M) \<le> F" for F
    using that l(3) p t(1) r(3) by (cases F) (simp_all add: pipecmd_def)
  then show "\<exists>N c' j. map_cmd (slice_of buf) c' = PIPE l r \<and> ahead buf j rest \<and> (\<forall>F\<ge>N. parsepipe F buf i = Parsed c' j)"
    using l(1) r(1,2) by (intro exI[of _ "Suc (N + M)"] exI[of _ "PIPE l' r'"] exI[of _ m]) simp
qed

lemma back_BACK: "back_reads c \<Longrightarrow> back_reads (BACK c)"
  unfolding back_reads_def[of "BACK c"]
proof (intro allI impI)
  fix buf i rest
  assume e: "back_reads c" and a: "ahead buf i (wrap 2 (BACK c) (unparse (BACK c)) @ rest)"
  have a: "ahead buf i (wrap 2 c (unparse c) @ 38 # rest)" using a by (simp add: wrap_def[of 2 "BACK c"])
  obtain N c' j d k where c: "map_cmd (slice_of buf) c' = c" "ahead buf j (38 # rest)" "\<forall>F\<ge>N. parsepipe F buf i = Parsed d k"
      "parse_back buf d k = parse_back buf c' j"
    using e a unfolding back_reads_def by (metis goes_on_def insertI1 list.sel(1))
  have p: "peek buf j ''&'' = (skip_space buf j, True)"
    using peek_ahead[OF c(2), of "''&''"] by (simp add: nxt_symbol symbols_facts bytes_of_def)
  obtain f l where t: "gettoken buf (skip_space buf j) = (38, f, l)" "ahead buf l rest"
    using token_symbol[of buf "skip_space buf j" 38 rest] c(2) by (auto simp: bytes_of_def)
  have "parse_back buf c' j = parse_back buf (BACK c') l" using p t(1) by (subst parse_back.simps) (simp add: backcmd_def)
  then show "\<exists>N c' j d k. map_cmd (slice_of buf) c' = BACK c \<and> ahead buf j rest \<and> (\<forall>F\<ge>N. parsepipe F buf i = Parsed d k) \<and>
      parse_back buf d k = parse_back buf c' j"
    using c t(2) by (intro exI[of _ N] exI[of _ "BACK c'"] exI[of _ l] exI[of _ d] exI[of _ k]) simp
qed

lemma line_LIST: "back_reads l \<Longrightarrow> line_reads r \<Longrightarrow> line_reads (LIST l r)"
  unfolding line_reads_def[of "LIST l r"]
proof (intro allI impI)
  fix buf i rest
  assume e: "back_reads l" "line_reads r" and a: "ahead buf i (unparse (LIST l r) @ rest)" and g: "goes_on {41} rest"
  let ?t = "unparse r @ rest"
  have a: "ahead buf i (wrap 2 l (unparse l) @ 59 # ?t)" using a by simp
  obtain N l' j d k where l: "map_cmd (slice_of buf) l' = l" "ahead buf j (59 # ?t)" "\<forall>F\<ge>N. parsepipe F buf i = Parsed d k"
      "parse_back buf d k = parse_back buf l' j"
    using e(1) a unfolding back_reads_def by (metis goes_on_def insertI1 insertI2 list.sel(1))
  have b: "parse_back buf d k = (l', skip_space buf j)" using back_stop[OF l(2)] l(4) by (simp add: nxt_symbol symbols_facts)
  have p: "peek buf (skip_space buf j) '';'' = (skip_space buf j, True)"
    using peek_ahead[of buf "skip_space buf j" "59 # ?t" "'';''"] l(2) by (simp add: nxt_symbol symbols_facts bytes_of_def)
  obtain f m where t: "gettoken buf (skip_space buf j) = (59, f, m)" "ahead buf m ?t"
    using token_symbol[of buf "skip_space buf j" 59 ?t] l(2) by (auto simp: bytes_of_def)
  obtain M r' n where r: "map_cmd (slice_of buf) r' = r" "ahead buf n rest" "\<forall>F\<ge>M. parseline F buf m = Parsed r' n"
    using e(2) t(2) g unfolding line_reads_def by blast
  have "parseline F buf i = Parsed (LIST l' r') n" if "Suc (N + M) \<le> F" for F
    using that l(3) b p t(1) r(3) by (cases F) (simp_all add: listcmd_def)
  then show "\<exists>N c' j. map_cmd (slice_of buf) c' = LIST l r \<and> ahead buf j rest \<and> (\<forall>F\<ge>N. parseline F buf i = Parsed c' j)"
    using l(1) r(1,2) by (intro exI[of _ "Suc (N + M)"] exI[of _ "LIST l' r'"] exI[of _ n]) simp
qed

lemma all_read: "good_cmd c \<Longrightarrow> exec_reads c \<and> pipe_reads c \<and> back_reads c \<and> line_reads c"
proof (induction c)
  case (EXEC as)
  then show ?case using exec_EXEC[of as] exec_pipe[of "EXEC as"] pipe_back[of "EXEC as"] back_line[of "EXEC as"] by simp
next
  case (REDIR c f m fd)
  then show ?case
    using exec_REDIR[of c f m fd] exec_pipe[of "REDIR c f m fd"] pipe_back[of "REDIR c f m fd"] back_line[of "REDIR c f m fd"] by simp
next
  case (PIPE l r)
  then show ?case using pipe_PIPE[of l r] pipe_back[of "PIPE l r"] back_line[of "PIPE l r"] line_exec[of "PIPE l r"] by simp
next
  case (LIST l r)
  then show ?case using line_LIST[of l r] line_exec[of "LIST l r"] exec_pipe[of "LIST l r"] pipe_back[of "LIST l r"] by simp
next
  case (BACK c)
  then show ?case using back_BACK[of c] back_line[of "BACK c"] line_exec[of "BACK c"] exec_pipe[of "BACK c"] by simp
qed

text \<open>More fuel does not change a result.\<close>

lemma pbnd_more:
  "pbnd m f \<noteq> NoFuel \<Longrightarrow> (m \<noteq> NoFuel \<Longrightarrow> m' = m) \<Longrightarrow> (\<And>x i. m = Parsed x i \<Longrightarrow> f x i \<noteq> NoFuel \<Longrightarrow> g x i = f x i) \<Longrightarrow>
   pbnd m' g = pbnd m f"
  by (cases m) auto

text \<open>What \<open>parseline\<close> and \<open>parsepipe\<close> do after their first part, given the function that reads the rest.\<close>

definition after_pipe :: "(nat \<Rightarrow> tspan cmd pres) \<Rightarrow> bytes \<Rightarrow> tspan cmd \<Rightarrow> nat \<Rightarrow> tspan cmd pres" where
  "after_pipe L buf c i =
     (case parse_back buf c i of (c, i) \<Rightarrow> case peek buf i '';'' of (i, b) \<Rightarrow>
      if b then case gettoken buf i of (_, _, i) \<Rightarrow> pbnd (L i) (\<lambda>right i. Parsed (listcmd c right) i) else Parsed c i)"

definition after_exec :: "(nat \<Rightarrow> tspan cmd pres) \<Rightarrow> bytes \<Rightarrow> tspan cmd \<Rightarrow> nat \<Rightarrow> tspan cmd pres" where
  "after_exec P buf c i =
     (case peek buf i ''|'' of (i, b) \<Rightarrow>
      if b then case gettoken buf i of (_, _, i) \<Rightarrow> pbnd (P i) (\<lambda>right i. Parsed (pipecmd c right) i) else Parsed c i)"

lemma parse_steps:
  "parseline (Suc n) buf i = pbnd (parsepipe n buf i) (after_pipe (parseline n buf) buf)"
  "parsepipe (Suc n) buf i = pbnd (parseexec n buf i) (after_exec (parsepipe n buf) buf)"
  by (simp_all add: after_pipe_def[abs_def] after_exec_def[abs_def])

lemma after_more:
  "after_pipe L buf c i \<noteq> NoFuel \<Longrightarrow> (\<And>k. L k \<noteq> NoFuel \<Longrightarrow> L' k = L k) \<Longrightarrow> after_pipe L' buf c i = after_pipe L buf c i"
  "after_exec L buf c i \<noteq> NoFuel \<Longrightarrow> (\<And>k. L k \<noteq> NoFuel \<Longrightarrow> L' k = L k) \<Longrightarrow> after_exec L' buf c i = after_exec L buf c i"
  by (auto simp: after_pipe_def after_exec_def split: prod.splits if_splits intro!: pbnd_more)

lemma parse_more_fuel:
  "(\<forall>i. parseline n buf i \<noteq> NoFuel \<longrightarrow> parseline (Suc n) buf i = parseline n buf i) \<and>
   (\<forall>i. parsepipe n buf i \<noteq> NoFuel \<longrightarrow> parsepipe (Suc n) buf i = parsepipe n buf i) \<and>
   (\<forall>i. parseexec n buf i \<noteq> NoFuel \<longrightarrow> parseexec (Suc n) buf i = parseexec n buf i) \<and>
   (\<forall>i. parseblock n buf i \<noteq> NoFuel \<longrightarrow> parseblock (Suc n) buf i = parseblock n buf i)"
proof (induction n)
  case (Suc n)
  then have IH: "\<And>i. parseline n buf i \<noteq> NoFuel \<Longrightarrow> parseline (Suc n) buf i = parseline n buf i"
    "\<And>i. parsepipe n buf i \<noteq> NoFuel \<Longrightarrow> parsepipe (Suc n) buf i = parsepipe n buf i"
    "\<And>i. parseexec n buf i \<noteq> NoFuel \<Longrightarrow> parseexec (Suc n) buf i = parseexec n buf i"
    "\<And>i. parseblock n buf i \<noteq> NoFuel \<Longrightarrow> parseblock (Suc n) buf i = parseblock n buf i" by blast+
  have "parseline (Suc (Suc n)) buf i = parseline (Suc n) buf i" if "parseline (Suc n) buf i \<noteq> NoFuel" for i
    using that unfolding parse_steps(1)[of "Suc n" buf i] parse_steps(1)[of n buf i] by (intro pbnd_more after_more(1) IH)
  moreover have "parsepipe (Suc (Suc n)) buf i = parsepipe (Suc n) buf i" if "parsepipe (Suc n) buf i \<noteq> NoFuel" for i
    using that unfolding parse_steps(2)[of "Suc n" buf i] parse_steps(2)[of n buf i] by (intro pbnd_more after_more(2) IH)
  moreover have "parseexec (Suc (Suc n)) buf i = parseexec (Suc n) buf i" if "parseexec (Suc n) buf i \<noteq> NoFuel" for i
    using that unfolding parseexec.simps(2) by (auto simp del: parseblock.simps split: prod.splits if_splits intro!: IH)
  moreover have "parseblock (Suc (Suc n)) buf i = parseblock (Suc n) buf i" if "parseblock (Suc n) buf i \<noteq> NoFuel" for i
    using that unfolding parseblock.simps(2) by (auto simp del: parseline.simps split: prod.splits if_splits intro!: pbnd_more IH)
  ultimately show ?case by blast
qed simp

lemma parseline_more_fuel: "parseline n buf i \<noteq> NoFuel \<Longrightarrow> parseline (n + k) buf i = parseline n buf i"
  by (induction k) (use parse_more_fuel[of _ buf] in auto)

lemma unparse_no_nul: "good_cmd c \<Longrightarrow> 0 \<notin> set (unparse c)"
  by (induction c) (auto simp: good_word_def wrap_def redir_op_def)

text \<open>
  C11. Every command can be typed: the line that prints a command tree of words, redirections, pipelines, lists and background
  commands, nested in any way, is parsed by \<open>parsecmd\<close> into that tree, with the strings that the terminated line holds.
\<close>

theorem parsecmd_unparse:
  assumes "good_cmd c"
  shows "parsecmd (unparse c) w = Ret c w"
proof -
  let ?s = "unparse c"
  have "ahead ?s 0 (?s @ [])" by (simp add: ahead_def)
  then obtain N c' j where c: "map_cmd (slice_of ?s) c' = c" "ahead ?s j []" "\<forall>F\<ge>N. parseline F ?s 0 = Parsed c' j"
    using all_read[OF assms] unfolding line_reads_def goes_on_def by blast
  have "parseline (parse_fuel ?s) ?s 0 \<noteq> NoFuel" using parse_fuel_enough[of ?s "parse_fuel ?s"] by (simp add: parse_fuel_def)
  then have p: "parseline (parse_fuel ?s) ?s 0 = Parsed c' j"
    using parseline_more_fuel[of "parse_fuel ?s" ?s 0 N] c(3) by simp
  have "skip_space ?s j = length ?s" using ahead_drop[OF c(2)] c(2) skip_space_le[of j ?s] by (auto simp: ahead_def)
  then have k: "fst (peek ?s j []) = length ?s" by (simp add: peek_def Let_def)
  have "map_cmd (string_at (nulterminate c' (?s @ [0]))) c' = map_cmd (slice_of ?s) c'"
    using parse_spans[of "parse_fuel ?s" ?s] p unparse_no_nul[OF assms] by (intro cmd.map_cong0 string_at_nulterminate) auto
  then show ?thesis using p k c(1) by (simp add: parsecmd_def)
qed

theorem parsecmd_unparse_witness:
  "parsecmd (unparse (LIST (BACK (PIPE (EXEC [[108, 115]]) (REDIR (EXEC [[119, 99], [45]]) [111] (O_WRONLY OR O_CREATE) 1)))
      (REDIR (LIST (EXEC [[97]]) (EXEC [])) [105] O_RDONLY 0))) \<lparr>answers = [], trace = []\<rparr> =
    Ret (LIST (BACK (PIPE (EXEC [[108, 115]]) (REDIR (EXEC [[119, 99], [45]]) [111] (O_WRONLY OR O_CREATE) 1)))
      (REDIR (LIST (EXEC [[97]]) (EXEC [])) [105] O_RDONLY 0)) \<lparr>answers = [], trace = []\<rparr>"
  by (rule parsecmd_unparse)
    (simp add: good_word_def good_redir_def whitespace_def symbols_def bytes_of_def)

end
