(* ===== verification/EnergyDemos.thy ===== *)
theory EnergyDemos
  imports UserSys
begin

text \<open>
  The programs that show the energy features: \<^verbatim>\<open>user/energytop.c\<close>, \<^verbatim>\<open>energytest.c\<close>, \<^verbatim>\<open>budgettest.c\<close> and \<^verbatim>\<open>powertest.c\<close>. The loops that only
  pass time (\<^verbatim>\<open>nop\<close>, or counting up a variable that nothing reads) have no effect and are left out. A structure that is not filled in yet
  is an argument.
\<close>

section \<open>energytop\<close>

abbreviation (input) MAX_PROC :: nat where "MAX_PROC \<equiv> 64"

definition rule_line :: "char \<Rightarrow> string" where
  "rule_line c = replicate 79 c"

definition header_format :: string where
  "header_format = line ''%-6s %-16s %-10s %-10s %-10s %-12s''"

definition row_format :: string where
  "row_format = line ''%-6d %-16s %-10d %-10d %-10d %-12d''"

definition print_header :: "'z uworld_scheme \<Rightarrow> 'z uworld_scheme" where
  "print_header w =
     (let w = say (rule_line (CHR ''='')) w;
          w = say ''ENERGYTOP - GreenOS Process Energy Profiler'' w;
          w = say (rule_line (CHR ''='')) w;
          w = uprintf header_format
                (map (\<lambda>s. str (bytes_of s)) [''PID'', ''NAME'', ''CPU_TICKS'', ''SLEEPS'', ''WAKES'', ''ENERGY_SCORE'']) w
      in say (rule_line (CHR ''-'')) w)"

definition print_footer :: "'z uworld_scheme \<Rightarrow> 'z uworld_scheme" where
  "print_footer w = say ''Press Ctrl+C to exit'' (say (rule_line (CHR ''='')) w)"

definition print_row :: "int \<Rightarrow> uenergy \<Rightarrow> 'z uworld_scheme \<Rightarrow> 'z uworld_scheme" where
  "print_row pid info w =
     uprintf row_format
       [num pid, str (bytes_of ''(unknown)''), num (u_cpu_ticks info), num (u_sleep_count info), num (u_wake_count info),
        num (u_energy_score info)] w"

fun energytop_loop :: "nat list \<Rightarrow> uenergy \<Rightarrow> int \<Rightarrow> 'z uworld_scheme \<Rightarrow> (int, 'z uworld_scheme) ures" where
  "energytop_loop [] info count w = Ret count w"
| "energytop_loop (pid # pids) info count w =
     ubnd (get_energy_info (int pid) info w) (\<lambda>x w. case x of (r, info) \<Rightarrow>
     if r = 0 then energytop_loop pids info (count + 1) (print_row (int pid) info w)
     else energytop_loop pids info count w)"

definition energytop_main :: "uenergy \<Rightarrow> 'z uworld_scheme \<Rightarrow> (unit, 'z uworld_scheme) ures" where
  "energytop_main info w =
     ubnd (energytop_loop [1..<MAX_PROC] info 0 (print_header w)) (\<lambda>count w.
     let w = (if count = 0 then say ''No processes found.'' w
              else uprintf (line ''Total processes: %d'') [num count] (say (rule_line (CHR ''-'')) w))
     in exit 0 (print_footer w))"

section \<open>energytest\<close>

abbreviation (input) print_stats :: "uenergy \<Rightarrow> 'z uworld_scheme \<Rightarrow> 'z uworld_scheme" where
  "print_stats info w \<equiv>
     (let w = uprintf (line ''  CPU ticks:    %d'') [num (u_cpu_ticks info)] w;
          w = uprintf (line ''  Sleep count:  %d'') [num (u_sleep_count info)] w;
          w = uprintf (line ''  Wake count:   %d'') [num (u_wake_count info)] w
      in uprintf (line (line ''  Energy score: %d'')) [num (u_energy_score info)] w)"

fun energytest_dots :: "nat \<Rightarrow> 'z uworld_scheme \<Rightarrow> (unit, 'z uworld_scheme) ures" where
  "energytest_dots 0 w = Ret () w"
| "energytest_dots (Suc n) w = ubnd (call (Pause 1) (uprintf ''.'' [] w)) (\<lambda>_ w. energytest_dots n w)"

definition nl :: string where "nl = line []"

text \<open>A report that is skipped when the call fails.\<close>

abbreviation (input) energytest_report :: "string \<Rightarrow> int \<Rightarrow> uenergy \<Rightarrow> 'z uworld_scheme \<Rightarrow> (uenergy, 'z uworld_scheme) ures" where
  "energytest_report title pid info w \<equiv>
     ubnd (get_energy_info pid info w) (\<lambda>x w. case x of (r, info) \<Rightarrow>
     Ret info (if r = 0 then print_stats info (uprintf (nl @ line title) [] w) else w))"

definition energytest_main :: "uenergy \<Rightarrow> 'z uworld_scheme \<Rightarrow> (unit, 'z uworld_scheme) ures" where
  "energytest_main info w =
     ubnd (call Getpid w) (\<lambda>pid w.
     let w = say ''Energy Profiler Test Program'' w;
         w = uprintf (line (line ''============================'')) [] w in
     ubnd (get_energy_info pid info w) (\<lambda>x w. case x of (r, info) \<Rightarrow>
     if r \<noteq> 0 then exit 1 (say ''Failed to get energy info!'' w)
     else
       let w = print_stats info (uprintf (line ''Initial energy stats for PID %d:'') [num pid] w);
           w = say ''Doing CPU-intensive work...'' w in
       ubnd (energytest_report ''Energy stats after CPU work:'' pid info w) (\<lambda>info w.
       ubnd (energytest_dots 10 (say ''Doing I/O work (writing to console)...'' w)) (\<lambda>_ w.
       ubnd (energytest_report ''Final energy stats after I/O work:'' pid info (uprintf nl [] w)) (\<lambda>info w.
       ubnd (get_energy_info 9999 info (say ''Testing error handling (PID 9999)...'' w)) (\<lambda>x w. case x of (r, info) \<Rightarrow>
       let w = (if r < 0 then say ''Correctly returned error for non-existent PID'' w
                else say ''ERROR: Should have failed for non-existent PID!'' w);
           w = uprintf (nl @ line ''============================'') [] w
       in exit 0 (say ''Energy Profiler Test Complete!'' w)))))))"

section \<open>budgettest\<close>

definition work_sum :: "nat \<Rightarrow> int" where
  "work_sum iterations =
     fold (\<lambda>i sum. fold (\<lambda>j sum. i32 (sum + i32 (int i * int j))) [0..<1000] sum) [0..<iterations] 0"

text \<open>The sum is compared with 0xFFFFFFFF as an unsigned number.\<close>

definition cpu_intensive_work :: "nat \<Rightarrow> 'z uworld_scheme \<Rightarrow> 'z uworld_scheme" where
  "cpu_intensive_work iterations w = (if work_sum iterations mod 2 ^ 32 = 0xFFFFFFFF then say ''Done'' w else w)"

definition dashes :: string where "dashes = replicate 50 (CHR ''-'')"

abbreviation (input) current_ticks :: "int \<Rightarrow> uenergy \<Rightarrow> 'z uworld_scheme \<Rightarrow> (uenergy, 'z uworld_scheme) ures" where
  "current_ticks pid info w \<equiv>
     ubnd (get_energy_info pid info w) (\<lambda>x w. case x of (r, info) \<Rightarrow>
     Ret info (if r = 0 then uprintf (line ''  Current CPU ticks: %d'') [num (u_cpu_ticks info)] w else w))"

abbreviation (input) after_work :: "int \<Rightarrow> uenergy \<Rightarrow> 'z uworld_scheme \<Rightarrow> (uenergy, 'z uworld_scheme) ures" where
  "after_work pid info w \<equiv>
     ubnd (get_energy_info pid info w) (\<lambda>x w. case x of (r, info) \<Rightarrow>
     Ret info (if r = 0 then
       uprintf (line (line ''  Energy score: %d'')) [num (u_energy_score info)]
         (uprintf (line ''  After work CPU ticks: %d'') [num (u_cpu_ticks info)] w) else w))"

definition budgettest_1 :: "int \<Rightarrow> uenergy \<Rightarrow> 'z uworld_scheme \<Rightarrow> (uenergy, 'z uworld_scheme) ures" where
  "budgettest_1 pid info w =
     ubnd (get_energy_info pid info (say dashes (say ''Test 1: Initial Energy Stats'' w))) (\<lambda>x w. case x of (r, info) \<Rightarrow>
     if r = 0 then
       let w = uprintf (line ''  PID: %d'') [num pid] w;
           w = uprintf (line ''  CPU ticks: %d'') [num (u_cpu_ticks info)] w;
           w = uprintf (line ''  Energy score: %d'') [num (u_energy_score info)] w
       in Ret info (uprintf (line (line ''  Status: No budget set'')) [] w)
     else exit 1 (uprintf (line (line ''  Error: Failed to get energy info'')) [] w))"

definition budgettest_2 :: "int \<Rightarrow> uenergy \<Rightarrow> 'z uworld_scheme \<Rightarrow> (uenergy, 'z uworld_scheme) ures" where
  "budgettest_2 pid info w =
     ubnd (call (SetEnergyBudget 100) (say dashes (say ''Test 2: Setting Low Energy Budget (100 ticks)'' w))) (\<lambda>r w.
     if r \<noteq> 0 then exit 1 (uprintf (line (line ''  Error: Failed to set energy budget'')) [] w)
     else
       ubnd (current_ticks pid info (uprintf (line ''  Budget set to: %d ticks'') [num 100] w)) (\<lambda>info w.
       after_work pid info (cpu_intensive_work 5000 (say ''  Performing CPU-intensive work...'' w))))"

definition budgettest_3 :: "int \<Rightarrow> uenergy \<Rightarrow> 'z uworld_scheme \<Rightarrow> (uenergy, 'z uworld_scheme) ures" where
  "budgettest_3 pid info w =
     ubnd (call (SetEnergyBudget 0) (say dashes (say ''Test 3: Disabling Budget (set to 0)'' w))) (\<lambda>r w.
     ubnd (current_ticks pid info (if r = 0 then say ''  Budget disabled'' w else w)) (\<lambda>info w.
     after_work pid info (cpu_intensive_work 2000 (say ''  Performing CPU-intensive work without budget...'' w))))"

definition budgettest_4 :: "int \<Rightarrow> uenergy \<Rightarrow> 'z uworld_scheme \<Rightarrow> (uenergy, 'z uworld_scheme) ures" where
  "budgettest_4 pid info w =
     ubnd (call (SetEnergyBudget 1000) (say dashes (say ''Test 4: Setting Higher Budget (1000 ticks)'' w))) (\<lambda>r w.
     ubnd (current_ticks pid info (if r = 0 then uprintf (line ''  Budget set to: %d ticks'') [num 1000] w else w)) (\<lambda>info w.
     after_work pid info (cpu_intensive_work 3000 (say ''  Performing CPU-intensive work...'' w))))"

abbreviation (input) budgettest_5 :: "'z uworld_scheme \<Rightarrow> (unit, 'z uworld_scheme) ures" where
  "budgettest_5 w \<equiv>
     ubnd (call (SetEnergyBudget (- 100)) (say dashes (say ''Test 5: Testing Invalid Budget (-100)'' w))) (\<lambda>r w.
     Ret () (uprintf (line (line (if r = - 1 then ''  Correctly rejected invalid budget''
       else ''  Error: Invalid budget was accepted!''))) [] w))"

definition budgettest_main :: "uenergy \<Rightarrow> 'z uworld_scheme \<Rightarrow> (unit, 'z uworld_scheme) ures" where
  "budgettest_main info w =
     (let w = say (rule_line (CHR ''='')) w;
          w = say ''GreenOS Energy Budget Enforcement Test'' w;
          w = uprintf (line (line (rule_line (CHR ''='')))) [] w in
      ubnd (call Getpid w) (\<lambda>pid w.
      ubnd (budgettest_1 pid info w) (\<lambda>info w.
      ubnd (budgettest_2 pid info w) (\<lambda>info w.
      ubnd (budgettest_3 pid info w) (\<lambda>info w.
      ubnd (budgettest_4 pid info w) (\<lambda>info w.
      ubnd (budgettest_5 w) (\<lambda>_ w.
      exit 0 (say (rule_line (CHR ''='')) (say ''Energy Budget Enforcement Test Complete''
        (say (rule_line (CHR ''='')) w))))))))))"

section \<open>powertest\<close>

abbreviation (input) UPOWER_ECO :: int where "UPOWER_ECO \<equiv> 0"
abbreviation (input) UPOWER_BALANCED :: int where "UPOWER_BALANCED \<equiv> 1"
abbreviation (input) UPOWER_PERFORMANCE :: int where "UPOWER_PERFORMANCE \<equiv> 2"

text \<open>\<^verbatim>\<open>print_power_mode\<close> and \<^verbatim>\<open>do_work\<close> are not called.\<close>

definition print_power_mode :: "int \<Rightarrow> 'z uworld_scheme \<Rightarrow> 'z uworld_scheme" where
  "print_power_mode mode w =
     uprintf (line ''Power mode: %s'')
       [str (bytes_of (if mode = UPOWER_ECO then ''ECO (aggressive sleep)''
          else if mode = UPOWER_BALANCED then ''BALANCED (default)''
          else if mode = UPOWER_PERFORMANCE then ''PERFORMANCE (minimal sleep)''
          else ''UNKNOWN''))] w"

definition do_work :: "int \<Rightarrow> 'z uworld_scheme \<Rightarrow> 'z uworld_scheme" where
  "do_work iterations w =
     say ''Work completed.'' (uprintf (line ''Performing %d iterations of work...'') [num iterations] w)"

fun pauses :: "nat \<Rightarrow> 'z uworld_scheme \<Rightarrow> (unit, 'z uworld_scheme) ures" where
  "pauses 0 w = Ret () w"
| "pauses (Suc n) w = ubnd (call (Pause 2) w) (\<lambda>_ w. pauses n w)"

definition do_mixed_workload :: "nat \<Rightarrow> 'z uworld_scheme \<Rightarrow> (unit, 'z uworld_scheme) ures" where
  "do_mixed_workload cycles w =
     ubnd (pauses cycles (uprintf (line ''Running mixed workload (%d cycles of work + idle)...'') [num (int cycles)] w)) (\<lambda>_ w.
     Ret () (say ''Mixed workload completed.'' w))"

definition print_change :: "int \<Rightarrow> 'z uworld_scheme \<Rightarrow> 'z uworld_scheme" where
  "print_change c w = uprintf ''%d'' [num c] (if c \<ge> 0 then uprintf ''+'' [] w else w)"

text \<open>One of the three tests: \<open>adjust\<close> is what is taken off the change of the utilization, after its sign is flipped.\<close>

definition power_test :: "int \<Rightarrow> string \<Rightarrow> int \<Rightarrow> 'z uworld_scheme \<Rightarrow> (int, 'z uworld_scheme) ures" where
  "power_test mode name adjust w =
     ubnd (call (SetPowerMode mode) w) (\<lambda>result w.
     if result < 0 then Ret 0 (say (''ERROR: Failed to set power mode to '' @ name) w)
     else
       ubnd (call GetCpuStats (say (''Successfully set power mode to '' @ name) w)) (\<lambda>util_before w.
       ubnd (do_mixed_workload 20 w) (\<lambda>_ w.
       ubnd (call GetCpuStats w) (\<lambda>util_after w.
       let change = i32 (- (util_after - util_before) - adjust);
           w = print_change change (uprintf ''Utilization change during workload: '' [] w)
       in Ret change (uprintf (line (line ''%%'')) [] w)))))"

definition powertest_intro :: "'z uworld_scheme \<Rightarrow> 'z uworld_scheme" where
  "powertest_intro w =
     (let w = say ''=== GreenOS Power Mode Test ==='' w;
          w = say ''Feature 3: Adaptive Idle Governor'' w;
          w = say ''Testing how each power mode affects CPU utilization'' w
      in uprintf (line (line ''during mixed workload (work + idle periods)...'')) [] w)"

definition powertest_comparison :: "int \<Rightarrow> int \<Rightarrow> int \<Rightarrow> 'z uworld_scheme \<Rightarrow> 'z uworld_scheme" where
  "powertest_comparison eco balanced perf w =
     (let w = say ''=== Power Mode Comparison ==='' w;
          w = uprintf (line (line ''Utilization change during identical mixed workloads:'')) [] w;
          w = uprintf (line ''%%'') [] (print_change eco (uprintf ''  ECO mode (aggressive sleep):     '' [] w));
          w = uprintf (line ''%%'') [] (print_change balanced (uprintf ''  BALANCED mode (default):         '' [] w));
          w = uprintf (line (line ''%%'')) [] (print_change perf (uprintf ''  PERFORMANCE mode (minimal sleep): '' [] w));
          w = say ''Results Summary:'' w;
          w = say ''Higher utilization = CPU more active = better performance'' w;
          w = uprintf (line (line ''Lower utilization = CPU sleeps more = better battery life'')) [] w;
          w = say ''PERFORMANCE mode: Highest utilization (no sleep, instant response)'' w;
          w = say ''BALANCED mode:    Medium utilization (balanced approach)'' w;
          w = say ''ECO mode:         Lowest utilization (deep sleep, max battery)'' w
      in uprintf (nl @ line ''All tests completed successfully!'') [] w)"

definition powertest_main :: "'z uworld_scheme \<Rightarrow> (unit, 'z uworld_scheme) ures" where
  "powertest_main w =
     ubnd (power_test UPOWER_PERFORMANCE ''PERFORMANCE'' 0 (say ''Test 1: PERFORMANCE mode (minimal sleep)'' (powertest_intro w))) (\<lambda>perf_change w.
     ubnd (power_test UPOWER_BALANCED ''BALANCED'' 2 (say ''Test 2: BALANCED mode (default)'' w)) (\<lambda>balanced_change w.
     ubnd (power_test UPOWER_ECO ''ECO'' 4 (say ''Test 3: ECO mode (aggressive sleep)'' w)) (\<lambda>eco_change w.
     ubnd (call (SetPowerMode 999) (say ''Test 4: Testing invalid power mode (should fail)'' w)) (\<lambda>result w.
     let w = uprintf (line (line (if result < 0 then ''Correctly rejected invalid power mode''
               else ''ERROR: Invalid mode was accepted (bug!)''))) [] w
     in exit 0 (powertest_comparison eco_change balanced_change perf_change w)))))"

section \<open>What is printed\<close>

text \<open>The user library's \<^verbatim>\<open>vprintf\<close> knows no flags or field widths: a percent sign followed by a dash is printed as it is.\<close>

lemma vprintf_plain:
  "c \<noteq> 37 \<Longrightarrow> vprintf dg pc False (c # cs) args = emit [c] (vprintf dg pc False cs args)"
  by (subst vprintf.simps) simp

lemma vprintf_dash:
  "vprintf dg pc False (37 # 45 # cs) args = emit [37, 45] (vprintf dg pc False cs args)"
  by (subst vprintf.simps, simp, subst vprintf.simps, simp add: conversion_def Let_def)

lemma vprintf_Nil: "vprintf dg pc False [] args = Some []"
  by (subst vprintf.simps) simp

lemma row_is_literal: "printf_user row_format args = Some (bytes_of row_format)"
  by (simp add: printf_user_def row_format_def line_def bytes_of_def vprintf_plain vprintf_dash vprintf_Nil emit_def)

lemma header_is_literal: "printf_user header_format args = Some (bytes_of header_format)"
  by (simp add: printf_user_def header_format_def line_def bytes_of_def vprintf_plain vprintf_dash vprintf_Nil emit_def)


lemma pauses_answers:
  assumes "answers w = replicate n (Num 0) @ rest"
  shows "\<exists>u. pauses n w = Ret () u \<and> answers u = rest"
  using assms
proof (induction n arbitrary: w)
  case (Suc n)
  then show ?case using Suc.IH[of "(tell (Pause 2) w)\<lparr>answers := replicate n (Num 0) @ rest\<rparr>"]
    by (simp add: call_def ask_Cons)
qed simp

text \<open>The answers of a kernel that accepts the mode and measures the same utilization \<open>u\<close> before and after the workload.\<close>

definition steady_answers :: "int \<Rightarrow> answer list" where
  "steady_answers u = Num 0 # Num u # replicate 20 (Num 0) @ [Num u]"

lemma power_test_steady:
  assumes "answers w = steady_answers u @ rest"
  shows "\<exists>v. power_test mode name adjust w = Ret (i32 (- adjust)) v \<and> answers v = rest"
proof -
  let ?w = "(tell (SetPowerMode mode) w)\<lparr>answers := Num u # replicate 20 (Num 0) @ Num u # rest\<rparr>"
  let ?v = "(tell GetCpuStats (say (''Successfully set power mode to '' @ name) ?w))\<lparr>answers := replicate 20 (Num 0) @ Num u # rest\<rparr>"
  obtain v where v: "pauses 20 (uprintf (line ''Running mixed workload (%d cycles of work + idle)...'') [num 20] ?v) = Ret () v"
      "answers v = Num u # rest"
    using pauses_answers[of "uprintf (line ''Running mixed workload (%d cycles of work + idle)...'') [num 20] ?v" 20 "Num u # rest"] by auto
  show ?thesis
    using assms v
    by (simp add: power_test_def steady_answers_def do_mixed_workload_def call_def num_of_def ask_Cons Let_def print_change_def)
qed



end
