(* ===== verification/StressTests.thy ===== *)
theory StressTests
  imports Coreutils
begin

text \<open>
  Programs that load the kernel: \<^verbatim>\<open>user/forktest.c\<close>, \<^verbatim>\<open>stressfs.c\<close>, \<^verbatim>\<open>logstress.c\<close> and \<^verbatim>\<open>grind.c\<close> with its random number generator.
\<close>

section \<open>forktest\<close>

abbreviation (input) FORK_N :: nat where "FORK_N \<equiv> 1000"

definition print :: "string \<Rightarrow> 'z uworld_scheme \<Rightarrow> 'z uworld_scheme" where
  "print s w = tell (Write 1 (bytes_of s)) w"

text \<open>The first loop, with \<open>k\<close> rounds left; it returns the number of children.\<close>

fun forktest_fork :: "nat \<Rightarrow> nat \<Rightarrow> 'z uworld_scheme \<Rightarrow> (nat, 'z uworld_scheme) ures" where
  "forktest_fork 0 n w = Ret n w"
| "forktest_fork (Suc k) n w =
     ubnd (call Fork w) (\<lambda>pid w.
     if pid < 0 then Ret n w else if pid = 0 then exit 0 w else forktest_fork k (Suc n) w)"

fun forktest_wait :: "nat \<Rightarrow> 'z uworld_scheme \<Rightarrow> (unit, 'z uworld_scheme) ures" where
  "forktest_wait 0 w = Ret () w"
| "forktest_wait (Suc n) w =
     ubnd (wait 0 w) (\<lambda>x w. if fst x < 0 then exit 1 (print (line ''wait stopped early'') w) else forktest_wait n w)"

definition forktest :: "'z uworld_scheme \<Rightarrow> (unit, 'z uworld_scheme) ures" where
  "forktest w =
     ubnd (forktest_fork FORK_N 0 (print (line ''fork test'') w)) (\<lambda>n w.
     if n = FORK_N then exit 1 (print (line ''fork claimed to work N times!'') w)
     else
       ubnd (forktest_wait n w) (\<lambda>_ w.
       ubnd (wait 0 w) (\<lambda>x w.
       if fst x \<noteq> - 1 then exit 1 (print (line ''wait got too many'') w)
       else Ret () (print (line ''fork test OK'') w))))"

definition forktest_main :: "'z uworld_scheme \<Rightarrow> (unit, 'z uworld_scheme) ures" where
  "forktest_main w = ubnd (forktest w) (\<lambda>_ w. exit 0 w)"

section \<open>stressfs\<close>

fun stressfs_fork :: "nat \<Rightarrow> nat \<Rightarrow> 'z uworld_scheme \<Rightarrow> (nat, 'z uworld_scheme) ures" where
  "stressfs_fork 0 i w = Ret i w"
| "stressfs_fork (Suc k) i w = ubnd (call Fork w) (\<lambda>pid w. if pid > 0 then Ret i w else stressfs_fork k (Suc i) w)"

fun urepeat :: "nat \<Rightarrow> ('w \<Rightarrow> ('a, 'w) ures) \<Rightarrow> 'w \<Rightarrow> (unit, 'w) ures" where
  "urepeat 0 f w = Ret () w"
| "urepeat (Suc n) f w = ubnd (f w) (\<lambda>_ w. urepeat n f w)"

definition stressfs_main :: "'z uworld_scheme \<Rightarrow> (unit, 'z uworld_scheme) ures" where
  "stressfs_main w =
     ubnd (stressfs_fork 4 0 (uprintf (line ''stressfs starting'') [] w)) (\<lambda>i w.
     let data = replicate 512 97; path = (bytes_of ''stressfs0'')[8 := 48 + of_nat i] in
     ubnd (call (Open path (O_CREATE OR O_RDWR)) (uprintf (line ''write %d'') [num (int i)] w)) (\<lambda>fd w.
     ubnd (urepeat 20 (call (Write fd data)) w) (\<lambda>_ w.
     ubnd (call (Open path O_RDONLY) (uprintf (line ''read'') [] (tell (Close fd) w))) (\<lambda>fd w.
     ubnd (urepeat 20 (read fd 512) w) (\<lambda>_ w.
     ubnd (wait 0 (tell (Close fd) w)) (\<lambda>_ w. exit 0 w))))))"

section \<open>logstress\<close>

text \<open>
  The buffer has 500 bytes, but 2000 are set and written: the rest lies outside of it (the size of \<^verbatim>\<open>buf\<close> is no part of the model). A child
  reuses \<open>i\<close>, so its own status comes from the loop of writes.
\<close>

abbreviation (input) LOGSTRESS_N :: nat where "LOGSTRESS_N \<equiv> 250"
abbreviation (input) LOGSTRESS_SZ :: nat where "LOGSTRESS_SZ \<equiv> 2000"
abbreviation (input) LOGSTRESS_BUFSZ :: nat where "LOGSTRESS_BUFSZ \<equiv> 500"

fun logstress_write :: "nat \<Rightarrow> int \<Rightarrow> bytes \<Rightarrow> 'z uworld_scheme \<Rightarrow> (unit, 'z uworld_scheme) ures" where
  "logstress_write 0 fd data w = exit 0 w"
| "logstress_write (Suc k) fd data w =
     ubnd (call (Write fd data) w) (\<lambda>n w.
     if n \<noteq> int LOGSTRESS_SZ then exit 1 (uprintf (line ''write failed %d'') [num n] w)
     else logstress_write k fd data w)"

abbreviation (input) logstress_child :: "bytes \<Rightarrow> bytes \<Rightarrow> nat \<Rightarrow> 'z uworld_scheme \<Rightarrow> (unit, 'z uworld_scheme) ures" where
  "logstress_child name a i w \<equiv>
     ubnd (call (Open a (O_CREATE OR O_RDWR)) w) (\<lambda>fd w.
     if fd < 0 then exit 1 (uprintf (line ''%s: create %s failed'') [str name, str a] w)
     else logstress_write LOGSTRESS_N fd (replicate LOGSTRESS_SZ (48 + of_nat i)) w)"

fun logstress_forks :: "bytes \<Rightarrow> nat \<Rightarrow> bytes list \<Rightarrow> 'z uworld_scheme \<Rightarrow> (unit, 'z uworld_scheme) ures" where
  "logstress_forks name i [] w = Ret () w"
| "logstress_forks name i (a # as) w =
     ubnd (call Fork w) (\<lambda>pid w.
     if pid < 0 then exit 1 (uprintf (line ''%s: fork failed'') [str name] w)
     else if pid = 0 then logstress_child name a i w
     else logstress_forks name (Suc i) as w)"

text \<open>\<open>st\<close> is the status variable, which a failing \<^verbatim>\<open>wait\<close> leaves as it is.\<close>

fun logstress_waits :: "int \<Rightarrow> nat \<Rightarrow> 'z uworld_scheme \<Rightarrow> (unit, 'z uworld_scheme) ures" where
  "logstress_waits st 0 w = Ret () w"
| "logstress_waits st (Suc n) w =
     ubnd (wait st w) (\<lambda>x w. if snd x \<noteq> 0 then exit (snd x) w else logstress_waits (snd x) n w)"

definition logstress_main :: "int \<Rightarrow> bytes \<Rightarrow> bytes list \<Rightarrow> 'z uworld_scheme \<Rightarrow> (int, 'z uworld_scheme) ures" where
  "logstress_main st name args w =
     ubnd (logstress_forks name 1 args w) (\<lambda>_ w.
     ubnd (logstress_waits st (length args) w) (\<lambda>_ w. Ret 0 w))"

section \<open>The random numbers of grind\<close>

text \<open>\<^verbatim>\<open>do_rand\<close> on its 64-bit state: the new state, which is also the result.\<close>

definition do_rand :: "u64 \<Rightarrow> u64" where
  "do_rand ctx =
     (let x = sint (ctx mod 0x7ffffffe + 1);
          hi = cdiv x 127773;
          lo = x - hi * 127773;
          x = 16807 * lo - 2836 * hi;
          x = (if x < 0 then x + 0x7fffffff else x)
      in word_of_int (x - 1))"

lemma schrage:
  fixes x :: int
  assumes "1 \<le> x" and "x \<le> 0x7ffffffe"
  defines "y \<equiv> 16807 * (x mod 127773) - 2836 * (x div 127773)"
  shows "(if y < 0 then y + 0x7fffffff else y) = 16807 * x mod 0x7fffffff" and "- (2 ^ 31) \<le> y" and "y < 2 ^ 31"
    and "1 \<le> (if y < 0 then y + 0x7fffffff else y)"
proof -
  have d: "0 \<le> x div 127773" "x div 127773 \<le> 16807" "0 \<le> x mod 127773" "x mod 127773 < 127773"
    using assms(1,2) zdiv_mono1[OF assms(2), of 127773] by (auto simp: pos_imp_zdiv_nonneg_iff)
  have e: "16807 * x = y + 0x7fffffff * (x div 127773)"
    unfolding y_def using div_mult_mod_eq[of x 127773] by linarith
  have r: "- 0x7fffffff < y" "y < 0x7fffffff" using d unfolding y_def by linarith+
  have m: "16807 * x mod 0x7fffffff = y mod 0x7fffffff" by (simp add: e)
  show eq: "(if y < 0 then y + 0x7fffffff else y) = 16807 * x mod 0x7fffffff"
  proof (cases "y < 0")
    case True
    have "(y + 0x7fffffff) mod 0x7fffffff = y + 0x7fffffff" using True r by (intro mod_pos_pos_trivial) auto
    moreover have "(y + 0x7fffffff) mod 0x7fffffff = y mod 0x7fffffff" by simp
    ultimately show ?thesis using True m by simp
  next
    case False
    then show ?thesis using r m by simp
  qed
  show "- (2 ^ 31) \<le> y" "y < 2 ^ 31" using r by simp_all
  have "16807 * x mod 0x7fffffff \<noteq> 0"
  proof
    assume "16807 * x mod 0x7fffffff = 0"
    then have "(0x7fffffff :: int) dvd 16807 * x" by presburger
    moreover have "coprime (0x7fffffff :: int) 16807" by code_simp
    ultimately have "0x7fffffff dvd x" by (simp add: coprime_dvd_mult_right_iff)
    then show False using assms(1,2) zdvd_imp_le by fastforce
  qed
  moreover have "0 \<le> 16807 * x mod 0x7fffffff" by simp
  ultimately show "1 \<le> (if y < 0 then y + 0x7fffffff else y)" using eq by linarith
qed

text \<open>
  \<open>do_rand\<close> is the minimal standard generator of Park and Miller: from any 64-bit state it goes, without ever leaving the 32-bit range on the
  way, to the number below \<open>7^5 * x mod (2^31 - 1)\<close> for the state \<open>x\<close> brought into the range 1 to \<open>2^31 - 2\<close>, and the result
  lies in the range 0 to \<open>2^31 - 3\<close>.
\<close>

lemma do_rand_is_park_miller:
  "uint (do_rand ctx) = 16807 * (uint (ctx mod 0x7ffffffe) + 1) mod (2 ^ 31 - 1) - 1 \<and> uint (do_rand ctx) \<le> 2 ^ 31 - 3"
proof -
  define x where "x = uint (ctx mod 0x7ffffffe) + 1"
  have u: "uint (ctx mod 0x7ffffffe) < 0x7ffffffe" by (simp add: uint_mod)
  have r: "1 \<le> x" "x \<le> 0x7ffffffe" using u by (simp_all add: x_def)
  have "uint (ctx mod 0x7ffffffe + 1) = x" using u by (simp add: x_def uint_word_ariths)
  then have s: "sint (ctx mod 0x7ffffffe + 1) = x" using r by (simp add: sint_uint signed_take_bit_int_eq_self)
  let ?y = "16807 * (x mod 127773) - 2836 * (x div 127773)" and ?k = "16807 * x mod 0x7fffffff - 1"
  have "cdiv x 127773 = x div 127773" "x - x div 127773 * 127773 = x mod 127773"
    using r minus_div_mult_eq_mod[of x 127773] by simp_all
  then have "do_rand ctx = word_of_int ((if ?y < 0 then ?y + 0x7fffffff else ?y) - 1)"
    by (simp add: do_rand_def s Let_def)
  then have d: "do_rand ctx = word_of_int ?k" by (simp only: schrage(1)[OF r])
  have k: "0 \<le> ?k" "?k < 0x7ffffffe" using schrage(1,4)[OF r] by simp_all
  have W: "0 \<le> n \<Longrightarrow> n < 2 ^ 64 \<Longrightarrow> uint (word_of_int n :: u64) = n" for n
    by (simp add: uint_word_of_int_eq take_bit_int_eq_self)
  have "uint (do_rand ctx) = ?k" unfolding d by (rule W[OF k(1)]) (rule less_trans[OF k(2)], simp)
  then show ?thesis using k by (simp add: x_def)
qed

section \<open>grind\<close>

record ugrind = uworld +
  rand_next :: u64

definition rand :: "'z ugrind_scheme \<Rightarrow> int \<times> 'z ugrind_scheme" where
  "rand w = (let x = do_rand (rand_next w) in (sint x, w\<lparr>rand_next := x\<rparr>))"

abbreviation rw :: u32 where "rw \<equiv> O_CREATE OR O_RDWR"

text \<open>\<^verbatim>\<open>close(open(path, O_CREATE|O_RDWR))\<close>\<close>

abbreviation (input) touch :: "string \<Rightarrow> 'z uworld_scheme \<Rightarrow> (unit, 'z uworld_scheme) ures" where
  "touch path w \<equiv> ubnd (call (Open (bytes_of path) rw) w) (\<lambda>fd w. Ret () (tell (Close fd) w))"

text \<open>The locals of \<^verbatim>\<open>go\<close>: the file descriptor and the buffer, with the break at the start.\<close>

abbreviation (input) go_unlink_b :: "'z uworld_scheme \<Rightarrow> (unit, 'z uworld_scheme) ures" where
  "go_unlink_b w \<equiv>
     ubnd (call (Chdir (bytes_of ''grindir'')) w) (\<lambda>r w.
     if r \<noteq> 0 then exit 1 (say ''grind: chdir grindir failed'' w)
     else Ret () (tell (Chdir (bytes_of ''/'')) (tell (Unlink (bytes_of ''../b'')) w)))"

definition go_files :: "int \<Rightarrow> int \<Rightarrow> bytes \<Rightarrow> 'z uworld_scheme \<Rightarrow> (int \<times> bytes, 'z uworld_scheme) ures" where
  "go_files what fd buf w =
     (let keep = (\<lambda>m. ubnd m (\<lambda>_ w. Ret (fd, buf) w)) in
      if what = 1 then keep (touch ''grindir/../a'' w)
      else if what = 2 then keep (touch ''grindir/../grindir/../b'' w)
      else if what = 3 then Ret (fd, buf) (tell (Unlink (bytes_of ''grindir/../a'')) w)
      else if what = 4 then keep (go_unlink_b w)
      else if what = 5 then
        ubnd (call (Open (bytes_of ''/grindir/../a'') rw) (tell (Close fd) w)) (\<lambda>fd w. Ret (fd, buf) w)
      else if what = 6 then
        ubnd (call (Open (bytes_of ''/./grindir/./../b'') rw) (tell (Close fd) w)) (\<lambda>fd w. Ret (fd, buf) w)
      else if what = 7 then ubnd (call (Write fd buf) w) (\<lambda>_ w. Ret (fd, buf) w)
      else if what = 8 then
        ubnd (read fd 999 w) (\<lambda>x w. case x of (n, bs) \<Rightarrow> Ret (fd, bs @ drop (length bs) buf) w)
      else if what = 9 then
        ubnd (touch ''a/../a/./a'' (tell (Mkdir (bytes_of ''grindir/../a'')) w)) (\<lambda>_ w.
        Ret (fd, buf) (tell (Unlink (bytes_of ''a/a'')) w))
      else if what = 10 then
        ubnd (touch ''grindir/../b/b'' (tell (Mkdir (bytes_of ''/../b'')) w)) (\<lambda>_ w.
        Ret (fd, buf) (tell (Unlink (bytes_of ''b/b'')) w))
      else if what = 11 then
        Ret (fd, buf) (tell (Link (bytes_of ''../grindir/./../a'') (bytes_of ''../b'')) (tell (Unlink (bytes_of ''b'')) w))
      else
        Ret (fd, buf) (tell (Link (bytes_of ''.././b'') (bytes_of ''/grindir/../a'')) (tell (Unlink (bytes_of ''../grindir/../a'')) w)))"

text \<open>Fork, with what the child does before it exits and what the parent does before it waits.\<close>

abbreviation (input) go_fork ::
  "('z uworld_scheme \<Rightarrow> (unit, 'z uworld_scheme) ures) \<Rightarrow> (int \<Rightarrow> 'z uworld_scheme \<Rightarrow> (unit, 'z uworld_scheme) ures) \<Rightarrow>
   'z uworld_scheme \<Rightarrow> (unit, 'z uworld_scheme) ures" where
  "go_fork child parent w \<equiv>
     ubnd (call Fork w) (\<lambda>pid w.
     if pid = 0 then ubnd (child w) (\<lambda>_ w. exit 0 w)
     else if pid < 0 then exit 1 (say ''grind: fork failed'' w)
     else ubnd (parent pid w) (\<lambda>_ w. ubnd (wait 0 w) (\<lambda>_ w. Ret () w)))"

definition skip :: "'z uworld_scheme \<Rightarrow> (unit, 'z uworld_scheme) ures" where
  "skip w = Ret () w"

abbreviation (input) go_kill_child :: "int \<Rightarrow> 'z uworld_scheme \<Rightarrow> (unit, 'z uworld_scheme) ures" where
  "go_kill_child pid w \<equiv>
     ubnd (call (Chdir (bytes_of ''../grindir/..'')) w) (\<lambda>r w.
     if r \<noteq> 0 then exit 1 (say ''grind: chdir failed'' w) else Ret () (tell (Kill pid) w))"

abbreviation (input) go_kill_self :: "'z uworld_scheme \<Rightarrow> (unit, 'z uworld_scheme) ures" where
  "go_kill_self w \<equiv> ubnd (call Getpid w) (\<lambda>pid w. Ret () (tell (Kill pid) w))"

abbreviation (input) go_rmdir_child :: "'z uworld_scheme \<Rightarrow> (unit, 'z uworld_scheme) ures" where
  "go_rmdir_child w \<equiv>
     Ret () (fold tell [Unlink (bytes_of ''a''), Mkdir (bytes_of ''a''), Chdir (bytes_of ''a''), Unlink (bytes_of ''../a''),
       Open (bytes_of ''x'') rw, Unlink (bytes_of ''x'')] w)"

abbreviation (input) go_shrink :: "int \<Rightarrow> 'z uworld_scheme \<Rightarrow> (unit, 'z uworld_scheme) ures" where
  "go_shrink break0 w \<equiv>
     ubnd (sbrk 0 w) (\<lambda>a w.
     if a > break0 then ubnd (sbrk 0 w) (\<lambda>a w. ubnd (sbrk (i32 (- (a - break0))) w) (\<lambda>_ w. Ret () w))
     else Ret () w)"

abbreviation (input) go_pipe_child :: "int \<Rightarrow> int \<Rightarrow> 'z uworld_scheme \<Rightarrow> (unit, 'z uworld_scheme) ures" where
  "go_pipe_child fds0 fds1 w \<equiv>
     ubnd (call (Write fds1 (bytes_of ''x'')) (tell Fork (tell Fork w))) (\<lambda>n w.
     ubnd (read fds0 1 (if n \<noteq> 1 then say ''grind: pipe write failed'' w else w)) (\<lambda>x w.
     Ret () (if fst x \<noteq> 1 then say ''grind: pipe read failed'' w else w)))"

definition go_pipe :: "'z uworld_scheme \<Rightarrow> (unit, 'z uworld_scheme) ures" where
  "go_pipe w =
     ubnd (upipe w) (\<lambda>x w. case x of (r, fds0, fds1) \<Rightarrow>
     if r < 0 then exit 1 (say ''grind: pipe failed'' w)
     else go_fork (go_pipe_child fds0 fds1) (\<lambda>_ w. Ret () (tell (Close fds1) (tell (Close fds0) w))) w)"

text \<open>\<open>st0\<close> is the structure that \<^verbatim>\<open>fstat\<close> fills in.\<close>

definition go_create :: "stat \<Rightarrow> 'z uworld_scheme \<Rightarrow> (unit, 'z uworld_scheme) ures" where
  "go_create st0 w =
     ubnd (call (Open (bytes_of ''c'') rw) (tell (Unlink (bytes_of ''c'')) w)) (\<lambda>fd1 w.
     if fd1 < 0 then exit 1 (say ''grind: create c failed'' w)
     else
       ubnd (call (Write fd1 (bytes_of ''x'')) w) (\<lambda>n w.
       if n \<noteq> 1 then exit 1 (say ''grind: write c failed'' w)
       else
         ubnd (fstat fd1 st0 w) (\<lambda>x w. case x of (r, st) \<Rightarrow>
         if r \<noteq> 0 then exit 1 (say ''grind: fstat failed'' w)
         else if st_size st \<noteq> 1 then
           exit 1 (uprintf (line ''grind: fstat reports wrong size %d'') [num (sint (ucast (st_size st) :: u32))] w)
         else if st_ino st > 200 then
           exit 1 (uprintf (line ''grind: fstat reports crazy i-number %d'') [num (uint (st_ino st))] w)
         else Ret () (tell (Unlink (bytes_of ''c'')) (tell (Close fd1) w)))))"

text \<open>\<^verbatim>\<open>echo hi | cat\<close>: the two children and the parent.\<close>

abbreviation (input) go_echo :: "int \<times> int \<Rightarrow> int \<times> int \<Rightarrow> 'z uworld_scheme \<Rightarrow> (unit, 'z uworld_scheme) ures" where
  "go_echo aa bb w \<equiv>
     ubnd (call (Dup (snd aa)) (fold tell [Close (fst bb), Close (snd bb), Close (fst aa), Close 1] w)) (\<lambda>r w.
     if r \<noteq> 1 then exit 1 (say2 ''grind: dup failed'' w)
     else
       ubnd (exec (bytes_of ''grindir/../echo'') [bytes_of ''echo'', bytes_of ''hi''] (tell (Close (snd aa)) w)) (\<lambda>_ w.
       exit 2 (say2 ''grind: echo: not found'' w)))"

abbreviation (input) go_cat :: "int \<times> int \<Rightarrow> int \<times> int \<Rightarrow> 'z uworld_scheme \<Rightarrow> (unit, 'z uworld_scheme) ures" where
  "go_cat aa bb w \<equiv>
     ubnd (call (Dup (fst aa)) (fold tell [Close (snd aa), Close (fst bb), Close 0] w)) (\<lambda>r w.
     if r \<noteq> 0 then exit 4 (say2 ''grind: dup failed'' w)
     else
       ubnd (call (Dup (snd bb)) (tell (Close 1) (tell (Close (fst aa)) w))) (\<lambda>r w.
       if r \<noteq> 1 then exit 5 (say2 ''grind: dup failed'' w)
       else
         ubnd (exec (bytes_of ''/cat'') [bytes_of ''cat''] (tell (Close (snd bb)) w)) (\<lambda>_ w.
         exit 6 (say2 ''grind: cat: not found'' w))))"

abbreviation (input) go_collect :: "int \<Rightarrow> int \<Rightarrow> int \<times> int \<Rightarrow> int \<times> int \<Rightarrow> 'z uworld_scheme \<Rightarrow> (unit, 'z uworld_scheme) ures" where
  "go_collect st1 st2 aa bb w \<equiv>
     (let get = (\<lambda>i buf w. ubnd (read (fst bb) 1 w) (\<lambda>x w. Ret (if snd x = [] then buf else buf[i := hd (snd x)]) w)) in
      ubnd (get 0 [0, 0, 0, 0] (fold tell [Close (fst aa), Close (snd aa), Close (snd bb)] w)) (\<lambda>buf w.
      ubnd (get 1 buf w) (\<lambda>buf w.
      ubnd (get 2 buf w) (\<lambda>buf w.
      ubnd (wait st1 (tell (Close (fst bb)) w)) (\<lambda>x w.
      ubnd (wait st2 w) (\<lambda>y w.
      let got = takeWhile (\<lambda>c. c \<noteq> 0) buf in
      if snd x \<noteq> 0 \<or> snd y \<noteq> 0 \<or> got \<noteq> bytes_of (line ''hi'') then
        exit 1 (uprintf (line ''grind: exec pipeline failed %d %d \"%s\"'') [num (snd x), num (snd y), str got] w)
      else Ret () w))))))"

definition go_pipeline :: "int \<Rightarrow> int \<Rightarrow> 'z uworld_scheme \<Rightarrow> (unit, 'z uworld_scheme) ures" where
  "go_pipeline st1 st2 w =
     ubnd (upipe w) (\<lambda>x w. case x of (r, aa) \<Rightarrow>
     if r < 0 then exit 1 (say2 ''grind: pipe failed'' w)
     else
       ubnd (upipe w) (\<lambda>y w. case y of (r, bb) \<Rightarrow>
       if r < 0 then exit 1 (say2 ''grind: pipe failed'' w)
       else
         ubnd (call Fork w) (\<lambda>pid1 w.
         if pid1 = 0 then go_echo aa bb w
         else if pid1 < 0 then exit 3 (say2 ''grind: fork failed'' w)
         else
           ubnd (call Fork w) (\<lambda>pid2 w.
           if pid2 = 0 then go_cat aa bb w
           else if pid2 < 0 then exit 7 (say2 ''grind: fork failed'' w)
           else go_collect st1 st2 aa bb w))))"

text \<open>One round of the endless loop. The variables that the source leaves undefined are arguments: \<open>st0\<close>, \<open>st1\<close>, \<open>st2\<close>.\<close>

definition go_round ::
  "stat \<Rightarrow> int \<Rightarrow> int \<Rightarrow> bool \<Rightarrow> int \<Rightarrow> int \<times> bytes \<times> u64 \<Rightarrow> 'z ugrind_scheme \<Rightarrow> (int \<times> bytes \<times> u64, 'z ugrind_scheme) ures" where
  "go_round st0 st1 st2 which_child break0 locals w =
     (case locals of (fd, buf, iters) \<Rightarrow>
      let iters = iters + 1;
          w = (if iters mod 500 = 0 then tell (Write 1 (bytes_of (if which_child then ''B'' else ''A''))) w else w);
          (r, w) = rand w; what = r mod 23;
          keep = (\<lambda>m. ubnd m (\<lambda>_ w. Ret (fd, buf, iters) w))
      in if 1 \<le> what \<and> what \<le> 12 then ubnd (go_files what fd buf w) (\<lambda>x w. case x of (fd, buf) \<Rightarrow> Ret (fd, buf, iters) w)
         else if what = 13 then keep (go_fork skip (\<lambda>_. skip) w)
         else if what = 14 then keep (go_fork (\<lambda>w. Ret () (tell Fork (tell Fork w))) (\<lambda>_. skip) w)
         else if what = 15 then ubnd (sbrk 6011 w) (\<lambda>_ w. Ret (fd, buf, iters) w)
         else if what = 16 then keep (go_shrink break0 w)
         else if what = 17 then keep (go_fork (touch ''a'') go_kill_child w)
         else if what = 18 then keep (go_fork go_kill_self (\<lambda>_. skip) w)
         else if what = 19 then keep (go_pipe w)
         else if what = 20 then keep (go_fork go_rmdir_child (\<lambda>_. skip) w)
         else if what = 21 then keep (go_create st0 w)
         else if what = 22 then keep (go_pipeline st1 st2 w)
         else Ret (fd, buf, iters) w)"

fun go_rounds ::
  "nat \<Rightarrow> stat \<Rightarrow> int \<Rightarrow> int \<Rightarrow> bool \<Rightarrow> int \<Rightarrow> int \<times> bytes \<times> u64 \<Rightarrow> 'z ugrind_scheme \<Rightarrow> (int \<times> bytes \<times> u64, 'z ugrind_scheme) ures" where
  "go_rounds 0 st0 st1 st2 c b locals w = Ret locals w"
| "go_rounds (Suc n) st0 st1 st2 c b locals w =
     ubnd (go_round st0 st1 st2 c b locals w) (\<lambda>locals w. go_rounds n st0 st1 st2 c b locals w)"

text \<open>\<^verbatim>\<open>go\<close> up to its \<open>n\<close>-th round.\<close>

definition go :: "nat \<Rightarrow> stat \<Rightarrow> int \<Rightarrow> int \<Rightarrow> bool \<Rightarrow> 'z ugrind_scheme \<Rightarrow> (int \<times> bytes \<times> u64, 'z ugrind_scheme) ures" where
  "go n st0 st1 st2 which_child w =
     ubnd (sbrk 0 w) (\<lambda>break0 w.
     ubnd (call (Chdir (bytes_of ''grindir'')) (tell (Mkdir (bytes_of ''grindir'')) w)) (\<lambda>r w.
     if r \<noteq> 0 then exit 1 (say ''grind: chdir grindir failed'' w)
     else go_rounds n st0 st1 st2 which_child break0 (- 1, replicate 999 0, 0) (tell (Chdir (bytes_of ''/'')) w)))"

definition iter :: "nat \<Rightarrow> stat \<Rightarrow> int \<Rightarrow> int \<Rightarrow> 'z ugrind_scheme \<Rightarrow> (unit, 'z ugrind_scheme) ures" where
  "iter n st0 s1 s2 w =
     ubnd (call Fork (tell (Unlink (bytes_of ''b'')) (tell (Unlink (bytes_of ''a'')) w))) (\<lambda>pid1 w.
     if pid1 < 0 then exit 1 (say ''grind: fork failed'' w)
     else if pid1 = 0 then
       ubnd (go n st0 s1 s2 False (w\<lparr>rand_next := rand_next w XOR 31\<rparr>)) (\<lambda>_ w. exit 0 w)
     else
       ubnd (call Fork w) (\<lambda>pid2 w.
       if pid2 < 0 then exit 1 (say ''grind: fork failed'' w)
       else if pid2 = 0 then
         ubnd (go n st0 s1 s2 True (w\<lparr>rand_next := rand_next w XOR 7177\<rparr>)) (\<lambda>_ w. exit 0 w)
       else
         ubnd (wait (- 1) w) (\<lambda>x w.
         ubnd (wait (- 1) (if snd x \<noteq> 0 then tell (Kill pid2) (tell (Kill pid1) w) else w)) (\<lambda>_ w. exit 0 w))))"

function grind_main :: "nat \<Rightarrow> stat \<Rightarrow> int \<Rightarrow> int \<Rightarrow> 'z ugrind_scheme \<Rightarrow> (unit, 'z ugrind_scheme) ures" where
  "grind_main n st0 s1 s2 w =
     ubnd (call Fork w) (\<lambda>pid w.
     if pid = 0 then iter n st0 s1 s2 w
     else
       ubnd (if pid > 0 then wait 0 w else Ret (0, 0) w) (\<lambda>_ w.
       ubnd (call (Pause 20) w) (\<lambda>_ w.
       grind_main n st0 s1 s2 (w\<lparr>rand_next := rand_next w + 1\<rparr>))))"
  by pat_completeness auto
termination
  by (relation "measure (\<lambda>(n, st0, s1, s2, w). length (answers w))") (auto dest!: call_shrinks split: if_splits)

declare grind_main.simps [simp del]

end
