(* ===== verification/MkfsImage.thy ===== *)
theory MkfsImage
  imports Mkfs
begin

text \<open>
  What the image builder leaves on the disk. The files that have been written are described by a list of \<open>vfile\<close>s, with the numbers of their
  blocks and their contents; the invariant \<open>store_ok\<close> ties the blocks of the image to them, and every operation of \<^verbatim>\<open>mkfs.c\<close> moves from
  one such list to the next.
\<close>

section \<open>Sectors\<close>

lemma xint_id [simp]: "xint x = x"
  using ld32_st32[of "\<lambda>_. 0" 0 x] by (simp add: xint_def st32_def eval_nat_numeral)

lemma xshort_id [simp]: "xshort x = x"
  using ld16_st16[of "\<lambda>_. 0" 0 x] by (simp add: xshort_def st16_def)

lemmas mk_consts = fs_consts NINODES_def nbitmap_def ninodeblocks_def nlog_def nmeta_def nblocks_def FSSIZE_def LOGBLOCKS_def MAXOPBLOCKS_def

lemma sector_of_nat [simp]: "k < FSSIZE \<Longrightarrow> sector (of_nat k) = k"
proof -
  assume k: "k < FSSIZE"
  then have "k * 1024 < 2 ^ 32" by (simp add: FSSIZE_def)
  then have "unat (of_nat (k * 1024) :: u32) = k * 1024" unfolding unat_of_nat by (intro mod_less) simp
  then show ?thesis by (simp add: sector_def BSIZE_def)
qed

text \<open>A host whose file operations succeed, and an image of the full size.\<close>

definition good :: "mkimg \<Rightarrow> bool" where
  "good m \<longleftrightarrow> (\<forall>k. seek_ok m k) \<and> (\<forall>k. io_ok m k) \<and> length (img m) = FSSIZE \<and> msb m = mk_superblock"

lemma rsect_good: "good m \<Longrightarrow> k < FSSIZE \<Longrightarrow> rsect (of_nat k) m = Done (img m ! k) m"
  by (simp add: rsect_def good_def)

lemma wsect_good: "good m \<Longrightarrow> k < FSSIZE \<Longrightarrow> wsect (of_nat k) b m = Done () (m\<lparr>img := (img m)[k := b]\<rparr>)"
  by (simp add: wsect_def good_def)

lemma good_upd [simp]:
  "good (m\<lparr>img := (img m)[k := b]\<rparr>) = good m" "good (m\<lparr>freeblock := x\<rparr>) = good m" "good (m\<lparr>freeinode := y\<rparr>) = good m"
  by (simp_all add: good_def)

section \<open>Files of the image\<close>

record vfile =
  v_type :: u16
  v_blocks :: "nat list"
  v_ind :: "nat option"
  v_bytes :: "byte list"

definition addrs_of :: "vfile \<Rightarrow> u32 list" where
  "addrs_of v = map of_nat (take NDIRECT (v_blocks v)) @ replicate (NDIRECT - length (v_blocks v)) 0 @
     [case v_ind v of None \<Rightarrow> 0 | Some b \<Rightarrow> of_nat b]"

definition used :: "vfile \<Rightarrow> nat list" where
  "used v = v_blocks v @ (case v_ind v of None \<Rightarrow> [] | Some b \<Rightarrow> [b])"

definition data_ok :: "block list \<Rightarrow> vfile \<Rightarrow> bool" where
  "data_ok I v \<longleftrightarrow> length (v_blocks v) \<le> MAXFILE \<and> length (v_bytes v) \<le> length (v_blocks v) * BSIZE \<and>
     (v_ind v = None \<longleftrightarrow> length (v_blocks v) \<le> NDIRECT) \<and>
     (\<forall>b j. v_ind v = Some b \<longrightarrow> j < NINDIRECT \<longrightarrow> ld32 (I ! b) (4 * j) =
        (if NDIRECT + j < length (v_blocks v) then of_nat (v_blocks v ! (NDIRECT + j)) else 0)) \<and>
     (\<forall>k < length (v_blocks v) * BSIZE. (I ! (v_blocks v ! (k div BSIZE))) (k mod BSIZE) = (if k < length (v_bytes v) then v_bytes v ! k else 0))"

text \<open>The blocks from the first data block to \<open>fb\<close> belong to exactly one file each, the rest is blank.\<close>

definition store_ok :: "block list \<Rightarrow> nat \<Rightarrow> vfile list \<Rightarrow> bool" where
  "store_ok I fb V \<longleftrightarrow> length I = FSSIZE \<and> nmeta \<le> fb \<and> fb \<le> FSSIZE \<and> distinct (concat (map used V)) \<and>
     set (concat (map used V)) = {nmeta..<fb} \<and> (\<forall>b. fb \<le> b \<and> b < FSSIZE \<longrightarrow> I ! b = zeroes) \<and> (\<forall>v\<in>set V. data_ok I v)"

lemma data_ok_cong:
  assumes "data_ok I v" and "\<And>b. b \<in> set (used v) \<Longrightarrow> I' ! b = I ! b"
  shows "data_ok I' v"
proof -
  have "I' ! (v_blocks v ! (k div BSIZE)) = I ! (v_blocks v ! (k div BSIZE))" if "k < length (v_blocks v) * BSIZE" for k
    using assms(2)[of "v_blocks v ! (k div BSIZE)"] that by (simp add: used_def less_mult_imp_div_less)
  moreover have "v_ind v = Some b \<Longrightarrow> I' ! b = I ! b" for b using assms(2)[of b] by (simp add: used_def)
  ultimately show ?thesis using assms(1) unfolding data_ok_def by auto
qed

lemma store_ok_change:
  assumes ok: "store_ok I fb (A @ v # B)" and "length I' = length I" and fb: "fb \<le> fb'" "fb' \<le> FSSIZE"
    and u: "distinct (used v')" "set (used v') = set (used v) \<union> {fb..<fb'}"
    and same: "\<And>b. b \<notin> set (used v') \<Longrightarrow> I' ! b = I ! b" and "data_ok I' v'"
  shows "store_ok I' fb' (A @ v' # B)"
proof -
  define R where "R = set (concat (map used (A @ B)))"
  have all: "set (concat (map used (A @ x # B))) = R \<union> set (used x)" for x by (auto simp: R_def)
  have dis: "distinct (concat (map used (A @ x # B))) \<longleftrightarrow> distinct (concat (map used (A @ B))) \<and> distinct (used x) \<and> R \<inter> set (used x) = {}" for x
    by (auto simp: R_def)
  have s: "R \<union> set (used v) = {nmeta..<fb}" "R \<inter> set (used v) = {}" "distinct (concat (map used (A @ B)))" "nmeta \<le> fb"
    using ok unfolding store_ok_def all dis by blast+
  have lt: "x \<in> R \<Longrightarrow> x < fb" for x using s(1) by (metis UnI1 atLeastLessThan_iff)
  have o: "R \<inter> set (used v') = {}" unfolding u(2) using lt s(2) by fastforce
  have "data_ok I' x" if "x \<in> set (A @ B)" for x
  proof (rule data_ok_cong[of I])
    show "data_ok I x" using ok that by (auto simp: store_ok_def)
    have "set (used x) \<subseteq> R" using that by (auto simp: R_def)
    then show "I' ! b = I ! b" if "b \<in> set (used x)" for b using same[of b] o that by blast
  qed
  moreover have "R \<union> set (used v') = {nmeta..<fb'}" unfolding u(2) Un_assoc[symmetric] s(1) using s(4) fb(1) by auto
  moreover have "I' ! b = zeroes" if "fb' \<le> b" "b < FSSIZE" for b
  proof -
    have "b \<notin> R \<union> set (used v')" using that \<open>R \<union> set (used v') = {nmeta..<fb'}\<close> by auto
    then show ?thesis using same[of b] ok that fb(1) by (simp add: store_ok_def)
  qed
  ultimately show ?thesis using ok assms(2,8) fb s(3,4) o u(1) unfolding store_ok_def all dis by simp
qed


section \<open>Block addresses\<close>

lemma unat_of_nat_32: "b < 2 ^ 32 \<Longrightarrow> unat (of_nat b :: u32) = b"
  unfolding unat_of_nat by (intro mod_less) simp

lemma of_nat_block: "0 < b \<Longrightarrow> b < 2 ^ 32 \<Longrightarrow> (of_nat b :: u32) \<noteq> 0"
  using unat_of_nat_32[of b] by (auto simp del: unat_of_nat)

lemma data_okD:
  assumes "data_ok I v"
  shows "length (v_blocks v) \<le> NDIRECT + NINDIRECT" and "length (v_bytes v) \<le> length (v_blocks v) * BSIZE"
    and "v_ind v = None \<longleftrightarrow> length (v_blocks v) \<le> NDIRECT"
    and "\<And>b j. v_ind v = Some b \<Longrightarrow> j < NINDIRECT \<Longrightarrow> ld32 (I ! b) (4 * j) =
        (if NDIRECT + j < length (v_blocks v) then of_nat (v_blocks v ! (NDIRECT + j)) else 0)"
    and "\<And>k. k < length (v_blocks v) * BSIZE \<Longrightarrow> (I ! (v_blocks v ! (k div BSIZE))) (k mod BSIZE) = (if k < length (v_bytes v) then v_bytes v ! k else 0)"
  using assms by (auto simp: data_ok_def MAXFILE_def)

lemma length_addrs_of [simp]: "length (addrs_of v) = NDIRECT + 1"
  by (simp add: addrs_of_def)

lemma addrs_of_direct: "k < NDIRECT \<Longrightarrow> addrs_of v ! k = (if k < length (v_blocks v) then of_nat (v_blocks v ! k) else 0)"
  by (auto simp: addrs_of_def nth_append)

lemma addrs_of_ind [simp]: "addrs_of v ! NDIRECT = (case v_ind v of None \<Rightarrow> 0 | Some b \<Rightarrow> of_nat b)"
  by (auto simp: addrs_of_def nth_append)

lemma addrs_of_eqI:
  assumes "length xs = NDIRECT + 1" and "\<And>k. k < NDIRECT \<Longrightarrow> xs ! k = (if k < length (v_blocks v) then of_nat (v_blocks v ! k) else 0)"
    and "xs ! NDIRECT = (case v_ind v of None \<Rightarrow> 0 | Some b \<Rightarrow> of_nat b)"
  shows "xs = addrs_of v"
proof (rule nth_equalityI)
  fix k assume "k < length xs"
  then have "k < NDIRECT \<or> k = NDIRECT" using assms(1) by auto
  then show "xs ! k = addrs_of v ! k" using assms(2,3) addrs_of_direct by auto
qed (simp add: assms(1))

lemma data_ok_block:
  assumes "store_ok I fb (A @ v # B)" and "b \<in> set (used v)"
  shows "nmeta \<le> b" and "b < FSSIZE" and "(of_nat b :: u32) \<noteq> 0"
proof -
  have "b \<in> {nmeta..<fb}" "fb \<le> FSSIZE" using assms by (auto simp: store_ok_def)
  then show "nmeta \<le> b" "b < FSSIZE" "(of_nat b :: u32) \<noteq> 0" using of_nat_block[of b] by (auto simp: mk_consts)
qed

text \<open>A position that has a block.\<close>

lemma iappend_block_old:
  assumes "good m" and ok: "store_ok (img m) fb (A @ v # B)" and din: "d_addrs din = addrs_of v" and "k < length (v_blocks v)"
  shows "iappend_block k din m = Done (of_nat (v_blocks v ! k), din) m"
proof -
  have d: "data_ok (img m) v" using ok by (auto simp: store_ok_def)
  have nz: "(of_nat (v_blocks v ! k) :: u32) \<noteq> 0" using data_ok_block(3)[OF ok] assms(4) by (simp add: used_def)
  show ?thesis
  proof (cases "k < NDIRECT")
    case True
    then show ?thesis using assms(4) nz by (simp add: iappend_block_def din addrs_of_direct)
  next
    case False
    then obtain b where b: "v_ind v = Some b" using data_okD(3)[OF d] assms(4) by fastforce
    have nb: "b < FSSIZE" "(of_nat b :: u32) \<noteq> 0" using data_ok_block(2,3)[OF ok, of b] b by (auto simp: used_def)
    have "k - NDIRECT < NINDIRECT" using data_okD(1)[OF d] assms(4) False by linarith
    then have "ld32 (img m ! b) (4 * (k - NDIRECT)) = of_nat (v_blocks v ! k)" using data_okD(4)[OF d b, of "k - NDIRECT"] assms(4) False by simp
    then show ?thesis using False b nz nb rsect_good[OF assms(1) nb(1)] by (simp add: iappend_block_def din Let_def)
  qed
qed


text \<open>A position without a block: the next blank block is added to the file.\<close>

lemma data_ok_new:
  assumes d: "data_ok I v" and k: "length (v_blocks v) < MAXFILE" and x: "I' ! x = zeroes" and "\<And>b. b \<in> set (v_blocks v) \<Longrightarrow> I' ! b = I ! b"
    and v': "v' = v\<lparr>v_blocks := v_blocks v @ [x], v_ind := ind\<rparr>" and "ind = None \<longleftrightarrow> length (v_blocks v) < NDIRECT"
    and "\<And>b j. ind = Some b \<Longrightarrow> j < NINDIRECT \<Longrightarrow> ld32 (I' ! b) (4 * j) =
      (if NDIRECT + j \<le> length (v_blocks v) then of_nat ((v_blocks v @ [x]) ! (NDIRECT + j)) else 0)"
  shows "data_ok I' v'"
proof -
  let ?bs = "v_blocks v"
  have "(I' ! ((?bs @ [x]) ! (q div BSIZE))) (q mod BSIZE) = (if q < length (v_bytes v) then v_bytes v ! q else 0)" if "q < Suc (length ?bs) * BSIZE" for q
  proof (cases "q < length ?bs * BSIZE")
    case True
    then have "q div BSIZE < length ?bs" by (rule less_mult_imp_div_less)
    then show ?thesis using data_okD(5)[OF d True] assms(4)[of "?bs ! (q div BSIZE)"] by (simp add: nth_append)
  next
    case False
    then have "length ?bs \<le> q div BSIZE" by (simp add: BSIZE_def)
    moreover have "q div BSIZE < Suc (length ?bs)" using that by (rule less_mult_imp_div_less)
    ultimately have "q div BSIZE = length ?bs" by simp
    then show ?thesis using x data_okD(2)[OF d] False by (simp add: zeroes_def)
  qed
  moreover have "length (v_bytes v) \<le> Suc (length ?bs) * BSIZE" using data_okD(2)[OF d] by simp
  ultimately show ?thesis using k assms(6,7) unfolding data_ok_def v' by (simp add: less_Suc_eq_le Suc_le_eq)
qed

text \<open>How many blocks the file takes from the blank ones when it grows by a block.\<close>

definition takes :: "nat \<Rightarrow> nat" where
  "takes k = (if k = NDIRECT then 2 else 1)"

definition vgrown :: "mkimg \<Rightarrow> vfile list \<Rightarrow> vfile \<Rightarrow> vfile list \<Rightarrow> nat \<Rightarrow> mkimg \<Rightarrow> vfile \<Rightarrow> bool" where
  "vgrown m A v B fb' m' v' \<longleftrightarrow> (\<exists>I'. m' = m\<lparr>img := I', freeblock := of_nat fb'\<rparr> \<and> store_ok I' fb' (A @ v' # B) \<and> (\<forall>b<nmeta. I' ! b = img m ! b)) \<and>
     v_type v' = v_type v"

lemma new_direct:
  assumes "good m" and ok: "store_ok (img m) fb (A @ v # B)" and fb: "freeblock m = of_nat fb" and din: "d_addrs din = addrs_of v"
    and k: "length (v_blocks v) < NDIRECT" and room: "fb < FSSIZE"
  shows "\<exists>m' v'. iappend_block (length (v_blocks v)) din m = Done (of_nat fb, din\<lparr>d_addrs := addrs_of v'\<rparr>) m' \<and> vgrown m A v B (fb + 1) m' v' \<and>
    v_blocks v' = v_blocks v @ [fb] \<and> v_bytes v' = v_bytes v"
proof -
  let ?k = "length (v_blocks v)"
  have d: "data_ok (img m) v" using ok by (auto simp: store_ok_def)
  then have ind: "v_ind v = None" using data_okD(3) k by auto
  define v' where "v' = v\<lparr>v_blocks := v_blocks v @ [fb], v_ind := None\<rparr>"
  have nin: "fb \<notin> set (used v)" "img m ! fb = zeroes" using ok room by (auto simp: store_ok_def)
  have d': "data_ok (img m) v'"
    by (rule data_ok_new[OF d _ _ _ v'_def]) (use k nin(2) in \<open>auto simp: MAXFILE_def\<close>)
  have "store_ok (img m) (fb + 1) (A @ v' # B)"
    by (rule store_ok_change[OF ok]) (use d' nin room ind ok in \<open>auto simp: used_def v'_def store_ok_def\<close>)
  moreover have "(addrs_of v)[?k := of_nat fb] = addrs_of v'"
    by (rule addrs_of_eqI) (use k ind in \<open>auto simp: v'_def addrs_of_direct nth_list_update nth_append\<close>)
  moreover have "iappend_block ?k din m = Done (of_nat fb, din\<lparr>d_addrs := (addrs_of v)[?k := of_nat fb]\<rparr>) (m\<lparr>freeblock := of_nat (fb + 1)\<rparr>)"
    using k fb by (simp add: iappend_block_def din addrs_of_direct Let_def)
  ultimately show ?thesis
    by (intro exI[of _ "m\<lparr>freeblock := of_nat (fb + 1)\<rparr>"] exI[of _ v']) (auto simp: vgrown_def v'_def intro!: exI[of _ "img m"])
qed


lemma ld32_zeroes [simp]: "ld32 zeroes a = 0"
  by (simp add: ld32_def zeroes_def)

lemma new_indirect:
  assumes g: "good m" and ok: "store_ok (img m) fb (A @ v # B)" and fb: "freeblock m = of_nat fb" and din: "d_addrs din = addrs_of v"
    and k: "k = length (v_blocks v)" "NDIRECT \<le> k" "k < MAXFILE" and room: "fb + takes k \<le> FSSIZE"
  shows "\<exists>x m' v'. iappend_block k din m = Done (of_nat x, din\<lparr>d_addrs := addrs_of v'\<rparr>) m' \<and> vgrown m A v B (fb + takes k) m' v' \<and>
    v_blocks v' = v_blocks v @ [x] \<and> v_bytes v' = v_bytes v"
proof -
  define b where "b = (if k = NDIRECT then fb else the (v_ind v))"
  define x where "x = (if k = NDIRECT then fb + 1 else fb)"
  define e where "e = 4 * (k - NDIRECT)"
  define I' where "I' = (img m)[b := st32 (img m ! b) e (of_nat x)]"
  define v' where "v' = v\<lparr>v_blocks := v_blocks v @ [x], v_ind := Some b\<rparr>"
  have d: "data_ok (img m) v" using ok by (auto simp: store_ok_def)
  have ind: "k \<noteq> NDIRECT \<Longrightarrow> v_ind v = Some b" "k = NDIRECT \<Longrightarrow> v_ind v = None" using data_okD(3)[OF d] k by (auto simp: b_def)
  have us: "\<forall>c\<in>set (used v). c < fb" and ds: "distinct (used v)" and fb': "fb < FSSIZE" "0 < fb" and len: "length (img m) = FSSIZE"
    and blank: "\<And>c. fb \<le> c \<Longrightarrow> c < FSSIZE \<Longrightarrow> img m ! c = zeroes"
    using ok room by (auto simp: store_ok_def takes_def nmeta_def split: if_splits)
  have b: "b < FSSIZE" "(of_nat b :: u32) \<noteq> 0" "b \<notin> set (v_blocks v)" "x \<notin> set (used v)" "x \<noteq> b" "x < FSSIZE" "fb \<le> x"
    using data_ok_block(2,3)[OF ok, of b] ind us ds room fb' of_nat_block[of fb]
    by (auto simp: b_def x_def used_def takes_def FSSIZE_def split: if_splits)
  have old: "ld32 (img m ! b) (4 * j) = (if NDIRECT + j < k then of_nat (v_blocks v ! (NDIRECT + j)) else 0)" if "j < NINDIRECT" for j
    using data_okD(4)[OF d ind(1) that] k blank[of fb] fb'(1) by (cases "k = NDIRECT") (auto simp: b_def)
  have kn: "k - NDIRECT < NINDIRECT" using k(2,3) by (simp add: MAXFILE_def)
  have I'b: "I' ! b = st32 (img m ! b) e (of_nat x)" using b(1) len by (simp add: I'_def)
  have new: "ld32 (I' ! b) (4 * j) = (if NDIRECT + j \<le> length (v_blocks v) then of_nat ((v_blocks v @ [x]) ! (NDIRECT + j)) else 0)"
    if "j < NINDIRECT" for j
  proof (cases "j = k - NDIRECT")
    case True
    then show ?thesis using k by (simp add: I'b e_def nth_append)
  next
    case False
    then have "4 * j + 4 \<le> e \<or> e + 4 \<le> 4 * j" by (auto simp: e_def)
    then have "ld32 (I' ! b) (4 * j) = ld32 (img m ! b) (4 * j)" by (simp add: I'b)
    then show ?thesis using old[OF that] False k by (auto simp: nth_append)
  qed
  have d': "data_ok I' v'"
  proof (rule data_ok_new[OF d _ _ _ v'_def])
    show "I' ! x = zeroes" using b(5-7) blank by (simp add: I'_def)
    show "I' ! c = img m ! c" if "c \<in> set (v_blocks v)" for c
    proof -
      have "c \<noteq> b" using that b(3) by auto
      then show ?thesis by (simp add: I'_def)
    qed
  qed (use k new in auto)
  have st: "store_ok I' (fb + takes k) (A @ v' # B)"
  proof (rule store_ok_change[OF ok])
    show "distinct (used v')" using b ds by (auto simp: v'_def used_def)
    show "set (used v') = set (used v) \<union> {fb..<fb + takes k}"
      using ind by (cases "k = NDIRECT") (auto simp: v'_def used_def x_def b_def takes_def)
    show "I' ! c = img m ! c" if "c \<notin> set (used v')" for c using that by (auto simp: I'_def v'_def used_def nth_list_update)
  qed (use d' room in \<open>auto simp: I'_def\<close>)
  have ad: "(addrs_of v)[NDIRECT := of_nat b] = addrs_of v'"
    by (rule addrs_of_eqI) (use k in \<open>auto simp: v'_def addrs_of_direct nth_append\<close>)
  have ad': "k \<noteq> NDIRECT \<Longrightarrow> addrs_of v = addrs_of v'"
    by (rule addrs_of_eqI) (use k ind in \<open>auto simp: v'_def addrs_of_direct nth_append\<close>)
  have z: "ld32 (img m ! b) e = 0" using old[OF kn] k(2) by (simp add: e_def)
  have ib: "v_ind v' = Some b" by (simp add: v'_def)
  have run: "iappend_block k din m = Done (of_nat x, din\<lparr>d_addrs := addrs_of v'\<rparr>) (m\<lparr>img := I', freeblock := of_nat (fb + takes k)\<rparr>)"
  proof (cases "k = NDIRECT")
    case True
    let ?m = "m\<lparr>freeblock := of_nat (fb + 1)\<rparr>"
    have "rsect (of_nat b) ?m = Done (img m ! b) ?m" using rsect_good[of ?m b] g b(1) by simp
    moreover have "wsect (of_nat b) c (?m\<lparr>freeblock := y\<rparr>) = Done () (?m\<lparr>freeblock := y, img := (img m)[b := c]\<rparr>)" for c y
      using wsect_good[of "?m\<lparr>freeblock := y\<rparr>" b c] g b(1) by simp
    ultimately show ?thesis using True ind(2) z ad fb ib
      by (simp add: iappend_block_def din Let_def e_def x_def b_def I'_def takes_def add.commute)
  next
    case False
    have "din\<lparr>d_addrs := addrs_of v'\<rparr> = din" using ad'[OF False] din by simp
    moreover have "wsect (of_nat b) c (m\<lparr>freeblock := y\<rparr>) = Done () (m\<lparr>freeblock := y, img := (img m)[b := c]\<rparr>)" for c y
      using wsect_good[of "m\<lparr>freeblock := y\<rparr>" b c] g b(1) by simp
    ultimately show ?thesis using False ind(1) z b(2) fb k(2) rsect_good[OF g b(1)] ib
      by (simp add: iappend_block_def din Let_def e_def x_def I'_def takes_def add.commute)
  qed
  have low: "\<forall>c<nmeta. I' ! c = img m ! c"
    using data_ok_block(1)[OF ok, of b] ind ok by (auto simp: I'_def b_def used_def nth_list_update store_ok_def split: if_splits)
  show ?thesis
    by (rule exI[of _ x], rule exI[of _ "m\<lparr>img := I', freeblock := of_nat (fb + takes k)\<rparr>"], rule exI[of _ v'])
      (use run st low in \<open>auto simp: vgrown_def v'_def intro!: exI[of _ I']\<close>)
qed


section \<open>Writing into the last block\<close>

lemma div_round: "q = off div BSIZE \<Longrightarrow> q * BSIZE \<le> off \<and> off < (q + 1) * BSIZE"
  by (auto simp: BSIZE_def)

lemma data_ok_write:
  assumes d: "data_ok I v" and u: "distinct (used v)" and off: "off = length (v_bytes v)" "q = off div BSIZE" "q < length (v_blocks v)"
    and n1: "n1 = min (length p) ((q + 1) * BSIZE - off)" and x: "x = v_blocks v ! q" "x < length I"
  shows "data_ok (I[x := store_bytes (I ! x) (off - q * BSIZE) ((!) p) n1]) (v\<lparr>v_bytes := v_bytes v @ take n1 p\<rparr>)"
proof -
  let ?I = "I[x := store_bytes (I ! x) (off - q * BSIZE) ((!) p) n1]" and ?bs = "v_blocks v"
  have o: "q * BSIZE \<le> off" "off < (q + 1) * BSIZE" using div_round[OF off(2)] by auto
  have "off + n1 \<le> (q + 1) * BSIZE" "n1 \<le> length p" using n1 o(2) by auto
  moreover have "(q + 1) * BSIZE \<le> length ?bs * BSIZE" using off(3) by (intro mult_le_mono1) simp
  ultimately have n: "off + n1 \<le> (q + 1) * BSIZE" "off + n1 \<le> length ?bs * BSIZE" "n1 \<le> length p" by auto
  have ind: "v_ind v = Some b \<Longrightarrow> b \<noteq> x" for b using u off(3) x(1) by (auto simp: used_def)
  have "(?I ! (?bs ! (k div BSIZE))) (k mod BSIZE) = (if k < off + n1 then (v_bytes v @ take n1 p) ! k else 0)" if k: "k < length ?bs * BSIZE" for k
  proof (cases "k div BSIZE = q")
    case True
    then have m: "k = q * BSIZE + k mod BSIZE" by (metis div_mult_mod_eq)
    then have "k mod BSIZE + q * BSIZE = k" by simp
    have "(?I ! x) (k mod BSIZE) = (if off \<le> k \<and> k < off + n1 then p ! (k - off) else (I ! x) (k mod BSIZE))"
      using x(2) o(1) m \<open>k mod BSIZE + q * BSIZE = k\<close> by (auto simp: store_bytes_def)
    then show ?thesis using data_okD(5)[OF d k] True x(1) off(1) n(3) by (auto simp: nth_append)
  next
    case False
    have "k div BSIZE < length ?bs" using k by (rule less_mult_imp_div_less)
    then have "?bs ! (k div BSIZE) \<noteq> x" using False u off(3) by (auto simp: x(1) used_def nth_eq_iff_index_eq)
    moreover have "k < q * BSIZE \<or> (q + 1) * BSIZE \<le> k" using False by (auto simp: BSIZE_def)
    then have "k < off \<or> off + n1 \<le> k" using o(1) n(1) by linarith
    ultimately show ?thesis using data_okD(5)[OF d k] off(1) by (auto simp: nth_append)
  qed
  moreover have "?I ! b = I ! b" if "v_ind v = Some b" for b using ind[OF that] by simp
  ultimately show ?thesis using data_okD[OF d] n(2,3) off(1) unfolding data_ok_def by (simp add: MAXFILE_def min_def)
qed


section \<open>Appending\<close>

text \<open>The number of data blocks of a file of \<open>n\<close> bytes, and of all its blocks.\<close>

definition nblk :: "nat \<Rightarrow> nat" where
  "nblk n = (n + BSIZE - 1) div BSIZE"

definition need :: "nat \<Rightarrow> nat" where
  "need n = nblk n + (if NDIRECT < nblk n then 1 else 0)"

lemma nblk_mono: "a \<le> b \<Longrightarrow> nblk a \<le> nblk b"
  by (simp add: nblk_def div_le_mono)

lemma need_mono: "a \<le> b \<Longrightarrow> need a \<le> need b"
  using nblk_mono[of a b] by (auto simp: need_def)

lemma nblk_next:
  assumes "q = off div BSIZE" and "0 < n" and "off + n \<le> (q + 1) * BSIZE"
  shows "nblk (off + n) = q + 1" and "nblk off = q \<or> nblk off = q + 1"
proof -
  have o: "q * BSIZE \<le> off" using div_round[OF assms(1)] by simp
  have "(off + n + BSIZE - 1) div BSIZE = q + 1" by (rule div_nat_eqI) (use o assms in \<open>auto simp: BSIZE_def\<close>)
  then show "nblk (off + n) = q + 1" by (simp add: nblk_def)
  show "nblk off = q \<or> nblk off = q + 1" using assms(1) by (auto simp: nblk_def BSIZE_def)
qed

lemma need_next:
  assumes "q = off div BSIZE" and "0 < n" and "off + n \<le> (q + 1) * BSIZE"
  shows "need (off + n) = need off + (if nblk off = q then takes q else 0)"
  using nblk_next[OF assms] by (auto simp: need_def takes_def)

lemma vgrown_trans: "vgrown m A v B fb m' v' \<Longrightarrow> vgrown m' A v' B fb' m'' v'' \<Longrightarrow> vgrown m A v B fb' m'' v''"
  by (auto simp: vgrown_def)

lemma vgrown_good: "good m \<Longrightarrow> vgrown m A v B fb m' v' \<Longrightarrow> good m' \<and> store_ok (img m') fb (A @ v' # B) \<and> freeblock m' = of_nat fb"
  by (auto simp: vgrown_def good_def store_ok_def)

lemma iappend_block_grows:
  assumes g: "good m" and ok: "store_ok (img m) fb (A @ v # B)" and fb: "freeblock m = of_nat fb" and din: "d_addrs din = addrs_of v"
    and len: "length (v_blocks v) = nblk off" and q: "q = off div BSIZE" "q < MAXFILE" and room: "fb + (if nblk off = q then takes q else 0) \<le> FSSIZE"
  shows "\<exists>x m' v'. iappend_block q din m = Done (of_nat x, din\<lparr>d_addrs := addrs_of v'\<rparr>) m' \<and>
    vgrown m A v B (fb + (if nblk off = q then takes q else 0)) m' v' \<and> length (v_blocks v') = q + 1 \<and> v_blocks v' ! q = x \<and> v_bytes v' = v_bytes v"
proof -
  consider (old) "nblk off = q + 1" | (direct) "nblk off = q" "q < NDIRECT" | (indirect) "nblk off = q" "NDIRECT \<le> q"
    using nblk_next(2)[OF q(1), of "(q + 1) * BSIZE - off"] div_round[OF q(1)] by fastforce
  then show ?thesis
  proof cases
    case old
    then have "iappend_block q din m = Done (of_nat (v_blocks v ! q), din) m" using iappend_block_old[OF g ok din, of q] len by simp
    moreover have "vgrown m A v B fb m v" using ok fb by (auto simp: vgrown_def intro!: exI[of _ "img m"])
    ultimately show ?thesis using old len din by (intro exI[of _ "v_blocks v ! q"] exI[of _ m] exI[of _ v]) simp
  next
    case direct
    then have "fb < FSSIZE" using room by (simp add: takes_def)
    then obtain m' v' where r: "iappend_block q din m = Done (of_nat fb, din\<lparr>d_addrs := addrs_of v'\<rparr>) m'" "vgrown m A v B (fb + 1) m' v'"
      "v_blocks v' = v_blocks v @ [fb]" "v_bytes v' = v_bytes v" using new_direct[OF g ok fb din] direct len by auto
    show ?thesis by (rule exI[of _ fb], rule exI[of _ m'], rule exI[of _ v']) (use r direct len in \<open>simp add: takes_def nth_append\<close>)
  next
    case indirect
    then obtain x m' v' where r: "iappend_block q din m = Done (of_nat x, din\<lparr>d_addrs := addrs_of v'\<rparr>) m'" "vgrown m A v B (fb + takes q) m' v'"
      "v_blocks v' = v_blocks v @ [x]" "v_bytes v' = v_bytes v" using new_indirect[OF g ok fb din, of q] q(2) room len by auto
    show ?thesis by (rule exI[of _ x], rule exI[of _ m'], rule exI[of _ v']) (use r indirect len in \<open>simp add: nth_append\<close>)
  qed
qed


text \<open>One round of the loop, and the loop.\<close>

lemma iappend_round:
  assumes g: "good m" and ok: "store_ok (img m) fb (A @ v # B)" and fb: "freeblock m = of_nat fb" and din: "d_addrs din = addrs_of v"
    and off: "off = length (v_bytes v)" and len: "length (v_blocks v) = nblk off" and q: "q = off div BSIZE" "q < MAXFILE"
    and n1: "n1 = min (length p) ((q + 1) * BSIZE - off)" and p: "p \<noteq> []" and room: "fb + need (off + n1) \<le> FSSIZE + need off"
  shows "\<exists>fb' m' v'. iappend_loop p off din m = iappend_loop (drop n1 p) (off + n1) (din\<lparr>d_addrs := addrs_of v'\<rparr>) m' \<and> vgrown m A v B fb' m' v' \<and>
    v_bytes v' = v_bytes v @ take n1 p \<and> length (v_blocks v') = nblk (off + n1) \<and> fb' + need off = fb + need (off + n1)"
proof -
  let ?fb = "fb + (if nblk off = q then takes q else 0)"
  have n: "0 < n1" "off + n1 \<le> (q + 1) * BSIZE" using div_round[OF q(1)] n1 p by auto
  note nx = need_next[OF q(1) n]
  have room': "?fb \<le> FSSIZE" using room nx by simp
  obtain x m1 v1 where b: "iappend_block q din m = Done (of_nat x, din\<lparr>d_addrs := addrs_of v1\<rparr>) m1" and gr: "vgrown m A v B ?fb m1 v1"
    and v1: "length (v_blocks v1) = q + 1" "v_blocks v1 ! q = x" "v_bytes v1 = v_bytes v"
    using iappend_block_grows[OF g ok fb din len q room'] by blast
  have g1: "good m1" and ok1: "store_ok (img m1) ?fb (A @ v1 # B)" and fb1: "freeblock m1 = of_nat ?fb" using vgrown_good[OF g gr] by auto
  have x: "x \<in> set (used v1)" using v1 by (auto simp: used_def intro!: nth_mem[of q "v_blocks v1", simplified v1])
  have xl: "x < FSSIZE" "nmeta \<le> x" using data_ok_block(1,2)[OF ok1 x] by auto
  define v' where "v' = v1\<lparr>v_bytes := v_bytes v1 @ take n1 p\<rparr>"
  define I' where "I' = (img m1)[x := store_bytes (img m1 ! x) (off - q * BSIZE) ((!) p) n1]"
  have d: "data_ok (img m1) v1" "distinct (used v1)" and l1: "length (img m1) = FSSIZE" using ok1 by (auto simp: store_ok_def)
  have d': "data_ok I' v'" unfolding I'_def v'_def
    by (rule data_ok_write[OF d]) (use v1 off q n1 xl l1 in auto)
  have u: "used v' = used v1" "addrs_of v' = addrs_of v1" by (simp_all add: v'_def used_def addrs_of_def)
  have same: "I' ! b = img m1 ! b" if "b \<notin> set (used v')" for b
  proof -
    have "b \<noteq> x" using that x u(1) by auto
    then show ?thesis by (simp add: I'_def)
  qed
  have "store_ok I' ?fb (A @ v' # B)"
    by (rule store_ok_change[OF ok1 _ _ _ _ _ same]) (use d d' u(1) room' in \<open>auto simp: I'_def\<close>)
  then have gr': "vgrown m1 A v1 B ?fb (m1\<lparr>img := I'\<rparr>) v'" using xl(2) fb1 by (auto simp: vgrown_def v'_def I'_def intro!: exI[of _ I'])
  have run: "iappend_loop p off din m = iappend_loop (drop n1 p) (off + n1) (din\<lparr>d_addrs := addrs_of v'\<rparr>) (m1\<lparr>img := I'\<rparr>)"
    using p q n1 b rsect_good[OF g1 xl(1)] wsect_good[OF g1 xl(1)] by (simp add: iappend_loop.simps[of p off] Let_def I'_def u)
  show ?thesis
    by (rule exI[of _ ?fb], rule exI[of _ "m1\<lparr>img := I'\<rparr>"], rule exI[of _ v'])
      (use run vgrown_trans[OF gr gr'] v1 nblk_next(1)[OF q(1) n] nx in \<open>auto simp: v'_def\<close>)
qed

lemma iappend_loop_ok:
  assumes "good m" and "store_ok (img m) fb (A @ v # B)" and "freeblock m = of_nat fb" and "d_addrs din = addrs_of v"
    and "off = length (v_bytes v)" and "length (v_blocks v) = nblk off" and "off + length p \<le> MAXFILE * BSIZE"
    and "fb + need (off + length p) \<le> FSSIZE + need off"
  shows "\<exists>fb' m' v'. iappend_loop p off din m = Done (off + length p, din\<lparr>d_addrs := addrs_of v'\<rparr>) m' \<and> vgrown m A v B fb' m' v' \<and>
    v_bytes v' = v_bytes v @ p \<and> length (v_blocks v') = nblk (off + length p) \<and> fb' + need off = fb + need (off + length p)"
  using assms
proof (induction "length p" arbitrary: p off din m v fb rule: less_induct)
  case less
  show ?case
  proof (cases "p = []")
    case True
    then show ?thesis using less.prems
      by (intro exI[of _ fb] exI[of _ m] exI[of _ v]) (auto simp: iappend_loop.simps[of "[]"] vgrown_def intro!: exI[of _ "img m"])
  next
    case False
    define q where "q = off div BSIZE"
    define n1 where "n1 = min (length p) ((q + 1) * BSIZE - off)"
    have n: "0 < n1" "n1 \<le> length p" "off + n1 + length (drop n1 p) = off + length p" using div_round[OF q_def] False by (auto simp: n1_def)
    have "off < MAXFILE * BSIZE" using less.prems(7) False by (cases p) auto
    then have q: "q < MAXFILE" unfolding q_def by (rule less_mult_imp_div_less)
    have r: "fb + need (off + n1) \<le> FSSIZE + need off" using less.prems(8) need_mono[of "off + n1" "off + length p"] n(2) by simp
    obtain fb1 m1 v1 where 1: "iappend_loop p off din m = iappend_loop (drop n1 p) (off + n1) (din\<lparr>d_addrs := addrs_of v1\<rparr>) m1"
      "vgrown m A v B fb1 m1 v1" "v_bytes v1 = v_bytes v @ take n1 p" "length (v_blocks v1) = nblk (off + n1)" "fb1 + need off = fb + need (off + n1)"
      using iappend_round[OF less.prems(1-6) q_def q n1_def False r] by blast
    have g1: "good m1" "store_ok (img m1) fb1 (A @ v1 # B)" "freeblock m1 = of_nat fb1" using vgrown_good[OF less.prems(1) 1(2)] by auto
    obtain fb' m' v' where 2: "iappend_loop (drop n1 p) (off + n1) (din\<lparr>d_addrs := addrs_of v1\<rparr>) m1 =
        Done (off + n1 + length (drop n1 p), (din\<lparr>d_addrs := addrs_of v1\<rparr>)\<lparr>d_addrs := addrs_of v'\<rparr>) m'" "vgrown m1 A v1 B fb' m' v'"
      "v_bytes v' = v_bytes v1 @ drop n1 p" "length (v_blocks v') = nblk (off + n1 + length (drop n1 p))"
      "fb' + need (off + n1) = fb1 + need (off + n1 + length (drop n1 p))"
      using less.hyps[of "drop n1 p" m1 fb1 v1 "din\<lparr>d_addrs := addrs_of v1\<rparr>" "off + n1"] g1 1(3,4,5) n less.prems(5,7,8) by auto
    show ?thesis
      by (rule exI[of _ fb'], rule exI[of _ m'], rule exI[of _ v'])
        (use 1 2 n(3) vgrown_trans[OF 1(2) 2(2)] in \<open>auto simp del: length_drop\<close>)
  qed
qed


section \<open>Inodes\<close>

definition iblk :: "nat \<Rightarrow> nat" where
  "iblk j = 2 + nlog + j div IPB"

definition inode_at :: "block list \<Rightarrow> nat \<Rightarrow> dinode" where
  "inode_at I j = get_dinode (I ! iblk j) (dinode_off (of_nat j))"

definition dinode_of :: "vfile \<Rightarrow> dinode" where
  "dinode_of v = \<lparr>d_type = v_type v, d_major = 0, d_minor = 0, d_nlink = 1, d_size = of_nat (length (v_bytes v)), d_addrs = addrs_of v\<rparr>"

lemma dinode_of_addrs: "d_addrs (dinode_of v) = addrs_of v"
  by (simp add: dinode_of_def)

lemma iblk_range: "j < NINODES \<Longrightarrow> 2 + nlog \<le> iblk j \<and> iblk j < 2 + nlog + ninodeblocks \<and> iblk j < nmeta \<and> iblk j < FSSIZE"
  by (auto simp: iblk_def mk_consts)

lemma IBLOCK_iblk: "j < NINODES \<Longrightarrow> IBLOCK (of_nat j) mk_superblock = of_nat (iblk j)"
proof -
  assume "j < NINODES"
  then have "unat (of_nat j :: u32) = j" "unat (of_nat (j div 16) :: u32) = j div 16" by (intro unat_of_nat_32; simp add: NINODES_def)+
  then have "(of_nat j :: u32) div 16 = of_nat (j div 16)" unfolding word_unat_eq_iff unat_div_distrib by simp
  then show ?thesis by (simp add: IBLOCK_def mk_superblock_def iblk_def mk_consts)
qed

lemma dinode_off_nat: "j < NINODES \<Longrightarrow> dinode_off (of_nat j) = (j mod 16) * 64"
proof -
  assume "j < NINODES"
  then have "unat (of_nat j :: u32) = j" by (intro unat_of_nat_32) (simp add: NINODES_def)
  then show ?thesis by (simp add: dinode_off_def fs_consts unat_mod_distrib)
qed

lemma inode_slot: "j < NINODES \<Longrightarrow> k < NINODES \<Longrightarrow> iblk j = iblk k \<Longrightarrow> dinode_off (of_nat j) = dinode_off (of_nat k) \<Longrightarrow> j = k"
  by (simp add: dinode_off_nat iblk_def fs_consts) (metis div_mult_mod_eq)

lemma rinode_good: "good m \<Longrightarrow> j < NINODES \<Longrightarrow> rinode (of_nat j) m = Done (inode_at (img m) j) m"
  using rsect_good[of m "iblk j"] iblk_range[of j] by (simp add: rinode_def IBLOCK_iblk inode_at_def good_def)

definition set_inode :: "block list \<Rightarrow> nat \<Rightarrow> dinode \<Rightarrow> block list" where
  "set_inode I j d = I[iblk j := put_dinode (I ! iblk j) (dinode_off (of_nat j)) d]"

lemma winode_good: "good m \<Longrightarrow> j < NINODES \<Longrightarrow> winode (of_nat j) d m = Done () (m\<lparr>img := set_inode (img m) j d\<rparr>)"
  using rsect_good[of m "iblk j"] wsect_good[of m "iblk j"] iblk_range[of j] by (simp add: winode_def IBLOCK_iblk set_inode_def good_def Let_def)

lemma inode_at_set:
  assumes "j < NINODES" and "k < NINODES" and "length I = FSSIZE" and "length (d_addrs d) = NDIRECT + 1"
  shows "inode_at (set_inode I j d) k = (if k = j then d else inode_at I k)"
proof (cases "iblk k = iblk j")
  case True
  have e: "set_inode I j d ! iblk j = put_dinode (I ! iblk j) (dinode_off (of_nat j)) d"
    using iblk_range[OF assms(1)] assms(3) by (simp add: set_inode_def)
  show ?thesis
  proof (cases "k = j")
    case False
    then have "dinode_off (of_nat j) \<noteq> dinode_off (of_nat k)" using inode_slot[OF assms(2,1) True] by auto
    then show ?thesis using False True get_put_dinode_other[OF assms(4) dinode_off_disjoint] by (simp add: inode_at_def e)
  qed (use get_put_dinode[OF assms(4)] e in \<open>simp add: inode_at_def\<close>)
next
  case False
  then show ?thesis by (auto simp: inode_at_def set_inode_def)
qed

lemma set_inode_other: "k \<noteq> iblk j \<Longrightarrow> set_inode I j d ! k = I ! k"
  by (simp add: set_inode_def)

lemma length_set_inode [simp]: "length (set_inode I j d) = length I"
  by (simp add: set_inode_def)


section \<open>The image as a list of files\<close>

definition image_ok :: "mkimg \<Rightarrow> vfile list \<Rightarrow> bool" where
  "image_ok m V \<longleftrightarrow> good m \<and> length V < NINODES \<and> freeinode m = of_nat (length V + 1) \<and> (\<exists>fb. freeblock m = of_nat fb \<and> store_ok (img m) fb V) \<and>
     (\<forall>j < length V. inode_at (img m) (j + 1) = dinode_of (V ! j)) \<and> (\<forall>v\<in>set V. length (v_blocks v) = nblk (length (v_bytes v))) \<and>
     img m ! 1 = put_superblock zeroes mk_superblock \<and> (\<forall>k. k = 0 \<or> 2 \<le> k \<and> k < 2 + nlog \<longrightarrow> img m ! k = zeroes)"

definition blocks_needed :: "(u16 \<times> byte list) list \<Rightarrow> nat" where
  "blocks_needed fs = (\<Sum>f\<leftarrow>fs. need (length (snd f)))"

text \<open>The inodes 1, 2, \<dots> of the image are the files \<open>fs\<close>, each given by its type and its bytes.\<close>

definition view :: "vfile list \<Rightarrow> (u16 \<times> byte list) list" where
  "view V = map (\<lambda>v. (v_type v, v_bytes v)) V"

definition holds :: "mkimg \<Rightarrow> (u16 \<times> byte list) list \<Rightarrow> bool" where
  "holds m fs \<longleftrightarrow> (\<exists>V. image_ok m V \<and> view V = fs)"

definition fits :: "(u16 \<times> byte list) list \<Rightarrow> bool" where
  "fits fs \<longleftrightarrow> nmeta + blocks_needed fs \<le> FSSIZE \<and> (\<forall>f\<in>set fs. length (snd f) \<le> MAXFILE * BSIZE)"

lemma store_count:
  assumes "store_ok I fb V" and "\<forall>v\<in>set V. length (v_blocks v) = nblk (length (v_bytes v))"
  shows "fb = nmeta + blocks_needed (view V)"
proof -
  have "length (used v) = need (length (v_bytes v))" if "v \<in> set V" for v
  proof -
    have "data_ok I v" using assms(1) that by (simp add: store_ok_def)
    then show ?thesis using data_okD(3)[of I v] assms(2) that by (auto simp: used_def need_def split: option.splits)
  qed
  then have "length (concat (map used V)) = blocks_needed (view V)" by (simp add: length_concat blocks_needed_def view_def comp_def cong: map_cong)
  moreover have "length (concat (map used V)) = card {nmeta..<fb}" using assms(1) by (metis distinct_card store_ok_def)
  moreover have "nmeta \<le> fb" using assms(1) by (simp add: store_ok_def)
  ultimately show ?thesis by simp
qed

lemma store_ok_meta:
  assumes "store_ok I fb V" and "length I' = length I" and "\<And>b. nmeta \<le> b \<Longrightarrow> I' ! b = I ! b"
  shows "store_ok I' fb V"
proof -
  have "data_ok I' v" if v: "v \<in> set V" for v
  proof (rule data_ok_cong)
    show "data_ok I v" using assms(1) v by (simp add: store_ok_def)
    show "I' ! b = I ! b" if "b \<in> set (used v)" for b
    proof -
      have "b \<in> set (concat (map used V))" using that v by auto
      then have "b \<in> {nmeta..<fb}" using assms(1) unfolding store_ok_def by blast
      then have "nmeta \<le> b" by simp
      then show ?thesis by (rule assms(3))
    qed
  qed
  then show ?thesis using assms by (auto simp: store_ok_def)
qed

text \<open>Writing an inode.\<close>

lemma image_ok_inode:
  assumes g: "good m" and "length (A @ v # B) < NINODES" and "freeinode m = of_nat (length (A @ v # B) + 1)"
    and "freeblock m = of_nat fb" "store_ok (img m) fb (A @ v # B)"
    and at: "\<And>j. j < length (A @ v # B) \<Longrightarrow> j \<noteq> length A \<Longrightarrow> inode_at (img m) (j + 1) = dinode_of ((A @ v # B) ! j)"
    and "\<forall>v\<in>set (A @ v # B). length (v_blocks v) = nblk (length (v_bytes v))"
    and low: "img m ! 1 = put_superblock zeroes mk_superblock" "\<forall>k. k = 0 \<or> 2 \<le> k \<and> k < 2 + nlog \<longrightarrow> img m ! k = zeroes"
  shows "image_ok (m\<lparr>img := set_inode (img m) (length A + 1) (dinode_of v)\<rparr>) (A @ v # B)"
proof -
  let ?I = "set_inode (img m) (length A + 1) (dinode_of v)"
  have i: "length A + 1 < NINODES" using assms(2) by simp
  note r = iblk_range[OF i]
  have len: "length (img m) = FSSIZE" "length (d_addrs (dinode_of v)) = NDIRECT + 1" using g by (auto simp: good_def dinode_of_def)
  have "store_ok ?I fb (A @ v # B)"
    by (rule store_ok_meta[OF assms(5)]) (use r in \<open>auto simp: set_inode_other\<close>)
  moreover have "inode_at ?I (j + 1) = dinode_of ((A @ v # B) ! j)" if "j < length (A @ v # B)" for j
    using inode_at_set[OF i _ len, of "j + 1"] at[OF that] that assms(2) by (auto simp: nth_append)
  moreover have "?I ! 1 = img m ! 1" "\<forall>k. k = 0 \<or> 2 \<le> k \<and> k < 2 + nlog \<longrightarrow> ?I ! k = img m ! k"
    using r by (auto simp: set_inode_other)
  ultimately show ?thesis using assms unfolding image_ok_def good_def by auto
qed


lemma inode_at_low: "j < NINODES \<Longrightarrow> \<forall>b<nmeta. I' ! b = I ! b \<Longrightarrow> inode_at I' j = inode_at I j"
  using iblk_range[of j] by (simp add: inode_at_def)

lemma blocks_needed_upd: "blocks_needed (xs @ f # ys) = need (length (snd f)) + blocks_needed (xs @ ys)"
  by (simp add: blocks_needed_def)

lemma iappend_vfile:
  assumes ok: "image_ok m (A @ v # B)" and "length (v_bytes v @ p) \<le> MAXFILE * BSIZE"
    and "nmeta + blocks_needed (view A @ (v_type v, v_bytes v @ p) # view B) \<le> FSSIZE"
  shows "\<exists>m' v'. iappend (of_nat (length A + 1)) p m = Done () m' \<and> image_ok m' (A @ v' # B) \<and> v_bytes v' = v_bytes v @ p \<and> v_type v' = v_type v"
proof -
  let ?i = "length A + 1" and ?off = "length (v_bytes v)"
  obtain fb where g: "good m" and fb: "freeblock m = of_nat fb" and st: "store_ok (img m) fb (A @ v # B)" using ok by (auto simp: image_ok_def)
  have i: "?i < NINODES" and len: "length (v_blocks v) = nblk ?off" and at: "inode_at (img m) ?i = dinode_of v"
    and others: "\<And>j. j < length (A @ v # B) \<Longrightarrow> inode_at (img m) (j + 1) = dinode_of ((A @ v # B) ! j)"
    using ok by (auto simp: image_ok_def nth_append split: if_splits)
  have o32: "unat (of_nat ?off :: u32) = ?off" using assms(2) by (intro unat_of_nat_32) (simp add: fs_consts)
  have "fb = nmeta + blocks_needed (view (A @ v # B))" using store_count[OF st] ok by (auto simp: image_ok_def)
  then have room: "fb + need (?off + length p) \<le> FSSIZE + need ?off"
    using assms(3) by (simp add: view_def blocks_needed_upd)
  obtain fb' m1 v' where l: "iappend_loop p ?off (dinode_of v) m = Done (?off + length p, (dinode_of v)\<lparr>d_addrs := addrs_of v'\<rparr>) m1"
    and gr: "vgrown m A v B fb' m1 v'" and v': "v_bytes v' = v_bytes v @ p" "length (v_blocks v') = nblk (?off + length p)"
    using iappend_loop_ok[OF g st fb _ refl len _ room, of "dinode_of v"] assms(2) by (auto simp: dinode_of_def)
  have g1: "good m1" "store_ok (img m1) fb' (A @ v' # B)" "freeblock m1 = of_nat fb'" using vgrown_good[OF g gr] by auto
  obtain I' where m1: "m1 = m\<lparr>img := I', freeblock := of_nat fb'\<rparr>" and low: "\<forall>b<nmeta. I' ! b = img m ! b" and ty: "v_type v' = v_type v"
    using gr by (auto simp: vgrown_def)
  have "iappend (of_nat ?i) p m = winode (of_nat ?i) (dinode_of v') m1"
    using rinode_good[OF g i] at l o32 v'(1) ty by (simp add: iappend_def dinode_of_def)
  also have "\<dots> = Done () (m1\<lparr>img := set_inode (img m1) ?i (dinode_of v')\<rparr>)" by (rule winode_good[OF g1(1) i])
  finally have run: "iappend (of_nat ?i) p m = Done () (m1\<lparr>img := set_inode (img m1) ?i (dinode_of v')\<rparr>)" .
  have lens: "length (A @ v' # B) < NINODES" using ok by (simp add: image_ok_def)
  have "image_ok (m1\<lparr>img := set_inode (img m1) ?i (dinode_of v')\<rparr>) (A @ v' # B)"
  proof (rule image_ok_inode[OF g1(1) lens _ g1(3,2)])
    show "inode_at (img m1) (j + 1) = dinode_of ((A @ v' # B) ! j)" if "j < length (A @ v' # B)" "j \<noteq> length A" for j
      using inode_at_low[of "j + 1", OF _ low] others[of j] that lens by (auto simp: m1 nth_append nth_Cons')
    show "\<forall>u\<in>set (A @ v' # B). length (v_blocks u) = nblk (length (v_bytes u))" using ok v' by (auto simp: image_ok_def)
    show "img m1 ! 1 = put_superblock zeroes mk_superblock" "\<forall>k. k = 0 \<or> 2 \<le> k \<and> k < 2 + nlog \<longrightarrow> img m1 ! k = zeroes"
      using ok low by (auto simp: image_ok_def m1 nmeta_def)
  qed (use ok in \<open>simp add: image_ok_def m1\<close>)
  then show ?thesis using run v'(1) ty by blast
qed

lemma holds_append:
  assumes "holds m fs" and i: "i < length fs" and fs': "fs' = fs[i := (fst (fs ! i), snd (fs ! i) @ p)]" and "fits fs'"
  shows "\<exists>m'. iappend (of_nat (i + 1)) p m = Done () m' \<and> holds m' fs'"
proof -
  obtain V where V: "image_ok m V" "view V = fs" using assms(1) by (auto simp: holds_def)
  define A v B where "A = take i V" and "v = V ! i" and "B = drop (Suc i) V"
  have len: "i < length V" using V(2) i by (auto simp: view_def)
  have VA: "V = A @ v # B" and la: "length A = i" using id_take_nth_drop[OF len] len by (auto simp: A_def v_def B_def)
  have f: "fs = view A @ (v_type v, v_bytes v) # view B" using V(2) by (simp add: VA view_def)
  have la': "length (view A) = i" using la by (simp add: view_def)
  have f': "fs' = view A @ (v_type v, v_bytes v @ p) # view B" by (simp add: fs' f la'[symmetric] nth_append)
  have "length (v_bytes v @ p) \<le> MAXFILE * BSIZE" "nmeta + blocks_needed (view A @ (v_type v, v_bytes v @ p) # view B) \<le> FSSIZE"
    using assms(4) unfolding fits_def f' by auto
  then obtain m' v' where "iappend (of_nat (i + 1)) p m = Done () m'" "image_ok m' (A @ v' # B)" "v_bytes v' = v_bytes v @ p" "v_type v' = v_type v"
    using iappend_vfile[of m A v B p] V(1) unfolding VA la by blast
  moreover have "view (A @ v' # B) = fs'" using calculation(3,4) by (simp add: f' view_def)
  ultimately show ?thesis by (auto simp: holds_def)
qed


lemma holds_ialloc:
  assumes "holds m fs" and "length fs + 1 < NINODES"
  shows "\<exists>m'. mk_ialloc ty m = Done (of_nat (length fs + 1)) m' \<and> holds m' (fs @ [(ty, [])])"
proof -
  obtain V where V: "image_ok m V" "view V = fs" using assms(1) by (auto simp: holds_def)
  define v where "v = \<lparr>v_type = ty, v_blocks = [], v_ind = None, v_bytes = []\<rparr>"
  have len: "length fs = length V" using V(2) by (auto simp: view_def)
  obtain fb where g: "good m" and fb: "freeblock m = of_nat fb" and st: "store_ok (img m) fb V" using V(1) by (auto simp: image_ok_def)
  let ?i = "length V + 1" and ?m = "m\<lparr>freeinode := freeinode m + 1\<rparr>"
  have i: "?i < NINODES" and fi: "freeinode m = of_nat ?i" using assms(2) V(1) by (auto simp: image_ok_def len)
  have g': "good ?m" using g by simp
  have "data_ok (img m) v" by (simp add: data_ok_def v_def)
  then have st': "store_ok (img ?m) fb (V @ [v])" using st by (simp add: store_ok_def used_def v_def)
  have lens: "length (V @ [v]) < NINODES" using i by simp
  have "addrs_of v = replicate (NDIRECT + 1) 0" by (simp add: addrs_of_def v_def replicate_append_same)
  then have "mk_ialloc ty m = Done (of_nat ?i) (?m\<lparr>img := set_inode (img ?m) ?i (dinode_of v)\<rparr>)"
    using winode_good[OF g' i] fi by (simp add: mk_ialloc_def Let_def dinode_of_def v_def)
  moreover have "image_ok (?m\<lparr>img := set_inode (img ?m) ?i (dinode_of v)\<rparr>) (V @ [v])"
    by (rule image_ok_inode[OF g' lens _ _ st']) (use V(1) fb in \<open>auto simp: image_ok_def nth_append nblk_def v_def BSIZE_def add.commute\<close>)
  ultimately show ?thesis using V(2) len unfolding holds_def
    by (intro exI[of _ "?m\<lparr>img := set_inode (img ?m) ?i (dinode_of v)\<rparr>"] conjI exI[of _ "V @ [v]"]) (auto simp: view_def v_def)
qed

text \<open>What fits, fits with fewer or shorter files.\<close>

lemma blocks_needed_le:
  assumes "length fs \<le> length gs" and "\<And>i. i < length fs \<Longrightarrow> length (snd (fs ! i)) \<le> length (snd (gs ! i))"
  shows "blocks_needed fs \<le> blocks_needed gs"
  using assms
proof (induction fs arbitrary: gs)
  case (Cons f fs)
  then obtain g gs' where g: "gs = g # gs'" by (cases gs) auto
  have "blocks_needed fs \<le> blocks_needed gs'" using Cons.IH[of gs'] Cons.prems(1) Cons.prems(2)[of "Suc _"] g by auto
  moreover have "need (length (snd f)) \<le> need (length (snd g))" using Cons.prems(2)[of 0] g by (intro need_mono) simp
  ultimately show ?case using g by (simp add: blocks_needed_def)
qed (simp add: blocks_needed_def)

lemma fits_le:
  assumes "fits gs" and "length fs \<le> length gs" and "\<And>i. i < length fs \<Longrightarrow> length (snd (fs ! i)) \<le> length (snd (gs ! i))"
  shows "fits fs"
  unfolding fits_def
proof
  show "nmeta + blocks_needed fs \<le> FSSIZE" using blocks_needed_le[OF assms(2,3)] assms(1) by (simp add: fits_def)
  show "\<forall>f\<in>set fs. length (snd f) \<le> MAXFILE * BSIZE"
  proof
    fix f
    assume "f \<in> set fs"
    then obtain i where i: "i < length fs" "f = fs ! i" by (auto simp: in_set_conv_nth)
    then have "gs ! i \<in> set gs" using assms(2) by simp
    then show "length (snd f) \<le> MAXFILE * BSIZE" using assms(1) assms(3)[OF i(1)] i(2) by (fastforce simp: fits_def)
  qed
qed

section \<open>The files of the command line\<close>

definition content :: "hfile \<Rightarrow> byte list" where
  "content f = concat (takeWhile (\<lambda>bs. bs \<noteq> []) (map (take BSIZE) (the (h_reads f))))"

definition file_name :: "hfile \<Rightarrow> byte list" where
  "file_name f = skip_underscore (shortname (h_name f))"

definition file_ok :: "hfile \<Rightarrow> bool" where
  "file_ok f \<longleftrightarrow> h_reads f \<noteq> None \<and> of_char (CHR ''/'') \<notin> set (shortname (h_name f)) \<and> length (file_name f) \<le> DIRSIZ"

lemma holds_reads:
  assumes "holds m fs" and "i < length fs"
    and "fits (fs[i := (fst (fs ! i), snd (fs ! i) @ concat (takeWhile (\<lambda>bs. bs \<noteq> []) (map (take BSIZE) rs)))])"
  shows "\<exists>m'. copy_reads (of_nat (i + 1)) rs m = Done () m' \<and>
    holds m' (fs[i := (fst (fs ! i), snd (fs ! i) @ concat (takeWhile (\<lambda>bs. bs \<noteq> []) (map (take BSIZE) rs)))])"
  using assms
proof (induction rs arbitrary: m fs)
  case (Cons bs rs)
  show ?case
  proof (cases "take BSIZE bs = []")
    case False
    define fs' where "fs' = fs[i := (fst (fs ! i), snd (fs ! i) @ take BSIZE bs)]"
    have e: "fs[i := (fst (fs ! i), snd (fs ! i) @ concat (takeWhile (\<lambda>bs. bs \<noteq> []) (map (take BSIZE) (bs # rs))))] =
        fs'[i := (fst (fs' ! i), snd (fs' ! i) @ concat (takeWhile (\<lambda>bs. bs \<noteq> []) (map (take BSIZE) rs)))]"
      using False Cons.prems(2) by (simp add: fs'_def)
    have "fits fs'" by (rule fits_le[OF Cons.prems(3)]) (use Cons.prems(2) False in \<open>auto simp: fs'_def nth_list_update\<close>)
    then obtain m1 where m1: "iappend (of_nat (i + 1)) (take BSIZE bs) m = Done () m1" "holds m1 fs'"
      using holds_append[OF Cons.prems(1,2) fs'_def] by blast
    show ?thesis using Cons.IH[OF m1(2)] Cons.prems(2,3) m1(1) False unfolding e by (auto simp: fs'_def)
  qed (use Cons.prems in simp)
qed simp


definition root_bytes :: "hfile list \<Rightarrow> byte list" where
  "root_bytes files = mk_dirent 1 (bytes_of ''.'') @ mk_dirent 1 (bytes_of ''..'') @
     concat (map (\<lambda>k. mk_dirent (of_nat (k + 2)) (file_name (files ! k))) [0..<length files])"

definition image_files :: "hfile list \<Rightarrow> (u16 \<times> byte list) list" where
  "image_files files = (T_DIR, root_bytes files) # map (\<lambda>f. (T_FILE, content f)) files"

lemma root_bytes_snoc: "root_bytes (fs @ [f]) = root_bytes fs @ mk_dirent (of_nat (length fs + 2)) (file_name f)"
  by (simp add: root_bytes_def nth_append, rule arg_cong[where f = concat], rule map_cong) auto

lemma root_bytes_mono: "length (root_bytes fs) \<le> length (root_bytes (fs @ gs))"
proof (induction gs rule: rev_induct)
  case (snoc g gs)
  then show ?case using root_bytes_snoc[of "fs @ gs" g] by simp
qed simp

lemma add_file_ok:
  assumes h: "holds m (image_files fs)" and f: "file_ok f" and "length fs + 2 < NINODES" and fit: "fits (image_files (fs @ [f]))"
  shows "\<exists>m'. add_file ROOTINO f m = Done () m' \<and> holds m' (image_files (fs @ [f]))"
proof -
  obtain rs where rs: "h_reads f = Some rs" using f by (auto simp: file_ok_def)
  let ?n = "length fs + 1" and ?e = "mk_dirent (of_nat (length fs + 2)) (file_name f)"
  define gs where "gs = image_files fs @ [(T_FILE, [])]"
  define gs' where "gs' = gs[0 := (fst (gs ! 0), snd (gs ! 0) @ ?e)]"
  have lens: "length (image_files fs) = ?n" "length gs = ?n + 1" "length gs' = ?n + 1" by (simp_all add: image_files_def gs_def gs'_def)
  have g': "gs' = (T_DIR, root_bytes (fs @ [f])) # map (\<lambda>f. (T_FILE, content f)) fs @ [(T_FILE, [])]"
    by (simp add: gs'_def gs_def image_files_def root_bytes_snoc)
  have n: "gs' ! ?n = (T_FILE, [])" by (simp add: g' nth_append)
  have last: "gs'[?n := (fst (gs' ! ?n), snd (gs' ! ?n) @ concat (takeWhile (\<lambda>bs. bs \<noteq> []) (map (take BSIZE) rs)))] = image_files (fs @ [f])"
    unfolding n by (simp add: g' image_files_def content_def rs list_update_append)
  have fit': "fits gs'" by (rule fits_le[OF fit]) (auto simp: g' image_files_def nth_append nth_Cons' content_def)
  obtain m1 where m1: "mk_ialloc T_FILE m = Done (of_nat (length fs + 2)) m1" "holds m1 gs"
    using holds_ialloc[OF h, of T_FILE] assms(3) by (auto simp: lens gs_def)
  obtain m2 where m2: "iappend ROOTINO ?e m1 = Done () m2" "holds m2 gs'"
    using holds_append[OF m1(2) _ gs'_def fit'] lens by auto
  obtain m3 where m3: "copy_reads (of_nat (length fs + 2)) rs m2 = Done () m3" "holds m3 (image_files (fs @ [f]))"
    using holds_reads[OF m2(2), of ?n rs] fit lens unfolding last by auto
  show ?thesis using f rs m1(1) m2(1) m3 by (auto simp: add_file_def file_ok_def Let_def file_name_def)
qed

lemma add_files_ok:
  assumes "holds m (image_files fs)" and "\<forall>f\<in>set rest. file_ok f" and "length (fs @ rest) + 1 < NINODES" and "fits (image_files (fs @ rest))"
  shows "\<exists>m'. hfor (add_file ROOTINO) rest m = Done () m' \<and> holds m' (image_files (fs @ rest))"
  using assms
proof (induction rest arbitrary: m fs)
  case (Cons f rest)
  have "fits (image_files (fs @ [f]))"
    by (rule fits_le[OF Cons.prems(4)]) (use root_bytes_mono[of "fs @ [f]" rest] in \<open>auto simp: image_files_def nth_Cons' nth_append\<close>)
  then obtain m1 where "add_file ROOTINO f m = Done () m1" "holds m1 (image_files (fs @ [f]))"
    using add_file_ok[OF Cons.prems(1), of f] Cons.prems(2,3) by auto
  then show ?case using Cons.IH[of m1 "fs @ [f]"] Cons.prems(2-4) by auto
qed simp


section \<open>The empty image\<close>

lemma zero_loop:
  assumes "n \<le> FSSIZE" and "img m = replicate n zeroes" and "\<forall>k. seek_ok m k" "\<forall>k. io_ok m k"
  shows "hfor (\<lambda>i. wsect (of_nat i) zeroes) [n..<FSSIZE] m = Done () (m\<lparr>img := replicate FSSIZE zeroes\<rparr>)"
  using assms
proof (induction "FSSIZE - n" arbitrary: n m)
  case 0
  then show ?case by simp
next
  case (Suc j)
  then have n: "n < FSSIZE" by simp
  then have "wsect (of_nat n) zeroes m = Done () (m\<lparr>img := replicate (Suc n) zeroes\<rparr>)"
    using Suc.prems by (simp add: wsect_def replicate_append_same)
  then show ?case using Suc.hyps(1)[of "Suc n" "m\<lparr>img := replicate (Suc n) zeroes\<rparr>"] Suc.hyps(2) Suc.prems n by (simp add: upt_conv_Cons)
qed

lemma holds_empty:
  assumes "m = \<lparr>img = (replicate FSSIZE zeroes)[1 := put_superblock zeroes mk_superblock], seek_ok = (\<lambda>_. True), io_ok = (\<lambda>_. True),
    msb = mk_superblock, freeinode = 1, freeblock = of_nat nmeta\<rparr>"
  shows "holds m []"
proof -
  have "store_ok (img m) nmeta []" by (auto simp: store_ok_def assms mk_consts)
  moreover have "good m" by (simp add: good_def assms)
  moreover have "img m ! 1 = put_superblock zeroes mk_superblock" by (simp add: assms FSSIZE_def)
  moreover have "img m ! k = zeroes" if "k = 0 \<or> 2 \<le> k \<and> k < 2 + nlog" for k using that by (auto simp: assms mk_consts)
  ultimately have "image_ok m []" using assms by (auto simp: image_ok_def NINODES_def)
  then show ?thesis by (auto simp: holds_def view_def)
qed

text \<open>Everything up to the last two steps.\<close>

lemma mkfs_files:
  assumes "\<forall>f\<in>set files. file_ok f" and "length files + 1 < NINODES" and fit: "fits (image_files files)"
  shows "\<exists>m. holds m (image_files files) \<and>
    mkfs_main (Some (name, True)) files (\<lambda>_. True) (\<lambda>_. True) = hbnd (fix_root ROOTINO m) (\<lambda>_ m. mk_balloc (freeblock m) m)"
proof -
  let ?m = "\<lparr>img = [], seek_ok = (\<lambda>_. True), io_ok = (\<lambda>_. True), msb = mk_superblock, freeinode = 1, freeblock = of_nat nmeta\<rparr>"
  let ?mz = "?m\<lparr>img := replicate FSSIZE zeroes\<rparr>" and ?sb = "put_superblock zeroes mk_superblock"
  have z: "hfor (\<lambda>i. wsect (of_nat i) zeroes) [0..<FSSIZE] ?m = Done () ?mz" by (rule zero_loop) simp_all
  have w: "wsect 1 ?sb ?mz = Done () (?mz\<lparr>img := (replicate FSSIZE zeroes)[1 := ?sb]\<rparr>)"
    using wsect_good[of ?mz 1 ?sb] by (simp add: good_def FSSIZE_def)
  obtain m1 where m1: "mk_ialloc T_DIR (?mz\<lparr>img := (replicate FSSIZE zeroes)[1 := ?sb]\<rparr>) = Done ROOTINO m1" "holds m1 [(T_DIR, [])]"
    using holds_ialloc[OF holds_empty[OF refl], of T_DIR] by (auto simp: NINODES_def)
  let ?da = "mk_dirent 1 (bytes_of ''.'')" and ?db = "mk_dirent 1 (bytes_of ''..'')"
  have r: "image_files [] = [(T_DIR, ?da @ ?db)]" by (simp add: image_files_def root_bytes_def)
  have f1: "fits [(T_DIR, ?da)]" "fits (image_files [])"
    by (rule fits_le[OF fit]; use root_bytes_mono[of "[]" files] in \<open>auto simp: image_files_def root_bytes_def\<close>)+
  obtain m2 where m2: "iappend ROOTINO ?da m1 = Done () m2" "holds m2 [(T_DIR, ?da)]"
    using holds_append[OF m1(2), of 0 _ ?da] f1(1) by auto
  obtain m3 where m3: "iappend ROOTINO ?db m2 = Done () m3" "holds m3 (image_files [])"
    using holds_append[OF m2(2), of 0 _ ?db] f1(2) by (auto simp: r)
  obtain m4 where m4: "hfor (add_file ROOTINO) files m3 = Done () m4" "holds m4 (image_files files)"
    using add_files_ok[OF m3(2), of files] assms by auto
  have "mkfs_main (Some (name, True)) files (\<lambda>_. True) (\<lambda>_. True) = hbnd (fix_root ROOTINO m4) (\<lambda>_ m. mk_balloc (freeblock m) m)"
    using z w m1(1) m2(1) m3(1) m4(1) by (simp add: mkfs_main_def)
  then show ?thesis using m4(2) by blast
qed


section \<open>The bitmap\<close>

lemma bit_free_iff: "bit_free d b \<longleftrightarrow> \<not> bit (d (b div 8)) (b mod 8)"
  by (simp add: bit_free_def bmask_def push_bit_eq_mult and_exp_eq_0_iff_not_bit)

lemma mask_bit: "k < 8 \<Longrightarrow> bit (ucast ((2 :: u32) ^ k) :: byte) j \<longleftrightarrow> j = k"
  by (auto simp: bit_simps)

lemma bitmap_fold:
  "bit_free (fold (\<lambda>i buf. buf(i div 8 := buf (i div 8) OR ucast (push_bit (i mod 8) (1 :: u32)))) [0..<n] zeroes) b \<longleftrightarrow> n \<le> b"
proof (induction n)
  case 0
  show ?case by (simp add: bit_free_iff zeroes_def)
next
  case (Suc n)
  have "b = n \<longleftrightarrow> b div 8 = n div 8 \<and> b mod 8 = n mod 8" by (metis div_mult_mod_eq)
  then show ?case using Suc by (auto simp: bit_free_iff bit_or_iff mask_bit)
qed

section \<open>Reading the image\<close>

text \<open>The files as the kernel finds them: the number of a block of a file, its first bytes, and all its blocks.\<close>

definition file_block :: "block list \<Rightarrow> dinode \<Rightarrow> nat \<Rightarrow> nat" where
  "file_block I d k = unat (if k < NDIRECT then d_addrs d ! k else ld32 (I ! unat (d_addrs d ! NDIRECT)) (4 * (k - NDIRECT)))"

definition file_bytes :: "block list \<Rightarrow> dinode \<Rightarrow> nat \<Rightarrow> byte list" where
  "file_bytes I d n = map (\<lambda>k. (I ! file_block I d (k div BSIZE)) (k mod BSIZE)) [0..<n]"

definition file_blocks :: "block list \<Rightarrow> dinode \<Rightarrow> nat list" where
  "file_blocks I d = (let n = nblk (unat (d_size d)) in map (file_block I d) [0..<n] @ (if NDIRECT < n then [unat (d_addrs d ! NDIRECT)] else []))"

lemma used_unat:
  assumes "store_ok I fb V" and "v \<in> set V" and "c \<in> set (used v)"
  shows "unat (of_nat c :: u32) = c"
proof -
  obtain A B where V: "V = A @ v # B" using assms(2) by (auto simp: in_set_conv_decomp)
  show ?thesis using data_ok_block(2)[OF assms(1)[unfolded V] assms(3)] by (intro unat_of_nat_32) (simp add: FSSIZE_def)
qed

lemma file_ind_of:
  assumes "store_ok I fb V" and "v \<in> set V" and "d_addrs d = addrs_of v" and "v_ind v = Some b"
  shows "unat (d_addrs d ! NDIRECT) = b"
  using used_unat[OF assms(1,2), of b] assms(3,4) by (simp add: used_def)

lemma file_block_of:
  assumes ok: "store_ok I fb V" and v: "v \<in> set V" and d: "d_addrs d = addrs_of v" and k: "k < length (v_blocks v)"
  shows "file_block I d k = v_blocks v ! k"
proof -
  have da: "data_ok I v" using ok v by (simp add: store_ok_def)
  have uk: "unat (of_nat (v_blocks v ! k) :: u32) = v_blocks v ! k" using used_unat[OF ok v] k by (simp add: used_def)
  show ?thesis
  proof (cases "k < NDIRECT")
    case True
    then show ?thesis using uk k d by (simp add: file_block_def addrs_of_direct)
  next
    case False
    then obtain b where b: "v_ind v = Some b" using data_okD(3)[OF da] k by fastforce
    have "k - NDIRECT < NINDIRECT" using data_okD(1)[OF da] k False by linarith
    then have "ld32 (I ! b) (4 * (k - NDIRECT)) = of_nat (v_blocks v ! k)" using data_okD(4)[OF da b, of "k - NDIRECT"] k False by simp
    then show ?thesis using uk False file_ind_of[OF ok v d b] by (simp add: file_block_def)
  qed
qed

lemma file_bytes_of:
  assumes ok: "store_ok I fb V" and v: "v \<in> set V" and d: "d_addrs d = addrs_of v"
  shows "file_bytes I d (length (v_bytes v)) = v_bytes v"
proof -
  have da: "data_ok I v" using ok v by (simp add: store_ok_def)
  have "(I ! file_block I d (k div BSIZE)) (k mod BSIZE) = v_bytes v ! k" if k: "k < length (v_bytes v)" for k
  proof -
    have l: "k < length (v_blocks v) * BSIZE" using data_okD(2)[OF da] k by simp
    then have "k div BSIZE < length (v_blocks v)" by (rule less_mult_imp_div_less)
    then show ?thesis using file_block_of[OF ok v d] data_okD(5)[OF da l] k by simp
  qed
  then show ?thesis by (auto simp: file_bytes_def intro!: nth_equalityI)
qed

lemma file_blocks_of:
  assumes ok: "store_ok I fb V" and v: "v \<in> set V" and d: "d_addrs d = addrs_of v" and "nblk (unat (d_size d)) = length (v_blocks v)"
  shows "file_blocks I d = used v"
proof -
  have da: "data_ok I v" using ok v by (simp add: store_ok_def)
  have "map (file_block I d) [0..<length (v_blocks v)] = v_blocks v" using file_block_of[OF ok v d] by (auto intro!: nth_equalityI)
  then show ?thesis using data_okD(3)[OF da] file_ind_of[OF ok v d] assms(4)
    by (cases "v_ind v") (auto simp: file_blocks_def Let_def used_def)
qed


section \<open>The finished image\<close>

lemma fix_root_size:
  assumes "n \<le> MAXFILE * BSIZE"
  shows "((of_nat n :: u32) div of_nat BSIZE + 1) * of_nat BSIZE = of_nat ((n div BSIZE + 1) * BSIZE)"
proof -
  have n: "n \<le> 274432" using assms by (simp add: fs_consts)
  have "(of_nat n :: u32) div 1024 = of_nat (n div 1024)"
    unfolding word_unat_eq_iff unat_div_distrib using n unat_of_nat_32[of n] unat_of_nat_32[of "n div 1024"] by simp
  then show ?thesis by (simp add: BSIZE_def)
qed

lemma sint_of_nat_small: "n < 2 ^ 31 \<Longrightarrow> sint (of_nat n :: u32) = int n"
proof -
  assume "n < 2 ^ 31"
  then have "sint (word_of_int (int n) :: u32) = int n" unfolding int_word_sint by simp
  then show ?thesis by simp
qed

lemma mkfs_last_steps:
  assumes "holds m fs" and "fs \<noteq> []" and "fits fs"
  shows "\<exists>I V bm. hbnd (fix_root ROOTINO m) (\<lambda>_ m. mk_balloc (freeblock m) m) = Done () (m\<lparr>img := I\<rparr>) \<and> image_ok m V \<and> view V = fs \<and>
    store_ok I (nmeta + blocks_needed fs) V \<and> I ! 1 = put_superblock zeroes mk_superblock \<and> I ! 2 = zeroes \<and>
    (\<forall>j. 0 < j \<and> j < length V \<longrightarrow> inode_at I (j + 1) = dinode_of (V ! j)) \<and>
    inode_at I 1 = (dinode_of (V ! 0))\<lparr>d_size := of_nat ((length (snd (fs ! 0)) div BSIZE + 1) * BSIZE)\<rparr> \<and>
    I ! (2 + nlog + ninodeblocks) = bm \<and> (\<forall>b<FSSIZE. bit_free bm b \<longleftrightarrow> nmeta + blocks_needed fs \<le> b)"
proof -
  obtain V where V: "image_ok m V" "view V = fs" using assms(1) by (auto simp: holds_def)
  let ?n = "nmeta + blocks_needed fs" and ?L = "length (snd (fs ! 0))" and ?c = "2 + nlog + ninodeblocks"
  define d where "d = (dinode_of (V ! 0))\<lparr>d_size := of_nat ((?L div BSIZE + 1) * BSIZE)\<rparr>"
  define bm where "bm = fold (\<lambda>i buf. buf(i div 8 := buf (i div 8) OR ucast (push_bit (i mod 8) (1 :: u32)))) [0..<?n] zeroes"
  define I where "I = (set_inode (img m) 1 d)[?c := bm]"
  obtain fb where g: "good m" and fb: "freeblock m = of_nat fb" and st: "store_ok (img m) fb V"
    and at: "\<And>j. j < length V \<Longrightarrow> inode_at (img m) (j + 1) = dinode_of (V ! j)" and nV: "length V < NINODES" using V(1) by (auto simp: image_ok_def)
  have n: "fb = ?n" "?n \<le> FSSIZE" using store_count[OF st] V assms(3) by (auto simp: image_ok_def fits_def)
  have "0 < length V" using V(2) assms(2) by (auto simp: view_def)
  then have V0: "0 < length V" "length (v_bytes (V ! 0)) = ?L" unfolding V(2)[symmetric] by (simp_all add: view_def)
  have one: "1 < NINODES" "?c < FSSIZE" "?c < nmeta" "iblk 1 \<noteq> ?c" "1 \<noteq> ?c" "2 < 2 + nlog" "2 \<noteq> ?c" by (simp_all add: mk_consts iblk_def)
  have "fs ! 0 \<in> set fs" using assms(2) by simp
  then have L: "?L \<le> MAXFILE * BSIZE" using assms(3) by (auto simp: fits_def)
  let ?m = "m\<lparr>img := set_inode (img m) 1 d\<rparr>"
  have r: "rinode ROOTINO m = Done (dinode_of (V ! 0)) m" using rinode_good[OF g one(1)] at[OF V0(1)] by simp
  have w: "winode ROOTINO d m = Done () ?m" using winode_good[OF g one(1), of d] by simp
  have fr: "fix_root ROOTINO m = Done () ?m"
    using r w fix_root_size[OF L] V0(2) by (simp add: fix_root_def Let_def d_def dinode_of_def del: of_nat_mult of_nat_add)
  have g': "good ?m" using g by (simp add: good_def)
  have "sint (freeblock m) = int ?n" using sint_of_nat_small[of ?n] n fb by (simp add: FSSIZE_def)
  moreover have "int ?n < int BPB" using n(2) by (simp add: fs_consts FSSIZE_def)
  moreover have "sb_bmapstart (msb ?m) = of_nat ?c" using g by (simp add: good_def mk_superblock_def)
  ultimately have bl: "mk_balloc (freeblock ?m) ?m = Done () (m\<lparr>img := I\<rparr>)"
    using wsect_good[OF g' one(2), of bm] by (simp add: mk_balloc_def I_def bm_def del: of_nat_add)
  have dl: "length (d_addrs d) = NDIRECT + 1" and li: "length (img m) = FSSIZE" using g by (auto simp: d_def dinode_of_def good_def)
  have same: "I ! k = img m ! k" if "k \<noteq> iblk 1" "k \<noteq> ?c" for k using that by (simp add: I_def set_inode_other)
  have "store_ok I ?n V"
    by (rule store_ok_meta[OF st[unfolded n(1)]]) (use same iblk_range[OF one(1)] one in \<open>auto simp: I_def\<close>)
  moreover have ia: "inode_at I j = inode_at (set_inode (img m) 1 d) j" if "j < NINODES" for j
    using iblk_range[OF that] one by (simp add: inode_at_def I_def)
  have "inode_at I (j + 1) = dinode_of (V ! j)" if "0 < j" "j < length V" for j
    using ia[of "j + 1"] inode_at_set[OF one(1) _ li dl, of "j + 1"] at[OF that(2)] that nV by auto
  moreover have "inode_at I 1 = d" using ia[of 1] inode_at_set[OF one(1) one(1) li dl] one by simp
  moreover have "I ! 1 = put_superblock zeroes mk_superblock" "I ! 2 = zeroes"
    using same[of 1] same[of 2] V(1) one iblk_range[OF one(1)] by (auto simp: image_ok_def)
  moreover have "I ! ?c = bm" using one(2) li by (simp add: I_def)
  ultimately show ?thesis using fr bl V bitmap_fold[of ?n]
    by (intro exI[of _ I] exI[of _ V] exI[of _ bm]) (simp add: d_def bm_def)
qed


lemma get_put_superblock: "get_superblock (put_superblock d s) = s"
proof -
  let ?vs = "[sb_magic s, sb_size s, sb_nblocks s, sb_ninodes s, sb_nlog s, sb_logstart s, sb_inodestart s, sb_bmapstart s]"
  have "ld32 (st32s d 0 ?vs) (4 * i) = ?vs ! i" if "i < 8" for i using ld32_st32s[of i ?vs d 0] that by simp
  from this[of 0] this[of 1] this[of 2] this[of 3] this[of 4] this[of 5] this[of 6] this[of 7]
  show ?thesis by (simp add: get_superblock_def put_superblock_def eval_nat_numeral del: st32s.simps)
qed

text \<open>
  The file system that \<open>files\<close> should give: the super block, an empty log, the root directory with an entry for every file, the files with
  their contents in blocks of their own, and a bitmap that marks exactly the blocks in use.
\<close>

definition root_holds :: "hfile list \<Rightarrow> block list \<Rightarrow> bool" where
  "root_holds files I \<longleftrightarrow> (let d = inode_at I 1; rb = root_bytes files in
     d_type d = T_DIR \<and> d_nlink d = 1 \<and> unat (d_size d) = (length rb div BSIZE + 1) * BSIZE \<and> file_bytes I d (length rb) = rb)"

definition file_holds :: "block list \<Rightarrow> nat \<Rightarrow> hfile \<Rightarrow> bool" where
  "file_holds I i f \<longleftrightarrow> (let d = inode_at I i in d_type d = T_FILE \<and> d_nlink d = 1 \<and> file_bytes I d (unat (d_size d)) = content f)"

definition bitmap_holds :: "hfile list \<Rightarrow> block list \<Rightarrow> block \<Rightarrow> bool" where
  "bitmap_holds files I bm \<longleftrightarrow> (let bs = concat (map (\<lambda>k. file_blocks I (inode_at I (k + 2))) [0..<length files]) in
     distinct bs \<and> (\<forall>b\<in>set bs. nmeta \<le> b \<and> \<not> bit_free bm b) \<and>
     (\<forall>b<FSSIZE. bit_free bm b \<longleftrightarrow> nmeta + blocks_needed (image_files files) \<le> b))"

definition image_holds :: "hfile list \<Rightarrow> block list \<Rightarrow> bool" where
  "image_holds files I \<longleftrightarrow>
     get_superblock (I ! 1) = mk_superblock \<and> I ! unat (sb_logstart mk_superblock) = zeroes \<and> root_holds files I \<and>
     (\<forall>k<length files. file_holds I (k + 2) (files ! k)) \<and> bitmap_holds files I (I ! unat (sb_bmapstart mk_superblock))"

lemma mk_superblock_fields: "unat (sb_logstart mk_superblock) = 2" "unat (sb_bmapstart mk_superblock) = 2 + nlog + ninodeblocks"
  by (simp_all add: mk_superblock_def mk_consts)

text \<open>The view of the finished image, and what it gives for the root directory, a file and the bitmap.\<close>

lemma view_nth:
  assumes "view V = image_files files"
  shows "length V = length files + 1" and "V ! 0 \<in> set V" "v_type (V ! 0) = T_DIR" "v_bytes (V ! 0) = root_bytes files"
    and "k < length files \<Longrightarrow> V ! (k + 1) \<in> set V \<and> v_type (V ! (k + 1)) = T_FILE \<and> v_bytes (V ! (k + 1)) = content (files ! k)"
proof -
  show l: "length V = length files + 1" using arg_cong[OF assms, of length] by (simp add: view_def image_files_def)
  have n: "(v_type (V ! j), v_bytes (V ! j)) = image_files files ! j" if "j < length V" for j unfolding assms[symmetric] using that by (simp add: view_def)
  show "V ! 0 \<in> set V" "v_type (V ! 0) = T_DIR" "v_bytes (V ! 0) = root_bytes files" using n[of 0] l by (auto simp: image_files_def)
  show "V ! (k + 1) \<in> set V \<and> v_type (V ! (k + 1)) = T_FILE \<and> v_bytes (V ! (k + 1)) = content (files ! k)" if "k < length files"
    using n[of "k + 1"] l that by (auto simp: image_files_def)
qed

lemma fits_small:
  assumes "fits fs" and "view V = fs" and "v \<in> set V"
  shows "length (v_bytes v) \<le> 274432" and "unat (d_size (dinode_of v)) = length (v_bytes v)"
proof -
  show l: "length (v_bytes v) \<le> 274432" using assms unfolding fits_def assms(2)[symmetric] by (auto simp: view_def fs_consts)
  then show "unat (d_size (dinode_of v)) = length (v_bytes v)" using unat_of_nat_32[of "length (v_bytes v)"] by (simp add: dinode_of_def)
qed

lemma root_holdsI:
  assumes st: "store_ok I fb V" and V: "view V = image_files files" and fit: "fits (image_files files)"
    and rt: "inode_at I 1 = (dinode_of (V ! 0))\<lparr>d_size := of_nat ((length (root_bytes files) div BSIZE + 1) * BSIZE)\<rparr>"
  shows "root_holds files I"
proof -
  let ?rb = "root_bytes files"
  note v = view_nth(2-4)[OF V]
  have a: "d_addrs (inode_at I 1) = addrs_of (V ! 0)" unfolding rt by (simp add: dinode_of_def)
  have "unat (d_size (inode_at I 1)) = (length ?rb div BSIZE + 1) * BSIZE"
    using unat_of_nat_32[of "(length ?rb div BSIZE + 1) * BSIZE"] fits_small(1)[OF fit V v(1)] unfolding rt v(3)
    by (simp add: BSIZE_def del: of_nat_mult of_nat_add)
  moreover have "file_bytes I (inode_at I 1) (length ?rb) = ?rb" using file_bytes_of[OF st v(1) a] unfolding v(3) .
  moreover have "d_type (inode_at I 1) = T_DIR" "d_nlink (inode_at I 1) = 1" unfolding rt using v(2) by (simp_all add: dinode_of_def)
  ultimately show ?thesis unfolding root_holds_def Let_def by blast
qed

lemma file_holdsI:
  assumes st: "store_ok I fb V" and V: "view V = image_files files" and fit: "fits (image_files files)" and k: "k < length files"
    and at: "inode_at I (k + 2) = dinode_of (V ! (k + 1))"
  shows "file_holds I (k + 2) (files ! k)"
proof -
  have v: "V ! (k + 1) \<in> set V" "v_type (V ! (k + 1)) = T_FILE" "v_bytes (V ! (k + 1)) = content (files ! k)" using view_nth(5)[OF V k] by auto
  have "file_bytes I (inode_at I (k + 2)) (unat (d_size (inode_at I (k + 2)))) = content (files ! k)"
    unfolding at fits_small(2)[OF fit V v(1)] using file_bytes_of[OF st v(1) dinode_of_addrs] v(3) by simp
  moreover have "d_type (inode_at I (k + 2)) = T_FILE" "d_nlink (inode_at I (k + 2)) = 1" unfolding at using v(2) by (simp_all add: dinode_of_def)
  ultimately show ?thesis unfolding file_holds_def Let_def by blast
qed

lemma bitmap_holdsI:
  assumes st: "store_ok I (nmeta + blocks_needed (image_files files)) V" and V: "view V = image_files files" and fit: "fits (image_files files)"
    and at: "\<And>k. k < length files \<Longrightarrow> inode_at I (k + 2) = dinode_of (V ! (k + 1))"
    and ex: "\<And>v. v \<in> set V \<Longrightarrow> length (v_blocks v) = nblk (length (v_bytes v))"
    and bm: "\<forall>b<FSSIZE. bit_free bm b \<longleftrightarrow> nmeta + blocks_needed (image_files files) \<le> b"
  shows "bitmap_holds files I bm"
proof -
  let ?n = "nmeta + blocks_needed (image_files files)"
  have fbl: "file_blocks I (inode_at I (k + 2)) = used (V ! (k + 1))" if "k < length files" for k
    unfolding at[OF that]
    by (rule file_blocks_of[OF st]) (use ex view_nth(5)[OF V that] fits_small(2)[OF fit V] in \<open>auto simp: dinode_of_addrs\<close>)
  have "map (\<lambda>k. file_blocks I (inode_at I (k + 2))) [0..<length files] = map used (tl V)"
    by (rule nth_equalityI) (use fbl view_nth(1)[OF V] in \<open>auto simp: nth_tl\<close>)
  then have bs: "concat (map (\<lambda>k. file_blocks I (inode_at I (k + 2))) [0..<length files]) = concat (map used (tl V))" by simp
  have V1: "V = V ! 0 # tl V" using view_nth(1)[OF V] by (cases V) auto
  have all: "concat (map used V) = used (V ! 0) @ concat (map used (tl V))" by (subst V1) simp
  have d: "distinct (concat (map used V))" "set (concat (map used V)) = {nmeta..<?n}" "?n \<le> FSSIZE" using st by (auto simp: store_ok_def)
  have "distinct (concat (map used (tl V)))" using d(1) unfolding all by simp
  moreover have "nmeta \<le> b \<and> \<not> bit_free bm b" if "b \<in> set (concat (map used (tl V)))" for b
  proof -
    have "b \<in> {nmeta..<?n}" using that d(2) unfolding all by auto
    then show ?thesis using bm d(3) by auto
  qed
  ultimately show ?thesis using bm unfolding bitmap_holds_def Let_def bs by blast
qed

text \<open>
  C13. \<^verbatim>\<open>mkfs\<close> builds the file system it is asked for. If the host's file operations succeed, the names are short enough and the files fit, it ends without
  an error, and the image holds the files: read through the inodes, as the kernel does, they have the bytes that were given, no two files
  share a block, and the bitmap marks the blocks in use and no others.
\<close>

theorem mkfs_builds_image:
  assumes "\<forall>f\<in>set files. file_ok f" and "length files + 1 < NINODES" and "fits (image_files files)"
  shows "\<exists>m. mkfs_main (Some (name, True)) files (\<lambda>_. True) (\<lambda>_. True) = Done () m \<and> image_holds files (img m)"
proof -
  let ?fs = "image_files files"
  obtain m where m: "holds m ?fs" and run: "mkfs_main (Some (name, True)) files (\<lambda>_. True) (\<lambda>_. True) = hbnd (fix_root ROOTINO m) (\<lambda>_ m. mk_balloc (freeblock m) m)"
    using mkfs_files[OF assms] by blast
  have ne: "?fs \<noteq> []" "snd (?fs ! 0) = root_bytes files" by (simp_all add: image_files_def)
  obtain I V bm where I: "hbnd (fix_root ROOTINO m) (\<lambda>_ m. mk_balloc (freeblock m) m) = Done () (m\<lparr>img := I\<rparr>)" "image_ok m V" and V: "view V = ?fs"
    and st: "store_ok I (nmeta + blocks_needed ?fs) V" and low: "I ! 1 = put_superblock zeroes mk_superblock" "I ! 2 = zeroes"
    and at: "\<forall>j. 0 < j \<and> j < length V \<longrightarrow> inode_at I (j + 1) = dinode_of (V ! j)"
    and rt: "inode_at I 1 = (dinode_of (V ! 0))\<lparr>d_size := of_nat ((length (root_bytes files) div BSIZE + 1) * BSIZE)\<rparr>"
    and bm: "I ! (2 + nlog + ninodeblocks) = bm" "\<forall>b<FSSIZE. bit_free bm b \<longleftrightarrow> nmeta + blocks_needed ?fs \<le> b"
    using mkfs_last_steps[OF m ne(1) assms(3)] unfolding ne(2) by blast
  have at2: "inode_at I (k + 2) = dinode_of (V ! (k + 1))" if "k < length files" for k
    using at[rule_format, of "k + 1"] view_nth(1)[OF V] that by simp
  have ex: "length (v_blocks v) = nblk (length (v_bytes v))" if "v \<in> set V" for v using I(2) that by (simp add: image_ok_def)
  have "image_holds files I" unfolding image_holds_def mk_superblock_fields bm(1) low get_put_superblock
    using root_holdsI[OF st V assms(3) rt] file_holdsI[OF st V assms(3) _ at2] bitmap_holdsI[OF st V assms(3) at2 ex bm(2)] by blast
  then show ?thesis using run I(1) by auto
qed


definition sample_files :: "hfile list" where
  "sample_files = [\<lparr>h_name = bytes_of ''user/_cat'', h_reads = Some [bytes_of ''ab'', bytes_of ''c'']\<rparr>, \<lparr>h_name = bytes_of ''README'', h_reads = Some []\<rparr>]"

theorem mkfs_builds_image_witness:
  "\<exists>m. mkfs_main (Some (''fs.img'', True)) sample_files (\<lambda>_. True) (\<lambda>_. True) = Done () m \<and> image_holds sample_files (img m)"
proof (rule mkfs_builds_image)
  show "\<forall>f\<in>set sample_files. file_ok f"
    by (simp add: sample_files_def file_ok_def file_name_def shortname_def skip_underscore_def bytes_of_def DIRSIZ_def)
  show "length sample_files + 1 < NINODES" by (simp add: sample_files_def NINODES_def)
  have "length (root_bytes sample_files) = 64"
    by (simp add: root_bytes_def sample_files_def file_name_def shortname_def skip_underscore_def bytes_of_def mk_dirent_def put_dirent_def DIRSIZ_def)
  then show "fits (image_files sample_files)"
    by (simp add: fits_def blocks_needed_def image_files_def sample_files_def content_def bytes_of_def need_def nblk_def mk_consts)
qed

end
