(* ===== verification/Umalloc.thy ===== *)
theory Umalloc
  imports UserSys
begin

text \<open>
  The storage allocator of user programs (\<^verbatim>\<open>user/umalloc.c\<close>): a circular list of free blocks in address order that runs through the
  headers of the blocks. Addresses count units of one header (16 bytes); a size is a \<^verbatim>\<open>uint\<close> and its sums wrap. A loop that runs out of fuel gives \<open>None\<close>; the theorems show when it does not.
\<close>

section \<open>The allocator\<close>

text \<open>The headers \<^verbatim>\<open>s.ptr\<close> and \<^verbatim>\<open>s.size\<close> by address, the variable \<^verbatim>\<open>freep\<close> (null at first) and the address of \<^verbatim>\<open>base\<close>.\<close>

record uheap = uworld +
  hptr :: "nat \<Rightarrow> nat"
  hsize :: "nat \<Rightarrow> nat"
  freep :: "nat option"
  base_at :: nat

abbreviation (input) sizeof_Header :: nat where "sizeof_Header \<equiv> 16"

text \<open>The search of \<^verbatim>\<open>free\<close> for the block after which \<open>bp\<close> belongs.\<close>

fun find_spot :: "nat \<Rightarrow> nat \<Rightarrow> nat \<Rightarrow> 'z uheap_scheme \<Rightarrow> nat option" where
  "find_spot 0 bp p w = None"
| "find_spot (Suc n) bp p w =
     (let q = hptr w p in
      if p < bp \<and> bp < q then Some p
      else if q \<le> p \<and> (p < bp \<or> bp < q) then Some p
      else find_spot n bp q w)"

definition insert_block :: "nat \<Rightarrow> nat \<Rightarrow> 'z uheap_scheme \<Rightarrow> 'z uheap_scheme" where
  "insert_block bp p w =
     (let q = hptr w p;
          w = (if bp + hsize w bp = q then
                 w\<lparr>hsize := (hsize w)(bp := (hsize w bp + hsize w q) mod 2 ^ 32), hptr := (hptr w)(bp := hptr w q)\<rparr>
               else w\<lparr>hptr := (hptr w)(bp := q)\<rparr>);
          w = (if p + hsize w p = bp then
                 w\<lparr>hsize := (hsize w)(p := (hsize w p + hsize w bp) mod 2 ^ 32), hptr := (hptr w)(p := hptr w bp)\<rparr>
               else w\<lparr>hptr := (hptr w)(p := bp)\<rparr>)
      in w\<lparr>freep := Some p\<rparr>)"

definition free :: "nat \<Rightarrow> nat \<Rightarrow> 'z uheap_scheme \<Rightarrow> 'z uheap_scheme option" where
  "free n ap w =
     (let bp = ap - 1 in
      case freep w of
        None \<Rightarrow> None
      | Some f \<Rightarrow> map_option (\<lambda>p. insert_block bp p w) (find_spot n bp f w))"

definition morecore :: "nat \<Rightarrow> nat \<Rightarrow> 'z uheap_scheme \<Rightarrow> (nat option, 'z uheap_scheme) ures option" where
  "morecore n nu w =
     (let nu = (if nu < 4096 then 4096 else nu) in
      case sbrk (i32 (int (nu * sizeof_Header))) w of
        Ret a w \<Rightarrow>
          if a = - 1 then Some (Ret None w)
          else
            let hp = nat a div sizeof_Header in
            map_option (\<lambda>w. Ret (freep w) w) (free n (hp + 1) (w\<lparr>hsize := (hsize w)(hp := nu)\<rparr>))
      | Blocked w \<Rightarrow> Some (Blocked w)
      | Exited c w \<Rightarrow> Some (Exited c w)
      | Execed p as w \<Rightarrow> Some (Execed p as w))"

definition take_block :: "nat \<Rightarrow> nat \<Rightarrow> nat \<Rightarrow> 'z uheap_scheme \<Rightarrow> nat \<times> 'z uheap_scheme" where
  "take_block nunits prevp p w =
     (if hsize w p = nunits then (p + 1, w\<lparr>hptr := (hptr w)(prevp := hptr w p), freep := Some prevp\<rparr>)
      else
        let w = w\<lparr>hsize := (hsize w)(p := hsize w p - nunits)\<rparr>;
            p = p + hsize w p
        in (p + 1, w\<lparr>hsize := (hsize w)(p := nunits), freep := Some prevp\<rparr>))"

fun malloc_loop :: "nat \<Rightarrow> nat \<Rightarrow> nat \<Rightarrow> nat \<Rightarrow> 'z uheap_scheme \<Rightarrow> (nat option, 'z uheap_scheme) ures option" where
  "malloc_loop 0 nunits prevp p w = None"
| "malloc_loop (Suc n) nunits prevp p w =
     (if hsize w p \<ge> nunits then case take_block nunits prevp p w of (r, w) \<Rightarrow> Some (Ret (Some r) w)
      else if Some p = freep w then
        (case morecore n nunits w of
           Some (Ret (Some p) w) \<Rightarrow> malloc_loop n nunits p (hptr w p) w
         | r \<Rightarrow> r)
      else malloc_loop n nunits p (hptr w p) w)"

definition units :: "nat \<Rightarrow> nat" where
  "units nbytes = (nbytes + sizeof_Header - 1) div sizeof_Header + 1"

definition heap_init :: "'z uheap_scheme \<Rightarrow> 'z uheap_scheme" where
  "heap_init w =
     (if freep w = None then
        let b = base_at w in w\<lparr>hptr := (hptr w)(b := b), freep := Some b, hsize := (hsize w)(b := 0)\<rparr>
      else w)"

definition malloc :: "nat \<Rightarrow> nat \<Rightarrow> 'z uheap_scheme \<Rightarrow> (nat option, 'z uheap_scheme) ures option" where
  "malloc n nbytes w =
     (let w = heap_init w; prevp = the (freep w) in malloc_loop n (units nbytes) prevp (hptr w prevp) w)"

section \<open>The free list\<close>

fun linked :: "(nat \<Rightarrow> nat) \<Rightarrow> nat list \<Rightarrow> bool" where
  "linked h (x # y # zs) \<longleftrightarrow> h x = y \<and> linked h (y # zs)"
| "linked h _ \<longleftrightarrow> True"

text \<open>
  The list \<open>L\<close> of the free blocks in address order: it starts at \<^verbatim>\<open>base\<close>, which has no space, every other block has some, and between two blocks
  there is a gap, so that neighbours are merged. All of them lie below \<open>2^32\<close> units (64 GB), so that no size wraps.
\<close>

definition heap_ok :: "'z uheap_scheme \<Rightarrow> nat list \<Rightarrow> bool" where
  "heap_ok w L \<longleftrightarrow> L \<noteq> [] \<and> hd L = base_at w \<and> hsize w (base_at w) = 0 \<and> (\<forall>a\<in>set (tl L). 0 < hsize w a) \<and>
     (\<forall>a\<in>set L. a + hsize w a < 2 ^ 32) \<and> sorted_wrt (\<lambda>a b. a + hsize w a < b) L \<and> linked (hptr w) (L @ [hd L]) \<and> (\<exists>p\<in>set L. freep w = Some p)"

definition block :: "'z uheap_scheme \<Rightarrow> nat \<Rightarrow> nat set" where
  "block w a = {a..<a + hsize w a}"

definition free_units :: "'z uheap_scheme \<Rightarrow> nat list \<Rightarrow> nat set" where
  "free_units w L = (\<Union>a\<in>set L. block w a)"

lemma linked_append: "linked h (xs @ a # ys) \<longleftrightarrow> linked h (xs @ [a]) \<and> linked h (a # ys)"
  by (induction h xs rule: linked.induct) simp_all

lemma linked_cong: "(\<And>a. a \<in> set (butlast xs) \<Longrightarrow> h a = h' a) \<Longrightarrow> linked h xs = linked h' xs"
  by (induction h xs rule: linked.induct) auto

lemma linked_next: "linked h (xs @ a # b # ys) \<Longrightarrow> h a = b"
  using linked_append[of h xs a "b # ys"] by simp

lemma linked_suffix: "linked h (ts @ us) \<Longrightarrow> linked h us"
proof (induction ts)
  case (Cons t ts)
  then show ?case by (cases "ts @ us") auto
qed simp

section \<open>Finding the place of a block\<close>

lemma find_low:
  assumes "linked (hptr w) (us @ p # [q])" and "sorted_wrt (<) (us @ [p])" and "\<forall>a\<in>set (us @ [p]). a < bp"
    and "bp < q \<or> q \<le> p" and "length us < n"
  shows "find_spot n bp (hd (us @ [p])) w = Some p"
  using assms
proof (induction us arbitrary: n)
  case Nil
  then show ?case by (cases n) (auto simp: Let_def)
next
  case (Cons x us)
  obtain m where n: "n = Suc m" using Cons.prems(5) by (cases n) auto
  have y: "hptr w x = hd (us @ [p])" using Cons.prems(1) by (cases us) auto
  have "linked (hptr w) (us @ p # [q])" using Cons.prems(1) by (cases us) auto
  then have "find_spot m bp (hd (us @ [p])) w = Some p" using Cons.IH[of m] Cons.prems n by auto
  moreover have "x < hd (us @ [p])" "hd (us @ [p]) < bp" using Cons.prems(2,3) by (cases us; auto)+
  ultimately show ?case using y n by (simp add: Let_def)
qed

lemma find_high:
  assumes "linked (hptr w) (vs @ [b])" and "sorted_wrt (<) vs" and "\<forall>a\<in>set vs. bp < a" and "b < bp" and "length vs \<le> k"
    and "find_spot (n + (k - length vs)) bp b w = Some p"
  shows "find_spot (n + k) bp (hd (vs @ [b])) w = Some p"
  using assms
proof (induction vs arbitrary: k)
  case (Cons v vs)
  obtain j where k: "k = Suc j" using Cons.prems(5) by (cases k) auto
  have y: "hptr w v = hd (vs @ [b])" using Cons.prems(1) by (cases vs) auto
  have "linked (hptr w) (vs @ [b])" using Cons.prems(1) by (cases vs) auto
  then have "find_spot (n + j) bp (hd (vs @ [b])) w = Some p" using Cons.IH[of j] Cons.prems k by auto
  moreover have "hd (vs @ [b]) = b \<or> v < hd (vs @ [b])" using Cons.prems(2) by (cases vs) auto
  ultimately show ?case using y k Cons.prems(3,4) by (auto simp: Let_def)
qed simp

text \<open>The search finds the last block before \<open>bp\<close> from every block of the list.\<close>

lemma find_spot_finds:
  assumes "linked (hptr w) (L @ [hd L])" and "sorted_wrt (<) L" and L: "L = xs @ p # ys"
    and "\<forall>a\<in>set (xs @ [p]). a < bp" and "\<forall>a\<in>set ys. bp < a" and "f \<in> set L" and "2 * length L \<le> n"
  shows "find_spot n bp f w = Some p"
proof -
  define b where "b = hd L"
  have b: "b = hd (xs @ [p])" "b \<in> set (xs @ [p])" by (auto simp: b_def L hd_append)
  let ?q = "hd (ys @ [b])"
  have k: "linked (hptr w) (xs @ p # ys @ [b])" using assms(1) by (simp add: L b_def)
  have l1: "linked (hptr w) (xs @ p # [?q])" 
    using k linked_append[of "hptr w" xs p "ys @ [b]"] linked_append[of "hptr w" xs p "[?q]"] by (cases ys) simp_all
  have l2: "linked (hptr w) (ys @ [b])" using linked_suffix[of "hptr w" "xs @ [p]" "ys @ [b]"] k by simp
  have "b \<le> p" using assms(2) b(2) by (auto simp: L sorted_wrt_append)
  then have q: "bp < ?q \<or> ?q \<le> p" using assms(5) by (cases ys) auto
  have s: "sorted_wrt (<) (xs @ [p])" "sorted_wrt (<) ys" using assms(2) by (auto simp: L sorted_wrt_append)
  have low: "find_spot n bp (hd (us @ [p])) w = Some p" if "xs = ts @ us" "length us < n" for ts us n
  proof (rule find_low[OF _ _ _ q that(2)])
    show "linked (hptr w) (us @ p # [?q])" using linked_suffix[of "hptr w" ts "us @ p # [?q]"] l1 that(1) by simp
    show "sorted_wrt (<) (us @ [p])" using s(1) that(1) by (auto simp: sorted_wrt_append)
    show "\<forall>a\<in>set (us @ [p]). a < bp" using assms(4) that(1) by auto
  qed
  from assms(6) consider (low) "f \<in> set (xs @ [p])" | (high) "f \<in> set ys" by (auto simp: L)
  then show ?thesis
  proof cases
    case low
    then obtain ts us where "xs = ts @ us" "f = hd (us @ [p])"
    proof (cases "f = p")
      case True
      then show ?thesis using that[of xs "[]"] by simp
    next
      case False
      then obtain ts us where "xs = ts @ f # us" using low by (auto simp: in_set_conv_decomp)
      then show ?thesis using that[of ts "f # us"] by simp
    qed
    then show ?thesis using \<open>\<And>n us ts. xs = ts @ us \<Longrightarrow> length us < n \<Longrightarrow> find_spot n bp (hd (us @ [p])) w = Some p\<close>[of ts us n] assms(7)
      by (simp add: L)
  next
    case high
    then obtain ts us where u: "ys = ts @ f # us" by (auto simp: in_set_conv_decomp)
    let ?n = "Suc (length xs)" and ?k = "n - Suc (length xs)"
    have "find_spot (?n + (?k - length (f # us))) bp b w = Some p" unfolding b(1) by (rule low[of "[]"]) simp_all
    then have "find_spot (?n + ?k) bp (hd ((f # us) @ [b])) w = Some p"
    proof (rule find_high[rotated -1])
      show "linked (hptr w) ((f # us) @ [b])" using linked_suffix[of "hptr w" ts "(f # us) @ [b]"] l2 u by simp
      show "sorted_wrt (<) (f # us)" using s(2) u by (auto simp: sorted_wrt_append)
      show "\<forall>a\<in>set (f # us). bp < a" using assms(5) u by auto
      show "b < bp" using assms(4) b(2) by auto
      show "length (f # us) \<le> ?k" using u assms(7) by (simp add: L)
    qed
    moreover have "?n + ?k = n" using assms(7) by (simp add: L)
    ultimately show ?thesis by (metis append_Cons list.sel(1))
  qed
qed

section \<open>Freeing\<close>

text \<open>The place of a block that is not free: the blocks before it and after it.\<close>

lemma intervals_apart:
  assumes "0 < hsize w a" and "block w a \<inter> block w b = {}" and "0 < hsize w b"
  shows "a + hsize w a \<le> b \<and> a < b \<or> b + hsize w b \<le> a"
proof (rule ccontr)
  assume "\<not> ?thesis"
  then have "max a b \<in> block w a \<inter> block w b" using assms(1,3) by (auto simp: block_def max_def)
  then show False using assms(2) by blast
qed

lemma heap_ok_split:
  assumes "heap_ok w L" and "base_at w < bp" and "0 < hsize w bp" and "block w bp \<inter> free_units w L = {}"
  obtains xs p ys where "L = xs @ p # ys" and "\<forall>a\<in>set (xs @ [p]). a + hsize w a \<le> bp \<and> a < bp" and "\<forall>a\<in>set ys. bp + hsize w bp \<le> a"
proof -
  have sep: "a + hsize w a \<le> bp \<and> a < bp \<or> bp + hsize w bp \<le> a" if "a \<in> set L" for a
  proof (cases "a = base_at w")
    case True
    then show ?thesis using assms(1,2) by (simp add: heap_ok_def)
  next
    case False
    then have "0 < hsize w a" using assms(1) that by (cases L) (auto simp: heap_ok_def)
    moreover have "block w a \<inter> block w bp = {}" using assms(4) that by (auto simp: free_units_def)
    ultimately show ?thesis using assms(3) by (rule intervals_apart)
  qed
  let ?P = "\<lambda>a. a < bp"
  have t: "takeWhile ?P L \<noteq> []" using assms(1,2) by (cases L) (auto simp: heap_ok_def)
  have d: "\<forall>a\<in>set (dropWhile ?P L). bp + hsize w bp \<le> a"
  proof (cases "dropWhile ?P L")
    case (Cons y zs)
    have "sorted_wrt (\<lambda>a b. a + hsize w a < b) (dropWhile ?P L)"
      using assms(1) by (auto simp: heap_ok_def)
    then have "\<forall>z\<in>set zs. y < z" using Cons by auto
    moreover have "\<not> y < bp" using hd_dropWhile[of ?P L] Cons by simp
    ultimately have "\<forall>a\<in>set (dropWhile ?P L). \<not> a < bp" using Cons by auto
    moreover have "\<forall>a\<in>set (dropWhile ?P L). a \<in> set L" by (auto dest: set_dropWhileD)
    ultimately show ?thesis using sep by blast
  next
    case Nil
    show ?thesis unfolding Nil by simp
  qed
  have "L = butlast (takeWhile ?P L) @ last (takeWhile ?P L) # dropWhile ?P L" using t by (metis append_Cons append_Nil append_assoc append_butlast_last_id takeWhile_dropWhile_id)
  moreover have "\<forall>a\<in>set (butlast (takeWhile ?P L) @ [last (takeWhile ?P L)]). a + hsize w a \<le> bp \<and> a < bp"
    unfolding append_butlast_last_id[OF t]
  proof
    fix a
    assume "a \<in> set (takeWhile ?P L)"
    then have "a \<in> set L" "a < bp" using set_takeWhileD[of a ?P L] by auto
    then show "a + hsize w a \<le> bp \<and> a < bp" using sep[of a] by linarith
  qed
  ultimately show ?thesis using that d by blast
qed


lemma insert_block_eq:
  assumes "p \<noteq> bp" and "q = hptr w p" and "q \<noteq> bp"
    and "sz = (if bp + hsize w bp = q then (hsize w bp + hsize w q) mod 2 ^ 32 else hsize w bp)" and "nx = (if bp + hsize w bp = q then hptr w q else q)"
  shows "insert_block bp p w =
    (if p + hsize w p = bp then
       w\<lparr>hptr := (hptr w)(bp := nx, p := nx), hsize := (hsize w)(bp := sz, p := (hsize w p + sz) mod 2 ^ 32), freep := Some p\<rparr>
     else w\<lparr>hptr := (hptr w)(bp := nx, p := bp), hsize := (hsize w)(bp := sz), freep := Some p\<rparr>)"
  using assms by (simp add: insert_block_def Let_def)

text \<open>The list after the insertion: \<open>bp\<close> is merged with the block before it, the block after it, both or none.\<close>

definition inserted :: "'z uheap_scheme \<Rightarrow> nat \<Rightarrow> nat list \<Rightarrow> nat \<Rightarrow> nat list \<Rightarrow> nat list" where
  "inserted w bp xs p ys = xs @ p # (if p + hsize w p = bp then [] else [bp]) @ (if ys \<noteq> [] \<and> bp + hsize w bp = hd ys then tl ys else ys)"

lemma linked_insert:
  assumes "linked h (xs @ p # ys @ [b])" and "\<forall>y\<in>set Y. h' y = h y" and "\<forall>x\<in>set xs. h' x = h x"
    and "ys = zs @ Y" and "linked h' (p # ms @ [hd (Y @ [b])])"
  shows "linked h' (xs @ p # ms @ Y @ [b])"
proof -
  have "linked h (xs @ [p])" using assms(1) linked_append[of h xs p "ys @ [b]"] by simp
  then have a: "linked h' (xs @ [p])" using linked_cong[of "xs @ [p]" h h'] assms(3) by simp
  have "linked h (Y @ [b])" using linked_suffix[of h "xs @ p # zs" "Y @ [b]"] assms(1,4) by simp
  then have c: "linked h' (Y @ [b])" using linked_cong[of "Y @ [b]" h h'] assms(2) by simp
  have "Y @ [b] = hd (Y @ [b]) # tl (Y @ [b])" by simp
  then have "linked h' ((p # ms) @ Y @ [b])" using linked_append[of h' "p # ms" "hd (Y @ [b])" "tl (Y @ [b])"] assms(5) c by (metis append_Cons append_assoc)
  then show ?thesis using linked_append[of h' xs p "ms @ Y @ [b]"] a by simp
qed


lemma insert_block_shape:
  assumes ok: "heap_ok w (xs @ p # ys)" and lo: "\<forall>a\<in>set (xs @ [p]). a + hsize w a \<le> bp \<and> a < bp" and hi: "\<forall>a\<in>set ys. bp + hsize w bp \<le> a"
    and bp: "0 < hsize w bp" "bp + hsize w bp < 2 ^ 32"
  obtains Y zs sz where "inserted w bp xs p ys = xs @ p # (if p + hsize w p = bp then [] else [bp]) @ Y" and "ys = zs @ Y"
    and "0 < sz" and "bp + sz < 2 ^ 32" and "\<forall>y\<in>set Y. bp + sz < y"
    and "(\<Union>a\<in>set Y. block w a) \<union> {bp..<bp + sz} = (\<Union>a\<in>set ys. block w a) \<union> block w bp"
    and "insert_block bp p w =
    (if p + hsize w p = bp then
       w\<lparr>hptr := (hptr w)(bp := hd (Y @ [base_at w]), p := hd (Y @ [base_at w])), hsize := (hsize w)(bp := sz, p := hsize w p + sz), freep := Some p\<rparr>
     else w\<lparr>hptr := (hptr w)(bp := hd (Y @ [base_at w]), p := bp), hsize := (hsize w)(bp := sz), freep := Some p\<rparr>)"
proof -
  define b where "b = base_at w"
  define mn where "mn \<longleftrightarrow> ys \<noteq> [] \<and> bp + hsize w bp = hd ys"
  define Y where "Y = (if mn then tl ys else ys)"
  define sz where "sz = (if mn then hsize w bp + hsize w (hd ys) else hsize w bp)"
  have b: "hd (xs @ p # ys) = b" "b \<in> set (xs @ [p])" using ok by (cases xs; auto simp: heap_ok_def b_def)+
  then have bb: "b < bp" using lo by auto
  have "linked (hptr w) ((xs @ p # ys) @ [hd (xs @ p # ys)])" using ok unfolding heap_ok_def by blast
  then have k: "linked (hptr w) (xs @ p # ys @ [b])" unfolding b(1) by simp
  have q: "hptr w p = hd (ys @ [b])" using linked_next[of "hptr w" xs p "hd (ys @ [b])" "tl (ys @ [b])"] k by simp
  have qm: "bp + hsize w bp = hptr w p \<longleftrightarrow> mn" using bb by (cases ys) (auto simp: q mn_def)
  have qb: "p \<noteq> bp" "hptr w p \<noteq> bp" using lo hi bb bp(1) by (cases ys; auto simp: q)+
  have qs: "mn \<Longrightarrow> hptr w p = hd ys" by (simp add: mn_def q)
  have nx: "hd (Y @ [b]) = (if bp + hsize w bp = hptr w p then hptr w (hptr w p) else hptr w p)"
  proof (cases mn)
    case True
    then obtain y ys' where y: "ys = y # ys'" by (auto simp: mn_def neq_Nil_conv)
    have "hptr w y = hd (ys' @ [b])" using linked_next[of "hptr w" "xs @ [p]" y "hd (ys' @ [b])" "tl (ys' @ [b])"] k y by simp
    then show ?thesis using True y q qm by (simp add: Y_def)
  next
    case False
    then show ?thesis using qm q by (simp add: Y_def)
  qed
  have srt: "sorted_wrt (\<lambda>a b. a + hsize w a < b) (xs @ p # ys)" and lim: "\<forall>a\<in>set (xs @ p # ys). a + hsize w a < 2 ^ 32"
    using ok by (auto simp: heap_ok_def)
  have e: "bp + sz < 2 ^ 32" using bp(2) lim by (auto simp: sz_def mn_def neq_Nil_conv)
  have sz: "sz = (if bp + hsize w bp = hptr w p then (hsize w bp + hsize w (hptr w p)) mod 2 ^ 32 else hsize w bp)"
    using e qm qs by (auto simp: sz_def)
  show ?thesis
  proof (rule that[of Y "if mn then [hd ys] else []" sz])
    show "insert_block bp p w =
      (if p + hsize w p = bp then
         w\<lparr>hptr := (hptr w)(bp := hd (Y @ [base_at w]), p := hd (Y @ [base_at w])), hsize := (hsize w)(bp := sz, p := hsize w p + sz), freep := Some p\<rparr>
       else w\<lparr>hptr := (hptr w)(bp := hd (Y @ [base_at w]), p := bp), hsize := (hsize w)(bp := sz), freep := Some p\<rparr>)"
      unfolding b_def[symmetric] insert_block_eq[OF qb(1) refl qb(2) sz nx] using e by (auto simp del: fun_upd_apply)
    show "\<forall>y\<in>set Y. bp + sz < y" using srt hi by (cases ys) (auto simp: Y_def sz_def mn_def sorted_wrt_append)
    show "(\<Union>a\<in>set Y. block w a) \<union> {bp..<bp + sz} = (\<Union>a\<in>set ys. block w a) \<union> block w bp"
      by (cases ys) (auto simp: Y_def sz_def mn_def block_def)
    show "ys = (if mn then [hd ys] else []) @ Y" by (auto simp: Y_def mn_def)
    show "inserted w bp xs p ys = xs @ p # (if p + hsize w p = bp then [] else [bp]) @ Y" by (simp add: inserted_def Y_def mn_def)
  qed (use bp(1) e in \<open>auto simp: sz_def\<close>)
qed


lemma insert_block_ok:
  assumes ok: "heap_ok w (xs @ p # ys)" and lo: "\<forall>a\<in>set (xs @ [p]). a + hsize w a \<le> bp \<and> a < bp" and hi: "\<forall>a\<in>set ys. bp + hsize w bp \<le> a"
    and bp: "0 < hsize w bp" "bp + hsize w bp < 2 ^ 32"
  shows "heap_ok (insert_block bp p w) (inserted w bp xs p ys)"
    and "free_units (insert_block bp p w) (inserted w bp xs p ys) = free_units w (xs @ p # ys) \<union> block w bp"
proof -
  obtain Y zs sz where L: "inserted w bp xs p ys = xs @ p # (if p + hsize w p = bp then [] else [bp]) @ Y" and ys: "ys = zs @ Y"
    and sz: "0 < sz" "bp + sz < 2 ^ 32" and Yy: "\<forall>y\<in>set Y. bp + sz < y"
    and un: "(\<Union>a\<in>set Y. block w a) \<union> {bp..<bp + sz} = (\<Union>a\<in>set ys. block w a) \<union> block w bp"
    and eq: "insert_block bp p w =
    (if p + hsize w p = bp then
       w\<lparr>hptr := (hptr w)(bp := hd (Y @ [base_at w]), p := hd (Y @ [base_at w])), hsize := (hsize w)(bp := sz, p := hsize w p + sz), freep := Some p\<rparr>
     else w\<lparr>hptr := (hptr w)(bp := hd (Y @ [base_at w]), p := bp), hsize := (hsize w)(bp := sz), freep := Some p\<rparr>)"
    by (rule insert_block_shape[OF assms])
  define b where "b = base_at w"
  have h: "hd (xs @ p # zs') = b" "hsize w b = 0" "b < bp" for zs' using ok lo by (cases xs; auto simp: heap_ok_def b_def)+
  have k: "linked (hptr w) (xs @ p # ys @ [b])" using ok h(1)[of ys] unfolding heap_ok_def by auto
  have srt: "sorted_wrt (\<lambda>a b. a + hsize w a < b) (xs @ p # zs @ Y)" and lim: "\<forall>a\<in>set (xs @ p # zs @ Y). a + hsize w a < 2 ^ 32"
    and pos: "\<forall>a\<in>set (tl (xs @ p # zs @ Y)). 0 < hsize w a"
    using ok ys by (auto simp: heap_ok_def)
  have nin: "p \<notin> set xs" "bp \<notin> set xs" "p \<notin> set Y" "bp \<notin> set Y" "p < bp" using srt lo Yy by (auto simp: sorted_wrt_append)
  let ?w = "insert_block bp p w" and ?ms = "if p + hsize w p = bp then [] else [bp]"
  have "linked (hptr ?w) (xs @ p # ?ms @ Y @ [b])"
    by (rule linked_insert[OF k _ _ ys]) (use nin in \<open>auto simp: eq b_def\<close>)
  moreover have "hd (inserted w bp xs p ys) = b" by (simp only: L h(1))
  moreover have "b = p \<longrightarrow> p + hsize w p \<noteq> bp" using h(2,3) by auto
  then have "hsize ?w b = 0" using h(2,3) by (auto simp: eq)
  moreover have "\<forall>a\<in>set (tl (inserted w bp xs p ys)). 0 < hsize ?w a" unfolding L using pos sz nin by (cases xs) (auto simp: eq)
  moreover have "\<forall>a\<in>set (inserted w bp xs p ys). a + hsize ?w a < 2 ^ 32" unfolding L using lim sz nin by (auto simp: eq)
  moreover have "sorted_wrt (\<lambda>a b. a + hsize ?w a < b) xs" "sorted_wrt (\<lambda>a b. a + hsize ?w a < b) Y"
    using srt nin by (auto simp: sorted_wrt_append eq elim!: sorted_wrt_mono_rel[rotated])
  then have "sorted_wrt (\<lambda>a b. a + hsize ?w a < b) (xs @ p # ?ms @ Y)"
    using srt nin lo Yy by (auto simp: sorted_wrt_append eq)
  moreover have "freep ?w = Some p" "base_at ?w = b" by (auto simp: eq b_def)
  ultimately show "heap_ok ?w (inserted w bp xs p ys)" unfolding heap_ok_def by (simp add: L)
  have bl: "block ?w a = block w a" if "a \<in> set xs \<union> set Y" for a
  proof -
    have "a \<noteq> p" "a \<noteq> bp" using that nin by auto
    then show ?thesis by (simp add: block_def eq)
  qed
  have "block ?w p \<union> (\<Union>a\<in>set ?ms. block ?w a) = block w p \<union> {bp..<bp + sz}" using nin(5) by (auto simp: eq block_def)
  then have "free_units ?w (xs @ p # ?ms @ Y) = (\<Union>a\<in>set xs. block ?w a) \<union> (block w p \<union> {bp..<bp + sz}) \<union> (\<Union>a\<in>set Y. block ?w a)"
    unfolding free_units_def set_append list.set UN_Un UN_insert by blast
  also have "\<dots> = (\<Union>a\<in>set xs. block w a) \<union> (block w p \<union> {bp..<bp + sz}) \<union> (\<Union>a\<in>set Y. block w a)" using bl by simp
  also have "\<dots> = free_units w (xs @ p # ys) \<union> block w bp"
    using un unfolding free_units_def set_append list.set UN_Un UN_insert by blast
  finally show "free_units ?w (inserted w bp xs p ys) = free_units w (xs @ p # ys) \<union> block w bp" unfolding L .
qed

lemma free_adds:
  assumes "heap_ok w L" and "base_at w < bp" and "0 < hsize w bp" and "bp + hsize w bp < 2 ^ 32"
    and "block w bp \<inter> free_units w L = {}" and "2 * length L \<le> n"
  obtains w' L' where "free n (bp + 1) w = Some w'" and "heap_ok w' L'" and "free_units w' L' = free_units w L \<union> block w bp" 
    and "length L' \<le> Suc (length L)" and "base_at w' = base_at w" and "uworld.truncate w' = uworld.truncate w"
proof -
  obtain xs p ys where L: "L = xs @ p # ys" and lo: "\<forall>a\<in>set (xs @ [p]). a + hsize w a \<le> bp \<and> a < bp" and hi: "\<forall>a\<in>set ys. bp + hsize w bp \<le> a"
    by (rule heap_ok_split[OF assms(1,2,3,5)])
  obtain f where f: "f \<in> set L" "freep w = Some f" using assms(1) by (auto simp: heap_ok_def)
  have "sorted_wrt (<) L" by (rule sorted_wrt_mono_rel[where P = "\<lambda>a b. a + hsize w a < b"]) (use assms(1) in \<open>auto simp: heap_ok_def\<close>)
  then have "find_spot n bp f w = Some p"
    by (intro find_spot_finds[OF _ _ L _ _ f(1) assms(6)]) (use assms(1,3) lo hi in \<open>auto simp: heap_ok_def\<close>)
  then have "free n (bp + 1) w = Some (insert_block bp p w)" by (simp add: free_def f(2))
  moreover have "length (inserted w bp xs p ys) \<le> Suc (length L)" by (auto simp: inserted_def L)
  moreover have "base_at (insert_block bp p w) = base_at w" "uworld.truncate (insert_block bp p w) = uworld.truncate w"
    by (simp_all add: insert_block_def Let_def uworld.truncate_def)
  ultimately show ?thesis using insert_block_ok[OF _ lo hi assms(3,4)] assms(1) that unfolding L by blast
qed


section \<open>Allocating\<close>

text \<open>The search goes round the list once: it takes the first block that is large enough, or ends at \<^verbatim>\<open>freep\<close>.\<close>

lemma malloc_scan_finds:
  assumes "linked (hptr w) (pv # us)" and "freep w = Some (last us)" and "distinct us" and "\<exists>a\<in>set us. k \<le> hsize w a" and "length us \<le> n"
  shows "\<exists>pv' a. pv' \<in> set (pv # us) \<and> a \<in> set us \<and> hptr w pv' = a \<and> k \<le> hsize w a \<and>
    malloc_loop n k pv (hd us) w = (case take_block k pv' a w of (r, w) \<Rightarrow> Some (Ret (Some r) w))"
  using assms
proof (induction us arbitrary: pv n)
  case (Cons u us)
  obtain m where n: "n = Suc m" using Cons.prems(5) by (cases n) auto
  show ?case
  proof (cases "k \<le> hsize w u")
    case True
    then show ?thesis using Cons.prems(1) n by (intro exI[of _ pv] exI[of _ u]) simp
  next
    case False
    then have ne: "us \<noteq> []" using Cons.prems(4) by auto
    then have l: "hptr w u = hd us" "linked (hptr w) (u # us)" using Cons.prems(1) by (cases us; simp)+
    have f: "freep w = Some (last us)" "u \<noteq> last us" using Cons.prems(2,3) ne by auto
    then have "malloc_loop n k pv (hd (u # us)) w = malloc_loop m k u (hd us) w" using False n l(1) by simp
    then show ?thesis using Cons.IH[of u m] l(2) f(1) Cons.prems(3,4,5) False n by auto
  qed
qed simp

lemma malloc_scan_fails:
  assumes "linked (hptr w) (pv # us)" and "freep w = Some (last us)" and "distinct us" and "\<forall>a\<in>set us. hsize w a < k" and "us \<noteq> []"
  shows "\<exists>pv'. malloc_loop (length us + n) k pv (hd us) w = malloc_loop (Suc n) k pv' (last us) w"
  using assms
proof (induction us arbitrary: pv)
  case (Cons u us)
  show ?case
  proof (cases "us = []")
    case False
    then have l: "hptr w u = hd us" "linked (hptr w) (u # us)" using Cons.prems(1) by (cases us; simp)+
    have f: "freep w = Some (last us)" "u \<noteq> last us" using Cons.prems(2,3) False by auto
    then have "malloc_loop (length (u # us) + n) k pv (hd (u # us)) w = malloc_loop (length us + n) k u (hd us) w"
      using Cons.prems(4) l(1) by simp
    then show ?thesis using Cons.IH[of u] l(2) f(1) Cons.prems(3,4) False by auto
  qed auto
qed simp

text \<open>The list as it runs from a block round to that block.\<close>

lemma linked_around:
  assumes "linked h ((xs @ f # ys) @ [hd (xs @ f # ys)])"
  shows "linked h (f # ys @ xs @ [f])"
proof (cases xs)
  case Nil
  then show ?thesis using assms by simp
next
  case (Cons x xs')
  have "linked h ((f # ys) @ [x])" using assms linked_suffix[of h xs "(f # ys) @ [x]"] Cons by simp
  moreover have "linked h (x # xs' @ [f])" using assms linked_append[of h xs f "ys @ [x]"] Cons by simp
  ultimately show ?thesis using linked_append[of h "f # ys" x "xs' @ [f]"] Cons by simp
qed

lemma heap_order:
  assumes "heap_ok w L"
  shows "sorted_wrt (<) L" and "distinct L"
proof -
  show "sorted_wrt (<) L" by (rule sorted_wrt_mono_rel[where P = "\<lambda>a b. a + hsize w a < b"]) (use assms in \<open>auto simp: heap_ok_def\<close>)
  then show "distinct L" using strict_sorted_iff by blast
qed


lemma heap_linked: "heap_ok w L \<Longrightarrow> linked (hptr w) (L @ [base_at w])"
  by (metis heap_ok_def)

lemma linked_map: "linked h (x # xs @ [b]) \<Longrightarrow> map h (x # xs) = xs @ [b]"
  by (induction xs arbitrary: x) simp_all

lemma heap_succ_inj:
  assumes "heap_ok w L"
  shows "inj_on (hptr w) (set L)"
proof -
  obtain xs where L: "L = base_at w # xs" using assms by (cases L) (auto simp: heap_ok_def)
  then have "map (hptr w) L = xs @ [base_at w]" using linked_map[of "hptr w" "base_at w" xs "base_at w"] heap_linked[OF assms] by simp
  moreover have "distinct (xs @ [base_at w])" using heap_order(2)[OF assms] L by auto
  ultimately show ?thesis by (metis distinct_map)
qed

lemma heap_before:
  assumes "heap_ok w L" and "pv \<in> set L" and "a \<in> set L" and "hptr w pv = a" and "a \<noteq> base_at w"
  obtains xs ys where "L = xs @ pv # a # ys"
proof -
  obtain zs ys where z: "L = zs @ a # ys" using assms(3) by (auto simp: in_set_conv_decomp)
  then have "zs \<noteq> []" using assms(1,5) by (auto simp: heap_ok_def)
  then obtain xs p where x: "zs = xs @ [p]" by (metis rev_exhaust)
  have "hptr w p = a" using linked_next[of "hptr w" xs p a "ys @ [base_at w]"] heap_linked[OF assms(1)] z x by simp
  then have "p = pv" using heap_succ_inj[OF assms(1)] assms(2,4) z x by (auto simp: inj_on_def)
  then show ?thesis using that z x by simp
qed

text \<open>A block of \<open>k\<close> units has been taken from the free units \<open>F\<close>: a whole free block or the end of one.\<close>

definition gives_block :: "nat \<Rightarrow> nat set \<Rightarrow> nat \<Rightarrow> 'z uheap_scheme \<Rightarrow> nat list \<Rightarrow> bool" where
  "gives_block k F bp w L \<longleftrightarrow> heap_ok w L \<and> hsize w bp = k \<and> block w bp \<subseteq> F \<and> free_units w L = F - block w bp"

lemma block_only:
  assumes "heap_ok w (xs @ a # ys)"
  shows "block w a \<inter> free_units w (xs @ ys) = {}"
  using assms by (fastforce simp: heap_ok_def sorted_wrt_append block_def free_units_def)

lemma take_whole:
  assumes ok: "heap_ok w (xs @ pv # a # ys)" and "hsize w a = k"
    and w': "w' = w\<lparr>hptr := (hptr w)(pv := hptr w a), freep := Some pv\<rparr>"
  shows "gives_block k (free_units w (xs @ pv # a # ys)) a w' (xs @ pv # ys)"
proof -
  define b where "b = base_at w"
  have hd: "hd (xs @ pv # zs) = b" for zs using ok by (cases xs) (auto simp: heap_ok_def b_def)
  have k: "linked (hptr w) (xs @ pv # (a # ys) @ [b])" using heap_linked[OF ok] by (simp add: b_def)
  have n: "hptr w a = hd (ys @ [b])" using linked_next[of "hptr w" "xs @ [pv]" a "hd (ys @ [b])" "tl (ys @ [b])"] k by simp
  have d: "pv \<notin> set xs" "pv \<notin> set ys" using heap_order(2)[OF ok] by auto
  have "linked (hptr w') (xs @ pv # [] @ ys @ [b])"
    by (rule linked_insert[OF k, where zs = "[a]"]) (use d n in \<open>auto simp: w'\<close>)
  then have "heap_ok w' (xs @ pv # ys)" using ok hd[of ys] unfolding heap_ok_def
    by (cases xs) (auto simp: w' b_def sorted_wrt_append)
  moreover have "free_units w' (xs @ pv # ys) = free_units w (xs @ pv # a # ys) - block w a"
    using block_only[of w "xs @ [pv]" a ys] ok by (auto simp: free_units_def block_def w')
  moreover have "block w' a = block w a" by (simp add: block_def w')
  ultimately show ?thesis using assms(2) by (auto simp: gives_block_def free_units_def w')
qed


lemma take_part:
  assumes ok: "heap_ok w L" and "pv \<in> set L" and a: "a \<in> set L" and k: "0 < k" "k < hsize w a" and c: "c = a + (hsize w a - k)"
    and w': "w' = w\<lparr>hsize := (hsize w)(a := hsize w a - k, c := k), freep := Some pv\<rparr>"
  shows "gives_block k (free_units w L) c w' L"
proof -
  obtain xs ys where L: "L = xs @ a # ys" using a by (auto simp: in_set_conv_decomp)
  have ab: "a \<noteq> base_at w" using ok k by (auto simp: heap_ok_def)
  have o: "sorted_wrt (\<lambda>a b. a + hsize w a < b) (xs @ a # ys)" using ok by (simp add: heap_ok_def L)
  then have d: "x \<noteq> a" "x \<noteq> c" if "x \<in> set (xs @ ys)" for x using that k by (auto simp: sorted_wrt_append c)
  have ca: "c \<noteq> a" "c \<notin> set L" using d k by (auto simp: c L)
  have same: "hsize w' x = hsize w x" if "x \<in> set (xs @ ys)" for x using d[OF that] by (simp add: w')
  have sa: "hsize w' a = hsize w a - k" "hsize w' c = k" using ca by (simp_all add: w')
  have le: "\<forall>x\<in>set L. hsize w' x \<le> hsize w x" using same sa by (auto simp: L)
  have "sorted_wrt (\<lambda>a b. a + hsize w' a < b) L"
    by (rule sorted_wrt_mono_rel[OF _ o[folded L]]) (use le in \<open>meson add_left_mono order_le_less_trans\<close>)
  moreover have "\<forall>x\<in>set L. x + hsize w' x < 2 ^ 32" using le ok by (fastforce simp: heap_ok_def)
  moreover have "\<forall>x\<in>set (tl L). 0 < hsize w' x" "hsize w' (base_at w) = 0"
    using ok ab ca k list.set_sel(1)[of L] by (auto simp: heap_ok_def w' dest: list.set_sel(2))
  ultimately have "heap_ok w' L" using ok assms(2) by (auto simp: heap_ok_def w')
  moreover have bc: "block w' a \<union> block w' c = block w a" "block w' a \<inter> block w' c = {}" unfolding block_def sa using k by (auto simp: c)
  have bs: "block w' x = block w x" if "x \<in> set (xs @ ys)" for x using same[OF that] by (simp add: block_def)
  have "free_units w' L = free_units w (xs @ ys) \<union> block w' a" using bs by (auto simp: free_units_def L)
  moreover have "free_units w L = free_units w (xs @ ys) \<union> block w a" by (auto simp: free_units_def L)
  moreover have "block w a \<inter> free_units w (xs @ ys) = {}" using block_only ok L by blast
  ultimately show ?thesis using bc sa(2) unfolding gives_block_def by blast
qed

lemma take_block_gives:
  assumes ok: "heap_ok w L" and "pv \<in> set L" and "a \<in> set L" and "hptr w pv = a" and k: "0 < k" "k \<le> hsize w a"
  obtains bp w' L' where "take_block k pv a w = (bp + 1, w')" and "gives_block k (free_units w L) bp w' L'"
    and "base_at w' = base_at w" and "length L' \<le> length L"
proof (cases "hsize w a = k")
  case True
  have "a \<noteq> base_at w" using ok k by (auto simp: heap_ok_def)
  then obtain xs ys where L: "L = xs @ pv # a # ys" by (rule heap_before[OF assms(1-4)])
  show ?thesis using that[of a] take_whole[OF ok[unfolded L] True refl] True by (simp add: take_block_def L)
next
  case False
  show ?thesis
    by (rule that[OF _ take_part[OF ok assms(2,3) k(1) _ refl refl]]) (use False k in \<open>auto simp: take_block_def Let_def\<close>)
qed


lemma heap_around:
  assumes ok: "heap_ok w L" and f: "freep w = Some f"
  obtains us where "linked (hptr w) (f # us)" and "hptr w f = hd us" and "last us = f" and "set us = set L" and "distinct us"
    and "length us = length L" and "f \<in> set us"
proof -
  have "f \<in> set L" using ok f by (auto simp: heap_ok_def)
  then obtain xs ys where L: "L = xs @ f # ys" by (auto simp: in_set_conv_decomp)
  have l: "linked (hptr w) (f # ys @ xs @ [f])" using linked_around[of "hptr w" xs f ys] ok unfolding heap_ok_def L by blast
  have "hptr w f = hd (ys @ xs @ [f])" using l by (cases "ys @ xs @ [f]") auto
  then show ?thesis using that[OF l] heap_order(2)[OF ok] by (auto simp: L)
qed

lemma heap_ok_cong:
  assumes "heap_ok w L" and "hptr w' = hptr w" and "freep w' = freep w" and "base_at w' = base_at w" and "\<And>a. a \<in> set L \<Longrightarrow> hsize w' a = hsize w a"
  shows "heap_ok w' L"
proof -
  have "sorted_wrt (\<lambda>a b. a + hsize w' a < b) L"
    by (rule sorted_wrt_mono_rel[where P = "\<lambda>a b. a + hsize w a < b"]) (use assms(1,5) in \<open>auto simp: heap_ok_def\<close>)
  moreover have "base_at w \<in> set L" "set (tl L) \<subseteq> set L" using assms(1) by (cases L; auto simp: heap_ok_def)+
  ultimately show ?thesis using assms by (auto simp: heap_ok_def subset_iff)
qed

lemma loop_gives:
  assumes ok: "heap_ok w L" and f: "freep w = Some f" and "\<exists>a\<in>set L. k \<le> hsize w a" and "0 < k" and "length L \<le> n"
  obtains bp w' L' where "malloc_loop n k f (hptr w f) w = Some (Ret (Some (bp + 1)) w')" and "gives_block k (free_units w L) bp w' L'"
proof -
  obtain us where us: "linked (hptr w) (f # us)" "hptr w f = hd us" "last us = f" "set us = set L" "distinct us" "length us = length L" "f \<in> set us"
    by (rule heap_around[OF ok f]) metis
  obtain pv a where "pv \<in> set (f # us)" "a \<in> set us" and a: "hptr w pv = a" "k \<le> hsize w a"
    and m: "malloc_loop n k f (hptr w f) w = (case take_block k pv a w of (r, w) \<Rightarrow> Some (Ret (Some r) w))"
    using malloc_scan_finds[OF us(1) _ us(5), of k n] f assms(3,5) us(2,3,4,6) by metis
  then have "pv \<in> set L" "a \<in> set L" using us(4,7) by auto
  then obtain bp w' L' where "take_block k pv a w = (bp + 1, w')" "gives_block k (free_units w L) bp w' L'"
    using take_block_gives[OF ok _ _ a(1) assms(4) a(2)] by metis
  then show ?thesis using that m by simp
qed

text \<open>A run of free units lies in one block, since neighbours are merged.\<close>

lemma run_in_block:
  assumes "heap_ok w L" and "{x..<x + k} \<subseteq> free_units w L" and "0 < k"
  shows "\<exists>a\<in>set L. k \<le> hsize w a"
proof -
  have "x \<in> free_units w L" using assms(2,3) by auto
  then obtain a where a: "a \<in> set L" "x \<in> block w a" by (auto simp: free_units_def)
  have "x + k \<le> a + hsize w a"
  proof (rule ccontr)
    assume "\<not> ?thesis"
    then have "a + hsize w a \<in> {x..<x + k}" using a(2) by (auto simp: block_def)
    then obtain c where c: "c \<in> set L" "a + hsize w a \<in> block w c" using assms(2) by (auto simp: free_units_def)
    have "c = a \<or> a + hsize w a < c \<or> c + hsize w c < a" 
      using assms(1) a(1) c(1) by (auto simp: heap_ok_def in_set_conv_nth sorted_wrt_iff_nth_less) (metis nat_neq_iff)
    then show False using c(2) by (auto simp: block_def)
  qed
  then show ?thesis using a by (intro bexI[of _ a]) (auto simp: block_def)
qed


text \<open>
  The free units from which \<^verbatim>\<open>malloc\<close> takes its block. Where no free block is large enough, the next answer is the old break and the kernel has put at
  least 4096 new units there, above \<^verbatim>\<open>base\<close> and outside the free units.
\<close>

definition supplied :: "nat \<Rightarrow> 'z uheap_scheme \<Rightarrow> nat list \<Rightarrow> nat set \<Rightarrow> bool" where
  "supplied k w L F \<longleftrightarrow>
     (if \<exists>a\<in>set L. k \<le> hsize w a then F = free_units w L
      else \<exists>hp as nu. nu = max 4096 k \<and> answers w = Num (int (hp * 16)) # as \<and> base_at w < hp \<and> hp + nu < 2 ^ 32 \<and> nu * 16 < 2 ^ 31 \<and>
        {hp..<hp + nu} \<inter> free_units w L = {} \<and> F = free_units w L \<union> {hp..<hp + nu})"

lemma morecore_adds:
  assumes ok: "heap_ok w L" and nu: "nu = max 4096 k" and as: "answers w = Num (int (hp * 16)) # as" and "base_at w < hp" and "hp + nu < 2 ^ 32"
    and "nu * 16 < 2 ^ 31" and "{hp..<hp + nu} \<inter> free_units w L = {}" and "2 * length L \<le> n"
  obtains p w' L' where "morecore n k w = Some (Ret (Some p) w')" and "heap_ok w' L'" and "freep w' = Some p"
    and "free_units w' L' = free_units w L \<union> {hp..<hp + nu}" and "length L' \<le> Suc (length L)"
proof -
  define w1 where "w1 = ((tell (Sbrk (int (nu * 16)) SBRK_EAGER) w)\<lparr>answers := as, hsize := (hsize w)(hp := nu)\<rparr>)"
  have hp: "hp \<notin> set L"
  proof
    assume "hp \<in> set L"
    then have "0 < hsize w hp" using ok assms(4) by (cases L) (auto simp: heap_ok_def)
    then show False using \<open>hp \<in> set L\<close> assms(7) nu by (force simp: free_units_def block_def)
  qed
  have w1: "hptr w1 = hptr w" "freep w1 = freep w" "base_at w1 = base_at w" "hsize w1 = (hsize w)(hp := nu)" by (simp_all add: w1_def tell_def)
  have same: "a \<in> set L \<Longrightarrow> hsize w1 a = hsize w a" for a using hp by (auto simp: w1)
  have ok1: "heap_ok w1 L" by (rule heap_ok_cong[OF ok w1(1-3) same])
  have fu: "free_units w1 L = free_units w L" "block w1 hp = {hp..<hp + nu}" using same by (auto simp: free_units_def block_def w1)
  obtain w' L' where w': "free n (hp + 1) w1 = Some w'" "heap_ok w' L'" "free_units w' L' = free_units w L \<union> {hp..<hp + nu}" "length L' \<le> Suc (length L)"
    by (rule free_adds[OF ok1, of hp n]) (use assms fu in \<open>auto simp: w1\<close>)
  obtain p where p: "freep w' = Some p" using w'(2) by (auto simp: heap_ok_def)
  have nu': "(if k < 4096 then 4096 else k) = nu" using nu by simp
  have "i32 (int (nu * 16)) = int (nu * 16)" using assms(6) by (intro i32_id) auto
  then have "sbrk (i32 (int (nu * 16))) w = Ret (int (hp * 16)) ((tell (Sbrk (int (nu * 16)) SBRK_EAGER) w)\<lparr>answers := as\<rparr>)"
    using as by (simp add: sbrk_def call_def user_simps num_of_def)
  moreover have "nat (int (hp * 16)) div 16 = hp" "int (hp * 16) \<noteq> - 1" unfolding nat_int by simp_all
  ultimately have "morecore n k w = Some (Ret (Some p) w')"
    using w'(1) p unfolding morecore_def Let_def nu' by (simp add: w1_def tell_def del: of_nat_mult)
  then show ?thesis using that w' p by blast
qed


lemma loop_grows:
  assumes ok: "heap_ok w L" and f: "freep w = Some f" and small: "\<forall>a\<in>set L. hsize w a < k" and "0 < k" and "supplied k w L F" and "3 * length L + 2 \<le> n"
  obtains bp w' L' where "malloc_loop n k f (hptr w f) w = Some (Ret (Some (bp + 1)) w')" and "gives_block k F bp w' L'"
proof -
  obtain us where us: "linked (hptr w) (f # us)" "hptr w f = hd us" "last us = f" "set us = set L" "distinct us" "length us = length L" "f \<in> set us"
    by (rule heap_around[OF ok f]) metis
  obtain m where m: "n = length us + m" "2 * length L + 2 \<le> m" using assms(6) us(6) le_Suc_ex[of "length us" n] by auto
  have "\<exists>pv. malloc_loop n k f (hptr w f) w = malloc_loop (Suc m) k pv f w"
    using malloc_scan_fails[OF us(1) _ us(5), of k m] f small us(2,3,4,7) m(1) by fastforce
  then obtain pv where pv: "malloc_loop n k f (hptr w f) w = malloc_loop (Suc m) k pv f w" by blast
  have ns: "\<not> (\<exists>a\<in>set L. k \<le> hsize w a)" "\<not> k \<le> hsize w f" using small us(4,7) by auto
  then obtain hp as nu where nu: "nu = max 4096 k" "answers w = Num (int (hp * 16)) # as" "base_at w < hp" "hp + nu < 2 ^ 32" "nu * 16 < 2 ^ 31"
    "{hp..<hp + nu} \<inter> free_units w L = {}" and F: "F = free_units w L \<union> {hp..<hp + nu}" using assms(5) unfolding supplied_def by auto
  obtain p w1 L1 where w1: "morecore m k w = Some (Ret (Some p) w1)" "heap_ok w1 L1" "freep w1 = Some p" "free_units w1 L1 = F" "length L1 \<le> Suc (length L)"
    by (rule morecore_adds[OF ok nu, of m]) (use m F in auto)
  have "{hp..<hp + k} \<subseteq> free_units w1 L1" using nu(1) by (auto simp: w1(4) F)
  then have "\<exists>a\<in>set L1. k \<le> hsize w1 a" using run_in_block[OF w1(2)] assms(4) by blast
  then obtain bp w' L' where "malloc_loop m k p (hptr w1 p) w1 = Some (Ret (Some (bp + 1)) w')" "gives_block k F bp w' L'"
    using loop_gives[OF w1(2,3) _ assms(4), of m] w1(4,5) m(2) by auto
  then show ?thesis using that pv ns(2) f w1(1) by simp
qed

lemma heap_init_ok: "freep w = None \<Longrightarrow> base_at w < 2 ^ 32 \<Longrightarrow> heap_ok (heap_init w) [base_at w]"
  by (simp add: heap_init_def heap_ok_def Let_def)

text \<open>
  C24. \<^verbatim>\<open>malloc\<close> returns a block of as many units as the request and its header need. It lies in the free space, which loses exactly the units of
  the block, and the free list stays well formed: in address order, circular, with neighbours merged. Where no free block is large
  enough, the free space is first extended by what \<^verbatim>\<open>sbrk\<close> gives. The first call sets up the empty list.
\<close>

theorem malloc_gives_block:
  assumes "heap_ok (heap_init w) L" and "supplied (units nbytes) (heap_init w) L F" and "3 * length L + 2 \<le> n"
  shows "\<exists>bp w' L'. malloc n nbytes w = Some (Ret (Some (bp + 1)) w') \<and> gives_block (units nbytes) F bp w' L'"
proof -
  let ?w = "heap_init w"
  have k: "0 < units nbytes" by (simp add: units_def)
  obtain f where f: "freep ?w = Some f" using assms(1) by (auto simp: heap_ok_def)
  have m: "malloc n nbytes w = malloc_loop n (units nbytes) f (hptr ?w f) ?w" by (simp add: malloc_def Let_def f)
  show ?thesis
  proof (cases "\<exists>a\<in>set L. units nbytes \<le> hsize ?w a")
    case True
    then show ?thesis using loop_gives[OF assms(1) f True k, of n] assms(2,3) unfolding m supplied_def by simp blast
  next
    case False
    then have "\<forall>a\<in>set L. hsize ?w a < units nbytes" by auto
    then show ?thesis unfolding m using loop_grows[OF assms(1) f _ k assms(2,3)] by blast
  qed
qed


theorem malloc_gives_block_witness:
  "\<exists>bp w' L'. malloc 5 10 \<lparr>answers = [Num 4096], trace = [], hptr = (\<lambda>_. 0), hsize = (\<lambda>_. 0), freep = None, base_at = 100\<rparr> = Some (Ret (Some (bp + 1)) w') \<and>
     gives_block (units 10) {256..<4352} bp w' L'"
proof (rule malloc_gives_block[where L = "[100]"])
  let ?w = "heap_init \<lparr>answers = [Num 4096], trace = [], hptr = (\<lambda>_. 0), hsize = (\<lambda>_. 0), freep = None, base_at = 100\<rparr>"
  show "heap_ok ?w [100]" by (simp add: heap_init_def heap_ok_def)
  have "units 10 = 2" by (simp add: units_def)
  then show "supplied (units 10) ?w [100] {256..<4352}"
    unfolding supplied_def by (simp add: heap_init_def free_units_def block_def exI[of _ 256])
qed simp

text \<open>
  C25. \<^verbatim>\<open>free\<close> keeps the free list well formed: given a block outside the free space, it ends, the list is again in address order, circular and
  with neighbours merged, and its free space is the old one with the units of the block.
\<close>

theorem free_keeps_heap:
  assumes "heap_ok w L" and "base_at w < bp" and "0 < hsize w bp" and "bp + hsize w bp < 2 ^ 32"
    and "block w bp \<inter> free_units w L = {}" and "2 * length L \<le> n"
  shows "\<exists>w' L'. free n (bp + 1) w = Some w' \<and> heap_ok w' L' \<and> free_units w' L' = free_units w L \<union> block w bp"
  by (rule free_adds[OF assms]) blast

theorem free_keeps_heap_witness:
  "\<exists>w' L'. free 4 (305 + 1) \<lparr>answers = [], trace = [], hptr = (\<lambda>_. 0)(100 := 300, 300 := 100), hsize = (\<lambda>_. 0)(300 := 5, 305 := 4),
      freep = Some 300, base_at = 100\<rparr> = Some w' \<and> heap_ok w' L' \<and>
     free_units w' L' = free_units \<lparr>answers = [], trace = [], hptr = (\<lambda>_. 0)(100 := 300, 300 := 100), hsize = (\<lambda>_. 0)(300 := 5, 305 := 4),
      freep = Some 300, base_at = 100\<rparr> [100, 300] \<union> block \<lparr>answers = [], trace = [], hptr = (\<lambda>_. 0)(100 := 300, 300 := 100), hsize = (\<lambda>_. 0)(300 := 5, 305 := 4),
      freep = Some 300, base_at = 100\<rparr> 305"
  by (rule free_keeps_heap) (auto simp: heap_ok_def free_units_def block_def)

end
