(* ===== verification/TestLib.thy ===== *)
theory TestLib
  imports Umalloc
begin

unbundle bit_operations_syntax

text \<open>
  How the tests of \<^verbatim>\<open>user/usertests.c\<close> are written down: a test is a function of the world of a user program (\<open>UserSys\<close>), put together from
  steps. A call whose result is dropped and that does not wait is only recorded; a loop without end and without a call that waits is
  \<open>Blocked\<close>. A status that \<^verbatim>\<open>wait\<close> did not fill in is an argument of the test.
\<close>

section \<open>Steps\<close>

definition via :: "('w \<Rightarrow> ('a, 'w) ures) \<Rightarrow> ('a \<Rightarrow> 'w \<Rightarrow> ('b, 'w) ures) \<Rightarrow> 'w \<Rightarrow> ('b, 'w) ures" where
  "via m k w = ubnd (m w) k"

primrec steps :: "('w \<Rightarrow> (unit, 'w) ures) list \<Rightarrow> 'w \<Rightarrow> (unit, 'w) ures" where
  "steps [] w = Ret () w"
| "steps (p # ps) w = ubnd (p w) (\<lambda>_. steps ps)"

primrec ufold :: "('i \<Rightarrow> 'a \<Rightarrow> 'w \<Rightarrow> ('a, 'w) ures) \<Rightarrow> 'i list \<Rightarrow> 'a \<Rightarrow> 'w \<Rightarrow> ('a, 'w) ures" where
  "ufold f [] a w = Ret a w"
| "ufold f (i # is) a w = ubnd (f i a w) (ufold f is)"

text \<open>A loop: the body gives the next state or, with \<open>Inr\<close>, the result. A round that uses up no answer would be repeated for ever.\<close>

function uwhile :: "('s \<Rightarrow> 'z uworld_scheme \<Rightarrow> ('s + 'b, 'z uworld_scheme) ures) \<Rightarrow> 's \<Rightarrow> 'z uworld_scheme \<Rightarrow> ('b, 'z uworld_scheme) ures" where
  "uwhile f x w =
     (case f x w of
        Ret (Inl y) u \<Rightarrow> if length (answers u) < length (answers w) then uwhile f y u else Blocked u
      | Ret (Inr r) u \<Rightarrow> Ret r u
      | Exited n u \<Rightarrow> Exited n u
      | Execed p as u \<Rightarrow> Execed p as u
      | Blocked u \<Rightarrow> Blocked u)"
  by pat_completeness auto
termination by (relation "measure (\<lambda>(f, x, w). length (answers w))") auto

declare uwhile.simps [simp del]

definition pass :: "'w \<Rightarrow> (unit, 'w) ures" where
  "pass w = Ret () w"

definition quiet :: "sysreq \<Rightarrow> 'z uworld_scheme \<Rightarrow> (unit, 'z uworld_scheme) ures" where
  "quiet r w = Ret () (tell r w)"

definition prints :: "string \<Rightarrow> parg list \<Rightarrow> 'z uworld_scheme \<Rightarrow> (unit, 'z uworld_scheme) ures" where
  "prints fmt args w = Ret () (uprintf fmt args w)"

definition fails :: "string \<Rightarrow> parg list \<Rightarrow> 'z uworld_scheme \<Rightarrow> ('a, 'z uworld_scheme) ures" where
  "fails fmt args w = exit 1 (uprintf fmt args w)"

definition check :: "bool \<Rightarrow> string \<Rightarrow> parg list \<Rightarrow> 'z uworld_scheme \<Rightarrow> (unit, 'z uworld_scheme) ures" where
  "check ok fmt args = (if ok then pass else fails fmt args)"

text \<open>A call whose result must satisfy a condition; with the result used later, or printed in the message.\<close>

definition got :: "sysreq \<Rightarrow> (int \<Rightarrow> bool) \<Rightarrow> string \<Rightarrow> parg list \<Rightarrow> (int \<Rightarrow> 'z uworld_scheme \<Rightarrow> ('a, 'z uworld_scheme) ures) \<Rightarrow>
    'z uworld_scheme \<Rightarrow> ('a, 'z uworld_scheme) ures" where
  "got r ok fmt args k = via (call r) (\<lambda>n. if ok n then k n else fails fmt args)"

definition must :: "sysreq \<Rightarrow> (int \<Rightarrow> bool) \<Rightarrow> string \<Rightarrow> parg list \<Rightarrow> 'z uworld_scheme \<Rightarrow> (unit, 'z uworld_scheme) ures" where
  "must r ok fmt args = via (call r) (\<lambda>n. check (ok n) fmt args)"

definition mustn :: "sysreq \<Rightarrow> (int \<Rightarrow> bool) \<Rightarrow> string \<Rightarrow> (int \<Rightarrow> parg list) \<Rightarrow> 'z uworld_scheme \<Rightarrow> (unit, 'z uworld_scheme) ures" where
  "mustn r ok fmt args = via (call r) (\<lambda>n. check (ok n) fmt (args n))"

text \<open>\<^verbatim>\<open>fork\<close> with its three outcomes, \<^verbatim>\<open>pipe\<close>, and calls that wait and whose result is dropped.\<close>

definition forked :: "('z uworld_scheme \<Rightarrow> ('a, 'z uworld_scheme) ures) \<Rightarrow> ('z uworld_scheme \<Rightarrow> ('a, 'z uworld_scheme) ures) \<Rightarrow>
    (int \<Rightarrow> 'z uworld_scheme \<Rightarrow> ('a, 'z uworld_scheme) ures) \<Rightarrow> 'z uworld_scheme \<Rightarrow> ('a, 'z uworld_scheme) ures" where
  "forked err child parent = via (call Fork) (\<lambda>pid. if pid < 0 then err else if pid = 0 then child else parent pid)"

definition piped :: "string \<Rightarrow> parg list \<Rightarrow> (int \<Rightarrow> int \<Rightarrow> 'z uworld_scheme \<Rightarrow> ('a, 'z uworld_scheme) ures) \<Rightarrow>
    'z uworld_scheme \<Rightarrow> ('a, 'z uworld_scheme) ures" where
  "piped fmt args k = via upipe (\<lambda>x. case x of (r, p, q) \<Rightarrow> if r \<noteq> 0 then fails fmt args else k p q)"

definition waits :: "('z uworld_scheme \<Rightarrow> ('a, 'z uworld_scheme) ures) \<Rightarrow> 'z uworld_scheme \<Rightarrow> (unit, 'z uworld_scheme) ures" where
  "waits m = via m (\<lambda>_. pass)"

abbreviation (input) pauses_for :: "int \<Rightarrow> 'z uworld_scheme \<Rightarrow> (unit, 'z uworld_scheme) ures" where
  "pauses_for n \<equiv> waits (call (Pause n))"

text \<open>The status of the child that is reaped.\<close>

definition reap :: "int \<Rightarrow> (int \<Rightarrow> 'z uworld_scheme \<Rightarrow> ('a, 'z uworld_scheme) ures) \<Rightarrow> 'z uworld_scheme \<Rightarrow> ('a, 'z uworld_scheme) ures" where
  "reap st k = via (wait st) (\<lambda>x. k (snd x))"

definition exec_raw :: "int list \<Rightarrow> 'z uworld_scheme \<Rightarrow> (unit, 'z uworld_scheme) ures" where
  "exec_raw as = via (call (Raw ''exec'' as)) (\<lambda>n w. if n < 0 then Ret () w else Execed [] [] w)"

abbreviation (input) B :: "string \<Rightarrow> bytes" where "B \<equiv> bytes_of"
abbreviation (input) CRW :: u32 where "CRW \<equiv> O_CREATE OR O_RDWR"

text \<open>The size of the global buffer; it is zero when a test starts.\<close>

abbreviation (input) BUFSZ :: nat where "BUFSZ \<equiv> (MAXOPBLOCKS + 2) * BSIZE"

text \<open>A digit or letter that is computed from a number.\<close>

abbreviation (input) chr_at :: "byte \<Rightarrow> nat \<Rightarrow> byte" where "chr_at c i \<equiv> c + of_nat i"

end
