(* ===== verification/TestsFile.thy ===== *)
theory TestsFile
  imports TestLib
begin

unbundle bit_operations_syntax

text \<open>
  The tests of files in \<^verbatim>\<open>user/usertests.c\<close>, first part: truncation, creation, reading and writing, and the tests in which several processes use
  the same files. An argument \<open>x\<close> is the value of a status variable before \<^verbatim>\<open>wait\<close>, and \<open>de0\<close> that of a directory entry before \<^verbatim>\<open>read\<close>.
\<close>

text \<open>A read whose count must be the one given, and the bytes it leaves at the start of a buffer.\<close>

definition reads :: "int \<Rightarrow> nat \<Rightarrow> (int \<Rightarrow> bool) \<Rightarrow> (int \<Rightarrow> 'z uworld_scheme \<Rightarrow> ('a, 'z uworld_scheme) ures) \<Rightarrow>
    (bytes \<Rightarrow> 'z uworld_scheme \<Rightarrow> ('a, 'z uworld_scheme) ures) \<Rightarrow> 'z uworld_scheme \<Rightarrow> ('a, 'z uworld_scheme) ures" where
  "reads fd n ok err k = via (read fd n) (\<lambda>x. case x of (c, bs) \<Rightarrow> if ok c then k bs else err c)"

definition into_buf :: "bytes \<Rightarrow> bytes \<Rightarrow> bytes" where
  "into_buf bs b = bs @ drop (length bs) b"

text \<open>\<^verbatim>\<open>close(open(path, flags))\<close>.\<close>

definition open_close :: "bytes \<Rightarrow> u32 \<Rightarrow> 'z uworld_scheme \<Rightarrow> (unit, 'z uworld_scheme) ures" where
  "open_close p fl = via (call (Open p fl)) (\<lambda>fd. quiet (Close fd))"

section \<open>Truncation and the current directory\<close>

definition truncate1 :: "bytes \<Rightarrow> 'z uworld_scheme \<Rightarrow> (unit, 'z uworld_scheme) ures" where
  "truncate1 s =
     (let f = B ''truncfile''; wanted = (\<lambda>k n. fails (line (''%s: read %d bytes, wanted '' @ k)) [str s, num n]) in
      steps [
        quiet (Unlink f),
        via (call (Open f (O_CREATE OR O_WRONLY OR O_TRUNC))) (\<lambda>fd1. steps [quiet (Write fd1 (B ''abcd'')), quiet (Close fd1)]),
        via (call (Open f O_RDONLY)) (\<lambda>fd2.
          reads fd2 32 (\<lambda>n. n = 4) (wanted ''4'') (\<lambda>_.
          via (call (Open f (O_WRONLY OR O_TRUNC))) (\<lambda>fd1.
          via (call (Open f O_RDONLY)) (\<lambda>fd3.
          reads fd3 32 (\<lambda>n. n = 0) (\<lambda>n. steps [prints (line ''aaa fd3=%d'') [num fd3], wanted ''0'' n]) (\<lambda>_.
          reads fd2 32 (\<lambda>n. n = 0) (\<lambda>n. steps [prints (line ''bbb fd2=%d'') [num fd2], wanted ''0'' n]) (\<lambda>_.
          steps [
            quiet (Write fd1 (B ''abcdef'')),
            reads fd3 32 (\<lambda>n. n = 6) (wanted ''6'') (\<lambda>_. pass),
            reads fd2 32 (\<lambda>n. n = 2) (wanted ''2'') (\<lambda>_. pass),
            quiet (Unlink f), quiet (Close fd1), quiet (Close fd2), quiet (Close fd3)]))))))])"

definition truncate2 :: "bytes \<Rightarrow> 'z uworld_scheme \<Rightarrow> (unit, 'z uworld_scheme) ures" where
  "truncate2 s =
     (let f = B ''truncfile'' in
      steps [
        quiet (Unlink f),
        via (call (Open f (O_CREATE OR O_TRUNC OR O_WRONLY))) (\<lambda>fd1. steps [
          quiet (Write fd1 (B ''abcd'')),
          via (call (Open f (O_TRUNC OR O_WRONLY))) (\<lambda>fd2. steps [
            mustn (Write fd1 (B ''x'')) (\<lambda>n. n = - 1) (line ''%s: write returned %d, expected -1'') (\<lambda>n. [str s, num n]),
            quiet (Unlink f), quiet (Close fd1), quiet (Close fd2)])])])"

definition truncate3 :: "int \<Rightarrow> bytes \<Rightarrow> 'z uworld_scheme \<Rightarrow> (unit, 'z uworld_scheme) ures" where
  "truncate3 x s =
     (let f = B ''truncfile'' in
      steps [
        open_close f (O_CREATE OR O_TRUNC OR O_WRONLY),
        forked (fails (line ''%s: fork failed'') [str s])
          (steps (map (\<lambda>i.
             got (Open f O_WRONLY) (\<lambda>fd. fd \<ge> 0) (line ''%s: open failed'') [str s] (\<lambda>fd. steps [
               mustn (Write fd (B ''1234567890'')) (\<lambda>n. n = 10) (line ''%s: write got %d, expected 10'') (\<lambda>n. [str s, num n]),
               quiet (Close fd),
               via (call (Open f O_RDONLY)) (\<lambda>fd. steps [waits (read fd 32), quiet (Close fd)])])) [0..<100] @ [exit 0]))
          (\<lambda>_. steps (map (\<lambda>i.
             got (Open f (O_CREATE OR O_WRONLY OR O_TRUNC)) (\<lambda>fd. fd \<ge> 0) (line ''%s: open failed'') [str s] (\<lambda>fd. steps [
               mustn (Write fd (B ''xxx'')) (\<lambda>n. n = 3) (line ''%s: write got %d, expected 3'') (\<lambda>n. [str s, num n]),
               quiet (Close fd)])) [0..<150] @
           [reap x (\<lambda>st. steps [quiet (Unlink f), exit st])]))])"

definition iputtest :: "bytes \<Rightarrow> 'z uworld_scheme \<Rightarrow> (unit, 'z uworld_scheme) ures" where
  "iputtest s = steps [
     must (Mkdir (B ''iputdir'')) (\<lambda>n. n \<ge> 0) (line ''%s: mkdir failed'') [str s],
     must (Chdir (B ''iputdir'')) (\<lambda>n. n \<ge> 0) (line ''%s: chdir iputdir failed'') [str s],
     must (Unlink (B ''../iputdir'')) (\<lambda>n. n \<ge> 0) (line ''%s: unlink ../iputdir failed'') [str s],
     must (Chdir (B ''/'')) (\<lambda>n. n \<ge> 0) (line ''%s: chdir / failed'') [str s]]"

definition exitiputtest :: "int \<Rightarrow> bytes \<Rightarrow> 'z uworld_scheme \<Rightarrow> (unit, 'z uworld_scheme) ures" where
  "exitiputtest x s = forked (fails (line ''%s: fork failed'') [str s])
     (steps [
        must (Mkdir (B ''iputdir'')) (\<lambda>n. n \<ge> 0) (line ''%s: mkdir failed'') [str s],
        must (Chdir (B ''iputdir'')) (\<lambda>n. n \<ge> 0) (line ''%s: child chdir failed'') [str s],
        must (Unlink (B ''../iputdir'')) (\<lambda>n. n \<ge> 0) (line ''%s: unlink ../iputdir failed'') [str s],
        exit 0])
     (\<lambda>_. reap x exit)"

definition openiputtest :: "int \<Rightarrow> bytes \<Rightarrow> 'z uworld_scheme \<Rightarrow> (unit, 'z uworld_scheme) ures" where
  "openiputtest x s = steps [
     must (Mkdir (B ''oidir'')) (\<lambda>n. n \<ge> 0) (line ''%s: mkdir oidir failed'') [str s],
     forked (fails (line ''%s: fork failed'') [str s])
       (steps [must (Open (B ''oidir'') O_RDWR) (\<lambda>fd. fd < 0) (line ''%s: open directory for write succeeded'') [str s], exit 0])
       (\<lambda>_. steps [
          pauses_for 1,
          must (Unlink (B ''oidir'')) (\<lambda>n. n = 0) (line ''%s: unlink failed'') [str s],
          reap x exit])]"

section \<open>Simple file system tests\<close>

definition opentest :: "bytes \<Rightarrow> 'z uworld_scheme \<Rightarrow> (unit, 'z uworld_scheme) ures" where
  "opentest s = steps [
     got (Open (B ''echo'') 0) (\<lambda>fd. fd \<ge> 0) (line ''%s: open echo failed!'') [str s] (\<lambda>fd. quiet (Close fd)),
     must (Open (B ''doesnotexist'') 0) (\<lambda>fd. fd < 0) (line ''%s: open doesnotexist succeeded!'') [str s]]"

definition writetest :: "bytes \<Rightarrow> 'z uworld_scheme \<Rightarrow> (unit, 'z uworld_scheme) ures" where
  "writetest s = steps [
     got (Open (B ''small'') CRW) (\<lambda>fd. fd \<ge> 0) (line ''%s: error: creat small failed!'') [str s] (\<lambda>fd. steps (
       map (\<lambda>i. steps [
         must (Write fd (replicate 10 (of_char CHR ''a''))) (\<lambda>n. n = 10) (line ''%s: error: write aa %d new file failed'') [str s, num i],
         must (Write fd (replicate 10 (of_char CHR ''b''))) (\<lambda>n. n = 10) (line ''%s: error: write bb %d new file failed'') [str s, num i]])
         [0..99] @
       [quiet (Close fd)])),
     got (Open (B ''small'') O_RDONLY) (\<lambda>fd. fd \<ge> 0) (line ''%s: error: open small failed!'') [str s] (\<lambda>fd. steps [
       reads fd 2000 (\<lambda>n. n = 2000) (\<lambda>_. fails (line ''%s: read failed'') [str s]) (\<lambda>_. pass),
       quiet (Close fd)]),
     must (Unlink (B ''small'')) (\<lambda>n. n \<ge> 0) (line ''%s: unlink small failed'') [str s]]"

text \<open>\<^verbatim>\<open>((int*)buf)[0]\<close>, written and read.\<close>

abbreviation (input) int_bytes :: "int \<Rightarrow> bytes" where
  "int_bytes i \<equiv> map (st32 (\<lambda>_. 0) 0 (word_of_int i)) [0..<4]"

abbreviation (input) bytes_int :: "bytes \<Rightarrow> int" where
  "bytes_int bs \<equiv> sint (ld32 ((!) bs) 0)"

definition writebig :: "bytes \<Rightarrow> 'z uworld_scheme \<Rightarrow> (unit, 'z uworld_scheme) ures" where
  "writebig s = steps [
     got (Open (B ''big'') CRW) (\<lambda>fd. fd \<ge> 0) (line ''%s: error: creat big failed!'') [str s] (\<lambda>fd. steps (
       map (\<lambda>i. must (Write fd (into_buf (int_bytes i) (replicate BSIZE 0))) (\<lambda>n. n = int BSIZE)
                  (line ''%s: error: write big file failed i=%d'') [str s, num i]) (map int [0..<MAXFILE]) @
       [quiet (Close fd)])),
     got (Open (B ''big'') O_RDONLY) (\<lambda>fd. fd \<ge> 0) (line ''%s: error: open big failed!'') [str s] (\<lambda>fd. steps [
       uwhile (\<lambda>n. reads fd BSIZE (\<lambda>i. i = 0 \<or> i = int BSIZE) (\<lambda>i. fails (line ''%s: read failed %d'') [str s, num i]) (\<lambda>bs.
         if bs = [] then
           if n \<noteq> int MAXFILE then fails ''%s: read only %d blocks from big'' [str s, num n] else Ret (Inr ())
         else if bytes_int bs \<noteq> n then
           fails (line ''%s: read content of block %d is %d'') [str s, num n, num (bytes_int bs)]
         else Ret (Inl (n + 1)))) 0,
       quiet (Close fd)]),
     must (Unlink (B ''big'')) (\<lambda>n. n \<ge> 0) (line ''%s: unlink big failed'') [str s]]"

definition createtest :: "bytes \<Rightarrow> 'z uworld_scheme \<Rightarrow> (unit, 'z uworld_scheme) ures" where
  "createtest s = steps (
     map (\<lambda>i. open_close [of_char CHR ''a'', chr_at 48 i] CRW) [0..<52] @
     map (\<lambda>i. quiet (Unlink [of_char CHR ''a'', chr_at 48 i])) [0..<52])"

definition dirtest :: "bytes \<Rightarrow> 'z uworld_scheme \<Rightarrow> (unit, 'z uworld_scheme) ures" where
  "dirtest s = steps [
     must (Mkdir (B ''dir0'')) (\<lambda>n. n \<ge> 0) (line ''%s: mkdir failed'') [str s],
     must (Chdir (B ''dir0'')) (\<lambda>n. n \<ge> 0) (line ''%s: chdir dir0 failed'') [str s],
     must (Chdir (B ''..'')) (\<lambda>n. n \<ge> 0) (line ''%s: chdir .. failed'') [str s],
     must (Unlink (B ''dir0'')) (\<lambda>n. n \<ge> 0) (line ''%s: unlink dir0 failed'') [str s]]"

definition exectest :: "int \<Rightarrow> bytes \<Rightarrow> 'z uworld_scheme \<Rightarrow> (unit, 'z uworld_scheme) ures" where
  "exectest x s = steps [
     quiet (Unlink (B ''echo-ok'')),
     forked (fails (line ''%s: fork failed'') [str s])
       (steps [
          quiet (Close 1),
          got (Open (B ''echo-ok'') (O_CREATE OR O_WRONLY)) (\<lambda>fd. fd \<ge> 0) (line ''%s: create failed'') [str s]
            (\<lambda>fd. check (fd = 1) (line ''%s: wrong fd'') [str s]),
          via (exec (B ''echo'') [B ''echo'', B ''OK'']) (\<lambda>_. fails (line ''%s: exec echo failed'') [str s])])
       (\<lambda>pid. via (wait x) (\<lambda>r. steps [
          if fst r \<noteq> pid then prints (line ''%s: wait failed!'') [str s] else pass,
          if snd r \<noteq> 0 then exit (snd r) else pass])),
     got (Open (B ''echo-ok'') O_RDONLY) (\<lambda>fd. fd \<ge> 0) (line ''%s: open failed'') [str s] (\<lambda>fd.
       reads fd 2 (\<lambda>n. n = 2) (\<lambda>_. fails (line ''%s: read failed'') [str s]) (\<lambda>bs. steps [
         quiet (Unlink (B ''echo-ok'')),
         if bs ! 0 = of_char CHR ''O'' \<and> bs ! 1 = of_char CHR ''K'' then exit 0 else fails (line ''%s: wrong output'') [str s]]))]"

end
