(* ===== verification/TestsShare.thy ===== *)
theory TestsShare
  imports TestsFile
begin

unbundle bit_operations_syntax

text \<open>
  The tests of \<^verbatim>\<open>user/usertests.c\<close> in which processes share files, create and link them at the same time, or use up the disk.
\<close>

section \<open>More file system tests\<close>

text \<open>The children are reaped one after the other; a status that is not 0 ends the test, with that status or with 1.\<close>

abbreviation (input) reap_all :: "nat \<Rightarrow> (int \<Rightarrow> int) \<Rightarrow> int \<Rightarrow> 'z uworld_scheme \<Rightarrow> (unit, 'z uworld_scheme) ures" where
  "reap_all n out x \<equiv> via (ufold (\<lambda>_ x. reap x (\<lambda>st. if st \<noteq> 0 then exit (out st) else Ret st)) [0..<n] x) (\<lambda>_. pass)"

text \<open>A failing \<^verbatim>\<open>fork\<close> goes on as the parent.\<close>

definition sharedfd :: "int \<Rightarrow> bytes \<Rightarrow> 'z uworld_scheme \<Rightarrow> (unit, 'z uworld_scheme) ures" where
  "sharedfd x s = steps [
     quiet (Unlink (B ''sharedfd'')),
     got (Open (B ''sharedfd'') CRW) (\<lambda>fd. fd \<ge> 0) ''%s: cannot open sharedfd for writing'' [str s] (\<lambda>fd.
     via (call Fork) (\<lambda>pid.
       let buf = replicate 10 (if pid = 0 then of_char CHR ''c'' else of_char CHR ''p'') in
       steps (
         map (\<lambda>i. must (Write fd buf) (\<lambda>n. n = 10) (line ''%s: write sharedfd failed'') [str s]) [0..<1000] @
         [if pid = 0 then exit 0 else reap x (\<lambda>st. if st \<noteq> 0 then exit st else pass),
          quiet (Close fd),
          got (Open (B ''sharedfd'') 0) (\<lambda>fd. fd \<ge> 0) (line ''%s: cannot open sharedfd for reading'') [str s] (\<lambda>fd.
          via (uwhile (\<lambda>(buf, nc, np). via (read fd 10) (\<lambda>(n, bs).
                 let buf = into_buf bs buf in
                 if n > 0 then
                   Ret (Inl (buf, nc + count_list buf (of_char CHR ''c''), np + count_list buf (of_char CHR ''p'')))
                 else Ret (Inr (nc, np)))) (buf, 0, 0)) (\<lambda>(nc, np). steps [
            quiet (Close fd),
            quiet (Unlink (B ''sharedfd'')),
            if nc = 10000 \<and> np = 10000 then exit 0 else fails (line ''%s: nc/np test fails'') [str s]]))])))]"

definition fourfiles :: "int \<Rightarrow> bytes \<Rightarrow> 'z uworld_scheme \<Rightarrow> (unit, 'z uworld_scheme) ures" where
  "fourfiles x s =
     (let name = (\<lambda>i. [of_char CHR ''f'', chr_at 48 i]) in
      steps (
        map (\<lambda>pi. steps [
          quiet (Unlink (name pi)),
          forked (fails (line ''%s: fork failed'') [str s])
            (got (Open (name pi) CRW) (\<lambda>fd. fd \<ge> 0) (line ''%s: create failed'') [str s] (\<lambda>fd. steps (
               map (\<lambda>i. mustn (Write fd (replicate 500 (chr_at 48 pi))) (\<lambda>n. n = 500) (line ''write failed %d'') (\<lambda>n. [num n])) [0..<12] @
               [exit 0])))
            (\<lambda>_. pass)]) [0..<4] @
        [reap_all 4 id x] @
        map (\<lambda>i. via (call (Open (name i) 0)) (\<lambda>fd.
          via (uwhile (\<lambda>total. via (read fd BUFSZ) (\<lambda>(n, bs).
                 if n > 0 then
                   if list_ex (\<lambda>c. c \<noteq> chr_at 48 i) bs then fails (line ''%s: wrong char'') [str s] else Ret (Inl (total + n))
                 else Ret (Inr total))) 0) (\<lambda>total. steps [
            quiet (Close fd),
            check (total = 6000) (line ''wrong length %d'') [num total],
            quiet (Unlink (name i))]))) [0..<4]))"

definition createdelete :: "int \<Rightarrow> bytes \<Rightarrow> 'z uworld_scheme \<Rightarrow> (unit, 'z uworld_scheme) ures" where
  "createdelete x s =
     (let name = (\<lambda>pi i. [chr_at (of_char CHR ''p'') pi, chr_at 48 i]) in
      steps (
        map (\<lambda>pi. forked (fails (line ''%s: fork failed'') [str s])
          (steps (map (\<lambda>i. steps [
             got (Open (name pi i) CRW) (\<lambda>fd. fd \<ge> 0) (line ''%s: create failed'') [str s] (\<lambda>fd. quiet (Close fd)),
             if i > 0 \<and> i mod 2 = 0 then must (Unlink (name pi (i div 2))) (\<lambda>n. n \<ge> 0) (line ''%s: unlink failed'') [str s] else pass])
             [0..<20] @ [exit 0]))
          (\<lambda>_. pass)) [0..<4] @
        [reap_all 4 (\<lambda>_. 1) x] @
        map (\<lambda>(i, pi). via (call (Open (name pi i) 0)) (\<lambda>fd. steps [
          if (i = 0 \<or> i \<ge> 10) \<and> fd < 0 then fails (line (''%s: oops createdelete %s didn'' @ CHR 0x27 # ''t exist'')) [str s, str (name pi i)]
          else if (i \<ge> 1 \<and> i < 10) \<and> fd \<ge> 0 then fails (line ''%s: oops createdelete %s did exist'') [str s, str (name pi i)]
          else pass,
          if fd \<ge> 0 then quiet (Close fd) else pass])) (List.product [0..<20] [0..<4]) @
        map (\<lambda>(i, pi). quiet (Unlink (name pi i))) (List.product [0..<20] [0..<4])))"

definition unlinkread :: "bytes \<Rightarrow> 'z uworld_scheme \<Rightarrow> (unit, 'z uworld_scheme) ures" where
  "unlinkread s =
     (let f = B ''unlinkread'' in
      steps [
        got (Open f CRW) (\<lambda>fd. fd \<ge> 0) (line ''%s: create unlinkread failed'') [str s] (\<lambda>fd. steps [
          quiet (Write fd (B ''hello'')), quiet (Close fd)]),
        got (Open f O_RDWR) (\<lambda>fd. fd \<ge> 0) (line ''%s: open unlinkread failed'') [str s] (\<lambda>fd. steps [
          must (Unlink f) (\<lambda>n. n = 0) (line ''%s: unlink unlinkread failed'') [str s],
          via (call (Open f CRW)) (\<lambda>fd1. steps [quiet (Write fd1 (B ''yyy'')), quiet (Close fd1)]),
          reads fd BUFSZ (\<lambda>n. n = 5) (\<lambda>_. fails ''%s: unlinkread read failed'' [str s]) (\<lambda>bs. steps [
            check (bs ! 0 = of_char CHR ''h'') (line ''%s: unlinkread wrong data'') [str s],
            must (Write fd (into_buf bs (replicate 10 0))) (\<lambda>n. n = 10) (line ''%s: unlinkread write failed'') [str s]]),
          quiet (Close fd), quiet (Unlink f)])])"

definition linktest :: "bytes \<Rightarrow> 'z uworld_scheme \<Rightarrow> (unit, 'z uworld_scheme) ures" where
  "linktest s =
     (let lf1 = B ''lf1''; lf2 = B ''lf2'' in
      steps [
        quiet (Unlink lf1), quiet (Unlink lf2),
        got (Open lf1 CRW) (\<lambda>fd. fd \<ge> 0) (line ''%s: create lf1 failed'') [str s] (\<lambda>fd. steps [
          must (Write fd (B ''hello'')) (\<lambda>n. n = 5) (line ''%s: write lf1 failed'') [str s],
          quiet (Close fd)]),
        must (Link lf1 lf2) (\<lambda>n. n \<ge> 0) (line ''%s: link lf1 lf2 failed'') [str s],
        quiet (Unlink lf1),
        must (Open lf1 0) (\<lambda>n. n < 0) (line ''%s: unlinked lf1 but it is still there!'') [str s],
        got (Open lf2 0) (\<lambda>fd. fd \<ge> 0) (line ''%s: open lf2 failed'') [str s] (\<lambda>fd. steps [
          reads fd BUFSZ (\<lambda>n. n = 5) (\<lambda>_. fails (line ''%s: read lf2 failed'') [str s]) (\<lambda>_. pass),
          quiet (Close fd)]),
        must (Link lf2 lf2) (\<lambda>n. n < 0) (line ''%s: link lf2 lf2 succeeded! oops'') [str s],
        quiet (Unlink lf2),
        must (Link lf2 lf1) (\<lambda>n. n < 0) (line ''%s: link non-existent succeeded! oops'') [str s],
        must (Link (B ''.'') lf1) (\<lambda>n. n < 0) (line ''%s: link . lf1 succeeded! oops'') [str s]])"

text \<open>One entry of the directory: the files \<^verbatim>\<open>C0\<close>, \<^verbatim>\<open>C1\<close>, ... seen so far are \<open>fa\<close>. A name is printed up to its NUL.\<close>

abbreviation (input) concreate_entry :: "bytes \<Rightarrow> bytes \<Rightarrow> bool list \<Rightarrow> nat \<Rightarrow> 'z uworld_scheme \<Rightarrow> (bool list \<times> nat, 'z uworld_scheme) ures" where
  "concreate_entry s de fa n \<equiv>
     (let name = drop 2 de; shown = takeWhile (\<lambda>c. c \<noteq> 0) name; i = uint (name ! 1) - 48 in
      if de ! 0 = 0 \<and> de ! 1 = 0 then Ret (fa, n)
      else if name ! 0 = of_char CHR ''C'' \<and> name ! 2 = 0 then
        if i < 0 \<or> i \<ge> 40 then fails (line ''%s: concreate weird file %s'') [str s, str shown]
        else if fa ! nat i then fails (line ''%s: concreate duplicate file %s'') [str s, str shown]
        else Ret (fa[nat i := True], n + 1)
      else Ret (fa, n))"

definition concreate :: "int \<Rightarrow> bytes \<Rightarrow> bytes \<Rightarrow> 'z uworld_scheme \<Rightarrow> (unit, 'z uworld_scheme) ures" where
  "concreate x de0 s =
     (let file = (\<lambda>i. [of_char CHR ''C'', chr_at 48 i]) in
      steps (
        map (\<lambda>i. steps [
          quiet (Unlink (file i)),
          via (call Fork) (\<lambda>pid. steps [
            if pid \<noteq> 0 \<and> i mod 3 = 1 then quiet (Link (B ''C0'') (file i))
            else if pid = 0 \<and> i mod 5 = 1 then quiet (Link (B ''C0'') (file i))
            else got (Open (file i) CRW) (\<lambda>fd. fd \<ge> 0) (line ''concreate create %s failed'') [str (file i)] (\<lambda>fd. quiet (Close fd)),
            if pid = 0 then exit 0 else reap x (\<lambda>st. if st \<noteq> 0 then exit 1 else pass)])]) [0..<40] @
        [via (call (Open (B ''.'') 0)) (\<lambda>fd.
         via (uwhile (\<lambda>(de, fa, n). via (read fd 16) (\<lambda>(c, bs).
                let de = into_buf bs de in
                if c > 0 then via (concreate_entry s de fa n) (\<lambda>(fa, n). Ret (Inl (de, fa, n))) else Ret (Inr n)))
              (de0, replicate 40 False, 0)) (\<lambda>n. steps [
           quiet (Close fd),
           check (n = 40) (line ''%s: concreate not enough files in directory listing'') [str s]]))] @
        map (\<lambda>i. via (call Fork) (\<lambda>pid. if pid < 0 then fails (line ''%s: fork failed'') [str s] else steps [
          steps (replicate 6 (if (i mod 3 = 0 \<and> pid = 0) \<or> (i mod 3 = 1 \<and> pid \<noteq> 0)
                              then open_close (file i) 0 else quiet (Unlink (file i)))),
          if pid = 0 then exit 0 else waits (wait 0)])) [0..<40]))"

definition linkunlink :: "bytes \<Rightarrow> 'z uworld_scheme \<Rightarrow> (unit, 'z uworld_scheme) ures" where
  "linkunlink s = steps [
     quiet (Unlink (B ''x'')),
     via (call Fork) (\<lambda>pid. if pid < 0 then fails (line ''%s: fork failed'') [str s] else steps [
       via (ufold (\<lambda>_ x. let x = x * 1103515245 + 12345 in
              via (if x mod 3 = 0 then open_close (B ''x'') CRW
                   else if x mod 3 = 1 then quiet (Link (B ''cat'') (B ''x''))
                   else quiet (Unlink (B ''x''))) (\<lambda>_. Ret x))
            [0..<(100::nat)] (if pid \<noteq> 0 then 1 else 97 :: u32)) (\<lambda>_. pass),
       if pid \<noteq> 0 then waits (wait 0) else exit 0])]"

end
