(* ===== verification/TestsDir.thy ===== *)
theory TestsDir
  imports TestsShare
begin

unbundle bit_operations_syntax

text \<open>
  The tests of directories, of large files and of a full disk in \<^verbatim>\<open>user/usertests.c\<close>. \<open>junk\<close> is the contents of a local buffer that the test
  writes without having filled it.
\<close>

section \<open>Directories\<close>

definition subdir :: "bytes \<Rightarrow> 'z uworld_scheme \<Rightarrow> (unit, 'z uworld_scheme) ures" where
  "subdir s =
     (let m = (\<lambda>r ok msg. must r ok (line (''%s: '' @ msg)) [str s]);
          fd = (\<lambda>r msg. got r (\<lambda>fd. fd \<ge> 0) (line (''%s: '' @ msg)) [str s]);
          zero = (\<lambda>n. n = 0); nonzero = (\<lambda>n. n \<noteq> 0); neg = (\<lambda>n. n < 0); nonneg = (\<lambda>n. n \<ge> 0) in
      steps [
        quiet (Unlink (B ''ff'')),
        m (Mkdir (B ''dd'')) zero ''mkdir dd failed'',
        fd (Open (B ''dd/ff'') CRW) ''create dd/ff failed'' (\<lambda>fd. steps [quiet (Write fd (B ''ff'')), quiet (Close fd)]),
        m (Unlink (B ''dd'')) neg ''unlink dd (non-empty dir) succeeded!'',
        m (Mkdir (B ''/dd/dd'')) zero ''subdir mkdir dd/dd failed'',
        fd (Open (B ''dd/dd/ff'') CRW) ''create dd/dd/ff failed'' (\<lambda>fd. steps [quiet (Write fd (B ''FF'')), quiet (Close fd)]),
        fd (Open (B ''dd/dd/../ff'') 0) ''open dd/dd/../ff failed'' (\<lambda>fd. steps [
          via (read fd BUFSZ) (\<lambda>(cc, bs). check (cc = 2 \<and> bs ! 0 = of_char CHR ''f'') (line ''%s: dd/dd/../ff wrong content'') [str s]),
          quiet (Close fd)]),
        m (Link (B ''dd/dd/ff'') (B ''dd/dd/ffff'')) zero ''link dd/dd/ff dd/dd/ffff failed'',
        m (Unlink (B ''dd/dd/ff'')) zero ''unlink dd/dd/ff failed'',
        m (Open (B ''dd/dd/ff'') O_RDONLY) neg ''open (unlinked) dd/dd/ff succeeded'',
        m (Chdir (B ''dd'')) zero ''chdir dd failed'',
        m (Chdir (B ''dd/../../dd'')) zero ''chdir dd/../../dd failed'',
        m (Chdir (B ''dd/../../../dd'')) zero ''chdir dd/../../../dd failed'',
        m (Chdir (B ''./..'')) zero ''chdir ./.. failed'',
        fd (Open (B ''dd/dd/ffff'') 0) ''open dd/dd/ffff failed'' (\<lambda>fd. steps [
          reads fd BUFSZ (\<lambda>n. n = 2) (\<lambda>_. fails (line ''%s: read dd/dd/ffff wrong len'') [str s]) (\<lambda>_. pass),
          quiet (Close fd)]),
        m (Open (B ''dd/dd/ff'') O_RDONLY) neg ''open (unlinked) dd/dd/ff succeeded!'',
        m (Open (B ''dd/ff/ff'') CRW) neg ''create dd/ff/ff succeeded!'',
        m (Open (B ''dd/xx/ff'') CRW) neg ''create dd/xx/ff succeeded!'',
        m (Open (B ''dd'') O_CREATE) neg ''create dd succeeded!'',
        m (Open (B ''dd'') O_RDWR) neg ''open dd rdwr succeeded!'',
        m (Open (B ''dd'') O_WRONLY) neg ''open dd wronly succeeded!'',
        m (Link (B ''dd/ff/ff'') (B ''dd/dd/xx'')) nonzero ''link dd/ff/ff dd/dd/xx succeeded!'',
        m (Link (B ''dd/xx/ff'') (B ''dd/dd/xx'')) nonzero ''link dd/xx/ff dd/dd/xx succeeded!'',
        m (Link (B ''dd/ff'') (B ''dd/dd/ffff'')) nonzero ''link dd/ff dd/dd/ffff succeeded!'',
        m (Mkdir (B ''dd/ff/ff'')) nonzero ''mkdir dd/ff/ff succeeded!'',
        m (Mkdir (B ''dd/xx/ff'')) nonzero ''mkdir dd/xx/ff succeeded!'',
        m (Mkdir (B ''dd/dd/ffff'')) nonzero ''mkdir dd/dd/ffff succeeded!'',
        m (Unlink (B ''dd/xx/ff'')) nonzero ''unlink dd/xx/ff succeeded!'',
        m (Unlink (B ''dd/ff/ff'')) nonzero ''unlink dd/ff/ff succeeded!'',
        m (Chdir (B ''dd/ff'')) nonzero ''chdir dd/ff succeeded!'',
        m (Chdir (B ''dd/xx'')) nonzero ''chdir dd/xx succeeded!'',
        m (Unlink (B ''dd/dd/ffff'')) zero ''unlink dd/dd/ff failed'',
        m (Unlink (B ''dd/ff'')) zero ''unlink dd/ff failed'',
        m (Unlink (B ''dd'')) nonzero ''unlink non-empty dd succeeded!'',
        m (Unlink (B ''dd/dd'')) nonneg ''unlink dd/dd failed'',
        m (Unlink (B ''dd'')) nonneg ''unlink dd failed''])"

section \<open>Large writes and files\<close>

definition bigwrite :: "bytes \<Rightarrow> 'z uworld_scheme \<Rightarrow> (unit, 'z uworld_scheme) ures" where
  "bigwrite s =
     (let f = B ''bigwrite'' in
      steps (quiet (Unlink f) #
        map (\<lambda>sz. steps [
          got (Open f CRW) (\<lambda>fd. fd \<ge> 0) (line ''%s: cannot create bigwrite'') [str s] (\<lambda>fd. steps [
            steps (replicate 2 (mustn (Write fd (replicate sz 0)) (\<lambda>cc. cc = int sz) (line ''%s: write(%d) ret %d'')
                                  (\<lambda>cc. [str s, num (int sz), num cc]))),
            quiet (Close fd)]),
          quiet (Unlink f)])
          (filter (\<lambda>sz. sz < BUFSZ) (map (\<lambda>k. 499 + 471 * k) [0..<BUFSZ]))))"

definition bigfile :: "bytes \<Rightarrow> 'z uworld_scheme \<Rightarrow> (unit, 'z uworld_scheme) ures" where
  "bigfile s =
     (let f = B ''bigfile.dat'' in
      steps [
        quiet (Unlink f),
        got (Open f CRW) (\<lambda>fd. fd \<ge> 0) ''%s: cannot create bigfile'' [str s] (\<lambda>fd. steps (
          map (\<lambda>i. must (Write fd (replicate 600 (of_nat i))) (\<lambda>n. n = 600) (line ''%s: write bigfile failed'') [str s]) [0..<20] @
          [quiet (Close fd)])),
        got (Open f 0) (\<lambda>fd. fd \<ge> 0) (line ''%s: cannot open bigfile'') [str s] (\<lambda>fd.
          via (uwhile (\<lambda>(i :: nat, total). via (read fd 300) (\<lambda>(cc, bs).
                 if cc < 0 then fails (line ''%s: read bigfile failed'') [str s]
                 else if cc = 0 then Ret (Inr total)
                 else if cc \<noteq> 300 then fails (line ''%s: short read bigfile'') [str s]
                 else if unat (bs ! 0) \<noteq> i div 2 \<or> unat (bs ! 299) \<noteq> i div 2 then fails (line ''%s: read bigfile wrong data'') [str s]
                 else Ret (Inl (i + 1, total + cc)))) (0, 0)) (\<lambda>total. steps [
            quiet (Close fd),
            check (total = 12000) (line ''%s: read bigfile wrong total'') [str s],
            quiet (Unlink f)]))])"

definition fourteen :: "bytes \<Rightarrow> 'z uworld_scheme \<Rightarrow> (unit, 'z uworld_scheme) ures" where
  "fourteen s =
     (let a = ''12345678901234''; b = ''123456789012345''; sl = (\<lambda>x y. x @ ''/'' @ y);
          m = (\<lambda>r ok msg. must r ok (line (''%s: '' @ msg)) [str s]);
          oc = (\<lambda>p fl msg. got (Open (B p) fl) (\<lambda>fd. fd \<ge> 0) (line (''%s: '' @ msg)) [str s] (\<lambda>fd. quiet (Close fd))) in
      steps [
        m (Mkdir (B a)) (\<lambda>n. n = 0) (''mkdir '' @ a @ '' failed''),
        m (Mkdir (B (sl a b))) (\<lambda>n. n = 0) (''mkdir '' @ sl a b @ '' failed''),
        oc (sl b (sl b b)) O_CREATE (''create '' @ sl b (sl b b) @ '' failed''),
        oc (sl a (sl a a)) 0 (''open '' @ sl a (sl a a) @ '' failed''),
        m (Mkdir (B (sl a a))) (\<lambda>n. n \<noteq> 0) (''mkdir '' @ sl a a @ '' succeeded!''),
        m (Mkdir (B (sl b a))) (\<lambda>n. n \<noteq> 0) (''mkdir '' @ sl a b @ '' succeeded!''),
        quiet (Unlink (B (sl b a))), quiet (Unlink (B (sl a a))), quiet (Unlink (B (sl a (sl a a)))),
        quiet (Unlink (B (sl b (sl b b)))), quiet (Unlink (B (sl a b))), quiet (Unlink (B a))])"

definition rmdot :: "bytes \<Rightarrow> 'z uworld_scheme \<Rightarrow> (unit, 'z uworld_scheme) ures" where
  "rmdot s =
     (let m = (\<lambda>r ok msg. must r ok (line (''%s: '' @ msg)) [str s]); zero = (\<lambda>n. n = 0); nonzero = (\<lambda>n. n \<noteq> 0) in
      steps [
        m (Mkdir (B ''dots'')) zero ''mkdir dots failed'',
        m (Chdir (B ''dots'')) zero ''chdir dots failed'',
        m (Unlink (B ''.'')) nonzero ''rm . worked!'',
        m (Unlink (B ''..'')) nonzero ''rm .. worked!'',
        m (Chdir (B ''/'')) zero ''chdir / failed'',
        m (Unlink (B ''dots/.'')) nonzero ''unlink dots/. worked!'',
        m (Unlink (B ''dots/..'')) nonzero ''unlink dots/.. worked!'',
        m (Unlink (B ''dots'')) zero ''unlink dots failed!''])"

definition dirfile :: "bytes \<Rightarrow> 'z uworld_scheme \<Rightarrow> (unit, 'z uworld_scheme) ures" where
  "dirfile s =
     (let m = (\<lambda>r ok msg. must r ok (line (''%s: '' @ msg)) [str s]); nonzero = (\<lambda>n. n \<noteq> 0); neg = (\<lambda>n. n < 0); xx = B ''dirfile/xx'' in
      steps [
        got (Open (B ''dirfile'') O_CREATE) (\<lambda>fd. fd \<ge> 0) (line ''%s: create dirfile failed'') [str s] (\<lambda>fd. quiet (Close fd)),
        m (Chdir (B ''dirfile'')) nonzero ''chdir dirfile succeeded!'',
        m (Open xx 0) neg ''create dirfile/xx succeeded!'',
        m (Open xx O_CREATE) neg ''create dirfile/xx succeeded!'',
        m (Mkdir xx) nonzero ''mkdir dirfile/xx succeeded!'',
        m (Unlink xx) nonzero ''unlink dirfile/xx succeeded!'',
        m (Link (B ''README'') xx) nonzero ''link to dirfile/xx succeeded!'',
        m (Unlink (B ''dirfile'')) (\<lambda>n. n = 0) ''unlink dirfile failed!'',
        m (Open (B ''.'') O_RDWR) neg ''open . for writing succeeded!'',
        via (call (Open (B ''.'') 0)) (\<lambda>fd. steps [m (Write fd (B ''x'')) (\<lambda>n. n \<le> 0) ''write . succeeded!'', quiet (Close fd)])])"

definition iref :: "bytes \<Rightarrow> 'z uworld_scheme \<Rightarrow> (unit, 'z uworld_scheme) ures" where
  "iref s =
     (let oc = (\<lambda>p. via (call (Open p O_CREATE)) (\<lambda>fd. if fd \<ge> 0 then quiet (Close fd) else pass)) in
      steps (
        replicate (NINODE + 1) (steps [
          must (Mkdir (B ''irefd'')) (\<lambda>n. n = 0) (line ''%s: mkdir irefd failed'') [str s],
          must (Chdir (B ''irefd'')) (\<lambda>n. n = 0) (line ''%s: chdir irefd failed'') [str s],
          quiet (Mkdir []), quiet (Link (B ''README'') []), oc [], oc (B ''xx''), quiet (Unlink (B ''xx''))]) @
        replicate (NINODE + 1) (steps [quiet (Chdir (B ''..'')), quiet (Unlink (B ''irefd''))]) @
        [quiet (Chdir (B ''/''))]))"

end
