(* ===== verification/TestsSlow.thy ===== *)
theory TestsSlow
  imports TestsDir
begin

unbundle bit_operations_syntax

text \<open>
  The slow tests of \<^verbatim>\<open>user/usertests.c\<close>: large directories, many writers, and a system that runs out of memory, blocks or inodes; and
  \<^verbatim>\<open>fsfull\<close>, that no table of tests names.
\<close>

abbreviation (input) fsfull_name :: "nat \<Rightarrow> bytes" where
  "fsfull_name n \<equiv>
     [of_char CHR ''f'', chr_at 48 (n div 1000), chr_at 48 ((n mod 1000) div 100), chr_at 48 ((n mod 100) div 10), chr_at 48 (n mod 10)]"

definition fsfull :: "'z uworld_scheme \<Rightarrow> (unit, 'z uworld_scheme) ures" where
  "fsfull = steps [
     prints (line ''fsfull test'') [],
     via (uwhile (\<lambda>nfiles.
            let name = fsfull_name nfiles in
            via (prints (line ''writing %s'') [str name]) (\<lambda>_.
            via (call (Open name CRW)) (\<lambda>fd.
            if fd < 0 then via (prints (line ''open %s failed'') [str name]) (\<lambda>_. Ret (Inr nfiles))
            else
              via (uwhile (\<lambda>total. via (call (Write fd (replicate BSIZE 0))) (\<lambda>cc.
                     if cc < int BSIZE then Ret (Inr total) else Ret (Inl (total + cc)))) 0) (\<lambda>total.
              via (steps [prints (line ''wrote %d bytes'') [num total], quiet (Close fd)]) (\<lambda>_.
              if total = 0 then Ret (Inr nfiles) else Ret (Inl (nfiles + 1))))))) 0)
       (\<lambda>nfiles. steps (map (\<lambda>n. quiet (Unlink (fsfull_name n))) (rev [0..<nfiles + 1]))),
     prints (line ''fsfull test finished'') []]"

definition bigdir :: "bytes \<Rightarrow> 'z uworld_scheme \<Rightarrow> (unit, 'z uworld_scheme) ures" where
  "bigdir s =
     (let name = (\<lambda>i. [of_char CHR ''x'', chr_at 48 (i div 64), chr_at 48 (i mod 64)]) in
      steps (
        [quiet (Unlink (B ''bd'')),
         got (Open (B ''bd'') O_CREATE) (\<lambda>fd. fd \<ge> 0) (line ''%s: bigdir create failed'') [str s] (\<lambda>fd. quiet (Close fd))] @
        map (\<lambda>i. must (Link (B ''bd'') (name i)) (\<lambda>n. n = 0) (line ''%s: bigdir i=%d link(bd, %s) failed'')
                   [str s, num (int i), str (name i)]) [0..<500] @
        [quiet (Unlink (B ''bd''))] @
        map (\<lambda>i. must (Unlink (name i)) (\<lambda>n. n = 0) ''%s: bigdir unlink failed'' [str s]) [0..<500]))"

definition manywrites :: "bytes \<Rightarrow> 'z uworld_scheme \<Rightarrow> (unit, 'z uworld_scheme) ures" where
  "manywrites s = steps (
     map (\<lambda>ci. forked (fails (line ''fork failed'') [])
       (let name = [of_char CHR ''b'', chr_at (of_char CHR ''a'') ci] in
        steps (
          quiet (Unlink name) #
          replicate 30 (steps [
            steps (replicate (ci + 1) (
              got (Open name CRW) (\<lambda>fd. fd \<ge> 0) (line ''%s: cannot create %s'') [str s, str name] (\<lambda>fd. steps [
                mustn (Write fd (replicate BUFSZ 0)) (\<lambda>cc. cc = int BUFSZ) (line ''%s: write(%d) ret %d'')
                  (\<lambda>cc. [str s, num (int BUFSZ), num cc]),
                quiet (Close fd)]))),
            quiet (Unlink name)]) @
          [quiet (Unlink name), exit 0]))
       (\<lambda>_. pass)) [0..<4] @
     replicate 4 (reap 0 (\<lambda>st. if st \<noteq> 0 then exit st else pass)) @
     [exit 0])"

definition badwrite :: "bytes \<Rightarrow> 'z uworld_scheme \<Rightarrow> (unit, 'z uworld_scheme) ures" where
  "badwrite s =
     (let f = B ''junk'' in
      steps (
        [quiet (Unlink f)] @
        replicate 600 (got (Open f (O_CREATE OR O_WRONLY)) (\<lambda>fd. fd \<ge> 0) (line ''open junk failed'') [] (\<lambda>fd. steps [
          quiet (Raw ''write'' [fd, 0xffffffffff, 1]), quiet (Close fd), quiet (Unlink f)])) @
        [got (Open f (O_CREATE OR O_WRONLY)) (\<lambda>fd. fd \<ge> 0) (line ''open junk failed'') [] (\<lambda>fd. steps [
           must (Write fd (B ''x'')) (\<lambda>n. n = 1) (line ''write failed'') [],
           quiet (Close fd), quiet (Unlink f)]),
         exit 0]))"

text \<open>All of memory, page by page, with a write to the last byte of each.\<close>

definition execout :: "bytes \<Rightarrow> 'z uworld_scheme \<Rightarrow> (unit, 'z uworld_scheme) ures" where
  "execout s = steps (
     map (\<lambda>avail. forked (fails (line ''fork failed'') [])
       (steps [
          uwhile (\<lambda>_. via (sbrk 4096) (\<lambda>a. if a = - 1 then Ret (Inr ()) else via (store (a + 4096 - 1) 1) (\<lambda>_. Ret (Inl ())))) (),
          steps (replicate avail (quiet (Sbrk (- 4096) SBRK_EAGER))),
          quiet (Close 1),
          waits (exec (B ''echo'') [B ''echo'', B ''x'']),
          exit 0])
       (\<lambda>_. waits (wait 0))) [0..<15] @
     [exit 0])"

abbreviation (input) zz_name :: "nat \<Rightarrow> bytes" where
  "zz_name i \<equiv> [of_char CHR ''z'', of_char CHR ''z'', chr_at 48 (i div 32), chr_at 48 (i mod 32)]"

text \<open>The files \<^verbatim>\<open>zz..\<close> are created until that fails. A loop that is left early has a flag that says so.\<close>

abbreviation (input) create_zz :: "nat \<Rightarrow> 'z uworld_scheme \<Rightarrow> (unit, 'z uworld_scheme) ures" where
  "create_zz nzz \<equiv> via (ufold (\<lambda>i stop.
     if stop then Ret True
     else via (quiet (Unlink (zz_name i))) (\<lambda>_.
          via (call (Open (zz_name i) (O_CREATE OR O_RDWR OR O_TRUNC))) (\<lambda>fd.
          if fd < 0 then Ret True else via (quiet (Close fd)) (\<lambda>_. Ret False)))) [0..<nzz] False) (\<lambda>_. pass)"

definition diskfull :: "bytes \<Rightarrow> bytes \<Rightarrow> 'z uworld_scheme \<Rightarrow> (unit, 'z uworld_scheme) ures" where
  "diskfull junk s =
     (let name = (\<lambda>i. B ''big'' @ [chr_at 48 i]); files = [0..<127 - 48] in
      steps (
        [quiet (Unlink (B ''diskfulldir'')),
         via (ufold (\<lambda>fi fin.
           if fin then Ret True
           else via (quiet (Unlink (name fi))) (\<lambda>_.
             via (call (Open (name fi) (O_CREATE OR O_RDWR OR O_TRUNC))) (\<lambda>fd.
             if fd < 0 then via (prints (line ''%s: could not create file %s'') [str s, str (name fi)]) (\<lambda>_. Ret True)
             else
               via (ufold (\<lambda>_ fin.
                 if fin then Ret True
                 else via (call (Write fd (take BSIZE junk))) (\<lambda>n.
                   if n \<noteq> int BSIZE then via (quiet (Close fd)) (\<lambda>_. Ret True) else Ret False)) [0..<MAXFILE] False) (\<lambda>fin.
               via (quiet (Close fd)) (\<lambda>_. Ret fin))))) files False) (\<lambda>_. pass),
         create_zz 128,
         via (call (Mkdir (B ''diskfulldir''))) (\<lambda>n.
           if n = 0 then prints (line ''%s: mkdir(diskfulldir) unexpectedly succeeded!'') [str s] else pass),
         quiet (Unlink (B ''diskfulldir''))] @
        map (\<lambda>i. quiet (Unlink (zz_name i))) [0..<128] @
        map (\<lambda>i. quiet (Unlink (name i))) files))"

definition outofinodes :: "bytes \<Rightarrow> 'z uworld_scheme \<Rightarrow> (unit, 'z uworld_scheme) ures" where
  "outofinodes s = steps (create_zz 1024 # map (\<lambda>i. quiet (Unlink (zz_name i))) [0..<1024])"

end
