(* ===== verification/TestsProc.thy ===== *)
theory TestsProc
  imports TestsSlow
begin

unbundle bit_operations_syntax

text \<open>
  The tests of processes and pipes in \<^verbatim>\<open>user/usertests.c\<close>. The answer to \<^verbatim>\<open>fork\<close> says which of the two processes is followed. Tests whose name
  is taken by the kernel or by another program end in \<open>_test\<close>.
\<close>

section \<open>Pipes\<close>

text \<open>The byte that the writer puts at place \<open>i\<close> of the stream, and the check of the bytes read against it.\<close>

abbreviation (input) seq_byte :: "nat \<Rightarrow> byte" where
  "seq_byte i \<equiv> of_nat i"

text \<open>What the reader has left to do: it read \<open>total\<close> bytes so far and asks for \<open>cc\<close>. \<open>None\<close> is the return after a wrong byte.\<close>

definition pipe1_round :: "bytes \<Rightarrow> int \<Rightarrow> nat \<times> nat \<Rightarrow> 'z uworld_scheme \<Rightarrow> ((nat \<times> nat) + nat option, 'z uworld_scheme) ures" where
  "pipe1_round s fd = (\<lambda>(total, cc). via (read fd cc) (\<lambda>(n, bs).
     if n > 0 then
       if bs \<noteq> map seq_byte [total..<total + length bs] then
         via (prints (line ''%s: pipe1 oops 2'') [str s]) (\<lambda>_. Ret (Inr None))
       else Ret (Inl (total + length bs, min (cc * 2) BUFSZ))
     else Ret (Inr (Some total))))"

definition pipe1 :: "int \<Rightarrow> bytes \<Rightarrow> 'z uworld_scheme \<Rightarrow> (unit, 'z uworld_scheme) ures" where
  "pipe1 x s = piped (line ''%s: pipe() failed'') [str s] (\<lambda>p q.
     forked (fails (line ''%s: fork() failed'') [str s])
       (steps (
          [quiet (Close p)] @
          map (\<lambda>n. must (Write q (map seq_byte [n * 1033..<(n + 1) * 1033])) (\<lambda>r. r = 1033) (line ''%s: pipe1 oops 1'') [str s]) [0..<5] @
          [exit 0]))
       (\<lambda>_. steps [
          quiet (Close q),
          via (uwhile (pipe1_round s p) (0, 1)) (\<lambda>r. case r of
            None \<Rightarrow> pass
          | Some tot \<Rightarrow> steps [
              check (tot = 5 * 1033) (line ''%s: pipe1 oops 3 total %d'') [str s, num (int tot)],
              quiet (Close p),
              reap x exit])]))"

section \<open>Processes\<close>

definition killstatus :: "int \<Rightarrow> bytes \<Rightarrow> 'z uworld_scheme \<Rightarrow> (unit, 'z uworld_scheme) ures" where
  "killstatus x s = steps [
     via (ufold (\<lambda>_ x. forked (fails (line ''%s: fork failed'') [str s])
       (uwhile (\<lambda>_. via (call Getpid) (\<lambda>_. Ret (Inl ()))) ())
       (\<lambda>pid. via (steps [pauses_for 1, quiet (Kill pid)]) (\<lambda>_.
          reap x (\<lambda>st. if st \<noteq> - 1 then fails (line ''%s: status should be -1'') [str s] else Ret st)))) [0..<(100::nat)] x) (\<lambda>_. pass),
     exit 0]"

text \<open>\<^verbatim>\<open>for(;;) ;\<close> makes no call and never ends. The ends of the pipe are 0 if \<^verbatim>\<open>pipe\<close>, whose result is dropped, fails.\<close>

definition preempt :: "bytes \<Rightarrow> 'z uworld_scheme \<Rightarrow> (unit, 'z uworld_scheme) ures" where
  "preempt s =
     forked (fails ''%s: fork failed'' [str s]) Blocked (\<lambda>pid1.
     forked (fails (line ''%s: fork failed'') [str s]) Blocked (\<lambda>pid2.
     via upipe (\<lambda>(_, p, q).
     forked (fails (line ''%s: fork failed'') [str s])
       (steps [
          quiet (Close p),
          via (call (Write q (B ''x''))) (\<lambda>n. if n \<noteq> 1 then prints ''%s: preempt write error'' [str s] else pass),
          quiet (Close q),
          Blocked])
       (\<lambda>pid3. steps [
          quiet (Close q),
          reads p BUFSZ (\<lambda>n. n = 1) (\<lambda>_. prints ''%s: preempt read error'' [str s]) (\<lambda>_. steps [
            quiet (Close p),
            prints ''kill... '' [], quiet (Kill pid1), quiet (Kill pid2), quiet (Kill pid3),
            prints ''wait... '' [], waits (wait 0), waits (wait 0), waits (wait 0)])]))))"

definition exitwait :: "int \<Rightarrow> bytes \<Rightarrow> 'z uworld_scheme \<Rightarrow> (unit, 'z uworld_scheme) ures" where
  "exitwait x s = steps (map (\<lambda>i. forked (fails (line ''%s: fork failed'') [str s])
     (exit i)
     (\<lambda>pid. via (wait x) (\<lambda>(r, st).
        if r \<noteq> pid then fails (line ''%s: wait wrong pid'') [str s]
        else check (i = st) (line ''%s: wait wrong exit status'') [str s]))) [0..99])"

definition reparent_test :: "bytes \<Rightarrow> 'z uworld_scheme \<Rightarrow> (unit, 'z uworld_scheme) ures" where
  "reparent_test s = via (call Getpid) (\<lambda>master_pid. steps [
     steps (replicate 200 (forked (fails (line ''%s: fork failed'') [str s])
       (forked (steps [quiet (Kill master_pid), exit 1]) (exit 0) (\<lambda>_. exit 0))
       (\<lambda>pid. via (wait 0) (\<lambda>r. check (fst r = pid) (line ''%s: wait wrong pid'') [str s])))),
     exit 0])"

definition twochildren :: "bytes \<Rightarrow> 'z uworld_scheme \<Rightarrow> (unit, 'z uworld_scheme) ures" where
  "twochildren s = steps (replicate 1000 (
     forked (fails (line ''%s: fork failed'') [str s]) (exit 0) (\<lambda>_.
     forked (fails (line ''%s: fork failed'') [str s]) (exit 0) (\<lambda>_. steps [waits (wait 0), waits (wait 0)]))))"

definition forkfork :: "int \<Rightarrow> bytes \<Rightarrow> 'z uworld_scheme \<Rightarrow> (unit, 'z uworld_scheme) ures" where
  "forkfork x s = steps [
     steps (replicate 2 (forked (fails ''%s: fork failed'' [str s])
       (steps [steps (replicate 200 (forked (exit 1) (exit 0) (\<lambda>_. waits (wait 0)))), exit 0])
       (\<lambda>_. pass))),
     via (ufold (\<lambda>_ x. reap x (\<lambda>st. if st \<noteq> 0 then fails ''%s: fork in child failed'' [str s] else Ret st)) [0..<(2::nat)] x) (\<lambda>_. pass)]"

definition forkforkfork :: "bytes \<Rightarrow> 'z uworld_scheme \<Rightarrow> (unit, 'z uworld_scheme) ures" where
  "forkforkfork s =
     (let f = B ''stopforking'' in
      steps [
        quiet (Unlink f),
        forked (fails ''%s: fork failed'' [str s])
          (uwhile (\<lambda>_. via (call (Open f 0)) (\<lambda>fd.
             if fd \<ge> 0 then exit 0
             else via (call Fork) (\<lambda>pid. via (if pid < 0 then open_close f CRW else pass) (\<lambda>_. Ret (Inl ()))))) ())
          (\<lambda>_. steps [pauses_for 20, open_close f CRW, waits (wait 0), pauses_for 10])])"

definition reparent2 :: "bytes \<Rightarrow> 'z uworld_scheme \<Rightarrow> (unit, 'z uworld_scheme) ures" where
  "reparent2 s = steps [
     steps (replicate 800 (forked (fails (line ''fork failed'') [])
       (steps [quiet Fork, quiet Fork, exit 0])
       (\<lambda>_. waits (wait 0)))),
     exit 0]"

definition forktest_test :: "bytes \<Rightarrow> 'z uworld_scheme \<Rightarrow> (unit, 'z uworld_scheme) ures" where
  "forktest_test s =
     via (ufold (\<lambda>_ (n, stop). if stop then Ret (n, True)
            else forked (Ret (n, True)) (exit 0) (\<lambda>_. Ret (n + 1, False))) [0..<(1000::nat)] (0 :: nat, False)) (\<lambda>(n, _). steps [
       check (n \<noteq> 0) (line ''%s: no fork at all!'') [str s],
       check (n \<noteq> 1000) (line ''%s: fork claimed to work 1000 times!'') [str s],
       steps (replicate n (via (wait 0) (\<lambda>r. check (fst r \<ge> 0) (line ''%s: wait stopped early'') [str s]))),
       via (wait 0) (\<lambda>r. check (fst r = - 1) (line ''%s: wait got too many'') [str s])])"

definition bigargtest :: "int \<Rightarrow> bytes \<Rightarrow> 'z uworld_scheme \<Rightarrow> (unit, 'z uworld_scheme) ures" where
  "bigargtest x s = steps [
     quiet (Unlink (B ''bigarg-ok'')),
     forked (fails (line ''%s: bigargtest: fork failed'') [str s])
       (steps [
          waits (exec (B ''echo'') (replicate (MAXARG - 1) (replicate 399 (of_char CHR '' '')))),
          open_close (B ''bigarg-ok'') O_CREATE,
          exit 0])
       (\<lambda>_. reap x (\<lambda>st. if st \<noteq> 0 then exit st else pass)),
     got (Open (B ''bigarg-ok'') 0) (\<lambda>fd. fd \<ge> 0) (line ''%s: bigarg test failed!'') [str s] (\<lambda>fd. quiet (Close fd))]"

section \<open>All the memory that malloc gives\<close>

text \<open>\<open>n\<close> bounds the searches of the free list and \<open>k\<close> the number of blocks; a test that runs over either is not finished.\<close>

definition malloc_n :: "nat \<Rightarrow> nat \<Rightarrow> 'z uheap_scheme \<Rightarrow> (nat option, 'z uheap_scheme) ures" where
  "malloc_n n nbytes w = (case malloc n nbytes w of Some r \<Rightarrow> r | None \<Rightarrow> Blocked w)"

definition free_n :: "nat \<Rightarrow> nat \<Rightarrow> 'z uheap_scheme \<Rightarrow> (unit, 'z uheap_scheme) ures" where
  "free_n n m w = (case free n m w of Some w \<Rightarrow> Ret () w | None \<Rightarrow> Blocked w)"

fun mem_fill :: "nat \<Rightarrow> nat \<Rightarrow> nat list \<Rightarrow> 'z uheap_scheme \<Rightarrow> (nat list, 'z uheap_scheme) ures" where
  "mem_fill n 0 ms w = Blocked w"
| "mem_fill n (Suc k) ms w = ubnd (malloc_n n 10001 w) (\<lambda>r. case r of None \<Rightarrow> Ret ms | Some m \<Rightarrow> mem_fill n k (m # ms))"

definition mem_test :: "nat \<Rightarrow> nat \<Rightarrow> int \<Rightarrow> bytes \<Rightarrow> 'z uheap_scheme \<Rightarrow> (unit, 'z uheap_scheme) ures" where
  "mem_test n k x s = via (call Fork) (\<lambda>pid.
     if pid = 0 then steps [
       via (mem_fill n k []) (\<lambda>ms. steps (map (free_n n) ms)),
       via (malloc_n n (1024 * 20)) (\<lambda>r. case r of
         None \<Rightarrow> fails (line (''%s: couldn'' @ CHR 0x27 # ''t allocate mem?!!'')) [str s]
       | Some m \<Rightarrow> free_n n m),
       exit 0]
     else reap x (\<lambda>st. if st = - 1 then exit 0 else exit st))"

end
