(* ===== verification/TestsMem.thy ===== *)
theory TestsMem
  imports TestsProc
begin

unbundle bit_operations_syntax

text \<open>
  The tests of \<^verbatim>\<open>user/usertests.c\<close> that pass wild pointers to system calls, read and write memory that the process may not have, and move the
  end of its memory. Addresses are integers; \<^verbatim>\<open>SBRK_ERROR\<close> is -1.
\<close>

section \<open>Wild pointers\<close>

abbreviation (input) wild_addrs :: "int list" where
  "wild_addrs \<equiv> [0x80000000, 0x3fffffe000, 0x3ffffff000, 0x4000000000, 0xffffffffffffffff]"

definition copyin_test :: "bytes \<Rightarrow> 'z uworld_scheme \<Rightarrow> (unit, 'z uworld_scheme) ures" where
  "copyin_test s = steps (map (\<lambda>addr. steps [
     got (Open (B ''copyin1'') (O_CREATE OR O_WRONLY)) (\<lambda>fd. fd \<ge> 0) (line ''open(copyin1) failed'') [] (\<lambda>fd. steps [
       mustn (Raw ''write'' [fd, addr, 8192]) (\<lambda>n. n < 0) (line ''write(fd, %p, 8192) returned %d, not -1'') (\<lambda>n. [num addr, num n]),
       quiet (Close fd)]),
     quiet (Unlink (B ''copyin1'')),
     mustn (Raw ''write'' [1, addr, 8192]) (\<lambda>n. n \<le> 0) (line ''write(1, %p, 8192) returned %d, not -1 or 0'') (\<lambda>n. [num addr, num n]),
     piped (line ''pipe() failed'') [] (\<lambda>p q. steps [
       mustn (Raw ''write'' [q, addr, 8192]) (\<lambda>n. n \<le> 0) (line ''write(pipe, %p, 8192) returned %d, not -1 or 0'') (\<lambda>n. [num addr, num n]),
       quiet (Close p), quiet (Close q)])]) wild_addrs)"

definition copyout_test :: "bytes \<Rightarrow> 'z uworld_scheme \<Rightarrow> (unit, 'z uworld_scheme) ures" where
  "copyout_test s = steps (map (\<lambda>addr. steps [
     got (Open (B ''README'') 0) (\<lambda>fd. fd \<ge> 0) (line ''open(README) failed'') [] (\<lambda>fd. steps [
       mustn (Raw ''read'' [fd, addr, 8192]) (\<lambda>n. n \<le> 0) (line ''read(fd, %p, 8192) returned %d, not -1 or 0'') (\<lambda>n. [num addr, num n]),
       quiet (Close fd)]),
     piped (line ''pipe() failed'') [] (\<lambda>p q. steps [
       must (Write q (B ''x'')) (\<lambda>n. n = 1) (line ''pipe write failed'') [],
       mustn (Raw ''read'' [p, addr, 8192]) (\<lambda>n. n \<le> 0) (line ''read(pipe, %p, 8192) returned %d, not -1 or 0'') (\<lambda>n. [num addr, num n]),
       quiet (Close p), quiet (Close q)])]) (0 # wild_addrs))"

definition copyinstr1 :: "bytes \<Rightarrow> 'z uworld_scheme \<Rightarrow> (unit, 'z uworld_scheme) ures" where
  "copyinstr1 s = steps (map (\<lambda>addr.
     mustn (Raw ''open'' [addr, uint (O_CREATE OR O_WRONLY)]) (\<lambda>fd. fd < 0) (line ''open(%p) returned %d, not -1'') (\<lambda>fd. [num addr, num fd]))
     wild_addrs)"

text \<open>The messages about \<^verbatim>\<open>exec\<close> print the descriptor of the earlier \<^verbatim>\<open>open\<close>, which is -1 by then.\<close>

definition copyinstr2 :: "bytes \<Rightarrow> 'z uworld_scheme \<Rightarrow> (unit, 'z uworld_scheme) ures" where
  "copyinstr2 s =
     (let b = replicate MAXPATH (of_char CHR ''x''); big = replicate 4096 (of_char CHR ''x''); failed = (\<lambda>n. n = - 1) in
      steps [
        mustn (Unlink b) failed (line ''unlink(%s) returned %d, not -1'') (\<lambda>n. [str b, num n]),
        mustn (Open b (O_CREATE OR O_WRONLY)) failed (line ''open(%s) returned %d, not -1'') (\<lambda>n. [str b, num n]),
        mustn (Link b b) failed (line ''link(%s, %s) returned %d, not -1'') (\<lambda>n. [str b, str b, num n]),
        via (exec b [B ''xx'']) (\<lambda>n. check (n = - 1) (line ''exec(%s) returned %d, not -1'') [str b, num (- 1)]),
        forked (fails (line ''fork failed'') [])
          (steps [
             via (exec (B ''echo'') [big, big, big]) (\<lambda>n. check (n = - 1) (line ''exec(echo, BIG) returned %d, not -1'') [num (- 1)]),
             exit 747])
          (\<lambda>_. reap 0 (\<lambda>st. check (st = 747) (line ''exec(echo, BIG) succeeded, should have failed'') []))])"

text \<open>\<^verbatim>\<open>%s\<close> with a pointer into memory that may end: the bytes are read and printed one by one.\<close>

definition print_raw :: "int \<Rightarrow> 'z uworld_scheme \<Rightarrow> (unit, 'z uworld_scheme) ures" where
  "print_raw = uwhile (\<lambda>p. via (load p) (\<lambda>c w. if c = 0 then Ret (Inr ()) w else Ret (Inl (p + 1)) (putc 1 (word_of_int c) w)))"

abbreviation (input) sbrk_quiet :: "int \<Rightarrow> 'z uworld_scheme \<Rightarrow> (unit, 'z uworld_scheme) ures" where
  "sbrk_quiet n \<equiv> quiet (Sbrk (i32 n) SBRK_EAGER)"

definition copyinstr3 :: "bytes \<Rightarrow> 'z uworld_scheme \<Rightarrow> (unit, 'z uworld_scheme) ures" where
  "copyinstr3 s = steps [
     sbrk_quiet 8192,
     via (sbrk 0) (\<lambda>top. if top mod 4096 \<noteq> 0 then sbrk_quiet (4096 - top mod 4096) else pass),
     via (sbrk 0) (\<lambda>top.
       let b = top - 1;
           raw = (\<lambda>f as shown. via (call (Raw f as)) (\<lambda>n.
             if n = - 1 then pass else steps [shown, prints (line '') returned %d, not -1'') [num n], exit 1])) in
       if top mod 4096 \<noteq> 0 then fails (line ''oops'') []
       else steps [
         store b 120,
         raw ''unlink'' [b] (steps [prints ''unlink('' [], print_raw b]),
         raw ''open'' [b, uint (O_CREATE OR O_WRONLY)] (steps [prints ''open('' [], print_raw b]),
         raw ''link'' [b, b] (steps [prints ''link('' [], print_raw b, prints '', '' [], print_raw b]),
         via (call (Raw ''exec'' [b])) (\<lambda>n w.
           if n = - 1 then Ret () w
           else if n < 0 then steps [prints ''exec('' [], print_raw b, prints (line '') returned %d, not -1'') [num (- 1)], exit 1] w
           else Execed [] [B ''xx''] w)])]"

definition rwsbrk :: "bytes \<Rightarrow> 'z uworld_scheme \<Rightarrow> (unit, 'z uworld_scheme) ures" where
  "rwsbrk s = via (sbrk 8192) (\<lambda>a. if a = - 1 then fails (line ''sbrk(rwsbrk) failed'') [] else steps [
     via (sbrk (- 8192)) (\<lambda>r. check (r \<noteq> - 1) (line ''sbrk(rwsbrk) shrink failed'') []),
     got (Open (B ''rwsbrk'') (O_CREATE OR O_WRONLY)) (\<lambda>fd. fd \<ge> 0) (line ''open(rwsbrk) failed'') [] (\<lambda>fd. steps [
       mustn (Raw ''write'' [fd, a + 4096, 1024]) (\<lambda>n. n < 0) (line ''write(fd, %p, 1024) returned %d, not -1'') (\<lambda>n. [num (a + 4096), num n]),
       quiet (Close fd), quiet (Unlink (B ''rwsbrk''))]),
     got (Open (B ''README'') O_RDONLY) (\<lambda>fd. fd \<ge> 0) (line ''open(README) failed'') [] (\<lambda>fd. steps [
       mustn (Raw ''read'' [fd, a + 4096, 10]) (\<lambda>n. n < 0) (line ''read(fd, %p, 10) returned %d, not -1'') (\<lambda>n. [num (a + 4096), num n]),
       quiet (Close fd)]),
     exit 0])"

text \<open>An argument that is no string, and a descriptor array or argument vector that is not there.\<close>

definition validatetest :: "bytes \<Rightarrow> 'z uworld_scheme \<Rightarrow> (unit, 'z uworld_scheme) ures" where
  "validatetest s = steps (map (\<lambda>p. must (Raw ''link nosuchfile'' [p]) (\<lambda>n. n = - 1) (line ''%s: link should not succeed'') [str s])
     (filter (\<lambda>p. p \<le> 1100 * 1024) (map (\<lambda>k. 4096 * k) [0..1100])))"

definition bsstest :: "bytes \<Rightarrow> bytes \<Rightarrow> 'z uworld_scheme \<Rightarrow> (unit, 'z uworld_scheme) ures" where
  "bsstest uninit s = check (list_all (\<lambda>c. c = 0) uninit) (line ''%s: bss test failed'') [str s]"

definition argptest :: "bytes \<Rightarrow> 'z uworld_scheme \<Rightarrow> (unit, 'z uworld_scheme) ures" where
  "argptest s = got (Open (B ''init'') O_RDONLY) (\<lambda>fd. fd \<ge> 0) (line ''%s: open failed'') [str s] (\<lambda>fd. steps [
     via (sbrk 0) (\<lambda>p. waits (call (Raw ''read'' [fd, p - 1, - 1]))),
     quiet (Close fd)])"

definition pgbug :: "bytes \<Rightarrow> 'z uworld_scheme \<Rightarrow> (unit, 'z uworld_scheme) ures" where
  "pgbug s = steps [exec_raw [0xeaeb0b5b00002f5e, 0], quiet (Raw ''pipe'' [0xeaeb0b5b00002f5e]), exit 0]"

definition badarg :: "bytes \<Rightarrow> 'z uworld_scheme \<Rightarrow> (unit, 'z uworld_scheme) ures" where
  "badarg s = steps [
     steps (replicate 50000 (via (call (Raw ''exec echo'' [0xffffffff, 0])) (\<lambda>n w. if n < 0 then Ret () w else Execed (B ''echo'') [] w))),
     exit 0]"

section \<open>Forbidden memory\<close>

text \<open>A child that should die by the access it makes: its status is -1, or, for \<open>nowrite\<close>, not 0.\<close>

definition kernmem :: "int \<Rightarrow> bytes \<Rightarrow> 'z uworld_scheme \<Rightarrow> (unit, 'z uworld_scheme) ures" where
  "kernmem x s = steps (map (\<lambda>k. let a = 0x80000000 + 50000 * k in
     forked (fails (line ''%s: fork failed'') [str s])
       (via (load a) (\<lambda>v. fails (line ''%s: oops could read %p = %x'') [str s, num a, num v]))
       (\<lambda>_. reap x (\<lambda>st. if st \<noteq> - 1 then exit 1 else pass))) (filter (\<lambda>k. 50000 * k < 2000000) [0..100]))"

definition MAXVAplus :: "int \<Rightarrow> bytes \<Rightarrow> 'z uworld_scheme \<Rightarrow> (unit, 'z uworld_scheme) ures" where
  "MAXVAplus x s = steps (map (\<lambda>k. let a = 2 ^ k in
     forked (fails (line ''%s: fork failed'') [str s])
       (via (store a 99) (\<lambda>_. fails (line ''%s: oops wrote %p'') [str s, num a]))
       (\<lambda>_. reap x (\<lambda>st. if st \<noteq> - 1 then exit 1 else pass))) [38..<64])"

definition stacktest :: "int \<Rightarrow> int \<Rightarrow> bytes \<Rightarrow> 'z uworld_scheme \<Rightarrow> (unit, 'z uworld_scheme) ures" where
  "stacktest sp x s = forked (fails (line ''%s: fork failed'') [str s])
     (via (load (sp - int USERSTACK * 4096)) (\<lambda>v. fails (line ''%s: stacktest: read below stack %d'') [str s, num v]))
     (\<lambda>_. reap x (\<lambda>st. if st = - 1 then exit 0 else exit st))"

definition nowrite :: "int \<Rightarrow> bytes \<Rightarrow> 'z uworld_scheme \<Rightarrow> (unit, 'z uworld_scheme) ures" where
  "nowrite x s = steps [
     via (ufold (\<lambda>addr x. forked (fails (line ''%s: fork failed'') [str s])
            (via (store addr 10) (\<lambda>_. via (prints (line ''%s: write to %p did not fail!'') [str s, num addr]) (\<lambda>_. exit 0)))
            (\<lambda>_. reap x (\<lambda>st. if st = 0 then exit 1 else Ret st))) (0 # wild_addrs) x) (\<lambda>_. pass),
     exit 0]"

end
