(* ===== verification/TestsSbrk.thy ===== *)
theory TestsSbrk
  imports TestsMem
begin

unbundle bit_operations_syntax

text \<open>
  The tests of \<^verbatim>\<open>sbrk\<close> and of lazy allocation in \<^verbatim>\<open>user/usertests.c\<close>. The argument of \<^verbatim>\<open>sbrk\<close> is an \<^verbatim>\<open>int\<close>: a size computed in 64 bits
  is cut to 32.
\<close>

section \<open>Growing and shrinking\<close>

abbreviation (input) BIG :: int where "BIG \<equiv> 100 * 1024 * 1024"

definition sbrkbasic :: "int \<Rightarrow> bytes \<Rightarrow> 'z uworld_scheme \<Rightarrow> (unit, 'z uworld_scheme) ures" where
  "sbrkbasic x s = forked (fails (line ''fork failed in sbrkbasic'') [])
     (via (sbrk 0x40000000) (\<lambda>a.
        if a = - 1 then exit 0
        else steps [steps (map (\<lambda>k. store (a + 4096 * k) 99) [0..0x40000 - 1]), exit 1]))
     (\<lambda>_. reap x (\<lambda>st.
        if st = 1 then fails (line ''%s: too much memory allocated!'') [str s]
        else
          via (sbrk 0) (\<lambda>a.
          via (ufold (\<lambda>i a. via (sbrk 1) (\<lambda>b.
                 if b \<noteq> a then fails (line ''%s: sbrk test failed %d %p %p'') [str s, num i, num a, num b]
                 else via (store b 1) (\<lambda>_. Ret (b + 1)))) [0..4999] a) (\<lambda>a.
          via (call Fork) (\<lambda>pid.
            if pid < 0 then fails (line ''%s: sbrk test fork failed'') [str s]
            else steps [
              sbrk_quiet 1,
              via (sbrk 1) (\<lambda>c. check (c = a + 1) (line ''%s: sbrk test failed post-fork'') [str s]),
              if pid = 0 then exit 0 else reap st exit])))))"

definition sbrkmuch :: "bytes \<Rightarrow> 'z uworld_scheme \<Rightarrow> (unit, 'z uworld_scheme) ures" where
  "sbrkmuch s = via (sbrk 0) (\<lambda>oldbrk. steps [
     via (sbrk 0) (\<lambda>a. via (sbrk (i32 (BIG - a))) (\<lambda>p.
       check (p = a) (line ''%s: sbrk test failed to grow big address space; enough phys mem?'') [str s])),
     store (BIG - 1) 99,
     via (sbrk 0) (\<lambda>a. steps [
       via (sbrk (- 4096)) (\<lambda>c. check (c \<noteq> - 1) (line ''%s: sbrk could not deallocate'') [str s]),
       via (sbrk 0) (\<lambda>c. check (c = a - 4096) (line ''%s: sbrk deallocation produced wrong address, a %p c %p'') [str s, num a, num c])]),
     via (sbrk 0) (\<lambda>a. via (sbrk 4096) (\<lambda>c.
       let bad = fails (line ''%s: sbrk re-allocation failed, a %p c %p'') [str s, num a, num c] in
       if c \<noteq> a then bad else via (sbrk 0) (\<lambda>t. if t \<noteq> a + 4096 then bad else pass))),
     via (load (BIG - 1)) (\<lambda>v.
       check (v \<noteq> 99) (line (''%s: sbrk de-allocation didn'' @ CHR 0x27 # ''t really deallocate'')) [str s]),
     via (sbrk 0) (\<lambda>a. via (sbrk 0) (\<lambda>t. via (sbrk (i32 (- (t - oldbrk)))) (\<lambda>c.
       check (c = a) (line ''%s: sbrk downsize failed, a %p c %p'') [str s, num a, num c])))])"

text \<open>Ten children that take much memory and report through a pipe; \<open>sc\<close> is the byte they report, \<open>sc0\<close> its value at the start.\<close>

abbreviation (input) sbrkfail_child :: "int \<Rightarrow> 'z uworld_scheme \<Rightarrow> ('a, 'z uworld_scheme) ures" where
  "sbrkfail_child q \<equiv>
     via (sbrk 0) (\<lambda>top. via (sbrk (i32 (BIG - top))) (\<lambda>a.
     via (quiet (Write q (if a = - 1 then B ''0'' else B ''1''))) (\<lambda>_.
     uwhile (\<lambda>_. via (call (Pause 1000)) (\<lambda>_. Ret (Inl ()))) ())))"

definition sbrkfail :: "byte \<Rightarrow> int \<Rightarrow> bytes \<Rightarrow> 'z uworld_scheme \<Rightarrow> (unit, 'z uworld_scheme) ures" where
  "sbrkfail sc0 x s = piped (line ''%s: pipe() failed'') [str s] (\<lambda>p q.
     via (ufold (\<lambda>_ (pids, sc, failed). via (call Fork) (\<lambda>pid.
            if pid = 0 then sbrkfail_child q
            else if pid \<noteq> - 1 then
              via (read p 1) (\<lambda>(n, bs).
                let sc = (case bs of [] \<Rightarrow> sc | c # _ \<Rightarrow> c) in Ret (pids @ [pid], sc, failed \<or> sc = of_char CHR ''0''))
            else Ret (pids @ [pid], sc, failed))) [0..<(10::nat)] ([], sc0, False)) (\<lambda>(pids, sc, failed). steps [
     if \<not> failed then prints (line ''%s: no allocation failed; allocate more?'') [str s] else pass,
     via (sbrk 4096) (\<lambda>c. steps [
       steps (map (\<lambda>pid. if pid = - 1 then pass else steps [quiet (Kill pid), waits (wait 0)]) pids),
       check (c \<noteq> - 1) (line ''%s: failed sbrk leaked memory'') [str s]]),
     forked (fails (line ''%s: fork failed'') [str s])
       (via (sbrk (10 * BIG)) (\<lambda>a.
          if a = - 1 then exit 0 else fails (line ''%s: allocate a lot of memory succeeded %d'') [str s, num (10 * BIG)]))
       (\<lambda>_. reap x (\<lambda>st. if st \<noteq> 0 then exit 1 else pass))]))"

definition sbrkarg :: "bytes \<Rightarrow> 'z uworld_scheme \<Rightarrow> (unit, 'z uworld_scheme) ures" where
  "sbrkarg s = steps [
     via (sbrk 4096) (\<lambda>a. via (call (Open (B ''sbrk'') (O_CREATE OR O_WRONLY))) (\<lambda>fd. steps [
       quiet (Unlink (B ''sbrk'')),
       check (fd \<ge> 0) (line ''%s: open sbrk failed'') [str s],
       must (Raw ''write'' [fd, a, 4096]) (\<lambda>n. n \<ge> 0) (line ''%s: write sbrk failed'') [str s],
       quiet (Close fd)])),
     via (sbrk 4096) (\<lambda>a. must (Raw ''pipe'' [a]) (\<lambda>n. n = 0) (line ''%s: pipe() failed'') [str s])]"

text \<open>The first child frees the memory its own code is in; what happens to it then is up to the kernel.\<close>

definition sbrkbugs :: "bytes \<Rightarrow> 'z uworld_scheme \<Rightarrow> (unit, 'z uworld_scheme) ures" where
  "sbrkbugs s =
     (let try = (\<lambda>child. forked (fails (line ''fork failed'') []) child (\<lambda>_. waits (wait 0))) in
      steps [
        try (via (sbrk 0) (\<lambda>p. let sz = i32 p in steps [sbrk_quiet (- sz), exit 0])),
        try (via (sbrk 0) (\<lambda>p. let sz = i32 p in steps [sbrk_quiet (- (sz - 3500)), exit 0])),
        try (via (sbrk 0) (\<lambda>p. steps [sbrk_quiet (10 * 4096 + 2048 - p), sbrk_quiet (- 10), exit 0])),
        exit 0])"

definition sbrklast :: "bytes \<Rightarrow> 'z uworld_scheme \<Rightarrow> (unit, 'z uworld_scheme) ures" where
  "sbrklast s = steps [
     via (sbrk 0) (\<lambda>top. if top mod 4096 \<noteq> 0 then sbrk_quiet (4096 - top mod 4096) else pass),
     sbrk_quiet 4096, sbrk_quiet 10, sbrk_quiet (- 20),
     via (sbrk 0) (\<lambda>top. let p = top - 64 in steps [
       store p 120, store (p + 1) 0,
       via (call (Raw ''open'' [p, uint CRW])) (\<lambda>fd. steps [quiet (Raw ''write'' [fd, p, 1]), quiet (Close fd)]),
       via (call (Raw ''open'' [p, uint O_RDWR])) (\<lambda>fd. steps [store p 0, waits (call (Raw ''read'' [fd, p, 1]))]),
       via (load p) (\<lambda>c. if c \<noteq> 120 then exit 1 else pass)])]"

definition sbrk8000 :: "bytes \<Rightarrow> 'z uworld_scheme \<Rightarrow> (unit, 'z uworld_scheme) ures" where
  "sbrk8000 s = steps [
     sbrk_quiet 0x80000004,
     via (sbrk 0) (\<lambda>top. via (load (top - 1)) (\<lambda>v. store (top - 1) ((v + 1) mod 256)))]"

section \<open>Lazy allocation\<close>

abbreviation (input) REGION_SZ :: int where "REGION_SZ \<equiv> 1024 * 1024 * 1024"

text \<open>One address every \<open>step\<close> bytes of the region, from its second page on.\<close>

abbreviation (input) region_addrs :: "int \<Rightarrow> int \<Rightarrow> int list" where
  "region_addrs prev step \<equiv> map (\<lambda>k. prev + 4096 + step * k) [0..(REGION_SZ - 4096 - 1) div step]"

definition lazy_alloc :: "bytes \<Rightarrow> 'z uworld_scheme \<Rightarrow> (unit, 'z uworld_scheme) ures" where
  "lazy_alloc s = via (sbrklazy REGION_SZ) (\<lambda>prev. if prev = - 1 then fails (line ''sbrklazy() failed'') [] else steps [
     steps (map (\<lambda>i. store i i) (region_addrs prev (64 * 4096))),
     steps (map (\<lambda>i. via (load i) (\<lambda>v. check (v = i) (line ''failed to read value from memory'') [])) (region_addrs prev (64 * 4096))),
     exit 0])"

definition lazy_unmap :: "int \<Rightarrow> bytes \<Rightarrow> 'z uworld_scheme \<Rightarrow> (unit, 'z uworld_scheme) ures" where
  "lazy_unmap x s = via (sbrklazy REGION_SZ) (\<lambda>prev. if prev = - 1 then fails (line ''sbrklazy() failed'') [] else steps [
     steps (map (\<lambda>i. store i i) (region_addrs prev (4096 * 4096))),
     steps (map (\<lambda>i. forked (fails (line ''error forking'') [])
       (steps [quiet (Sbrk (- REGION_SZ) SBRK_LAZY), store i i, exit 0])
       (\<lambda>_. reap x (\<lambda>st. check (st \<noteq> 0) (line ''memory not unmapped'') []))) (region_addrs prev (4096 * 4096))),
     exit 0])"

definition lazy_copy :: "bytes \<Rightarrow> 'z uworld_scheme \<Rightarrow> (unit, 'z uworld_scheme) ures" where
  "lazy_copy s = steps [
     via (sbrk 0) (\<lambda>p. steps [quiet (Sbrk (4 * 4096) SBRK_LAZY), quiet (Raw ''open'' [p + 8192, 0])]),
     via (sbrk 0) (\<lambda>xx. via (sbrk (i32 (- (xx + 1)))) (\<lambda>ret.
       check (ret = xx) (line ''sbrk(sbrk(0)+1) returned %p, not old sz'') [num ret])),
     steps (map (\<lambda>a. steps [
       got (Open (B ''README'') 0) (\<lambda>fd. fd \<ge> 0) (line ''cannot open README'') [] (\<lambda>fd. steps [
         must (Raw ''read'' [fd, a, 512]) (\<lambda>n. n < 0) (line ''read succeeded'') [], quiet (Close fd)]),
       got (Open (B ''junk'') (O_CREATE OR O_RDWR OR O_TRUNC)) (\<lambda>fd. fd \<ge> 0) (line ''cannot open junk'') [] (\<lambda>fd. steps [
         must (Raw ''write'' [fd, a, 512]) (\<lambda>n. n < 0) (line ''write succeeded'') [], quiet (Close fd)])])
       [0x3fffffc000, 0x3fffffd000, 0x3fffffe000, 0x3ffffff000, 0x4000000000, 0x8000000000]),
     exit 0]"

text \<open>
  The checks \<^verbatim>\<open>p < 0\<close> compare a pointer with the null pointer and are never true; a failing \<^verbatim>\<open>sbrklazy\<close> of the loop goes unnoticed. \<open>p\<close> is read as 64 bits
  without a sign where the code casts it.
\<close>

definition lazy_sbrk :: "bytes \<Rightarrow> 'z uworld_scheme \<Rightarrow> (unit, 'z uworld_scheme) ures" where
  "lazy_sbrk s =
     (let u = (\<lambda>p. p mod 2 ^ 64); last = uint (TRAPFRAME - PGSIZE) in
      via (sbrk 0) (\<lambda>p.
      via (uwhile (\<lambda>p.
             if u p < 2 ^ 38 - 2 ^ 30 then via (sbrklazy (2 ^ 30)) (\<lambda>_. via (sbrklazy 0) (\<lambda>p. Ret (Inl p)))
             else Ret (Inr p)) p) (\<lambda>p.
      let n = i32 (last - p) in steps [
        via (sbrklazy n) (\<lambda>q. check (q = p) (line ''sbrklazy(%d) returned %p, not expected %p'') [num n, num q, num p]),
        via (sbrk 4096) (\<lambda>p. steps [
          check (u p = last) (line ''sbrk(%d) returned %p, not expected TRAPFRAME-PGSIZE'') [num 4096, num p],
          store p 1,
          via (load (p + 1)) (\<lambda>v. check (v = 0) (line ''sbrk() returned non-zero-filled memory'') [])]),
        via (sbrk 1) (\<lambda>p. check (p = - 1) (line ''sbrk(1) returned %p, expected error'') [num p]),
        via (sbrklazy 1) (\<lambda>p. check (p = - 1) (line ''sbrklazy(1) returned %p, expected error'') [num p]),
        exit 0])))"

end
