(* ===== verification/UserTests.thy ===== *)
theory UserTests
  imports TestsSbrk
begin

text \<open>
  The driver of \<^verbatim>\<open>user/usertests.c\<close>: the tables of the tests, the process in which each of them runs, the count of free pages before and after,
  and the verdict. The answer to \<^verbatim>\<open>fork\<close> in \<open>run\<close> says whether the driver or the test is followed.
\<close>

section \<open>The tables\<close>

text \<open>
  What the tests find in memory they did not set: a status, a directory entry, a byte, a block, the bss, the stack pointer; and the bounds for the
  test that uses \<^verbatim>\<open>malloc\<close>.
\<close>

record unset =
  u_status :: int
  u_dirent :: bytes
  u_scratch :: byte
  u_block :: bytes
  u_bss :: bytes
  u_sp :: int
  u_steps :: nat
  u_blocks :: nat

type_synonym 'z utest = "(bytes \<Rightarrow> 'z uheap_scheme \<Rightarrow> (unit, 'z uheap_scheme) ures) \<times> bytes"

definition quicktests :: "unset \<Rightarrow> 'z utest list" where
  "quicktests u =
     (let x = u_status u in
      [(copyin_test, B ''copyin''), (copyout_test, B ''copyout''), (copyinstr1, B ''copyinstr1''), (copyinstr2, B ''copyinstr2''),
       (copyinstr3, B ''copyinstr3''), (rwsbrk, B ''rwsbrk''), (truncate1, B ''truncate1''), (truncate2, B ''truncate2''),
       (truncate3 x, B ''truncate3''), (openiputtest x, B ''openiput''), (exitiputtest x, B ''exitiput''), (iputtest, B ''iput''),
       (opentest, B ''opentest''), (writetest, B ''writetest''), (writebig, B ''writebig''), (createtest, B ''createtest''),
       (dirtest, B ''dirtest''), (exectest x, B ''exectest''), (pipe1 x, B ''pipe1''), (killstatus x, B ''killstatus''),
       (preempt, B ''preempt''), (exitwait x, B ''exitwait''), (reparent_test, B ''reparent''), (twochildren, B ''twochildren''),
       (forkfork x, B ''forkfork''), (forkforkfork, B ''forkforkfork''), (reparent2, B ''reparent2''),
       (mem_test (u_steps u) (u_blocks u) x, B ''mem''), (sharedfd x, B ''sharedfd''), (fourfiles x, B ''fourfiles''),
       (createdelete x, B ''createdelete''), (unlinkread, B ''unlinkread''), (linktest, B ''linktest''),
       (concreate x (u_dirent u), B ''concreate''), (linkunlink, B ''linkunlink''), (subdir, B ''subdir''), (bigwrite, B ''bigwrite''),
       (bigfile, B ''bigfile''), (fourteen, B ''fourteen''), (rmdot, B ''rmdot''), (dirfile, B ''dirfile''), (iref, B ''iref''),
       (forktest_test, B ''forktest''), (sbrkbasic x, B ''sbrkbasic''), (sbrkmuch, B ''sbrkmuch''), (kernmem x, B ''kernmem''),
       (MAXVAplus x, B ''MAXVAplus''), (sbrkfail (u_scratch u) x, B ''sbrkfail''), (sbrkarg, B ''sbrkarg''),
       (validatetest, B ''validatetest''), (bsstest (u_bss u), B ''bsstest''), (bigargtest x, B ''bigargtest''),
       (argptest, B ''argptest''), (stacktest (u_sp u) x, B ''stacktest''), (nowrite x, B ''nowrite''), (pgbug, B ''pgbug''),
       (sbrkbugs, B ''sbrkbugs''), (sbrklast, B ''sbrklast''), (sbrk8000, B ''sbrk8000''), (badarg, B ''badarg''),
       (lazy_alloc, B ''lazy_alloc''), (lazy_unmap x, B ''lazy_unmap''), (lazy_copy, B ''lazy_copy''), (lazy_sbrk, B ''lazy_sbrk'')])"

definition slowtests :: "unset \<Rightarrow> 'z utest list" where
  "slowtests u =
     [(bigdir, B ''bigdir''), (manywrites, B ''manywrites''), (badwrite, B ''badwrite''), (execout, B ''execout''),
      (diskfull (u_block u), B ''diskfull''), (outofinodes, B ''outofinodes'')]"

section \<open>The driver\<close>

definition run :: "int \<Rightarrow> (bytes \<Rightarrow> 'z uheap_scheme \<Rightarrow> (unit, 'z uheap_scheme) ures) \<Rightarrow> bytes \<Rightarrow> 'z uheap_scheme \<Rightarrow> (bool, 'z uheap_scheme) ures" where
  "run x f s =
     via (prints ''test %s: '' [str s]) (\<lambda>_.
     forked (fails (line ''runtest: fork error'') [])
       (via (f s) (\<lambda>_. exit 0))
       (\<lambda>_. reap x (\<lambda>st. via (if st \<noteq> 0 then prints (line ''FAILED'') [] else prints (line ''OK'') []) (\<lambda>_. Ret (st = 0)))))"

fun runtests :: "int \<Rightarrow> 'z utest list \<Rightarrow> bytes option \<Rightarrow> int \<Rightarrow> int \<Rightarrow> 'z uheap_scheme \<Rightarrow> (int, 'z uheap_scheme) ures" where
  "runtests x [] justone continuous ntests w = Ret ntests w"
| "runtests x ((f, s) # ts) justone continuous ntests w =
     (if justone = None \<or> justone = Some s then
        ubnd (run x f s w) (\<lambda>ok.
          if \<not> ok \<and> continuous \<noteq> 2 then via (prints (line ''SOME TESTS FAILED'') []) (\<lambda>_. Ret (- 1))
          else runtests x ts justone continuous (ntests + 1))
      else runtests x ts justone continuous ntests w)"

definition countfree :: "'z uworld_scheme \<Rightarrow> (int, 'z uworld_scheme) ures" where
  "countfree =
     via (sbrk 0) (\<lambda>sz0.
     via (uwhile (\<lambda>n. via (sbrk 4096) (\<lambda>a. if a = - 1 then Ret (Inr n) else Ret (Inl (n + 1)))) 0) (\<lambda>n.
     via (sbrk 0) (\<lambda>top. via (sbrk_quiet (- (top - sz0))) (\<lambda>_. Ret n))))"

text \<open>One round of the driver. \<open>Inr\<close> is the value it returns, \<open>Inl\<close> says that there is another round.\<close>

definition drive_round :: "unset \<Rightarrow> bool \<Rightarrow> int \<Rightarrow> bytes option \<Rightarrow> 'z uheap_scheme \<Rightarrow> (unit + int, 'z uheap_scheme) ures" where
  "drive_round u quick continuous justone =
     via (prints (line ''usertests starting'') []) (\<lambda>_.
     via countfree (\<lambda>free0.
     via (runtests (u_status u) (quicktests u) justone continuous 0) (\<lambda>n.
     if n < 0 \<and> continuous \<noteq> 2 then Ret (Inr 1)
     else
       let ntests = (if n < 0 then 0 else n) in
       via (if quick then Ret (Some ntests)
            else
              via (if justone = None then prints (line ''usertests slow tests starting'') [] else pass) (\<lambda>_.
              via (runtests (u_status u) (slowtests u) justone continuous 0) (\<lambda>n.
              if n < 0 \<and> continuous \<noteq> 2 then Ret None else Ret (Some (if n < 0 then ntests else ntests + n))))) (\<lambda>r.
       case r of
         None \<Rightarrow> Ret (Inr 1)
       | Some ntests \<Rightarrow>
           via countfree (\<lambda>free1.
           via (if free1 < free0 then prints (line ''FAILED -- lost some free pages %d (out of %d)'') [num free1, num free0] else pass) (\<lambda>_.
           if free1 < free0 \<and> continuous \<noteq> 2 then Ret (Inr 1)
           else if justone \<noteq> None \<and> ntests = 0 then via (prints (line ''NO TESTS EXECUTED'') []) (\<lambda>_. Ret (Inr 1))
           else if continuous \<noteq> 0 then Ret (Inl ())
           else Ret (Inr 0)))))))"

definition drivetests :: "unset \<Rightarrow> bool \<Rightarrow> int \<Rightarrow> bytes option \<Rightarrow> 'z uheap_scheme \<Rightarrow> (int, 'z uheap_scheme) ures" where
  "drivetests u quick continuous justone = uwhile (\<lambda>_. drive_round u quick continuous justone) ()"

definition usertests_main :: "unset \<Rightarrow> bytes list \<Rightarrow> 'z uheap_scheme \<Rightarrow> (unit, 'z uheap_scheme) ures" where
  "usertests_main u argv =
     (let go = (\<lambda>quick continuous justone. via (drivetests u quick continuous justone) (\<lambda>r.
            if r \<noteq> 0 then exit 1 else steps [prints (line ''ALL TESTS PASSED'') [], exit 0]))
      in case argv of
        [_, a] \<Rightarrow>
          if a = B ''-q'' then go True 0 None
          else if a = B ''-c'' then go False 1 None
          else if a = B ''-C'' then go False 2 None
          else if take 1 a \<noteq> B ''-'' then go False 0 (Some a)
          else fails (line ''Usage: usertests [-c] [-C] [-q] [testname]'') []
      | _ \<Rightarrow> if length argv > 1 then fails (line ''Usage: usertests [-c] [-C] [-q] [testname]'') [] else go False 0 None)"

section \<open>The verdict\<close>

text \<open>The answers that the driver gets: for a count of free pages, and for the children of the tests.\<close>

definition page_answers :: "int \<Rightarrow> int list \<Rightarrow> int \<Rightarrow> answer list" where
  "page_answers sz as t = Num sz # map Num as @ [Num (- 1), Num t]"

definition child_answers :: "(int \<times> int) list \<Rightarrow> answer list" where
  "child_answers cs = concat (map (\<lambda>(p, st). [Num p, Reaped p st]) cs)"

lemma steps_answers [simp]:
  "prints fmt args w = Ret () (uprintf fmt args w)"
  "quiet r w = Ret () (tell r w)"
  by (simp_all add: prints_def quiet_def)

lemma count_loop:
  assumes "answers w = map Num as @ Num (- 1) # rest" "- 1 \<notin> set as"
  shows "\<exists>u. uwhile (\<lambda>n. via (sbrk 4096) (\<lambda>a. if a = - 1 then Ret (Inr n) else Ret (Inl (n + 1)))) n w = Ret (n + int (length as)) u
           \<and> answers u = rest"
  using assms
proof (induction as arbitrary: w n)
  case Nil
  then show ?case
    by (subst uwhile.simps) (simp add: via_def sbrk_def user_simps)
next
  case (Cons a as)
  let ?u = "(tell (Sbrk 4096 SBRK_EAGER) w)\<lparr>answers := map Num as @ Num (- 1) # rest\<rparr>"
  have "\<exists>u. uwhile (\<lambda>n. via (sbrk 4096) (\<lambda>a. if a = - 1 then Ret (Inr n) else Ret (Inl (n + 1)))) (n + 1) ?u
          = Ret (n + 1 + int (length as)) u \<and> answers u = rest"
    using Cons.prems by (intro Cons.IH) auto
  then show ?case
    using Cons.prems by (subst uwhile.simps) (simp add: via_def sbrk_def user_simps add.assoc add.commute add.left_commute)
qed

lemma countfree_counts:
  assumes "answers w = page_answers sz as t @ rest" "- 1 \<notin> set as"
  shows "\<exists>u. countfree w = Ret (int (length as)) u \<and> answers u = rest"
proof -
  let ?v = "(tell (Sbrk 0 SBRK_EAGER) w)\<lparr>answers := map Num as @ Num (- 1) # Num t # rest\<rparr>"
  obtain u where u: "uwhile (\<lambda>n. via (sbrk 4096) (\<lambda>a. if a = - 1 then Ret (Inr n) else Ret (Inl (n + 1)))) 0 ?v = Ret (0 + int (length as)) u"
      "answers u = Num t # rest"
    using count_loop[of ?v as "Num t # rest" 0] assms(2) by auto
  show ?thesis
    using u assms(1) by (simp add: countfree_def via_def [of "sbrk 0"] via_def [of "uwhile _ _"] via_def [of "quiet _"]
        sbrk_def page_answers_def user_simps)
qed

lemma run_driver:
  assumes "answers w = Num p # Reaped p st # rest" "p > 0"
  shows "\<exists>u. run x f s w = Ret (st = 0) u \<and> answers u = rest"
  using assms by (simp add: run_def via_def forked_def reap_def user_simps)

lemma runtests_driver:
  assumes "answers w = child_answers cs @ rest" "length cs = length ts" "\<forall>c\<in>set cs. fst c > 0" "continuous \<noteq> 2"
  shows "if \<forall>c\<in>set cs. snd c = 0 then \<exists>u. runtests x ts None continuous n w = Ret (n + int (length ts)) u \<and> answers u = rest
         else \<exists>u. runtests x ts None continuous n w = Ret (- 1) u"
  using assms
proof (induction ts arbitrary: cs w n)
  case (Cons t ts)
  obtain f s where t: "t = (f, s)" by (cases t)
  obtain p st cs' where cs: "cs = (p, st) # cs'"
    using Cons.prems(2) by (cases cs) auto
  obtain u where u: "run x f s w = Ret (st = 0) u" "answers u = child_answers cs' @ rest"
    using run_driver[of w p st "child_answers cs' @ rest" x f s] Cons.prems by (auto simp: cs child_answers_def)
  show ?case
  proof (cases "st = 0")
    case True
    have "if \<forall>c\<in>set cs'. snd c = 0 then \<exists>v. runtests x ts None continuous (n + 1) u = Ret (n + 1 + int (length ts)) v \<and> answers v = rest
          else \<exists>v. runtests x ts None continuous (n + 1) u = Ret (- 1) v"
      using Cons.prems u(2) by (intro Cons.IH) (auto simp: cs)
    then show ?thesis
      using u True by (auto simp: t cs add.assoc split: if_splits)
  next
    case False
    then show ?thesis
      using u Cons.prems by (simp add: t cs via_def)
  qed
qed (simp add: child_answers_def)

lemma runtests_pass:
  assumes "answers w = child_answers cs @ rest" "length cs = length ts" "\<forall>c\<in>set cs. fst c > 0" "\<forall>c\<in>set cs. snd c = 0"
  shows "\<exists>u. runtests x ts None 0 0 w = Ret (int (length ts)) u \<and> answers u = rest"
  using runtests_driver[OF assms(1-3), of 0 x 0] assms(4) by simp

lemma runtests_fail:
  assumes "answers w = child_answers cs @ rest" "length cs = length ts" "\<forall>c\<in>set cs. fst c > 0" "\<not> (\<forall>c\<in>set cs. snd c = 0)"
  shows "\<exists>u. runtests x ts None 0 0 w = Ret (- 1) u"
proof -
  have "if \<forall>c\<in>set cs. snd c = 0 then \<exists>u. runtests x ts None 0 0 w = Ret (0 + int (length ts)) u \<and> answers u = rest
        else \<exists>u. runtests x ts None 0 0 w = Ret (- 1) u"
    by (rule runtests_driver[OF assms(1-3)]) simp
  then show ?thesis by (simp only: if_not_P[OF assms(4)])
qed

lemma tests_counted: "length (quicktests u) = 64" "length (slowtests u) = 6"
  by (simp_all add: quicktests_def slowtests_def Let_def)

lemma drive_round_verdict:
  assumes "answers w = page_answers sz as t @ child_answers qs @ child_answers ss @ page_answers sz' as' t' @ rest"
    and len: "length qs = 64" "length ss = 6" and par: "\<forall>c\<in>set (qs @ ss). fst c > 0" and nofail: "- 1 \<notin> set as" "- 1 \<notin> set as'"
  shows "\<exists>v. drive_round u False 0 None w =
           Ret (Inr (if (\<forall>c\<in>set (qs @ ss). snd c = 0) \<and> length as \<le> length as' then 0 else 1)) v"
proof -
  let ?w = "uprintf (line ''usertests starting'') [] w"
  obtain a where a: "countfree ?w = Ret (int (length as)) a" "answers a = child_answers qs @ child_answers ss @ page_answers sz' as' t' @ rest"
    using countfree_counts[of ?w sz as t] assms(1) nofail by auto
  have q: "length qs = length (quicktests u)" "\<forall>c\<in>set qs. fst c > 0" and s: "length ss = length (slowtests u)" "\<forall>c\<in>set ss. fst c > 0"
    using len par by (auto simp: tests_counted)
  show ?thesis
  proof (cases "\<forall>c\<in>set qs. snd c = 0")
    case False
    then obtain v where "runtests (u_status u) (quicktests u) None 0 0 a = Ret (- 1) v"
      using runtests_fail[OF a(2) q] by blast
    then show ?thesis
      using a False by (auto simp: drive_round_def via_def)
  next
    case q0: True
    obtain b where b: "runtests (u_status u) (quicktests u) None 0 0 a = Ret 64 b" "answers b = child_answers ss @ page_answers sz' as' t' @ rest"
      using runtests_pass[OF a(2) q q0, of "u_status u"] by (auto simp: tests_counted)
    let ?b = "uprintf (line ''usertests slow tests starting'') [] b"
    have b': "answers ?b = child_answers ss @ page_answers sz' as' t' @ rest"
      using b by simp
    show ?thesis
    proof (cases "\<forall>c\<in>set ss. snd c = 0")
      case False
      then obtain v where "runtests (u_status u) (slowtests u) None 0 0 ?b = Ret (- 1) v"
        using runtests_fail[OF b' s] by blast
      then show ?thesis
        using a b False by (auto simp: drive_round_def via_def)
    next
      case True
      obtain c where c: "runtests (u_status u) (slowtests u) None 0 0 ?b = Ret 6 c" "answers c = page_answers sz' as' t' @ rest"
        using runtests_pass[OF b' s True, of "u_status u"] by (auto simp: tests_counted)
      obtain d where "countfree c = Ret (int (length as')) d"
        using countfree_counts[OF c(2)] nofail by auto
      then show ?thesis
        using a b c q0 True by (auto simp: drive_round_def via_def pass_def)
    qed
  qed
qed



text \<open>
  The chunks that the reader of \<^verbatim>\<open>pipe1\<close> gets: none is empty, and none is longer than what it asks for, which doubles from call to call.
\<close>

fun chunks_fit :: "nat \<Rightarrow> bytes list \<Rightarrow> bool" where
  "chunks_fit cc [] \<longleftrightarrow> True"
| "chunks_fit cc (c # cs) \<longleftrightarrow> c \<noteq> [] \<and> length c \<le> cc \<and> chunks_fit (min (cc * 2) BUFSZ) cs"

definition in_sequence :: "nat \<Rightarrow> bytes \<Rightarrow> bool" where
  "in_sequence i bs \<longleftrightarrow> bs = map of_nat [i..<i + length bs]"

lemma in_sequence_append: "in_sequence i (bs @ cs) \<longleftrightarrow> in_sequence i bs \<and> in_sequence (i + length bs) cs"
proof -
  have "[i..<i + length (bs @ cs)] = [i..<i + length bs] @ [i + length bs..<i + length bs + length cs]"
    using upt_add_eq_append[of i "i + length bs" "length cs"] by (simp add: add.assoc)
  then show ?thesis
    by (simp add: in_sequence_def append_eq_append_conv)
qed

lemma pipe1_loop:
  assumes "answers w = map Data cs @ Data [] # rest" "chunks_fit cc cs"
  shows "\<exists>u. uwhile (pipe1_round s p) (i, cc) w =
               Ret (if in_sequence i (concat cs) then Some (i + length (concat cs)) else None) u \<and>
             (in_sequence i (concat cs) \<longrightarrow> answers u = rest)"
  using assms
proof (induction cs arbitrary: w cc i)
  case Nil
  then show ?case
    by (subst uwhile.simps) (simp add: in_sequence_def pipe1_round_def via_def user_simps)
next
  case (Cons c cs)
  let ?u = "(tell (Read p cc) w)\<lparr>answers := map Data cs @ Data [] # rest\<rparr>"
  have c: "c \<noteq> []" "take cc c = c"
    using Cons.prems by simp_all
  show ?case
  proof (cases "in_sequence i c")
    case True
    have "\<exists>u. uwhile (pipe1_round s p) (i + length c, min (cc * 2) BUFSZ) ?u =
                Ret (if in_sequence (i + length c) (concat cs) then Some (i + length c + length (concat cs)) else None) u \<and>
              (in_sequence (i + length c) (concat cs) \<longrightarrow> answers u = rest)"
      using Cons.prems by (intro Cons.IH) simp_all
    then have tail: "\<exists>u. uwhile (pipe1_round s p) (i + length c, min (cc * 2) BUFSZ) ?u =
                Ret (if in_sequence i (concat (c # cs)) then Some (i + length (concat (c # cs))) else None) u \<and>
              (in_sequence i (concat (c # cs)) \<longrightarrow> answers u = rest)"
      using True in_sequence_append[of i c "concat cs"] by (simp only: concat.simps length_append simp_thms add.assoc)
    have "pipe1_round s p (i, cc) w = Ret (Inl (i + length c, min (cc * 2) BUFSZ)) ?u"
      using Cons.prems c True by (simp add: in_sequence_def pipe1_round_def via_def user_simps)
    then show ?thesis
      using tail Cons.prems by (subst uwhile.simps) simp
  next
    case False
    then have "\<not> in_sequence i (concat (c # cs))"
      using in_sequence_append[of i c "concat cs"] by simp
    moreover have "\<exists>u. pipe1_round s p (i, cc) w = Ret (Inr None) u"
      using Cons.prems c False by (simp add: in_sequence_def pipe1_round_def via_def user_simps)
    ultimately show ?thesis
      by (subst uwhile.simps) auto
  qed
qed

text \<open>
  C36. \<^verbatim>\<open>pipe1\<close> on whatever chunks the pipe hands out: if the bytes are those that were written, its process exits with the status of the writer, or
  with 1 if some are missing. If a byte is wrong it prints a message and returns, so its process exits with 0 and the driver reports the test as
  passed.
\<close>

theorem pipe1_passes_on_wrong_bytes:
  assumes "answers w = Num 0 # Fds p q # Num pid # map Data cs @ Data [] # Reaped c st # rest" "pid > 0" "chunks_fit 1 cs"
  shows "\<exists>v. run x (pipe1 y) s w =
           Exited (if concat cs = map of_nat [0..<length (concat cs)] then if length (concat cs) = 5 * 1033 then st else 1 else 0) v"
proof -
  let ?w = "uprintf ''test %s: '' [str s] w"
  let ?a = "(tell Fork ?w)\<lparr>answers := Fds p q # Num pid # map Data cs @ Data [] # Reaped c st # rest\<rparr>"
  let ?b = "(tell Pipe ?a)\<lparr>answers := Num pid # map Data cs @ Data [] # Reaped c st # rest\<rparr>"
  let ?c = "tell (Close q) ((tell Fork ?b)\<lparr>answers := map Data cs @ Data [] # Reaped c st # rest\<rparr>)"
  obtain u where u: "uwhile (pipe1_round s p) (0, 1) ?c = Ret (if in_sequence 0 (concat cs) then Some (0 + length (concat cs)) else None) u"
      "in_sequence 0 (concat cs) \<longrightarrow> answers u = Reaped c st # rest"
    using pipe1_loop[of ?c cs "Reaped c st # rest" 1 s p 0] assms(3) by auto
  show ?thesis
    using assms(1,2) u unfolding in_sequence_def
    by (auto simp: run_def pipe1_def via_def forked_def piped_def reap_def check_def fails_def pass_def user_simps simp del: length_concat)
qed

theorem pipe1_passes_on_wrong_bytes_witness:
  "\<exists>v. run 0 (pipe1 0) (B ''pipe1'')
         \<lparr>answers = Num 0 # Fds 3 4 # Num 7 # map Data [[0], [1, 9]] @ Data [] # Reaped 7 0 # [], trace = [], hptr = (\<lambda>_. 0), hsize = (\<lambda>_. 0),
          freep = None, base_at = 1\<rparr> = Exited 0 v"
  using pipe1_passes_on_wrong_bytes[of "\<lparr>answers = Num 0 # Fds 3 4 # Num 7 # map Data [[0], [1, 9]] @ Data [] # Reaped 7 0 # [], trace = [],
          hptr = (\<lambda>_. 0), hsize = (\<lambda>_. 0), freep = None, base_at = 1\<rparr>" 3 4 7 "[[0], [1, 9]]" 7 0 "[]" 0 0 "B ''pipe1''"]
  by (simp add: MAXOPBLOCKS_def BSIZE_def upt_rec)

end
