(* ===== verification/Spec2Isabelle.thy ===== *)
theory Spec2Isabelle
  imports CString Energy UserMem LogSpace Trap Start Grep ShellPrint EnergyDemos StressTests MkfsImage UserTests
begin

text \<open>
  Verification of GreenOS, a Unix-like teaching kernel for RISC-V multiprocessors (an xv6
  derivative) with an energy-aware scheduler, per-process energy accounting, an idle governor and
  energy budgets. The sources are under \<^verbatim>\<open>src/kernel\<close>, with the user library and programs under \<^verbatim>\<open>src/user\<close>.

  \<^bold>\<open>The program.\<close> Harts start in \<^verbatim>\<open>start.c\<close>, set up memory, devices and the first process in \<^verbatim>\<open>main.c\<close> and enter the
  scheduler of \<^verbatim>\<open>proc.c\<close>. Processes trap into \<^verbatim>\<open>trap.c\<close>, which runs a system call (\<^verbatim>\<open>syscall.c\<close>, \<^verbatim>\<open>sysproc.c\<close>,
  \<^verbatim>\<open>sysfile.c\<close>, \<^verbatim>\<open>exec.c\<close>), a device interrupt (\<^verbatim>\<open>plic.c\<close>, \<^verbatim>\<open>uart.c\<close>, \<^verbatim>\<open>virtio_disk.c\<close>), the timer (energy accounting and
  budgets) or a lazy page allocation (\<^verbatim>\<open>vm.c\<close>). Files go through \<^verbatim>\<open>file.c\<close> to pipes, the console or the file system
  (\<^verbatim>\<open>fs.c\<close>), whose transactions (\<^verbatim>\<open>log.c\<close>) use the buffer cache (\<^verbatim>\<open>bio.c\<close>) and the disk driver.

  \<^bold>\<open>The state.\<close> The globals of the C files are the fields of one record, built up in the order of the layers, so that an
  operation is stated over the part it uses: \<open>lockstate\<close> (CPUs and spin locks), \<open>kproc\<close> (process table, governor, ticks,
  trapframes), \<open>kvm\<close> (physical memory, free list, page-table registers), \<open>kslp\<close> (sleep locks), \<open>kbio\<close> (buffers, disk),
  \<open>klog\<close>, \<open>kfs\<close> (superblock, inode table), \<open>kcons\<close> (console ring, UART), \<open>kfile\<close> (file table, pipes), \<open>klife\<close> (linker
  symbols), \<open>kvirtio\<close> (queues of the disk) and \<open>ktrap\<close> (supervisor registers, PLIC). Processes, buffers, inodes and files
  are indices into their tables; a hart id is an explicit argument. C \<^verbatim>\<open>int\<close>s are integers wrapped by \<open>i32\<close>, unsigned types
  are machine words. An operation returns \<open>Ok\<close> with a value and a state, \<open>Panic\<close> with the kernel's message, \<open>Sleep\<close>
  with the channel it blocks on and the state it leaves, or \<open>Spin\<close> when it busy-waits for ever. A null process pointer is
  the fault that \<^verbatim>\<open>kerneltrap\<close> panics on.

  \<^bold>\<open>The theories.\<close>
  \<^item> \<open>Prelude\<close>: types, results, loops, the parameters of \<^verbatim>\<open>param.h\<close>. \<open>Riscv\<close>: page and address macros of \<^verbatim>\<open>riscv.h\<close> and
    \<^verbatim>\<open>memlayout.h\<close>. \<open>Bytes\<close>: little-endian words in memory. \<open>Ring\<close>: circular buffers with free-running counters, a locale
    interpreted for the console and the pipes.
  \<^item> \<open>CString\<close> (\<^verbatim>\<open>string.c\<close>, \<^verbatim>\<open>ulib.c\<close>): copying for every overlap, termination of copied strings.
  \<^item> \<open>Spinlock\<close>: \<^verbatim>\<open>spinlock.c\<close>, with a step relation for all interleavings and mutual exclusion.
  \<^item> \<open>Proc\<close>, \<open>Energy\<close>: scheduler, sleep and wakeup, kill, energy scores and priorities, timer interrupt, energy system
    calls; what the scheduler picks, that the lock hand-off never trips a check, budgets, and the formulas in range.
  \<^item> \<open>Kalloc\<close>, \<open>Vm\<close>, \<open>PageTable\<close>, \<open>UserMem\<close>: page allocator on a free list that runs through memory, Sv39 page tables as
    trees in memory, copies to and from user space, page faults.
  \<^item> \<open>Sleeplock\<close>, \<open>Bio\<close>, \<open>Bcache\<close>: sleep locks, the buffer cache as a linked list, and its refinement of a block store; the
    locale \<open>block_cache\<close> is the interface the log uses.
  \<^item> \<open>Log\<close>, \<open>LogSpace\<close>: transactions; crash safety at every disk write, and that reservations suffice.
  \<^item> \<open>FsLayout\<close>, \<open>Inode\<close>, \<open>Dir\<close>: on-disk structures and their encoding, block and inode operations, directories and paths.
  \<^item> \<open>Printf\<close>, \<open>Console\<close>: both formatters, the line discipline and the UART driver; the console refines a line editor.
  \<^item> \<open>File\<close>: file table and pipes; a pipe carries bytes in order between two address spaces.
  \<^item> \<open>Lifecycle\<close>, \<open>Sysfile\<close>, \<open>Exec\<close>: process creation to exit, the file system calls and program loading.
  \<^item> \<open>Virtio\<close>: the disk driver; it refines the one-step transfer that the cache is verified with.
  \<^item> \<open>Trap\<close>, \<open>Start\<close>: traps, system-call table, interrupt routing, start-up.
  \<^item> \<open>UserSys\<close>: user programs as functions of the answers to their system calls, with the rest of \<^verbatim>\<open>ulib.c\<close> and \<^verbatim>\<open>printf.c\<close>.
  \<^item> \<open>Coreutils\<close>: the small programs and \<^verbatim>\<open>init.c\<close>; \<open>wc\<close> counts whatever the sizes of the reads, \<open>init\<close> keeps a shell running.
  \<^item> \<open>Shell\<close>, \<open>ShellPrint\<close>: \<^verbatim>\<open>sh.c\<close>; the parser ends, cuts out whole words, and reads back every command that can be printed.
  \<^item> \<open>Grep\<close>: the matcher decides its pattern language, and the filter prints the lines that match.
  \<^item> \<open>EnergyDemos\<close>, \<open>StressTests\<close>: the programs that show the energy features, with what they print, and the programs that load the
    kernel, with the random numbers of \<^verbatim>\<open>grind.c\<close>.
  \<^item> \<open>Umalloc\<close>: \<^verbatim>\<open>umalloc.c\<close>; the circular free list stays in address order with neighbours merged, \<open>malloc\<close> takes its block from the free
    space and \<open>free\<close> puts it back.
  \<^item> \<open>Mkfs\<close>, \<open>MkfsImage\<close>: \<^verbatim>\<open>mkfs.c\<close> on an image of blocks; if the host does not fail and the files fit, the image holds the super
    block, the root directory, every file with its contents, and the bitmap of the blocks in use.
  \<^item> \<open>TestLib\<close>: the steps that the tests of \<^verbatim>\<open>usertests.c\<close> are written with. \<open>TestsFile\<close>, \<open>TestsShare\<close>, \<open>TestsDir\<close>, \<open>TestsSlow\<close>: the tests
    of files, of files shared by processes, of directories and large files, and the slow ones. \<open>TestsProc\<close>, \<open>TestsMem\<close>, \<open>TestsSbrk\<close>: the
    tests of processes and pipes, of wild pointers and forbidden memory, and of \<^verbatim>\<open>sbrk\<close>. \<open>UserTests\<close>: the tables and the driver, with its
    verdict, and a test that passes on wrong data.
  \<^bold>\<open>Bounds.\<close> Loops with a bound in the code are structural recursions. \<open>bfind\<close> and \<open>brecycle\<close> walk the buffer list with fuel
  \<open>NBUF + 1\<close>, enough for every list that the invariant allows; \<open>freewalk\<close> has the depth of a page table, three; \<open>free_chain\<close>
  has \<open>NUM + 1\<close> rounds, and it is proved that it never needs more.
  The parser of the shell has fuel \<open>4 * n + 4\<close> for a line of \<open>n\<close> bytes, proved to be enough. A user program that waits for the kernel uses up
  one answer per call, so its loops end on every list of answers; the loop of \<^verbatim>\<open>grind.c\<close>, which need not wait, is cut off after a
  given number of rounds. \<open>malloc\<close> and \<open>free\<close> follow links with fuel: for a list of \<open>n\<close> free blocks \<open>3 * n + 2\<close> and
  \<open>2 * n\<close> links are proved to be enough. A round of a loop of \<^verbatim>\<open>usertests.c\<close> that uses up no answer is the end of the run, since
  the code would repeat it for ever.

  \<^bold>\<open>Abstractions.\<close> A critical section of a spin lock is one step outside \<open>Spinlock\<close>, \<open>Proc\<close> and \<open>kexit\<close>, where the locks
  themselves matter. \<open>Sleep\<close> ends an operation: what happens after the wakeup is the loop's test again. Trapframes and pipes
  are structures in their pages rather than bytes of physical memory. A transfer of the buffer cache is one step; \<open>Virtio\<close>
  shows that the driver with a conforming device has that effect. Registers of devices are traces of writes, and what they
  answer is an argument.

  \<^bold>\<open>Not modelled.\<close> The assembly files (\<^verbatim>\<open>entry.S\<close>, \<^verbatim>\<open>kernelvec.S\<close>, \<^verbatim>\<open>swtch.S\<close>, \<^verbatim>\<open>trampoline.S\<close>) and the inline assembly of
  \<^verbatim>\<open>riscv.h\<close>: register accessors are state updates. Linker scripts, the Makefile and \<^verbatim>\<open>usys.pl\<close>, which generates the system-call
  stubs; and \<^verbatim>\<open>test-xv6.py\<close>, a script of the build host that runs the system in an emulator. The TLB, the memory model of the hardware (fences are no-ops) and time.
\<close>

end
